(* ===== verification/Prelude.thy ===== *)
theory Prelude
  imports Main "HOL-Library.Word"
begin

text \<open>
  Shared vocabulary of the development.

  Rust integers of a fixed width appear in two forms.  Registers, colours, page flags and
  everything the code shifts or masks are words (\<open>u8\<close>, \<open>u16\<close>, \<open>u32\<close>, \<open>u64\<close>).  Sizes, counters
  and addresses on which the code only does arithmetic are natural numbers together with the
  checked operations below: the kernel and the user programs are built with the profile
  \<open>opt-dev\<close>, which inherits \<open>dev\<close> and so has overflow checks on, and an operation whose
  mathematical result leaves the range of \<open>u64\<close> / \<open>usize\<close> panics.

  A panic is a value: a fallible operation has the result type \<open>'a res\<close>, and \<open>bnd\<close> is
  sequential composition, which stops at the first panic.  Dereferencing a raw pointer at which
  no value of the expected type was written is not defined by the language; it is the value
  \<open>UndefinedBehaviour\<close>, so that a proof that an operation returns also shows that it does not
  get there.
\<close>

unbundle bit_operations_syntax

type_synonym u8 = "8 word"
type_synonym u16 = "16 word"
type_synonym u32 = "32 word"
type_synonym u64 = "64 word"

datatype panic =
    ArithOverflow
  | DivByZero
  | IndexOut
  | AssertFail
  | UnwrapNone
  | Explicit string
  | UndefinedBehaviour

type_synonym 'a res = "panic + 'a"

named_theorems res_simps \<open>facts that decide when a composed operation returns\<close>

subsection \<open>Sequential composition\<close>

definition bnd :: "'e + 'a \<Rightarrow> ('a \<Rightarrow> 'e + 'b) \<Rightarrow> 'e + 'b" where
  "bnd m f = (case m of Inl e \<Rightarrow> Inl e | Inr a \<Rightarrow> f a)"

lemma bnd_Inl [simp]: "bnd (Inl e) f = Inl e"
  by (simp add: bnd_def)

lemma bnd_Inr [simp]: "bnd (Inr a) f = f a"
  by (simp add: bnd_def)

lemma bnd_eq_Inr [res_simps]: "bnd m f = Inr b \<longleftrightarrow> (\<exists>a. m = Inr a \<and> f a = Inr b)"
  by (cases m) simp_all

lemma bnd_assoc: "bnd (bnd m f) g = bnd m (\<lambda>a. bnd (f a) g)"
  by (cases m) simp_all

lemma bnd_cong [fundef_cong]:
  "m = m' \<Longrightarrow> (\<And>a. m' = Inr a \<Longrightarrow> f a = g a) \<Longrightarrow> bnd m f = bnd m' g"
  by (cases m') simp_all

subsection \<open>Checked machine arithmetic\<close>

definition cadd :: "nat \<Rightarrow> nat \<Rightarrow> nat res" where
  "cadd a b = (if a + b < 2 ^ 64 then Inr (a + b) else Inl ArithOverflow)"

definition csub :: "nat \<Rightarrow> nat \<Rightarrow> nat res" where
  "csub a b = (if b \<le> a then Inr (a - b) else Inl ArithOverflow)"

definition cmul :: "nat \<Rightarrow> nat \<Rightarrow> nat res" where
  "cmul a b = (if a * b < 2 ^ 64 then Inr (a * b) else Inl ArithOverflow)"

definition cdiv :: "nat \<Rightarrow> nat \<Rightarrow> nat res" where
  "cdiv a b = (if b = 0 then Inl DivByZero else Inr (a div b))"

lemma cadd_eq_Inr [res_simps]: "cadd a b = Inr c \<longleftrightarrow> a + b < 2 ^ 64 \<and> c = a + b"
  by (auto simp: cadd_def)

lemma csub_eq_Inr [res_simps]: "csub a b = Inr c \<longleftrightarrow> b \<le> a \<and> c = a - b"
  by (auto simp: csub_def)

lemma cmul_eq_Inr [res_simps]: "cmul a b = Inr c \<longleftrightarrow> a * b < 2 ^ 64 \<and> c = a * b"
  by (auto simp: cmul_def)

lemma cdiv_eq_Inr [res_simps]: "cdiv a b = Inr c \<longleftrightarrow> b \<noteq> 0 \<and> c = a div b"
  by (auto simp: cdiv_def)

lemma cadd_ok [simp]: "a + b < 2 ^ 64 \<Longrightarrow> cadd a b = Inr (a + b)"
  by (simp add: cadd_def)

lemma csub_ok [simp]: "b \<le> a \<Longrightarrow> csub a b = Inr (a - b)"
  by (simp add: csub_def)

lemma cmul_ok [simp]: "a * b < 2 ^ 64 \<Longrightarrow> cmul a b = Inr (a * b)"
  by (simp add: cmul_def)

lemma cdiv_ok [simp]: "b \<noteq> 0 \<Longrightarrow> cdiv a b = Inr (a div b)"
  by (simp add: cdiv_def)

subsection \<open>Assertions, unwrapping, indexing\<close>

text \<open>The macro \<open>ass!\<close> of macros.rs panics when its condition is false.\<close>

definition ass :: "bool \<Rightarrow> unit res" where
  "ass b = (if b then Inr () else Inl AssertFail)"

definition unwrap :: "'a option \<Rightarrow> 'a res" where
  "unwrap x = (case x of None \<Rightarrow> Inl UnwrapNone | Some a \<Rightarrow> Inr a)"

definition idx :: "'a list \<Rightarrow> nat \<Rightarrow> 'a res" where
  "idx xs i = (if i < length xs then Inr (xs ! i) else Inl IndexOut)"

lemma ass_True [simp]: "b \<Longrightarrow> ass b = Inr ()"
  by (simp add: ass_def)

lemma ass_False [simp]: "\<not> b \<Longrightarrow> ass b = Inl AssertFail"
  by (simp add: ass_def)

lemma ass_eq_Inr [res_simps]: "ass b = Inr u \<longleftrightarrow> b"
  by (simp add: ass_def)

lemma unwrap_simps [simp]: "unwrap (Some a) = Inr a" "unwrap None = Inl UnwrapNone"
  by (simp_all add: unwrap_def)

lemma unwrap_eq_Inr [res_simps]: "unwrap x = Inr a \<longleftrightarrow> x = Some a"
  by (cases x) auto

lemma idx_ok [simp]: "i < length xs \<Longrightarrow> idx xs i = Inr (xs ! i)"
  by (simp add: idx_def)

lemma idx_eq_Inr [res_simps]: "idx xs i = Inr a \<longleftrightarrow> i < length xs \<and> a = xs ! i"
  by (auto simp: idx_def)

subsection \<open>Loops over a range\<close>

text \<open>
  \<open>for x in xs { body }\<close>, where the body may panic, is the left fold below; a Rust range
  \<open>a..b\<close> is the list \<open>[a..<b]\<close>, and \<open>(a..b).step_by(s)\<close> is \<open>step_by s a b\<close>.
\<close>

fun foldm :: "('a \<Rightarrow> 's \<Rightarrow> 'e + 's) \<Rightarrow> 'a list \<Rightarrow> 's \<Rightarrow> 'e + 's" where
  "foldm f [] s = Inr s"
| "foldm f (x # xs) s = bnd (f x s) (foldm f xs)"

lemma foldm_append: "foldm f (xs @ ys) s = bnd (foldm f xs s) (foldm f ys)"
  by (induction xs arbitrary: s) (auto simp: bnd_assoc intro: bnd_cong)

lemma foldm_cong [fundef_cong]:
  "xs = ys \<Longrightarrow> s = t \<Longrightarrow> (\<And>x s. x \<in> set ys \<Longrightarrow> f x s = g x s) \<Longrightarrow> foldm f xs s = foldm g ys t"
proof (induction xs arbitrary: ys s t)
  case (Cons x xs)
  then show ?case by (auto intro!: bnd_cong)
qed simp

text \<open>Nested loops are one loop over the list of index pairs.\<close>

lemma foldm_map: "foldm f (map g xs) = foldm (\<lambda>x. f (g x)) xs"
proof
  show "foldm f (map g xs) s = foldm (\<lambda>x. f (g x)) xs s" for s
    by (induction xs arbitrary: s) (auto intro: bnd_cong)
qed

lemma foldm_concat: "foldm f (concat xss) s = foldm (foldm f) xss s"
  by (induction xss arbitrary: s) (auto simp: foldm_append intro: bnd_cong)

lemma foldm_nested:
  "foldm (\<lambda>y. foldm (\<lambda>x. f (y, x)) (xs y)) ys s =
     foldm f (concat (map (\<lambda>y. map (\<lambda>x. (y, x)) (xs y)) ys)) s"
  by (simp add: foldm_concat foldm_map)

lemma distinct_pairs:
  assumes "distinct ys" "\<And>y. y \<in> set ys \<Longrightarrow> distinct (xs y)"
  shows "distinct (concat (map (\<lambda>y. map (Pair y) (xs y)) ys))"
  using assms by (induction ys) (auto simp: distinct_map inj_on_def)

text \<open>
  The invariant rule for such a loop: when the body returns from every state that satisfies
  the invariant, and keeps it, the whole loop returns and keeps it.
\<close>

lemma foldm_invar:
  assumes "I s"
    and "\<And>x s. x \<in> set xs \<Longrightarrow> I s \<Longrightarrow> \<exists>t. f x s = Inr t \<and> I t"
  shows "\<exists>t. foldm f xs s = Inr t \<and> I t"
  using assms
proof (induction xs arbitrary: s)
  case (Cons x xs)
  from Cons.prems obtain t where "f x s = Inr t" "I t" by force
  with Cons.IH [of t] Cons.prems(2) show ?case by simp
qed simp

lemma foldm_keeps:
  assumes "foldm f xs s = Inr t" and "I s"
    and "\<And>x s t. x \<in> set xs \<Longrightarrow> I s \<Longrightarrow> f x s = Inr t \<Longrightarrow> I t"
  shows "I t"
  using assms
proof (induction xs arbitrary: s)
  case (Cons x xs)
  then show ?case by (auto simp: res_simps)
qed simp

definition step_by :: "nat \<Rightarrow> nat \<Rightarrow> nat \<Rightarrow> nat list" where
  "step_by s a b = map (\<lambda>k. a + k * s) [0..<(b - a + (s - 1)) div s]"

lemma set_step_by:
  assumes "0 < s"
  shows "set (step_by s a b) = {x. \<exists>k. x = a + k * s \<and> x < b}"
proof -
  have "k < (b - a + (s - 1)) div s \<longleftrightarrow> a + k * s < b" for k
  proof -
    have "k < (b - a + (s - 1)) div s \<longleftrightarrow> Suc k * s \<le> b - a + (s - 1)"
      using assms by (metis Suc_le_eq less_eq_div_iff_mult_less_eq)
    also have "\<dots> \<longleftrightarrow> a + k * s < b" using assms by auto
    finally show ?thesis .
  qed
  then have "{0..<(b - a + (s - 1)) div s} = {k. a + k * s < b}"
    by (simp only: atLeast0LessThan lessThan_def)
  then have "set (step_by s a b) = (\<lambda>k. a + k * s) ` {k. a + k * s < b}"
    by (simp only: step_by_def set_map set_upt)
  then show ?thesis by (auto simp only: image_iff mem_Collect_eq set_eq_iff)
qed

lemma distinct_step_by: "0 < s \<Longrightarrow> distinct (step_by s a b)"
  by (auto simp: step_by_def distinct_map inj_on_def)

subsection \<open>Rounding to a multiple\<close>

lemma le_round_up:
  assumes "0 < (k :: nat)"
  shows "s \<le> (s + (k - 1)) div k * k"
proof -
  have "(s + (k - 1)) div k * k + (s + (k - 1)) mod k = s + (k - 1)" by (rule div_mult_mod_eq)
  moreover have "(s + (k - 1)) mod k < k" using assms by simp
  ultimately show ?thesis by linarith
qed

lemma le_page_up: "s \<le> (s + 4095) div 4096 * (4096 :: nat)"
  using le_round_up [of 4096 s] by simp

subsection \<open>Row-major addressing\<close>

text \<open>Byte \<open>k\<close> of the pixel in column \<open>x\<close> of row \<open>y\<close>, in rows of \<open>s\<close> pixels of \<open>b\<close> bytes.\<close>

definition pixel_byte :: "nat \<Rightarrow> nat \<Rightarrow> nat \<Rightarrow> nat \<Rightarrow> nat \<Rightarrow> nat" where
  "pixel_byte s b x y k = (y * s + x) * b + k"

lemma digit_unique:
  assumes "(q :: nat) * b + k = q' * b + k'" "k < b" "k' < b"
  shows "q = q' \<and> k = k'"
proof -
  have "q = (q * b + k) div b" "k = (q * b + k) mod b" using assms(2) by simp_all
  moreover have "q' = (q' * b + k') div b" "k' = (q' * b + k') mod b" using assms(3) by simp_all
  ultimately show ?thesis using assms(1) by metis
qed

lemma pixel_byte_inj:
  assumes "pixel_byte s b x y k = pixel_byte s b x' y' k'"
    and "x < s" "x' < s" "k < b" "k' < b"
  shows "x = x' \<and> y = y' \<and> k = k'"
  using assms digit_unique [of "y * s + x" b k "y' * s + x'" k'] digit_unique [of y s x y' x']
  by (simp add: pixel_byte_def)

lemma pixel_byte_less:
  assumes "x < s" "y < h" "k < b"
  shows "pixel_byte s b x y k < s * h * b"
proof -
  have "y * s + x < h * s"
  proof -
    have "y * s + x < Suc y * s" using assms(1) by simp
    also have "\<dots> \<le> h * s" using assms(2) by (intro mult_le_mono1) simp
    finally show ?thesis .
  qed
  then have "Suc (y * s + x) * b \<le> h * s * b" by (intro mult_le_mono1) simp
  with assms(3) show ?thesis by (simp add: pixel_byte_def mult.commute)
qed

subsection \<open>Decimal numbers\<close>

fun dec :: "nat \<Rightarrow> string" where
  "dec n = (if n < 10 then [char_of (48 + n)] else dec (n div 10) @ [char_of (48 + n mod 10)])"

end
