(* ===== verification/Constants.thy ===== *)
theory Constants
  imports Prelude
begin

text \<open>
  The virtual memory layout, kernel/src/constants.rs: the address builder, the constants of
  the module \<open>v\<close>, and the decomposition of an address that \<open>print_addr\<close> prints.
\<close>

definition KERNEL_STACK_SIZE :: nat where
  "KERNEL_STACK_SIZE = 4096 * 1024"

definition MAX_CORES :: nat where
  "MAX_CORES = 256"

definition USER_STACK_SIZE :: nat where
  "USER_STACK_SIZE = 4096 * 4096"

definition KERNEL_L4_PAGE_TABLE_RANGE :: "nat list" where
  "KERNEL_L4_PAGE_TABLE_RANGE = [100..<116]"

definition build_addr :: "u32 \<Rightarrow> u32 \<Rightarrow> u32 \<Rightarrow> u32 \<Rightarrow> u32 \<Rightarrow> u64 res" where
  "build_addr l4 l3 l2 l1 offset =
     bnd (ass (l4 < 512)) (\<lambda>_.
     bnd (ass (l3 < 512)) (\<lambda>_.
     bnd (ass (l2 < 512)) (\<lambda>_.
     bnd (ass (l1 < 512)) (\<lambda>_.
     bnd (ass (offset < 4096)) (\<lambda>_.
     Inr (push_bit 39 (ucast l4) OR push_bit 30 (ucast l3) OR push_bit 21 (ucast l2)
          OR push_bit 12 (ucast l1) OR ucast offset))))))"

text \<open>The five numbers \<open>print_addr\<close> prints after the address itself.\<close>

definition print_addr :: "u64 \<Rightarrow> u64 \<times> u64 \<times> u64 \<times> u64 \<times> u64" where
  "print_addr addr =
     (let l1 = drop_bit 12 addr;
          l2 = drop_bit 9 l1;
          l3 = drop_bit 9 l2;
          l4 = drop_bit 9 l3
      in (l4 AND (512 - 1), l3 AND (512 - 1), l2 AND (512 - 1), l1 AND (512 - 1),
          addr AND (4096 - 1)))"

text \<open>
  The constants of the module \<open>v\<close>, as numbers.  \<open>build_addr\<close> is evaluated by the compiler
  there; an assertion that failed would stop the build, and \<open>layout_builds\<close> below shows that
  none does.
\<close>

definition build_const :: "u32 \<Rightarrow> u32 \<Rightarrow> u32 \<Rightarrow> u32 \<Rightarrow> u32 \<Rightarrow> nat" where
  "build_const l4 l3 l2 l1 offset = unat (projr (build_addr l4 l3 l2 l1 offset))"

definition KERNEL_START :: nat where "KERNEL_START = build_const 100 0 0 0 0"
definition KERNEL_DYNAMIC_START :: nat where "KERNEL_DYNAMIC_START = build_const 100 0 0 1 0"
definition KERNEL_DYNAMIC_END :: nat where "KERNEL_DYNAMIC_END = build_const 108 0 0 0 0"
definition KERNEL_HEAP_START :: nat where "KERNEL_HEAP_START = build_const 108 0 0 0 0"
definition KERNEL_AP_STACKS :: nat where "KERNEL_AP_STACKS = build_const 109 0 0 0 0"
definition KERNEL_END :: nat where "KERNEL_END = build_const 116 0 0 0 0"
definition USER_START :: nat where "USER_START = build_const 0 0 0 0 0"
definition USER_STACK_START :: nat where "USER_STACK_START = build_const 0 4 0 0 0"
definition USER_HEAP_START :: nat where "USER_HEAP_START = build_const 0 8 0 0 0"
definition USER_END :: nat where "USER_END = build_const 1 0 0 0 0"

text \<open>The slot of the top-level page table that translates an address.\<close>

definition l4_index :: "nat \<Rightarrow> nat" where
  "l4_index a = a div 2 ^ 39 mod 512"

subsection \<open>Building and decomposing addresses\<close>

lemma mask9: "(512 - 1 :: u64) = mask 9"
  by (simp add: mask_eq_exp_minus_1)

lemma mask12: "(4096 - 1 :: u64) = mask 12"
  by (simp add: mask_eq_exp_minus_1)

lemma bit_less_exp:
  assumes "(w :: 'a::len word) < 2 ^ n" and "bit w i"
  shows "i < n"
proof -
  have "w AND mask n = w" using assms(1) by (rule less_mask_eq)
  with assms(2) show ?thesis by (metis bit_and_iff bit_mask_iff)
qed

lemma build_addr_eq_Inr:
  "build_addr l4 l3 l2 l1 offset = Inr a \<longleftrightarrow>
     l4 < 512 \<and> l3 < 512 \<and> l2 < 512 \<and> l1 < 512 \<and> offset < 4096 \<and>
     a = push_bit 39 (ucast l4) OR push_bit 30 (ucast l3) OR push_bit 21 (ucast l2)
          OR push_bit 12 (ucast l1) OR ucast offset"
  by (auto simp: build_addr_def res_simps)

lemma build_addr_ok:
  "l4 < 512 \<Longrightarrow> l3 < 512 \<Longrightarrow> l2 < 512 \<Longrightarrow> l1 < 512 \<Longrightarrow> offset < 4096 \<Longrightarrow>
   \<exists>a. build_addr l4 l3 l2 l1 offset = Inr a"
  by (simp add: build_addr_eq_Inr)

text \<open>
  For arguments in range \<open>build_addr\<close> returns an address, and \<open>print_addr\<close> decomposes it
  into exactly the indices and the offset it was built from.
\<close>

lemma build_addr_print_addr:
  assumes "l4 < 512" "l3 < 512" "l2 < 512" "l1 < 512" "offset < 4096"
  shows "\<exists>a. build_addr l4 l3 l2 l1 offset = Inr a \<and>
     print_addr a = (ucast l4, ucast l3, ucast l2, ucast l1, ucast offset)"
proof -
  have b4: "bit l4 i \<Longrightarrow> i < 9" and b3: "bit l3 i \<Longrightarrow> i < 9" and b2: "bit l2 i \<Longrightarrow> i < 9"
    and b1: "bit l1 i \<Longrightarrow> i < 9" and b0: "bit offset i \<Longrightarrow> i < 12" for i
    using assms bit_less_exp [where n = 9 and 'a = 32] bit_less_exp [where n = 12 and 'a = 32]
    by simp_all
  let ?a = "push_bit 39 (ucast l4) OR push_bit 30 (ucast l3) OR push_bit 21 (ucast l2)
          OR push_bit 12 (ucast l1) OR ucast offset :: u64"
  have "print_addr ?a = (ucast l4, ucast l3, ucast l2, ucast l1, ucast offset)"
    unfolding print_addr_def Let_def mask9 mask12 prod.inject
    by (intro conjI bit_word_eqI) (auto simp: bit_simps dest: b4 b3 b2 b1 b0)
  with assms show ?thesis by (simp add: build_addr_eq_Inr)
qed

lemma build_addr_print_addr_witness:
  "\<exists>a. build_addr 109 5 7 511 4095 = Inr a \<and> print_addr a = (109, 5, 7, 511, 4095)"
  using build_addr_print_addr [of 109 5 7 511 4095] by simp

subsection \<open>The layout\<close>

lemmas layout_defs =
  KERNEL_START_def KERNEL_DYNAMIC_START_def KERNEL_DYNAMIC_END_def KERNEL_HEAP_START_def
  KERNEL_AP_STACKS_def KERNEL_END_def USER_START_def USER_STACK_START_def USER_HEAP_START_def
  USER_END_def

lemma layout_values:
  "KERNEL_START = 100 * 2 ^ 39" "KERNEL_DYNAMIC_START = 100 * 2 ^ 39 + 4096"
  "KERNEL_DYNAMIC_END = 108 * 2 ^ 39" "KERNEL_HEAP_START = 108 * 2 ^ 39"
  "KERNEL_AP_STACKS = 109 * 2 ^ 39" "KERNEL_END = 116 * 2 ^ 39"
  "USER_START = 0" "USER_STACK_START = 4 * 2 ^ 30" "USER_HEAP_START = 8 * 2 ^ 30"
  "USER_END = 2 ^ 39"
  by (simp_all add: layout_defs build_const_def build_addr_def)

lemma kernel_l4: "a < 2 ^ 48 \<Longrightarrow> l4_index a \<in> set KERNEL_L4_PAGE_TABLE_RANGE \<longleftrightarrow> KERNEL_START \<le> a \<and> a < KERNEL_END"
  and user_l4: "a < 2 ^ 48 \<Longrightarrow> l4_index a = 0 \<longleftrightarrow> USER_START \<le> a \<and> a < USER_END"
proof -
  assume "a < 2 ^ 48"
  then have "a div 2 ^ 39 < 512" by simp
  moreover have "set KERNEL_L4_PAGE_TABLE_RANGE = {100..<116}"
    by (simp only: KERNEL_L4_PAGE_TABLE_RANGE_def set_upt)
  ultimately show "l4_index a \<in> set KERNEL_L4_PAGE_TABLE_RANGE \<longleftrightarrow> KERNEL_START \<le> a \<and> a < KERNEL_END"
    and "l4_index a = 0 \<longleftrightarrow> USER_START \<le> a \<and> a < USER_END"
    by (auto simp: layout_values l4_index_def)
qed

text \<open>
  The kernel's address range is exactly the part of the lower 2^48 bytes that the slots
  \<open>KERNEL_L4_PAGE_TABLE_RANGE\<close> of a top-level table translate, and the user's range is exactly
  what slot 0 translates.  So sharing those slots between address spaces shares the kernel's
  memory, all of it and nothing else.
\<close>

lemma layout_l4_slots:
  assumes "a < 2 ^ 48"
  shows "(KERNEL_START \<le> a \<and> a < KERNEL_END \<longleftrightarrow> l4_index a \<in> set KERNEL_L4_PAGE_TABLE_RANGE) \<and>
         (USER_START \<le> a \<and> a < USER_END \<longleftrightarrow> l4_index a = 0)"
  using kernel_l4 [OF assms] user_l4 [OF assms] by simp

lemma layout_l4_slots_witness:
  "l4_index KERNEL_HEAP_START \<in> set KERNEL_L4_PAGE_TABLE_RANGE \<and> l4_index USER_STACK_START = 0"
  using layout_l4_slots [of KERNEL_HEAP_START] layout_l4_slots [of USER_STACK_START]
  by (simp add: layout_values)

text \<open>The regions of the layout follow each other without overlap.\<close>

lemma layout_order:
  "USER_START < USER_STACK_START" "USER_STACK_START + USER_STACK_SIZE \<le> USER_HEAP_START"
  "USER_HEAP_START < USER_END" "USER_END \<le> KERNEL_START" "KERNEL_START < KERNEL_DYNAMIC_START"
  "KERNEL_DYNAMIC_START < KERNEL_DYNAMIC_END" "KERNEL_DYNAMIC_END \<le> KERNEL_HEAP_START"
  "KERNEL_HEAP_START < KERNEL_AP_STACKS" "KERNEL_AP_STACKS < KERNEL_END" "KERNEL_END < 2 ^ 47"
  by (simp_all add: layout_values USER_STACK_SIZE_def)

end
