(* ===== verification/X86_Lib.thy ===== *)
theory X86_Lib
  imports Prelude
begin

text \<open>
  What the kernel takes from outside its own sources: the boot information handed over by the
  bootloader (data only), and the address arithmetic of the crate x86_64.

  The crate is not part of the repository, so its functions are fields of the record \<open>x86\<close>,
  an argument of every definition that calls them.  \<open>x86_ok\<close> states what the crate documents
  about them, and \<open>x86_ref\<close> is one concrete record that satisfies it.

  A page and a frame are represented by their start address.
\<close>

subsection \<open>Boot information\<close>

datatype MemoryRegionKind = Usable | Bootloader | UnknownUefi nat | UnknownBios nat

record MemoryRegion =
  region_start :: nat
  region_end :: nat
  region_kind :: MemoryRegionKind

datatype PixelFormat = Rgb | Bgr | U8 | UnknownFormat

record FrameBufferInfo =
  fb_byte_len :: nat
  fb_width :: nat
  fb_height :: nat
  fb_pixel_format :: PixelFormat
  fb_bytes_per_pixel :: nat
  fb_stride :: nat

record FrameBuffer =
  fb_buffer_start :: nat
  fb_info :: FrameBufferInfo

record BootInfo =
  memory_regions :: "MemoryRegion list"
  framebuffer :: "FrameBuffer option"
  boot_physical_memory_offset :: "nat option"
  ramdisk_addr :: "nat option"
  ramdisk_len :: nat
  rsdp_addr :: "nat option"

subsection \<open>Address arithmetic of the crate x86_64\<close>

record x86 =
  x_align_down :: "nat \<Rightarrow> nat \<Rightarrow> nat res"
  x_align_up :: "nat \<Rightarrow> nat \<Rightarrow> nat res"
  x_phys_new :: "nat \<Rightarrow> nat res"
  x_virt_new :: "nat \<Rightarrow> nat res"
  x_virt_add :: "nat \<Rightarrow> nat \<Rightarrow> nat res"
  x_virt_sub :: "nat \<Rightarrow> nat \<Rightarrow> nat res"
  x_page_containing :: "nat \<Rightarrow> nat"
  x_page_from_start :: "nat \<Rightarrow> nat option"
  x_frame_from_start :: "nat \<Rightarrow> nat option"
  x_page_range_inclusive :: "nat \<Rightarrow> nat \<Rightarrow> nat list"

text \<open>
  The documented behaviour: alignment to a power of two returns the nearest aligned address
  below or above; a physical address has 52 bits and a virtual address is canonical, otherwise
  the constructor panics (only the lower canonical half is used by this kernel); a page is the
  4096 aligned bytes around an address; an inclusive range of pages lists them in order.
\<close>

definition x86_ok :: "x86 \<Rightarrow> bool" where
  "x86_ok X \<longleftrightarrow>
     (\<forall>a k. x_align_down X a (2 ^ k) = Inr (a div 2 ^ k * 2 ^ k)) \<and>
     (\<forall>a k. (a + 2 ^ k - 1) div 2 ^ k * 2 ^ k < 2 ^ 64 \<longrightarrow>
        x_align_up X a (2 ^ k) = Inr ((a + 2 ^ k - 1) div 2 ^ k * 2 ^ k)) \<and>
     (\<forall>a. a < 2 ^ 52 \<longrightarrow> x_phys_new X a = Inr a) \<and>
     (\<forall>a. a < 2 ^ 47 \<longrightarrow> x_virt_new X a = Inr a) \<and>
     (\<forall>a b. a + b < 2 ^ 47 \<longrightarrow> x_virt_add X a b = Inr (a + b)) \<and>
     (\<forall>a b. a < 2 ^ 47 \<and> b \<le> a \<longrightarrow> x_virt_sub X a b = Inr (a - b)) \<and>
     (\<forall>a. x_page_containing X a = a div 4096 * 4096) \<and>
     (\<forall>a. 4096 dvd a \<longrightarrow> x_page_from_start X a = Some a) \<and>
     (\<forall>a. 4096 dvd a \<longrightarrow> x_frame_from_start X a = Some a) \<and>
     (\<forall>a b. 4096 dvd a \<and> 4096 dvd b \<longrightarrow> x_page_range_inclusive X a b = step_by 4096 a (b + 1))"

lemma x86_align:
  assumes "x86_ok X"
  shows "x_align_down X a (2 ^ k) = Inr (a div 2 ^ k * 2 ^ k)"
    and "(a + 2 ^ k - 1) div 2 ^ k * 2 ^ k < 2 ^ 64 \<Longrightarrow>
           x_align_up X a (2 ^ k) = Inr ((a + 2 ^ k - 1) div 2 ^ k * 2 ^ k)"
  using assms unfolding x86_ok_def by simp_all

lemma x86_align_page:
  assumes "x86_ok X"
  shows "x_align_down X a 4096 = Inr (a div 4096 * 4096)"
    and "a + 4095 < 2 ^ 64 \<Longrightarrow> x_align_up X a 4096 = Inr ((a + 4095) div 4096 * 4096)"
proof -
  have p: "(2::nat) ^ 12 = 4096" and q: "a + 4096 - 1 = a + 4095" by simp_all
  from x86_align(1) [OF assms, of a 12] show "x_align_down X a 4096 = Inr (a div 4096 * 4096)"
    unfolding p .
  have "(a + 4095) div 4096 * 4096 \<le> a + 4095" by (rule div_times_less_eq_dividend)
  with x86_align(2) [OF assms, of a 12]
  show "a + 4095 < 2 ^ 64 \<Longrightarrow> x_align_up X a 4096 = Inr ((a + 4095) div 4096 * 4096)"
    unfolding p q by (metis order.strict_trans1)
qed

lemma x86_page_simps:
  assumes "x86_ok X"
  shows "x_page_containing X a = a div 4096 * 4096"
    and "4096 dvd a \<Longrightarrow> x_page_from_start X a = Some a"
    and "4096 dvd a \<Longrightarrow> x_frame_from_start X a = Some a"
    and "4096 dvd a \<Longrightarrow> 4096 dvd b \<Longrightarrow> x_page_range_inclusive X a b = step_by 4096 a (b + 1)"
  using assms unfolding x86_ok_def by simp_all

lemma x86_addr_simps:
  assumes "x86_ok X"
  shows "a < 2 ^ 52 \<Longrightarrow> x_phys_new X a = Inr a"
    and "a < 2 ^ 47 \<Longrightarrow> x_virt_new X a = Inr a"
    and "a + b < 2 ^ 47 \<Longrightarrow> x_virt_add X a b = Inr (a + b)"
    and "a < 2 ^ 47 \<Longrightarrow> b \<le> a \<Longrightarrow> x_virt_sub X a b = Inr (a - b)"
  using assms by (simp_all add: x86_ok_def)

definition x86_ref :: x86 where
  "x86_ref =
    \<lparr> x_align_down = (\<lambda>a al. Inr (a div al * al)),
      x_align_up = (\<lambda>a al. let b = (a + al - 1) div al * al in
                      if b < 2 ^ 64 then Inr b else Inl ArithOverflow),
      x_phys_new = (\<lambda>a. if a < 2 ^ 52 then Inr a else Inl (Explicit ''PhysAddr'')),
      x_virt_new = (\<lambda>a. if a < 2 ^ 47 then Inr a else Inl (Explicit ''VirtAddr'')),
      x_virt_add = (\<lambda>a b. if a + b < 2 ^ 47 then Inr (a + b) else Inl (Explicit ''VirtAddr'')),
      x_virt_sub = (\<lambda>a b. if b \<le> a then Inr (a - b) else Inl UnwrapNone),
      x_page_containing = (\<lambda>a. a div 4096 * 4096),
      x_page_from_start = (\<lambda>a. if a mod 4096 = 0 then Some a else None),
      x_frame_from_start = (\<lambda>a. if a mod 4096 = 0 then Some a else None),
      x_page_range_inclusive = (\<lambda>a b. step_by 4096 a (b + 1)) \<rparr>"

lemma x86_ref_ok: "x86_ok x86_ref"
  unfolding x86_ok_def x86_ref_def Let_def by (auto simp: dvd_eq_mod_eq_0)

end
