(* ===== verification/Ram_Disk.thy ===== *)
theory Ram_Disk
  imports X86_Lib
begin

text \<open>
  The ram disk: the image builder of bootimage/src/main.rs (struct \<open>Image\<close>,
  \<open>create_ram_disk\<close>), which runs on the host, and the reader of kernel/src/ram_disk.rs, which
  runs in the kernel on the bytes the bootloader copied into memory.

  The image is, in little-endian 64-bit words, its total length, a checksum, the number of
  files and the end offset of each file, followed by the contents of the files.  The checksum
  comes from the crate pruefung, which is a parameter (the record \<open>hasher\<close>).
\<close>

subsection \<open>Little-endian words\<close>

definition to_le_bytes :: "u64 \<Rightarrow> u8 list" where
  "to_le_bytes w = map (\<lambda>i. ucast (drop_bit (8 * i) w)) [0..<8]"

definition from_le_bytes :: "u8 list \<Rightarrow> u64" where
  "from_le_bytes bs = foldr (\<lambda>b acc. ucast b OR push_bit 8 acc) bs 0"

lemma length_to_le_bytes [simp]: "length (to_le_bytes w) = 8"
  by (simp add: to_le_bytes_def)

lemma bit_from_le_bytes:
  "bit (from_le_bytes bs) n \<longleftrightarrow> n < 64 \<and> n div 8 < length bs \<and> bit (bs ! (n div 8)) (n mod 8)"
proof (induction bs arbitrary: n)
  case Nil
  show ?case by (simp add: from_le_bytes_def)
next
  case (Cons b bs)
  have eq: "from_le_bytes (b # bs) = ucast b OR push_bit 8 (from_le_bytes bs)"
    by (simp add: from_le_bytes_def)
  show ?case
  proof (cases "n < 8")
    case True
    then show ?thesis by (simp add: eq bit_simps)
  next
    case False
    then obtain k where n: "n = 8 + k" by (metis le_add_diff_inverse not_less)
    have "\<not> bit b n" using n bit_imp_le_length [of b n] by auto
    moreover have "(8 + k) div 8 = Suc (k div 8)" by simp
    ultimately show ?thesis using n by (auto simp: eq bit_simps Cons.IH)
  qed
qed

lemma from_to_le_bytes [simp]: "from_le_bytes (to_le_bytes w) = w"
proof (rule bit_word_eqI)
  fix n
  assume "n < LENGTH(64)"
  then have "n div 8 < 8" by (simp add: less_mult_imp_div_less)
  moreover have "8 * (n div 8) + n mod 8 = n" by (simp add: mult.commute)
  ultimately show "bit (from_le_bytes (to_le_bytes w)) n = bit w n"
    using \<open>n < LENGTH(64)\<close>
    by (simp add: bit_from_le_bytes to_le_bytes_def bit_simps del: upt_conv_Cons upt_rec_numeral)
qed

text \<open>Reading the \<open>i\<close>-th word of a byte sequence through a pointer cast to \<open>*const u64\<close>.\<close>

definition u64_at :: "u8 list \<Rightarrow> nat \<Rightarrow> u64" where
  "u64_at bs i = from_le_bytes (take 8 (drop (8 * i) bs))"

lemma u64_at_concat:
  "i < length ws \<Longrightarrow> u64_at (concat (map to_le_bytes ws) @ rest) i = ws ! i"
proof (induction ws arbitrary: i)
  case (Cons w ws)
  then show ?case by (cases i) (simp_all add: u64_at_def)
qed simp

lemma length_concat_le [simp]: "length (concat (map to_le_bytes ws)) = 8 * length ws"
  by (induction ws) simp_all

subsection \<open>The checksum\<close>

record 'c hasher =
  h_default :: 'c
  h_write :: "u8 list \<Rightarrow> 'c \<Rightarrow> 'c"
  h_finish :: "'c \<Rightarrow> u64"

text \<open>Hashing a sequence in pieces is hashing the whole sequence.\<close>

definition hasher_ok :: "'c hasher \<Rightarrow> bool" where
  "hasher_ok H \<longleftrightarrow> (\<forall>a b c. h_write H b (h_write H a c) = h_write H (a @ b) c)"

subsection \<open>Building the image\<close>

record Image =
  region_ends :: "u64 list"
  img_buffer :: "u8 list"

definition new_image :: Image where
  "new_image = \<lparr>region_ends = [], img_buffer = []\<rparr>"

text \<open>\<open>fs\<close> is the host file system: the contents of the file at a path, if it can be read.\<close>

definition add_file :: "(string \<Rightarrow> u8 list option) \<Rightarrow> string \<Rightarrow> Image \<Rightarrow> Image res" where
  "add_file fs path self =
     bnd (unwrap (fs path)) (\<lambda>data.
     let buf = img_buffer self @ data in
     Inr (self\<lparr>img_buffer := buf,
               region_ends := region_ends self @ [of_nat (length buf)]\<rparr>))"

text \<open>\<open>target_dir\<close> is the value of the environment variable CARGO_TARGET_DIR, if set.\<close>

definition add_user_app ::
  "(string \<Rightarrow> u8 list option) \<Rightarrow> string option \<Rightarrow> string \<Rightarrow> string \<Rightarrow> Image \<Rightarrow> Image res"
where
  "add_user_app fs target_dir name profile_name self =
     add_file fs ((case target_dir of None \<Rightarrow> ''user_app/target'' | Some d \<Rightarrow> d)
       @ ''/x86_64-unknown-steelmind_os/'' @ profile_name @ ''/'' @ name) self"

definition add_string :: "u8 list \<Rightarrow> Image \<Rightarrow> Image" where
  "add_string bytes self =
     (let buf = img_buffer self @ bytes in
      self\<lparr>img_buffer := buf, region_ends := region_ends self @ [of_nat (length buf)]\<rparr>)"

definition build :: "'c hasher \<Rightarrow> Image \<Rightarrow> u8 list" where
  "build H self =
     (let ends = of_nat (length (region_ends self)) # region_ends self;
          region_lengths_buf = concat (map to_le_bytes ends);
          checksum = h_finish H (h_write H (img_buffer self) (h_write H region_lengths_buf (h_default H)))
      in to_le_bytes (of_nat (length region_lengths_buf + length (img_buffer self) + 8 + 8))
         @ to_le_bytes checksum @ region_lengths_buf @ img_buffer self)"

definition create_ram_disk ::
  "'c hasher \<Rightarrow> (string \<Rightarrow> u8 list option) \<Rightarrow> string option \<Rightarrow> string \<Rightarrow> u8 list res"
where
  "create_ram_disk H fs target_dir profile_name =
     bnd (add_user_app fs target_dir ''main'' profile_name new_image) (\<lambda>img.
     bnd (add_user_app fs target_dir ''test'' profile_name img) (\<lambda>img.
     bnd (add_file fs ''bootimage/test.jpg'' img) (\<lambda>img.
     Inr (build H img))))"

subsection \<open>Reading it in the kernel\<close>

text \<open>\<open>mem\<close> is the virtual memory of the kernel; the two slices view the same bytes.\<close>

definition ramdisk_u8_slice :: "(nat \<Rightarrow> u8) \<Rightarrow> BootInfo \<Rightarrow> nat \<Rightarrow> u8 list" where
  "ramdisk_u8_slice mem bi addr = map (\<lambda>i. mem (addr + i)) [0..<ramdisk_len bi]"

definition ramdisk_u64_slice :: "(nat \<Rightarrow> u8) \<Rightarrow> BootInfo \<Rightarrow> nat \<Rightarrow> u64 list" where
  "ramdisk_u64_slice mem bi addr =
     map (u64_at (ramdisk_u8_slice mem bi addr)) [0..<ramdisk_len bi div 8]"

definition slice_from :: "'a list \<Rightarrow> nat \<Rightarrow> 'a list res" where
  "slice_from xs a = (if a \<le> length xs then Inr (drop a xs) else Inl IndexOut)"

definition slice_range :: "'a list \<Rightarrow> nat \<Rightarrow> nat \<Rightarrow> 'a list res" where
  "slice_range xs a b =
     (if a \<le> b \<and> b \<le> length xs then Inr (take (b - a) (drop a xs)) else Inl IndexOut)"

definition get_file_slice :: "(nat \<Rightarrow> u8) \<Rightarrow> BootInfo \<Rightarrow> nat \<Rightarrow> u8 list res" where
  "get_file_slice mem bi index =
     bnd (unwrap (ramdisk_addr bi)) (\<lambda>ramdisk_ptr.
     let u64s = ramdisk_u64_slice mem bi ramdisk_ptr;
         u8s = ramdisk_u8_slice mem bi ramdisk_ptr in
     bnd (idx u64s 2) (\<lambda>file_count.
     bnd (slice_from u64s 3) (\<lambda>file_end_slice.
     bnd (ass (index < unat file_count)) (\<lambda>_.
     bnd (if index = 0
          then bnd (idx file_end_slice 0) (\<lambda>e. Inr (0, unat e))
          else bnd (idx file_end_slice (index - 1)) (\<lambda>s.
               bnd (idx file_end_slice index) (\<lambda>e.
               bnd (csub (unat e) (unat s)) (\<lambda>size. Inr (unat s, size)))))
       (\<lambda>(raw_file_start, file_size).
     bnd (cadd (unat file_count) 3) (\<lambda>n.
     bnd (cmul n 8) (\<lambda>header.
     bnd (cadd raw_file_start header) (\<lambda>file_start.
     bnd (cadd file_start file_size) (\<lambda>file_end.
     slice_range u8s file_start file_end)))))))))"

definition get_file_count :: "(nat \<Rightarrow> u8) \<Rightarrow> BootInfo \<Rightarrow> nat res" where
  "get_file_count mem bi =
     bnd (unwrap (ramdisk_addr bi)) (\<lambda>ramdisk_ptr.
     bnd (idx (ramdisk_u64_slice mem bi ramdisk_ptr) 2) (\<lambda>file_count.
     Inr (unat file_count)))"

definition assert_soundness :: "'c hasher \<Rightarrow> (nat \<Rightarrow> u8) \<Rightarrow> BootInfo \<Rightarrow> unit res" where
  "assert_soundness H mem bi =
     bnd (ass (ramdisk_addr bi \<noteq> None)) (\<lambda>_.
     bnd (ass (ramdisk_len bi \<ge> 8 + 8 + 8 + 8 + 1)) (\<lambda>_.
     bnd (unwrap (ramdisk_addr bi)) (\<lambda>ramdisk_ptr.
     let u64s = ramdisk_u64_slice mem bi ramdisk_ptr;
         u8s = ramdisk_u8_slice mem bi ramdisk_ptr in
     bnd (idx u64s 0) (\<lambda>ram_disk_read_length.
     bnd (ass (unat ram_disk_read_length = ramdisk_len bi)) (\<lambda>_.
     bnd (idx u64s 1) (\<lambda>ram_disk_read_checksum.
     bnd (slice_from u8s (8 + 8)) (\<lambda>data.
     bnd (ass (ram_disk_read_checksum = h_finish H (h_write H data (h_default H)))) (\<lambda>_.
     bnd (idx u64s 2) (\<lambda>file_count.
     bnd (csub (unat ram_disk_read_length) 8) (\<lambda>a.
     bnd (csub a 8) (\<lambda>b.
     bnd (csub b 8) (\<lambda>c.
     ass (unat file_count \<le> c div 9)))))))))))))"

subsection \<open>What an image holds\<close>

text \<open>\<open>holds img files\<close>: the image was built by adding exactly these files, in this order.\<close>

definition holds :: "Image \<Rightarrow> u8 list list \<Rightarrow> bool" where
  "holds img files \<longleftrightarrow>
     img_buffer img = concat files \<and>
     region_ends img = map (\<lambda>i. of_nat (length (concat (take (Suc i) files)))) [0..<length files]"

lemma holds_new: "holds new_image []"
  by (simp add: holds_def new_image_def)

lemma holds_add_string: "holds img files \<Longrightarrow> holds (add_string data img) (files @ [data])"
  by (simp add: holds_def add_string_def Let_def)

lemma add_file_ok:
  "fs path = Some data \<Longrightarrow> add_file fs path img = Inr (add_string data img)"
  by (simp add: add_file_def add_string_def)

text \<open>The memory of the kernel holds the byte sequence \<open>disk\<close> where the boot information says.\<close>

definition loaded :: "(nat \<Rightarrow> u8) \<Rightarrow> BootInfo \<Rightarrow> u8 list \<Rightarrow> bool" where
  "loaded mem bi disk \<longleftrightarrow>
     (\<exists>addr. ramdisk_addr bi = Some addr \<and> ramdisk_len bi = length disk \<and>
        ramdisk_u8_slice mem bi addr = disk)"

lemma loadedE:
  assumes "loaded mem bi disk"
  obtains addr where "ramdisk_addr bi = Some addr" "ramdisk_len bi = length disk"
    "ramdisk_u8_slice mem bi addr = disk"
    "ramdisk_u64_slice mem bi addr = map (u64_at disk) [0..<length disk div 8]"
  using assms by (auto simp: loaded_def ramdisk_u64_slice_def)

subsection \<open>Decoding a built image\<close>

text \<open>The header of a built image, as words, followed by the file contents.\<close>

definition header :: "'c hasher \<Rightarrow> u8 list list \<Rightarrow> u64 list" where
  "header H files =
     (let ends = of_nat (length files) #
                 map (\<lambda>i. of_nat (length (concat (take (Suc i) files)))) [0..<length files];
          buf = concat (map to_le_bytes ends)
      in of_nat (length buf + length (concat files) + 8 + 8)
         # h_finish H (h_write H (concat files) (h_write H buf (h_default H))) # ends)"

lemma length_header [simp]: "length (header H files) = length files + 3"
  by (simp add: header_def Let_def)

lemma build_header: "holds img files \<Longrightarrow> build H img = concat (map to_le_bytes (header H files)) @ concat files"
  by (simp add: build_def header_def holds_def Let_def)

lemma length_build:
  "holds img files \<Longrightarrow> length (build H img) = 8 * (length files + 3) + length (concat files)"
  by (simp add: build_header)

lemma u64_at_build: "holds img files \<Longrightarrow> i < length files + 3 \<Longrightarrow> u64_at (build H img) i = header H files ! i"
  by (simp add: build_header u64_at_concat)

lemma header_nth:
  "header H files ! 0 = of_nat (8 * (length files + 3) + length (concat files))"
  "header H files ! 2 = of_nat (length files)"
  "i < length files \<Longrightarrow> header H files ! (i + 3) = of_nat (length (concat (take (Suc i) files)))"
  by (simp_all add: header_def Let_def nth_Cons' numeral_eq_Suc)

lemma length_concat_take_le: "length (concat (take i files)) \<le> length (concat files)"
  by (metis append_take_drop_id concat_append le_add1 length_append)

lemma concat_nth_split:
  assumes "i < length files"
  shows "take (length (files ! i)) (drop (length (concat (take i files))) (concat files)) = files ! i"
proof -
  have "concat files = concat (take i files) @ files ! i @ concat (drop (Suc i) files)"
    using assms by (metis id_take_nth_drop concat.simps(2) concat_append)
  then show ?thesis by simp
qed

lemma length_concat_take_Suc:
  "i < length files \<Longrightarrow>
     length (concat (take (Suc i) files)) = length (concat (take i files)) + length (files ! i)"
  by (simp add: take_Suc_conv_app_nth)

text \<open>The words the kernel reads from a loaded image.\<close>

lemma loaded_words:
  assumes "holds img files" "length (build H img) < 2 ^ 64"
    and "u64s = map (u64_at (build H img)) [0..<length (build H img) div 8]"
  shows "idx u64s 0 = Inr (of_nat (length (build H img)))"
    and "idx u64s 1 = Inr (header H files ! 1)"
    and "idx u64s 2 = Inr (of_nat (length files))"
    and "slice_from u64s 3 = Inr (drop 3 u64s)"
    and "i < length files \<Longrightarrow> idx (drop 3 u64s) i = Inr (of_nat (length (concat (take (Suc i) files))))"
proof -
  have len: "length files + 3 \<le> length (build H img) div 8"
    using length_build [OF assms(1), of H] by simp
  then have nth: "idx u64s j = Inr (header H files ! j)" if "j < length files + 3" for j
    using that assms(1,3) by (simp add: u64_at_build)
  show "idx u64s 0 = Inr (of_nat (length (build H img)))"
    using nth [of 0] by (simp add: header_nth length_build [OF assms(1)])
  show "idx u64s 1 = Inr (header H files ! 1)" "idx u64s 2 = Inr (of_nat (length files))"
    using nth [of 1] nth [of 2] by (simp_all add: header_nth)
  show "slice_from u64s 3 = Inr (drop 3 u64s)" using len assms(3) by (simp add: slice_from_def)
  show "idx (drop 3 u64s) i = Inr (of_nat (length (concat (take (Suc i) files))))"
    if "i < length files"
    using nth [of "i + 3"] that len assms(3) by (simp add: header_nth idx_def add.commute)
qed

lemma unat_of_nat_small: "n < 2 ^ 64 \<Longrightarrow> unat (of_nat n :: u64) = n"
  by (simp add: unat_of_nat take_bit_nat_eq_self)

lemma get_file_slice_loaded:
  assumes img: "holds img files" and ld: "loaded mem bi (build H img)"
    and small: "length (build H img) < 2 ^ 64" and i: "i < length files"
  shows "get_file_slice mem bi i = Inr (files ! i)"
proof -
  let ?D = "build H img" and ?n = "length files"
  let ?c = "\<lambda>i. length (concat (take i files))"
  obtain addr where a: "ramdisk_addr bi = Some addr" "ramdisk_u8_slice mem bi addr = ?D"
    and u: "ramdisk_u64_slice mem bi addr = map (u64_at ?D) [0..<length ?D div 8]"
    using ld by (rule loadedE)
  note w = loaded_words [OF img small u]
  have D: "length ?D = 8 * (?n + 3) + length (concat files)" by (rule length_build [OF img])
  have c: "?c j \<le> length (concat files)" for j by (rule length_concat_take_le)
  have uc: "unat (of_nat (?c j) :: u64) = ?c j" for j
    by (rule unat_of_nat_small) (use small D c [of j] in linarith)
  have un: "unat (of_nat ?n :: u64) = ?n" using small D by (intro unat_of_nat_small) simp
  have split: "?c (Suc i) = ?c i + length (files ! i)" by (rule length_concat_take_Suc [OF i])
  define e where "e j = (of_nat (?c (Suc j)) :: u64)" for j
  have e: "j < ?n \<Longrightarrow> idx (drop 3 (ramdisk_u64_slice mem bi addr)) j = Inr (e j)"
    and ue: "unat (e j) = ?c (Suc j)" for j
    by (simp_all only: w(5) e_def uc)
  have bounds: "(if i = 0
          then bnd (idx (drop 3 (ramdisk_u64_slice mem bi addr)) 0) (\<lambda>e. Inr (0, unat e))
          else bnd (idx (drop 3 (ramdisk_u64_slice mem bi addr)) (i - 1)) (\<lambda>s.
               bnd (idx (drop 3 (ramdisk_u64_slice mem bi addr)) i) (\<lambda>e.
               bnd (csub (unat e) (unat s)) (\<lambda>size. Inr (unat s, size)))))
        = Inr (?c i, length (files ! i))"
    using e [of i] e [of "i - 1"] ue split i by (cases i) simp_all
  have len: "?c i + (?n + 3) * 8 + length (files ! i) \<le> length ?D" using D c [of "Suc i"] split by simp
  have dr: "drop (?c i + (?n + 3) * 8) ?D = drop (?c i) (concat files)"
    unfolding build_header [OF img] drop_append by simp
  have "slice_range ?D (?c i + (?n + 3) * 8) (?c i + (?n + 3) * 8 + length (files ! i)) = Inr (files ! i)"
    using len concat_nth_split [OF i] dr by (simp only: slice_range_def) simp
  then show ?thesis
    using a w(3,4) bounds un i len small by (simp add: get_file_slice_def)
qed

lemma get_file_slice_out_of_range:
  assumes "holds img files" "loaded mem bi (build H img)" "length (build H img) < 2 ^ 64"
    and "length files \<le> i"
  shows "get_file_slice mem bi i = Inl AssertFail"
proof -
  obtain addr where a: "ramdisk_addr bi = Some addr" "ramdisk_u8_slice mem bi addr = build H img"
    and u: "ramdisk_u64_slice mem bi addr = map (u64_at (build H img)) [0..<length (build H img) div 8]"
    using assms(2) by (rule loadedE)
  have "unat (of_nat (length files) :: u64) = length files"
    using assms(3) length_build [OF assms(1), of H] by (intro unat_of_nat_small) simp
  with a loaded_words(3,4) [OF assms(1,3) u] assms(4) show ?thesis
    by (simp add: get_file_slice_def)
qed

lemma get_file_count_loaded:
  assumes "holds img files" "loaded mem bi (build H img)" "length (build H img) < 2 ^ 64"
  shows "get_file_count mem bi = Inr (length files)"
proof -
  obtain addr where a: "ramdisk_addr bi = Some addr"
    and u: "ramdisk_u64_slice mem bi addr = map (u64_at (build H img)) [0..<length (build H img) div 8]"
    using assms(2) by (rule loadedE)
  have "unat (of_nat (length files) :: u64) = length files"
    using assms(3) length_build [OF assms(1), of H] by (intro unat_of_nat_small) simp
  with a loaded_words(3) [OF assms(1,3) u] show ?thesis by (simp add: get_file_count_def)
qed

text \<open>The checksum stored by \<open>build\<close> is the one \<open>assert_soundness\<close> computes.\<close>

lemma checksum_loaded:
  assumes "hasher_ok H" "holds img files"
  shows "h_finish H (h_write H (drop 16 (build H img)) (h_default H)) = header H files ! 1"
  using assms by (simp add: build_header header_def Let_def hasher_ok_def)

lemma assert_soundness_loaded:
  assumes "hasher_ok H" "holds img files" "loaded mem bi (build H img)" "length (build H img) < 2 ^ 64"
  shows "assert_soundness H mem bi = Inr () \<longleftrightarrow>
     9 \<le> 8 * length files + length (concat files) \<and> length files \<le> length (concat files)"
proof -
  let ?D = "build H img"
  obtain addr where a: "ramdisk_addr bi = Some addr" "ramdisk_len bi = length ?D"
      "ramdisk_u8_slice mem bi addr = ?D"
    and u: "ramdisk_u64_slice mem bi addr = map (u64_at ?D) [0..<length ?D div 8]"
    using assms(3) by (rule loadedE)
  note w = loaded_words(1-3) [OF assms(2,4) u]
  have D: "length ?D = 8 * (length files + 3) + length (concat files)" by (rule length_build [OF assms(2)])
  have "unat (of_nat (length ?D) :: u64) = length ?D" by (rule unat_of_nat_small [OF assms(4)])
  moreover have "unat (of_nat (length files) :: u64) = length files"
    by (rule unat_of_nat_small) (use assms(4) D in simp)
  moreover have "slice_from ?D 16 = Inr (drop 16 ?D)" using D by (simp add: slice_from_def)
  moreover have "length files \<le> (8 * length files + length (concat files)) div 9 \<longleftrightarrow>
      length files \<le> length (concat files)" by linarith
  ultimately show ?thesis
    using a w D checksum_loaded [OF assms(1,2)]
    by (auto simp: assert_soundness_def res_simps)
qed

subsection \<open>Properties\<close>

lemma add_files_holds:
  assumes "holds img files" and "\<forall>p\<in>set paths. fs p \<noteq> None"
  shows "\<exists>img'. foldm (add_file fs) paths img = Inr img' \<and> holds img' (files @ map (the \<circ> fs) paths)"
  using assms
proof (induction paths arbitrary: img files)
  case (Cons p paths)
  then obtain data where "fs p = Some data" by auto
  with Cons.IH [of "add_string data img" "files @ [data]"] Cons.prems show ?case
    by (simp add: add_file_ok holds_add_string)
qed simp

text \<open>
  C2: the round trip from the host to the kernel.  Add any readable files to an image, build
  it, and let the bootloader place the bytes in memory: the kernel then counts exactly these
  files, reads back exactly the contents of each, and refuses every other index.
\<close>

theorem ram_disk_roundtrip:
  assumes "\<forall>p\<in>set paths. fs p \<noteq> None"
    and "foldm (add_file fs) paths new_image = Inr img"
    and "loaded mem bi (build H img)" "length (build H img) < 2 ^ 64"
  shows "get_file_count mem bi = Inr (length paths) \<and>
     get_file_slice mem bi i =
       (if i < length paths then Inr (the (fs (paths ! i))) else Inl AssertFail)"
proof -
  from add_files_holds [OF holds_new assms(1)] assms(2)
  have img: "holds img (map (the \<circ> fs) paths)" by auto
  then show ?thesis
    using get_file_count_loaded [OF img assms(3,4)] get_file_slice_loaded [OF img assms(3,4), of i]
      get_file_slice_out_of_range [OF img assms(3,4), of i]
    by simp
qed

text \<open>
  The image \<open>create_ram_disk\<close> builds is the one \<open>app_test\<close> and \<open>print_logo\<close> expect: file 0 is
  the user program \<open>main\<close>, file 1 the user program \<open>test\<close>, file 2 the picture, each as built for
  the selected profile, and there are no others.
\<close>

lemma create_ram_disk_files:
  assumes "fs (dir @ ''/x86_64-unknown-steelmind_os/'' @ profile @ ''/'' @ ''main'') = Some m"
    and "fs (dir @ ''/x86_64-unknown-steelmind_os/'' @ profile @ ''/'' @ ''test'') = Some t"
    and "fs ''bootimage/test.jpg'' = Some j"
    and "dir = (case target_dir of None \<Rightarrow> ''user_app/target'' | Some d \<Rightarrow> d)"
    and "create_ram_disk H fs target_dir profile = Inr disk"
    and "loaded mem bi disk" "length disk < 2 ^ 64"
  shows "get_file_count mem bi = Inr 3 \<and> get_file_slice mem bi 0 = Inr m \<and>
     get_file_slice mem bi 1 = Inr t \<and> get_file_slice mem bi 2 = Inr j"
proof -
  let ?img = "add_string j (add_string t (add_string m new_image))"
  have disk: "disk = build H ?img"
    using assms(1-5) by (simp add: create_ram_disk_def add_user_app_def add_file_ok)
  have img: "holds ?img [m, t, j]"
    using holds_add_string [OF holds_add_string [OF holds_add_string [OF holds_new]], of j t m] by simp
  show ?thesis
    using get_file_count_loaded [OF img, of mem bi H] get_file_slice_loaded [OF img, of mem bi H] assms(6,7)
    by (simp add: disk)
qed

text \<open>
  The kernel's soundness check accepts a loaded image exactly when it holds no more files
  than bytes of file contents (and is not nearly empty).  In particular an image whose files
  are all non-empty always passes, and one with a single empty file never does.
\<close>

lemma assert_soundness_built:
  assumes "hasher_ok H" "\<forall>p\<in>set paths. fs p \<noteq> None"
    and "foldm (add_file fs) paths new_image = Inr img"
    and "loaded mem bi (build H img)" "length (build H img) < 2 ^ 64"
    and "bytes = length (concat (map (the \<circ> fs) paths))"
  shows "assert_soundness H mem bi = Inr () \<longleftrightarrow>
     9 \<le> 8 * length paths + bytes \<and> length paths \<le> bytes"
proof -
  from add_files_holds [OF holds_new assms(2)] assms(3)
  have img: "holds img (map (the \<circ> fs) paths)" by auto
  show ?thesis
    using assert_soundness_loaded [OF assms(1) img assms(4,5)] assms(6) by simp
qed

subsection \<open>A concrete image\<close>

definition sum_hasher :: "u64 hasher" where
  "sum_hasher = \<lparr>h_default = 0, h_write = (\<lambda>bs c. foldl (\<lambda>c b. c + ucast b) c bs), h_finish = id\<rparr>"

lemma sum_hasher_ok: "hasher_ok sum_hasher"
  by (simp add: hasher_ok_def sum_hasher_def)

definition boot_with_disk :: "u8 list \<Rightarrow> BootInfo" where
  "boot_with_disk disk = \<lparr>memory_regions = [], framebuffer = None, boot_physical_memory_offset = None,
     ramdisk_addr = Some 4096, ramdisk_len = length disk, rsdp_addr = None\<rparr>"

lemma loaded_ex: "loaded (\<lambda>a. disk ! (a - 4096)) (boot_with_disk disk) disk"
  by (simp add: loaded_def boot_with_disk_def ramdisk_u8_slice_def map_nth)

definition fs_ex :: "string \<Rightarrow> u8 list option" where
  "fs_ex p = (if p = ''a'' then Some [1, 2] else if p = ''b'' then Some [3] else Some [4, 5, 6])"

definition img_ex :: Image where
  "img_ex = add_string [3] (add_string [1, 2] new_image)"

lemma img_ex_built: "foldm (add_file fs_ex) [''a'', ''b''] new_image = Inr img_ex"
  by (simp add: img_ex_def fs_ex_def add_file_ok)

lemma img_ex_length: "length (build sum_hasher img_ex) = 43"
  using length_build [of img_ex "[[1, 2], [3]]" sum_hasher] by (simp add: holds_def img_ex_def add_string_def new_image_def Let_def)

theorem ram_disk_roundtrip_witness:
  "let disk = build sum_hasher img_ex; mem = (\<lambda>a. disk ! (a - 4096)); bi = boot_with_disk disk in
     get_file_count mem bi = Inr 2 \<and> get_file_slice mem bi 1 = Inr [3] \<and>
     get_file_slice mem bi 2 = Inl AssertFail"
  using ram_disk_roundtrip [OF _ img_ex_built loaded_ex [of "build sum_hasher img_ex"], of 1]
    ram_disk_roundtrip [OF _ img_ex_built loaded_ex [of "build sum_hasher img_ex"], of 2]
  by (simp add: img_ex_length fs_ex_def Let_def)

lemma assert_soundness_built_witness:
  "let disk = build sum_hasher img_ex in
     assert_soundness sum_hasher (\<lambda>a. disk ! (a - 4096)) (boot_with_disk disk) = Inr ()"
  using assert_soundness_built [OF sum_hasher_ok _ img_ex_built loaded_ex [of "build sum_hasher img_ex"], of 3]
  by (simp add: img_ex_length fs_ex_def Let_def)

lemma create_ram_disk_files_witness:
  "\<exists>disk. create_ram_disk sum_hasher fs_ex None ''opt-dev'' = Inr disk \<and>
     get_file_slice (\<lambda>a. disk ! (a - 4096)) (boot_with_disk disk) 1 = Inr [4, 5, 6]"
proof -
  let ?d = "[4, 5, 6] :: u8 list"
  let ?img = "add_string ?d (add_string ?d (add_string ?d new_image))"
  let ?disk = "build sum_hasher ?img"
  have c: "create_ram_disk sum_hasher fs_ex None ''opt-dev'' = Inr ?disk"
    by (simp add: create_ram_disk_def add_user_app_def fs_ex_def add_file_ok)
  have "length ?disk < 2 ^ 64"
    using length_build [of ?img "[?d, ?d, ?d]" sum_hasher]
    by (simp add: holds_def add_string_def new_image_def Let_def)
  with create_ram_disk_files [OF _ _ _ _ c loaded_ex [of ?disk], of "''user_app/target''" ?d ?d ?d] c
  show ?thesis by (simp add: fs_ex_def)
qed

end
