(* ===== verification/Graphics.thy ===== *)
theory Graphics
  imports X86_Lib "HOL-Library.Signed_Division"
begin

text \<open>
  Colours and window geometry: the types \<open>Color\<close>, \<open>PlacementInfo\<close> and \<open>WindowInfo\<close> of
  kernel/src/terminal_out.rs, and the placement of one window per core,
  \<open>get_window_info_for_core\<close> of kernel/src/common_main.rs.
\<close>

subsection \<open>Colours\<close>

record Color =
  col_r :: u8
  col_g :: u8
  col_b :: u8

definition new_color :: "u8 \<Rightarrow> u8 \<Rightarrow> u8 \<Rightarrow> Color" where
  "new_color r g b = \<lparr>col_r = r, col_g = g, col_b = b\<rparr>"

definition black :: Color where
  "black = \<lparr>col_r = 0, col_g = 0, col_b = 0\<rparr>"

definition white :: Color where
  "white = \<lparr>col_r = 255, col_g = 255, col_b = 255\<rparr>"

text \<open>An \<open>i32\<close> operation panics when its exact result leaves the type.\<close>

definition chk_i32 :: "int \<Rightarrow> int res" where
  "chk_i32 x = (if - (2 ^ 31) \<le> x \<and> x < 2 ^ 31 then Inr x else Inl ArithOverflow)"

text \<open>
  One channel of \<open>lerp\<close>: \<open>(self as i32 + ((other as i32 - self as i32) * alpha as i32) / 1024) as u8\<close>.
  The cast of \<open>alpha\<close> reinterprets the bits, the division truncates towards zero, and the cast
  to \<open>u8\<close> keeps the low byte.
\<close>

definition lerp_channel :: "u8 \<Rightarrow> u8 \<Rightarrow> u32 \<Rightarrow> u8 res" where
  "lerp_channel s o' alpha_1024 =
     bnd (chk_i32 (uint o' - uint s)) (\<lambda>d.
     bnd (chk_i32 (d * sint alpha_1024)) (\<lambda>p.
     bnd (chk_i32 (uint s + p sdiv 1024)) (\<lambda>v.
     Inr (word_of_int v))))"

definition lerp :: "Color \<Rightarrow> Color \<Rightarrow> u32 \<Rightarrow> Color res" where
  "lerp self other alpha_1024 =
     bnd (lerp_channel (col_r self) (col_r other) alpha_1024) (\<lambda>r.
     bnd (lerp_channel (col_g self) (col_g other) alpha_1024) (\<lambda>g.
     bnd (lerp_channel (col_b self) (col_b other) alpha_1024) (\<lambda>b.
     Inr \<lparr>col_r = r, col_g = g, col_b = b\<rparr>)))"

subsection \<open>Windows\<close>

record PlacementInfo =
  x_div :: nat
  y_div :: nat
  x_index :: nat
  y_index :: nat
  x_size :: nat
  y_size :: nat

definition FULL_SCREEN_PLACEMENT :: PlacementInfo where
  "FULL_SCREEN_PLACEMENT = \<lparr>x_div = 1, y_div = 1, x_index = 0, y_index = 0, x_size = 1, y_size = 1\<rparr>"

record WindowInfo =
  byte_offset :: nat
  win_width :: nat
  win_height :: nat
  pixel_format :: PixelFormat
  bytes_per_pixel :: nat
  stride :: nat

definition framebuffer_info :: "BootInfo \<Rightarrow> FrameBufferInfo res" where
  "framebuffer_info bi = bnd (unwrap (framebuffer bi)) (\<lambda>fb. Inr (fb_info fb))"

definition new_window :: "BootInfo \<Rightarrow> nat \<Rightarrow> nat \<Rightarrow> nat \<Rightarrow> nat \<Rightarrow> WindowInfo res" where
  "new_window bi x y w h =
     bnd (framebuffer_info bi) (\<lambda>fb.
     bnd (cadd x w) (\<lambda>xe.
     bnd (ass (xe \<le> fb_width fb)) (\<lambda>_.
     bnd (cadd y h) (\<lambda>ye.
     bnd (ass (ye \<le> fb_width fb)) (\<lambda>_.
     bnd (cmul y (fb_stride fb)) (\<lambda>row.
     bnd (cadd row x) (\<lambda>pixel_offset.
     bnd (cmul pixel_offset (fb_bytes_per_pixel fb)) (\<lambda>offset.
     Inr \<lparr>byte_offset = offset, win_width = w, win_height = h,
          pixel_format = fb_pixel_format fb, bytes_per_pixel = fb_bytes_per_pixel fb,
          stride = fb_stride fb\<rparr>))))))))"

definition from_placement :: "BootInfo \<Rightarrow> PlacementInfo \<Rightarrow> WindowInfo res" where
  "from_placement bi placement =
     bnd (framebuffer_info bi) (\<lambda>fb.
     bnd (cmul (x_index placement) (fb_width fb)) (\<lambda>a.
     bnd (cdiv a (x_div placement)) (\<lambda>start_pixel_x.
     bnd (cadd (x_index placement) (x_size placement)) (\<lambda>b.
     bnd (cmul b (fb_width fb)) (\<lambda>c.
     bnd (cdiv c (x_div placement)) (\<lambda>stop_pixel_x.
     bnd (cmul (y_index placement) (fb_height fb)) (\<lambda>d.
     bnd (cdiv d (y_div placement)) (\<lambda>start_pixel_y.
     bnd (cadd (y_index placement) (y_size placement)) (\<lambda>e.
     bnd (cmul e (fb_height fb)) (\<lambda>f.
     bnd (cdiv f (y_div placement)) (\<lambda>stop_pixel_y.
     bnd (csub stop_pixel_x start_pixel_x) (\<lambda>w.
     bnd (csub stop_pixel_y start_pixel_y) (\<lambda>h.
     new_window bi start_pixel_x start_pixel_y w h)))))))))))))"

definition get_window_info_for_core :: "BootInfo \<Rightarrow> nat \<Rightarrow> nat \<Rightarrow> WindowInfo res" where
  "get_window_info_for_core bi id' count =
     bnd (cadd count 4) (\<lambda>a.
     bnd (csub a 1) (\<lambda>b.
     from_placement bi
       \<lparr>x_div = 4, y_div = b div 4, x_index = id' mod 4, y_index = id' div 4, x_size = 1, y_size = 1\<rparr>))"

subsection \<open>Interpolation\<close>

lemma sdiv_1024_bounds:
  fixes d a :: int
  assumes "0 \<le> a" "a \<le> 1024"
  shows "min 0 d \<le> (d * a) sdiv 1024" and "(d * a) sdiv 1024 \<le> max 0 d"
proof -
  have q: "\<bar>d * a\<bar> div 1024 \<le> \<bar>d\<bar>"
  proof -
    have "\<bar>d * a\<bar> \<le> \<bar>d\<bar> * 1024" using assms by (simp add: abs_mult mult_left_mono)
    then have "\<bar>d * a\<bar> div 1024 \<le> (\<bar>d\<bar> * 1024) div 1024" by (rule zdiv_mono1) simp
    then show ?thesis by simp
  qed
  have nn: "0 \<le> \<bar>d * a\<bar> div 1024" by simp
  have s: "(d * a) sdiv 1024 = sgn (d * a) * (\<bar>d * a\<bar> div 1024)"
    by (simp add: signed_divide_int_def)
  show "min 0 d \<le> (d * a) sdiv 1024" "(d * a) sdiv 1024 \<le> max 0 d"
    unfolding s using q nn assms
    by (auto simp: sgn_if min_def max_def zero_less_mult_iff mult_less_0_iff split: if_splits)
qed

lemma chk_i32_abs: "\<bar>x\<bar> \<le> n \<Longrightarrow> n < 2 ^ 31 \<Longrightarrow> chk_i32 x = Inr x"
  by (simp add: chk_i32_def abs_le_iff)

lemma lerp_channel_ok:
  assumes "alpha \<le> 1024"
  shows "\<exists>c. lerp_channel s o' alpha = Inr c \<and> min s o' \<le> c \<and> c \<le> max s o' \<and>
           (alpha = 0 \<longrightarrow> c = s) \<and> (alpha = 1024 \<longrightarrow> c = o')"
proof -
  have a: "uint alpha \<le> 1024" using assms by (simp add: word_le_def)
  have "- (2 ^ 31) \<le> uint alpha" by (rule order_trans [OF _ uint_ge_0]) simp
  with a have "sint alpha = uint alpha" by (simp add: sint_uint signed_take_bit_int_eq_self_iff)
  define d where "d = uint o' - uint s"
  define v where "v = uint s + (d * uint alpha) sdiv 1024"
  have su: "0 \<le> uint s" "uint s \<le> 255" "0 \<le> uint o'" "uint o' \<le> 255"
    using uint_lt2p [of s] uint_lt2p [of o'] by simp_all
  note q = sdiv_1024_bounds [OF uint_ge_0 a, of d]
  have v: "min (uint s) (uint o') \<le> v" "v \<le> max (uint s) (uint o')"
    using q unfolding v_def d_def by linarith+
  have "\<bar>d\<bar> \<le> 255" using su unfolding d_def by linarith
  then have "\<bar>d * uint alpha\<bar> \<le> 255 * 1024"
    unfolding abs_mult using a by (intro mult_mono) simp_all
  then have "chk_i32 (d * uint alpha) = Inr (d * uint alpha)" by (rule chk_i32_abs) simp
  moreover have "chk_i32 d = Inr d" using \<open>\<bar>d\<bar> \<le> 255\<close> by (rule chk_i32_abs) simp
  moreover have "\<bar>v\<bar> \<le> 255" using v su by linarith
  then have "chk_i32 v = Inr v" by (rule chk_i32_abs) simp
  ultimately have "lerp_channel s o' alpha = Inr (word_of_int v)"
    by (simp add: lerp_channel_def \<open>sint alpha = uint alpha\<close> flip: d_def v_def)
  moreover have "0 \<le> v" "v < 256" using v su by linarith+
  then have "uint (word_of_int v :: u8) = v" by (simp add: uint_word_of_int)
  moreover have "alpha = 0 \<longrightarrow> v = uint s" "alpha = 1024 \<longrightarrow> v = uint o'"
    by (simp_all add: v_def d_def signed_divide_int_def sgn_if abs_mult)
  ultimately show ?thesis using v
    by (intro exI [of _ "word_of_int v"])
      (auto simp: word_le_def min_def max_def word_uint_eq_iff split: if_splits)
qed

lemma lerp_ok: "alpha \<le> 1024 \<Longrightarrow> \<exists>c. lerp a b alpha = Inr c"
proof -
  assume "alpha \<le> 1024"
  then obtain r g bl where "lerp_channel (col_r a) (col_r b) alpha = Inr r"
    "lerp_channel (col_g a) (col_g b) alpha = Inr g" "lerp_channel (col_b a) (col_b b) alpha = Inr bl"
    using lerp_channel_ok by meson
  then show ?thesis by (simp add: lerp_def)
qed

text \<open>
  For a weight of at most 1024, interpolation never overflows; every channel of the result
  lies between the channels of the two colours, and the ends of the scale return the two
  colours themselves.
\<close>

lemma lerp_between:
  assumes "alpha \<le> 1024"
  shows "\<exists>c. lerp a b alpha = Inr c \<and>
     min (col_r a) (col_r b) \<le> col_r c \<and> col_r c \<le> max (col_r a) (col_r b) \<and>
     min (col_g a) (col_g b) \<le> col_g c \<and> col_g c \<le> max (col_g a) (col_g b) \<and>
     min (col_b a) (col_b b) \<le> col_b c \<and> col_b c \<le> max (col_b a) (col_b b) \<and>
     (alpha = 0 \<longrightarrow> c = a) \<and> (alpha = 1024 \<longrightarrow> c = b)"
proof -
  obtain r where r: "lerp_channel (col_r a) (col_r b) alpha = Inr r"
      "min (col_r a) (col_r b) \<le> r" "r \<le> max (col_r a) (col_r b)"
      "alpha = 0 \<longrightarrow> r = col_r a" "alpha = 1024 \<longrightarrow> r = col_r b"
    using lerp_channel_ok [OF assms] by blast
  obtain g where g: "lerp_channel (col_g a) (col_g b) alpha = Inr g"
      "min (col_g a) (col_g b) \<le> g" "g \<le> max (col_g a) (col_g b)"
      "alpha = 0 \<longrightarrow> g = col_g a" "alpha = 1024 \<longrightarrow> g = col_g b"
    using lerp_channel_ok [OF assms] by blast
  obtain bl where bl: "lerp_channel (col_b a) (col_b b) alpha = Inr bl"
      "min (col_b a) (col_b b) \<le> bl" "bl \<le> max (col_b a) (col_b b)"
      "alpha = 0 \<longrightarrow> bl = col_b a" "alpha = 1024 \<longrightarrow> bl = col_b b"
    using lerp_channel_ok [OF assms] by blast
  from r(1) g(1) bl(1) have "lerp a b alpha = Inr \<lparr>col_r = r, col_g = g, col_b = bl\<rparr>"
    by (simp add: lerp_def)
  with r g bl show ?thesis by simp
qed

lemma lerp_between_witness:
  "\<exists>c. lerp black white 512 = Inr c \<and> col_r c \<le> 255"
  using lerp_between [of 512 black white] by (auto simp: black_def white_def)

subsection \<open>Where a window lies\<close>

text \<open>
  A frame buffer whose rows hold at least the visible pixels and whose size computations stay
  within a machine word.  \<open>landscape\<close> is what \<open>WindowInfo::new\<close> actually requires of it: its
  second assertion compares the lower edge of the window with the width of the screen.
\<close>

definition fb_sane :: "FrameBufferInfo \<Rightarrow> bool" where
  "fb_sane fb \<longleftrightarrow>
     fb_width fb \<le> fb_stride fb \<and>
     (fb_stride fb * (fb_height fb + 1) + fb_stride fb) * (fb_bytes_per_pixel fb + 1) < 2 ^ 64"

definition landscape :: "FrameBufferInfo \<Rightarrow> bool" where
  "landscape fb \<longleftrightarrow> fb_height fb \<le> fb_width fb"

text \<open>The edges of a placement: columns \<open>left\<close> to \<open>right\<close>, rows \<open>top\<close> to \<open>bottom\<close> (exclusive).\<close>

definition left_edge :: "FrameBufferInfo \<Rightarrow> PlacementInfo \<Rightarrow> nat" where
  "left_edge fb p = x_index p * fb_width fb div x_div p"

definition right_edge :: "FrameBufferInfo \<Rightarrow> PlacementInfo \<Rightarrow> nat" where
  "right_edge fb p = (x_index p + x_size p) * fb_width fb div x_div p"

definition top_edge :: "FrameBufferInfo \<Rightarrow> PlacementInfo \<Rightarrow> nat" where
  "top_edge fb p = y_index p * fb_height fb div y_div p"

definition bottom_edge :: "FrameBufferInfo \<Rightarrow> PlacementInfo \<Rightarrow> nat" where
  "bottom_edge fb p = (y_index p + y_size p) * fb_height fb div y_div p"

definition window_of :: "FrameBufferInfo \<Rightarrow> PlacementInfo \<Rightarrow> WindowInfo" where
  "window_of fb p =
     \<lparr>byte_offset = (top_edge fb p * fb_stride fb + left_edge fb p) * fb_bytes_per_pixel fb,
      win_width = right_edge fb p - left_edge fb p, win_height = bottom_edge fb p - top_edge fb p,
      pixel_format = fb_pixel_format fb, bytes_per_pixel = fb_bytes_per_pixel fb,
      stride = fb_stride fb\<rparr>"

definition placement_fits :: "FrameBufferInfo \<Rightarrow> PlacementInfo \<Rightarrow> bool" where
  "placement_fits fb p \<longleftrightarrow>
     0 < x_div p \<and> 0 < y_div p \<and> x_index p + x_size p \<le> x_div p \<and> y_index p + y_size p \<le> y_div p \<and>
     x_div p < 2 ^ 64 \<and> y_div p < 2 ^ 64 \<and>
     x_div p * fb_width fb < 2 ^ 64 \<and> y_div p * fb_height fb < 2 ^ 64"

lemma scaled_le:
  assumes "(n :: nat) \<le> d" "0 < d"
  shows "n * w div d \<le> w"
proof -
  have "n * w \<le> d * w" using assms(1) by (rule mult_le_mono1)
  then have "n * w div d \<le> d * w div d" by (rule div_le_mono)
  then show ?thesis using assms(2) by simp
qed

lemma edges:
  assumes "placement_fits fb p"
  shows "left_edge fb p \<le> right_edge fb p" "right_edge fb p \<le> fb_width fb"
    and "top_edge fb p \<le> bottom_edge fb p" "bottom_edge fb p \<le> fb_height fb"
  using assms
  by (auto simp: placement_fits_def left_edge_def right_edge_def top_edge_def bottom_edge_def
      intro!: div_le_mono mult_le_mono1 scaled_le)

lemma new_window_ok:
  assumes "framebuffer bi = Some fb0" "fb = fb_info fb0" "fb_sane fb"
    and "x + w \<le> fb_width fb" "y + h \<le> fb_width fb" "y \<le> fb_height fb"
  shows "new_window bi x y w h =
    Inr \<lparr>byte_offset = (y * fb_stride fb + x) * fb_bytes_per_pixel fb, win_width = w, win_height = h,
          pixel_format = fb_pixel_format fb, bytes_per_pixel = fb_bytes_per_pixel fb,
          stride = fb_stride fb\<rparr>"
proof -
  let ?S = "fb_stride fb" and ?B = "fb_bytes_per_pixel fb" and ?H = "fb_height fb"
  let ?T = "?S * (?H + 1) + ?S"
  have sane: "fb_width fb \<le> ?S" "?T * (?B + 1) < 2 ^ 64"
    using assms(3) by (simp_all add: fb_sane_def)
  have "y * ?S \<le> ?H * ?S" using assms(6) by (rule mult_le_mono1)
  moreover have "?T = ?H * ?S + ?S + ?S" by (simp add: algebra_simps)
  ultimately have o1: "y * ?S + x \<le> ?T" using sane(1) assms(4) by linarith
  have o2: "(y * ?S + x) * ?B \<le> ?T * (?B + 1)" using o1 by (intro mult_le_mono) simp_all
  have o3: "?T \<le> ?T * (?B + 1)" by simp
  have o4: "?S \<le> ?T" by simp
  have "x + w < 2 ^ 64" "y + h < 2 ^ 64" "y * ?S < 2 ^ 64" "y * ?S + x < 2 ^ 64"
    "(y * ?S + x) * ?B < 2 ^ 64"
    using o1 o2 o3 o4 sane assms(4,5) by linarith+
  with assms show ?thesis by (simp add: new_window_def framebuffer_info_def)
qed

lemma from_placement_ok:
  assumes "framebuffer bi = Some fb0" "fb = fb_info fb0" "fb_sane fb" "landscape fb"
    and "placement_fits fb p"
  shows "from_placement bi p = Inr (window_of fb p)"
proof -
  note e = edges [OF assms(5)]
  have d: "0 < x_div p" "0 < y_div p" "x_index p + x_size p < 2 ^ 64" "y_index p + y_size p < 2 ^ 64"
    using assms(5) by (auto simp: placement_fits_def)
  have "(x_index p + x_size p) * fb_width fb \<le> x_div p * fb_width fb"
    "(y_index p + y_size p) * fb_height fb \<le> y_div p * fb_height fb"
    using assms(5) by (auto simp: placement_fits_def intro!: mult_le_mono1)
  moreover have "x_index p * fb_width fb \<le> (x_index p + x_size p) * fb_width fb"
    "y_index p * fb_height fb \<le> (y_index p + y_size p) * fb_height fb"
    by (auto intro!: mult_le_mono1)
  ultimately have m: "(x_index p + x_size p) * fb_width fb < 2 ^ 64"
    "(y_index p + y_size p) * fb_height fb < 2 ^ 64"
    "x_index p * fb_width fb < 2 ^ 64" "y_index p * fb_height fb < 2 ^ 64"
    using assms(5) unfolding placement_fits_def by linarith+
  have "from_placement bi p = new_window bi (left_edge fb p) (top_edge fb p)
      (right_edge fb p - left_edge fb p) (bottom_edge fb p - top_edge fb p)"
    using assms(1,2) d m e(1,3)
    by (simp add: from_placement_def framebuffer_info_def left_edge_def right_edge_def top_edge_def
        bottom_edge_def)
  also have "\<dots> = Inr (window_of fb p)"
    using e assms(4) unfolding window_of_def landscape_def
    by (intro new_window_ok [OF assms(1-3)]) simp_all
  finally show ?thesis .
qed

subsection \<open>The bytes of a window\<close>

definition window_bytes :: "WindowInfo \<Rightarrow> nat set" where
  "window_bytes w = {a. \<exists>x y k. x < win_width w \<and> y < win_height w \<and> k < bytes_per_pixel w \<and>
     a = byte_offset w + pixel_byte (stride w) (bytes_per_pixel w) x y k}"

lemma pixel_byte_shift:
  "(y0 * s + x0) * b + pixel_byte s b x y k = pixel_byte s b (x0 + x) (y0 + y) k"
  by (simp add: pixel_byte_def algebra_simps)

lemma window_bytes_window_of:
  assumes "placement_fits fb p" "a \<in> window_bytes (window_of fb p)"
  obtains x y k where "left_edge fb p \<le> x" "x < right_edge fb p" "top_edge fb p \<le> y"
    "y < bottom_edge fb p" "k < fb_bytes_per_pixel fb"
    "a = pixel_byte (fb_stride fb) (fb_bytes_per_pixel fb) x y k"
proof -
  from assms(2) obtain x y k where "x < right_edge fb p - left_edge fb p"
      "y < bottom_edge fb p - top_edge fb p" "k < fb_bytes_per_pixel fb"
      "a = pixel_byte (fb_stride fb) (fb_bytes_per_pixel fb) (left_edge fb p + x) (top_edge fb p + y) k"
    by (auto simp: window_bytes_def window_of_def pixel_byte_shift)
  then show thesis by (intro that) auto
qed

lemma window_bytes_inside:
  assumes "fb_sane fb" "placement_fits fb p" "a \<in> window_bytes (window_of fb p)"
  shows "a < fb_stride fb * fb_height fb * fb_bytes_per_pixel fb"
proof -
  obtain x y k where "x < right_edge fb p" "y < bottom_edge fb p" "k < fb_bytes_per_pixel fb"
    and a: "a = pixel_byte (fb_stride fb) (fb_bytes_per_pixel fb) x y k"
    using window_bytes_window_of [OF assms(2,3)] by blast
  moreover have "right_edge fb p \<le> fb_stride fb" "bottom_edge fb p \<le> fb_height fb"
    using edges [OF assms(2)] assms(1) by (auto simp: fb_sane_def)
  ultimately show ?thesis unfolding a by (intro pixel_byte_less) auto
qed

lemma window_bytes_disjoint:
  assumes "fb_sane fb" "placement_fits fb p" "placement_fits fb q"
    and "right_edge fb p \<le> left_edge fb q \<or> right_edge fb q \<le> left_edge fb p \<or>
         bottom_edge fb p \<le> top_edge fb q \<or> bottom_edge fb q \<le> top_edge fb p"
  shows "window_bytes (window_of fb p) \<inter> window_bytes (window_of fb q) = {}"
proof -
  have "False" if A: "a \<in> window_bytes (window_of fb p)" "a \<in> window_bytes (window_of fb q)" for a
  proof -
    obtain x y k where p: "left_edge fb p \<le> x" "x < right_edge fb p" "top_edge fb p \<le> y"
        "y < bottom_edge fb p" "k < fb_bytes_per_pixel fb"
        "a = pixel_byte (fb_stride fb) (fb_bytes_per_pixel fb) x y k"
      by (rule window_bytes_window_of [OF assms(2) A(1)])
    obtain x' y' k' where q: "left_edge fb q \<le> x'" "x' < right_edge fb q" "top_edge fb q \<le> y'"
        "y' < bottom_edge fb q" "k' < fb_bytes_per_pixel fb"
        "a = pixel_byte (fb_stride fb) (fb_bytes_per_pixel fb) x' y' k'"
      by (rule window_bytes_window_of [OF assms(3) A(2)])
    have "x < fb_stride fb" "x' < fb_stride fb"
      using p q edges [OF assms(2)] edges [OF assms(3)] assms(1) by (auto simp: fb_sane_def)
    with p q have "x = x' \<and> y = y'" by (metis pixel_byte_inj)
    with p q assms(4) show False by auto
  qed
  then show ?thesis by blast
qed

subsection \<open>One window per core\<close>

definition core_placement :: "nat \<Rightarrow> nat \<Rightarrow> PlacementInfo" where
  "core_placement id' count =
     \<lparr>x_div = 4, y_div = (count + 3) div 4, x_index = id' mod 4, y_index = id' div 4,
      x_size = 1, y_size = 1\<rparr>"

lemma core_placement_fits:
  assumes "id' < 4 * ((count + 3) div 4)" "count < 2 ^ 32" "fb_width fb < 2 ^ 31" "fb_height fb < 2 ^ 31"
  shows "placement_fits fb (core_placement id' count)"
proof -
  let ?d = "(count + 3) div 4"
  have "?d < 2 ^ 32" using assms(2) by simp
  then have "?d * fb_height fb \<le> 2 ^ 32 * 2 ^ 31" using assms(4) by (intro mult_le_mono) simp_all
  moreover have "id' div 4 < ?d" using assms(1) by (simp add: less_mult_imp_div_less)
  moreover have "id' mod 4 < 4" by simp
  ultimately show ?thesis using assms by (simp add: placement_fits_def core_placement_def) linarith
qed

lemma get_window_info_for_core_eq:
  "count + 4 < 2 ^ 64 \<Longrightarrow> get_window_info_for_core bi id' count = from_placement bi (core_placement id' count)"
  by (simp add: get_window_info_for_core_def core_placement_def add.commute)

lemma core_edges_apart:
  assumes "id' \<noteq> id''" "p = core_placement id' count" "q = core_placement id'' count"
  shows "right_edge fb p \<le> left_edge fb q \<or> right_edge fb q \<le> left_edge fb p \<or>
         bottom_edge fb p \<le> top_edge fb q \<or> bottom_edge fb q \<le> top_edge fb p"
proof -
  have sc: "(m + 1) * w div d \<le> n * w div d" if "m < n" for m n w d :: nat
    using that by (intro div_le_mono mult_le_mono1) simp
  have "id' mod 4 \<noteq> id'' mod 4 \<or> id' div 4 \<noteq> id'' div 4"
    using assms(1) by (metis div_mult_mod_eq)
  then consider "id' mod 4 < id'' mod 4" | "id'' mod 4 < id' mod 4"
    | "id' div 4 < id'' div 4" | "id'' div 4 < id' div 4" by linarith
  then show ?thesis
    by cases (use sc assms(2,3) in
      \<open>auto simp: core_placement_def left_edge_def right_edge_def top_edge_def bottom_edge_def\<close>)
qed

subsection \<open>Properties\<close>

text \<open>
  On a landscape screen every placement that fits its grid gives a window whose pixels all
  lie in the visible part of the frame buffer.
\<close>

lemma from_placement_inside:
  assumes "framebuffer bi = Some fb0" "fb_sane (fb_info fb0)" "landscape (fb_info fb0)"
    and "placement_fits (fb_info fb0) p"
  shows "\<exists>w. from_placement bi p = Inr w \<and>
     win_width w = right_edge (fb_info fb0) p - left_edge (fb_info fb0) p \<and>
     win_height w = bottom_edge (fb_info fb0) p - top_edge (fb_info fb0) p \<and>
     (\<forall>a \<in> window_bytes w. a < fb_stride (fb_info fb0) * fb_height (fb_info fb0) * fb_bytes_per_pixel (fb_info fb0))"
  using from_placement_ok [OF assms(1) refl assms(2-4)] window_bytes_inside [OF assms(2,4)]
  by (auto simp: window_of_def)

text \<open>
  The windows of two different cores share no byte of the frame buffer, for all core
  numbers below the next multiple of four above the number of application processors.
\<close>

lemma core_windows_disjoint:
  assumes "framebuffer bi = Some fb0" "fb_sane (fb_info fb0)" "landscape (fb_info fb0)"
    and "fb_width (fb_info fb0) < 2 ^ 31" "count < 2 ^ 32"
    and "i < 4 * ((count + 3) div 4)" "j < 4 * ((count + 3) div 4)" "i \<noteq> j"
  shows "\<exists>w v. get_window_info_for_core bi i count = Inr w \<and>
     get_window_info_for_core bi j count = Inr v \<and> window_bytes w \<inter> window_bytes v = {}"
proof -
  let ?fb = "fb_info fb0" and ?p = "core_placement i count" and ?q = "core_placement j count"
  have h: "fb_height ?fb < 2 ^ 31" using assms(3,4) by (simp add: landscape_def)
  have fits: "placement_fits ?fb ?p" "placement_fits ?fb ?q"
    using assms(4-7) h by (auto intro!: core_placement_fits)
  then have "from_placement bi ?p = Inr (window_of ?fb ?p)" "from_placement bi ?q = Inr (window_of ?fb ?q)"
    using assms(1-3) by (auto intro!: from_placement_ok)
  moreover have "window_bytes (window_of ?fb ?p) \<inter> window_bytes (window_of ?fb ?q) = {}"
    by (rule window_bytes_disjoint [OF assms(2) fits core_edges_apart [OF assms(8) refl refl]])
  ultimately show ?thesis using assms(5) by (simp add: get_window_info_for_core_eq)
qed

text \<open>
  The core with number \<open>n\<close> of a machine with \<open>n\<close> application processors has no window on the
  screen when \<open>n\<close> is a positive multiple of four: the top edge of its placement is the bottom of
  the screen, so whenever the construction returns, no pixel of its window is a pixel of the
  frame buffer.
\<close>

lemma last_core_window_off_screen:
  assumes "framebuffer bi = Some fb0" "count = 4 * n" "0 < n" "count + 4 < 2 ^ 64"
    and "get_window_info_for_core bi count count = Inr w" "a \<in> window_bytes w"
  shows "fb_stride (fb_info fb0) * fb_height (fb_info fb0) * fb_bytes_per_pixel (fb_info fb0) \<le> a"
proof -
  let ?fb = "fb_info fb0"
  have d: "(count + 3) div 4 = n" "count div 4 = n" "count mod 4 = 0" using assms(2) by simp_all
  have fp: "from_placement bi (core_placement count count) = Inr w"
    using assms(4,5) by (simp add: get_window_info_for_core_eq)
  then have "byte_offset w = (fb_height ?fb * fb_stride ?fb) * fb_bytes_per_pixel ?fb"
    using assms(1,3)
    by (auto simp: from_placement_def new_window_def framebuffer_info_def core_placement_def d res_simps)
  then show ?thesis using assms(6) by (auto simp: window_bytes_def mult.commute)
qed

text \<open>
  On a screen that is higher than wide the full-screen window cannot be built: the check of
  the lower edge compares it with the width of the frame buffer and panics.
\<close>

lemma full_screen_portrait_panics:
  assumes "framebuffer bi = Some fb0" "fb_width (fb_info fb0) < fb_height (fb_info fb0)"
    and "fb_height (fb_info fb0) < 2 ^ 64"
  shows "from_placement bi FULL_SCREEN_PLACEMENT = Inl AssertFail"
  using assms
  by (simp add: from_placement_def new_window_def framebuffer_info_def FULL_SCREEN_PLACEMENT_def)

subsection \<open>Concrete screens\<close>

definition screen :: "nat \<Rightarrow> nat \<Rightarrow> BootInfo" where
  "screen w h = \<lparr>memory_regions = [],
     framebuffer = Some \<lparr>fb_buffer_start = 4096, fb_info = \<lparr>fb_byte_len = w * h * 3, fb_width = w,
       fb_height = h, fb_pixel_format = Rgb, fb_bytes_per_pixel = 3, fb_stride = w\<rparr>\<rparr>,
     boot_physical_memory_offset = None, ramdisk_addr = None, ramdisk_len = 0, rsdp_addr = None\<rparr>"

lemma from_placement_inside_witness:
  "\<exists>w. from_placement (screen 1280 720) FULL_SCREEN_PLACEMENT = Inr w \<and>
     win_width w = 1280 \<and> win_height w = 720 \<and> (\<forall>a \<in> window_bytes w. a < 1280 * 720 * 3)"
  using from_placement_inside [of "screen 1280 720" _ FULL_SCREEN_PLACEMENT]
  by (simp add: screen_def fb_sane_def landscape_def placement_fits_def FULL_SCREEN_PLACEMENT_def
      right_edge_def left_edge_def top_edge_def bottom_edge_def)

lemma core_windows_disjoint_witness:
  "\<exists>w v. get_window_info_for_core (screen 1280 720) 1 3 = Inr w \<and>
     get_window_info_for_core (screen 1280 720) 2 3 = Inr v \<and> window_bytes w \<inter> window_bytes v = {}"
  using core_windows_disjoint [of "screen 1280 720" _ 3 1 2]
  by (simp add: screen_def fb_sane_def landscape_def)

text \<open>On a 1280x720 screen and eight application processors the construction does return.\<close>

lemma last_core_window_off_screen_witness:
  "\<exists>w. get_window_info_for_core (screen 1280 720) 8 8 = Inr w \<and>
     byte_offset w \<in> window_bytes w \<and> 1280 * 720 * 3 \<le> byte_offset w"
proof -
  let ?w = "\<lparr>byte_offset = 1280 * 720 * 3, win_width = 320, win_height = 360, pixel_format = Rgb,
     bytes_per_pixel = 3, stride = 1280\<rparr>"
  have w: "get_window_info_for_core (screen 1280 720) 8 8 = Inr ?w"
    by (simp add: get_window_info_for_core_def from_placement_def new_window_def framebuffer_info_def screen_def)
  moreover have m: "byte_offset ?w \<in> window_bytes ?w"
    by (auto simp: window_bytes_def pixel_byte_def intro!: exI [of _ 0])
  moreover have "1280 * 720 * 3 \<le> byte_offset ?w"
    using last_core_window_off_screen [OF _ _ _ _ w m, of "the (framebuffer (screen 1280 720))" 2]
    by (simp add: screen_def)
  ultimately show ?thesis by blast
qed

lemma full_screen_portrait_panics_witness:
  "from_placement (screen 720 1280) FULL_SCREEN_PLACEMENT = Inl AssertFail"
  using full_screen_portrait_panics [of "screen 720 1280"] by (simp add: screen_def)

end
