(* ===== verification/Surface.thy ===== *)
theory Surface
  imports Graphics
begin

text \<open>
  The interface between the pixel writer and everything that draws: a surface of \<open>w\<close> by \<open>h\<close>
  pixels, on which writing one pixel inside the bounds returns, shows the encoded colour there,
  and changes neither another pixel of the surface nor anything outside it.  The lemma \<open>paint\<close>,
  proved from these laws, gives the effect of a loop that writes many pixels.
\<close>

locale pixel_surface =
  fixes put :: "nat \<Rightarrow> nat \<Rightarrow> Color \<Rightarrow> 'm \<Rightarrow> 'm res"
    and pix :: "'m \<Rightarrow> nat \<Rightarrow> nat \<Rightarrow> u8 list"
    and enc :: "Color \<Rightarrow> u8 list"
    and rest :: "'m \<Rightarrow> 'r"
    and w h :: nat
    and usable :: bool
  assumes put_ok: "usable \<Longrightarrow> x < w \<Longrightarrow> y < h \<Longrightarrow>
      \<exists>m'. put x y c m = Inr m' \<and> pix m' x y = enc c \<and>
        (\<forall>x' y'. x' < w \<longrightarrow> y' < h \<longrightarrow> (x', y') \<noteq> (x, y) \<longrightarrow> pix m' x' y' = pix m x' y') \<and>
        rest m' = rest m"
begin

text \<open>The effect of writing the pixels \<open>(X i, Y i)\<close> with the colours \<open>K i\<close>, for all \<open>i\<close> in a list.\<close>

definition painted :: "('i \<Rightarrow> nat) \<Rightarrow> ('i \<Rightarrow> nat) \<Rightarrow> ('i \<Rightarrow> Color) \<Rightarrow> 'i set \<Rightarrow> 'm \<Rightarrow> 'm \<Rightarrow> bool" where
  "painted X Y K I m m' \<longleftrightarrow>
     (\<forall>i\<in>I. pix m' (X i) (Y i) = enc (K i)) \<and>
     (\<forall>x y. x < w \<longrightarrow> y < h \<longrightarrow> (x, y) \<notin> (\<lambda>i. (X i, Y i)) ` I \<longrightarrow> pix m' x y = pix m x y) \<and>
     rest m' = rest m"

lemma paint:
  assumes "usable" "\<forall>i\<in>set is. X i < w \<and> Y i < h" "distinct (map (\<lambda>i. (X i, Y i)) is)"
  shows "\<exists>m'. foldm (\<lambda>i. put (X i) (Y i) (K i)) is m = Inr m' \<and> painted X Y K (set is) m m'"
  using assms(2-)
proof (induction "is" arbitrary: m)
  case Nil
  show ?case by (simp add: painted_def)
next
  case (Cons i "is")
  from Cons.prems(1) obtain m1 where
    m1: "put (X i) (Y i) (K i) m = Inr m1" "pix m1 (X i) (Y i) = enc (K i)" "rest m1 = rest m"
      "\<forall>x' y'. x' < w \<longrightarrow> y' < h \<longrightarrow> (x', y') \<noteq> (X i, Y i) \<longrightarrow> pix m1 x' y' = pix m x' y'"
    using put_ok [OF assms(1), of "X i" "Y i" "K i" m] by auto
  from Cons.IH [of m1] Cons.prems obtain m2 where
    m2: "foldm (\<lambda>i. put (X i) (Y i) (K i)) is m1 = Inr m2" "painted X Y K (set is) m1 m2" by auto
  have "painted X Y K (set (i # is)) m m2"
    using m1(2-) m2(2) Cons.prems by (auto simp: painted_def)
  with m1(1) m2(1) show ?case by auto
qed

end

end
