(* ===== verification/Terminal.thy ===== *)
theory Terminal
  imports Surface
begin

text \<open>
  The text terminal of kernel/src/terminal_out.rs: struct \<open>TerminalWriter\<close> and its methods.

  A writer draws into a slice of virtual memory; the memory is an explicit byte store, because
  several writers share one buffer.  The fonts come from the crate noto-sans-mono-bitmap and
  are a parameter (the record \<open>font\<close>).  A character is its code point.
\<close>

subsection \<open>The font library\<close>

datatype FontWeight = Light | Regular | Bold

datatype FontSize = Size16 | Size20 | Size24 | Size32

record font =
  f_get_raster :: "nat \<Rightarrow> FontWeight \<Rightarrow> FontSize \<Rightarrow> u8 list list option"
  f_raster_width :: "FontWeight \<Rightarrow> FontSize \<Rightarrow> nat"
  f_size_val :: "FontSize \<Rightarrow> nat"

text \<open>
  Documented behaviour: a rasterised character has as many rows as its size says and as many
  columns as \<open>get_raster_width\<close> says; sizes are their numerical value; the replacement character
  is available in every weight and size; no character has width 0.
\<close>

definition font_ok :: "font \<Rightarrow> bool" where
  "font_ok F \<longleftrightarrow>
     (\<forall>c wt sz r. f_get_raster F c wt sz = Some r \<longrightarrow>
        length r = f_size_val F sz \<and> (\<forall>row\<in>set r. length row = f_raster_width F wt sz)) \<and>
     (\<forall>wt sz. f_get_raster F 65533 wt sz \<noteq> None) \<and>
     (\<forall>wt sz. 0 < f_raster_width F wt sz) \<and>
     f_size_val F Size16 = 16 \<and> f_size_val F Size20 = 20 \<and> f_size_val F Size24 = 24 \<and>
     f_size_val F Size32 = 32"

subsection \<open>State\<close>

definition LINE_SPACING :: nat where "LINE_SPACING = 0"
definition LETTER_SPACING :: nat where "LETTER_SPACING = 0"
definition SIDE_PADDING :: nat where "SIDE_PADDING = 0"
definition TAB_SIZE :: nat where "TAB_SIZE = 4"

lemmas spacing_defs [simp] = LINE_SPACING_def LETTER_SPACING_def SIDE_PADDING_def TAB_SIZE_def

type_synonym vmem = "nat \<Rightarrow> u8"

text \<open>A slice is its start address and its length.\<close>

record TerminalWriter =
  buffer_base_ptr :: nat
  tw_buffer :: "nat \<times> nat"
  tw_info :: WindowInfo
  x_pos :: nat
  y_pos :: nat
  font_height :: FontSize
  line_height :: nat
  font_weight :: FontWeight
  foreground :: Color
  background :: Color
  clear_color :: Color

type_synonym tstate = "TerminalWriter \<times> vmem"

definition construct_buffer :: "nat \<Rightarrow> WindowInfo \<Rightarrow> (nat \<times> nat) res" where
  "construct_buffer base info =
     bnd (cmul (stride info) (win_height info)) (\<lambda>a.
     bnd (cmul a (bytes_per_pixel info)) (\<lambda>len.
     Inr (base + byte_offset info, len)))"

definition new_terminal :: "BootInfo \<Rightarrow> WindowInfo \<Rightarrow> TerminalWriter res" where
  "new_terminal bi info =
     bnd (unwrap (framebuffer bi)) (\<lambda>fb.
     bnd (construct_buffer (fb_buffer_start fb) info) (\<lambda>buf.
     Inr \<lparr>buffer_base_ptr = fb_buffer_start fb, tw_buffer = buf, tw_info = info,
          x_pos = 0, y_pos = 0, font_height = Size24, line_height = 24 + LETTER_SPACING,
          font_weight = Regular, foreground = white, background = black,
          clear_color = new_color 70 60 60\<rparr>))"

subsection \<open>Pixels\<close>

definition buf_write :: "nat \<times> nat \<Rightarrow> nat \<Rightarrow> u8 \<Rightarrow> vmem \<Rightarrow> vmem res" where
  "buf_write = (\<lambda>(p, len) i v m. if i < len then Inr (m(p + i := v)) else Inl IndexOut)"

definition write_pixel :: "TerminalWriter \<Rightarrow> nat \<Rightarrow> nat \<Rightarrow> Color \<Rightarrow> vmem \<Rightarrow> vmem res" where
  "write_pixel self x y color m =
     (let info = tw_info self; buf = tw_buffer self in
      bnd (cmul y (stride info)) (\<lambda>row.
      bnd (cadd row x) (\<lambda>pixel_offset.
      bnd (cmul pixel_offset (bytes_per_pixel info)) (\<lambda>offset.
      case pixel_format info of
        Rgb \<Rightarrow>
          bnd (buf_write buf offset (col_r color) m) (\<lambda>m.
          bnd (cadd offset 1) (\<lambda>o1. bnd (buf_write buf o1 (col_g color) m) (\<lambda>m.
          bnd (cadd offset 2) (\<lambda>o2. buf_write buf o2 (col_b color) m))))
      | Bgr \<Rightarrow>
          bnd (buf_write buf offset (col_b color) m) (\<lambda>m.
          bnd (cadd offset 1) (\<lambda>o1. bnd (buf_write buf o1 (col_g color) m) (\<lambda>m.
          bnd (cadd offset 2) (\<lambda>o2. buf_write buf o2 (col_r color) m))))
      | _ \<Rightarrow>
          buf_write buf offset
            (ucast ((ucast (col_r color) + ucast (col_g color) + ucast (col_b color) :: u16) div 3)) m))))"

subsection \<open>Cursor movement and clearing\<close>

definition clear :: "font \<Rightarrow> FontSize option \<Rightarrow> tstate \<Rightarrow> tstate res" where
  "clear F new_size = (\<lambda>(self, m).
     let self = self\<lparr>x_pos := 0, y_pos := 0\<rparr> in
     bnd (foldm (\<lambda>y. foldm (\<lambda>x. write_pixel self x y (clear_color self)) [0..<win_width (tw_info self)])
            [0..<win_height (tw_info self)] m) (\<lambda>m.
     Inr (case new_size of
            None \<Rightarrow> self
          | Some sz \<Rightarrow> self\<lparr>font_height := sz, line_height := f_size_val F sz + LINE_SPACING\<rparr>, m)))"

text \<open>The mark that \<open>set_window_info\<close> prints on the serial port is left out: a writer has no device.\<close>

definition set_window_info :: "font \<Rightarrow> WindowInfo \<Rightarrow> FontSize option \<Rightarrow> tstate \<Rightarrow> tstate res" where
  "set_window_info F info new_size = (\<lambda>(self, m).
     bnd (construct_buffer (buffer_base_ptr self) info) (\<lambda>buf.
     clear F new_size (self\<lparr>tw_info := info, tw_buffer := buf\<rparr>, m)))"

definition carriage_return :: "TerminalWriter \<Rightarrow> TerminalWriter" where
  "carriage_return self = self\<lparr>x_pos := 0\<rparr>"

text \<open>The colour of the checkerboard that \<open>newline\<close> draws ahead of the cursor.\<close>

definition checker_color :: "TerminalWriter \<Rightarrow> nat \<Rightarrow> nat \<Rightarrow> Color res" where
  "checker_color self x y =
     bnd (cadd x y) (\<lambda>s.
     Inr (if s mod 2 = 0 then clear_color self
          else new_color (col_r (clear_color self) div 2) (col_g (clear_color self) div 2)
                 (col_b (clear_color self) div 2)))"

definition newline_cursor :: "TerminalWriter \<Rightarrow> TerminalWriter res" where
  "newline_cursor self =
     bnd (cadd (y_pos self) (line_height self)) (\<lambda>y.
     let self = carriage_return (self\<lparr>y_pos := y\<rparr>) in
     bnd (cadd (y_pos self) (line_height self)) (\<lambda>e.
     Inr (if e > win_height (tw_info self)
          then self\<lparr>y_pos := 0,
                 clear_color := new_color (col_b (clear_color self)) (col_r (clear_color self))
                                  (col_g (clear_color self))\<rparr>
          else self)))"

definition newline :: "tstate \<Rightarrow> tstate res" where
  "newline = (\<lambda>(self, m).
     bnd (newline_cursor self) (\<lambda>self.
     bnd (cmul (line_height self) 2) (\<lambda>d.
     bnd (cadd (y_pos self) d) (\<lambda>e.
     bnd (foldm (\<lambda>y. foldm (\<lambda>x m. bnd (checker_color self x y) (\<lambda>c. write_pixel self x y c m))
                       [0..<win_width (tw_info self)])
            [y_pos self..<min e (win_height (tw_info self))] m) (\<lambda>m.
     Inr (self, m))))))"

subsection \<open>Characters\<close>

definition get_rasterized_char :: "font \<Rightarrow> TerminalWriter \<Rightarrow> nat \<Rightarrow> (u8 list list \<times> nat) res" where
  "get_rasterized_char F self c =
     bnd (case f_get_raster F c (font_weight self) (font_height self) of
            Some r \<Rightarrow> Inr r
          | None \<Rightarrow> unwrap (f_get_raster F 65533 (font_weight self) (font_height self))) (\<lambda>r.
     Inr (r, f_raster_width F (font_weight self) (font_height self)))"

definition print_rasterized_char :: "TerminalWriter \<Rightarrow> u8 list list \<Rightarrow> vmem \<Rightarrow> vmem res" where
  "print_rasterized_char self raster =
     foldm (\<lambda>(y, row). foldm (\<lambda>(x, byte) m.
       bnd (lerp (background self) (foreground self) (ucast byte * 1024 div 255)) (\<lambda>color.
       bnd (cadd (x_pos self) x) (\<lambda>px.
       bnd (cadd (y_pos self) y) (\<lambda>py.
       write_pixel self px py color m)))) (enumerate 0 row)) (enumerate 0 raster)"

definition write_raw_char :: "font \<Rightarrow> nat \<Rightarrow> tstate \<Rightarrow> tstate res" where
  "write_raw_char F c = (\<lambda>(self, m).
     bnd (get_rasterized_char F self c) (\<lambda>(rasterized_char, char_width).
     let self = (if x_pos self = 0 then self\<lparr>x_pos := SIDE_PADDING\<rparr> else self) in
     bnd (cadd (x_pos self) char_width) (\<lambda>e.
     bnd (csub (win_width (tw_info self)) SIDE_PADDING) (\<lambda>limit.
     bnd (if e \<ge> limit then newline (self, m) else Inr (self, m)) (\<lambda>(self, m).
     bnd (print_rasterized_char self rasterized_char m) (\<lambda>m.
     bnd (cadd char_width LETTER_SPACING) (\<lambda>d.
     bnd (cadd (x_pos self) d) (\<lambda>x.
     Inr (self\<lparr>x_pos := x\<rparr>, m)))))))))"

definition tab_spaces :: "font \<Rightarrow> TerminalWriter \<Rightarrow> nat res" where
  "tab_spaces F self =
     (if x_pos self = 0 then Inr 4
      else bnd (cadd (f_raster_width F (font_weight self) (font_height self)) LETTER_SPACING) (\<lambda>char_width.
           bnd (csub (x_pos self) SIDE_PADDING) (\<lambda>x.
           bnd (cdiv x char_width) (\<lambda>char_count.
           bnd (cadd char_count 1) (\<lambda>a.
           bnd (cadd a TAB_SIZE) (\<lambda>b.
           bnd (csub b 1) (\<lambda>c.
           bnd (cmul (c div TAB_SIZE) TAB_SIZE) (\<lambda>final_char_count.
           csub final_char_count char_count))))))))"

definition tab :: "font \<Rightarrow> tstate \<Rightarrow> tstate res" where
  "tab F s = bnd (tab_spaces F (fst s)) (\<lambda>n. foldm (\<lambda>_. write_raw_char F 32) [0..<n] s)"

definition write_char :: "font \<Rightarrow> nat \<Rightarrow> tstate \<Rightarrow> tstate res" where
  "write_char F c s =
     (if c = 10 then newline s
      else if c = 13 then Inr (carriage_return (fst s), snd s)
      else if c = 9 then tab F s
      else write_raw_char F c s)"

definition write_str :: "font \<Rightarrow> nat list \<Rightarrow> tstate \<Rightarrow> tstate res" where
  "write_str F s = foldm (write_char F) s"

subsection \<open>Images\<close>

text \<open>
  One row of \<open>print_pixels\<close>: the colours left over, and whether the iterator ran out.  Columns
  right of the window are skipped.
\<close>

fun print_row ::
  "TerminalWriter \<Rightarrow> nat \<Rightarrow> nat \<Rightarrow> nat list \<Rightarrow> Color list \<Rightarrow> vmem \<Rightarrow> (Color list \<times> bool \<times> vmem) res"
where
  "print_row self x_offset y_offset [] colors m = Inr (colors, False, m)"
| "print_row self x_offset y_offset (x # xs) [] m = Inr ([], True, m)"
| "print_row self x_offset y_offset (x # xs) (color # colors) m =
     bnd (cadd x x_offset) (\<lambda>px.
     if px \<ge> win_width (tw_info self) then print_row self x_offset y_offset xs colors m
     else bnd (cadd (y_pos self) y_offset) (\<lambda>py.
          bnd (write_pixel self px py color m) (\<lambda>m.
          print_row self x_offset y_offset xs colors m)))"

text \<open>The outer loop; \<open>None\<close> means that it never ends.\<close>

partial_function (option) print_loop ::
  "nat \<Rightarrow> nat \<Rightarrow> nat \<Rightarrow> Color list \<Rightarrow> tstate \<Rightarrow> (nat \<times> tstate) res option"
where
  "print_loop w x_offset y_offset colors s =
     (case print_row (fst s) x_offset y_offset [0..<w] colors (snd s) of
        Inl e \<Rightarrow> Some (Inl e)
      | Inr (colors', ran_out, m) \<Rightarrow>
          if ran_out then Some (Inr (y_offset, fst s, m))
          else (case cadd y_offset 1 of
                  Inl e \<Rightarrow> Some (Inl e)
                | Inr y_offset' \<Rightarrow>
                    if y_offset' \<ge> line_height (fst s)
                    then (case newline (fst s, m) of
                            Inl e \<Rightarrow> Some (Inl e)
                          | Inr s' \<Rightarrow> print_loop w x_offset 0 colors' s')
                    else print_loop w x_offset y_offset' colors' (fst s, m)))"

definition print_pixels :: "nat \<Rightarrow> Color list \<Rightarrow> tstate \<Rightarrow> tstate res option" where
  "print_pixels w colors s =
     (case print_loop w (x_pos (fst s)) 0 colors s of
        None \<Rightarrow> None
      | Some (Inl e) \<Rightarrow> Some (Inl e)
      | Some (Inr (y_offset, s')) \<Rightarrow> Some (if y_offset \<noteq> 0 then newline s' else Inr s'))"

subsection \<open>The writer's buffer is a pixel surface\<close>

definition channels :: "PixelFormat \<Rightarrow> nat" where
  "channels fmt = (case fmt of Rgb \<Rightarrow> 3 | Bgr \<Rightarrow> 3 | _ \<Rightarrow> 1)"

text \<open>The bytes that show a colour.\<close>

definition encode :: "PixelFormat \<Rightarrow> Color \<Rightarrow> u8 list" where
  "encode fmt c =
     (case fmt of
        Rgb \<Rightarrow> [col_r c, col_g c, col_b c]
      | Bgr \<Rightarrow> [col_b c, col_g c, col_r c]
      | _ \<Rightarrow> [ucast ((ucast (col_r c) + ucast (col_g c) + ucast (col_b c) :: u16) div 3)])"

definition pixel_addr :: "TerminalWriter \<Rightarrow> nat \<Rightarrow> nat \<Rightarrow> nat \<Rightarrow> nat" where
  "pixel_addr t x y k =
     fst (tw_buffer t) + pixel_byte (stride (tw_info t)) (bytes_per_pixel (tw_info t)) x y k"

definition pix_bytes :: "TerminalWriter \<Rightarrow> vmem \<Rightarrow> nat \<Rightarrow> nat \<Rightarrow> u8 list" where
  "pix_bytes t m x y = map (\<lambda>k. m (pixel_addr t x y k)) [0..<channels (pixel_format (tw_info t))]"

definition win_addrs :: "TerminalWriter \<Rightarrow> nat set" where
  "win_addrs t = {a. \<exists>x y k. x < win_width (tw_info t) \<and> y < win_height (tw_info t) \<and>
     k < bytes_per_pixel (tw_info t) \<and> a = pixel_addr t x y k}"

definition outside :: "TerminalWriter \<Rightarrow> vmem \<Rightarrow> vmem" where
  "outside t m = (\<lambda>a. if a \<in> win_addrs t then 0 else m a)"

definition surface_ok :: "TerminalWriter \<Rightarrow> bool" where
  "surface_ok t \<longleftrightarrow>
     win_width (tw_info t) \<le> stride (tw_info t) \<and>
     channels (pixel_format (tw_info t)) \<le> bytes_per_pixel (tw_info t) \<and>
     stride (tw_info t) * win_height (tw_info t) * bytes_per_pixel (tw_info t) \<le> snd (tw_buffer t) \<and>
     snd (tw_buffer t) < 2 ^ 64"

lemma channels_pos [simp]: "0 < channels fmt"
  by (simp add: channels_def split: PixelFormat.split)

lemma length_encode [simp]: "length (encode fmt c) = channels fmt"
  by (simp add: encode_def channels_def split: PixelFormat.split)

primrec store :: "nat \<Rightarrow> u8 list \<Rightarrow> vmem \<Rightarrow> vmem" where
  "store a [] m = m"
| "store a (b # bs) m = store (Suc a) bs (m(a := b))"

lemma store_apply:
  "store a bs m c = (if a \<le> c \<and> c < a + length bs then bs ! (c - a) else m c)"
  by (induction bs arbitrary: a m) (auto simp: nth_Cons' Suc_le_eq)

lemma pixel_addr_Suc: "pixel_addr t x y k = pixel_addr t x y 0 + k"
  by (simp add: pixel_addr_def pixel_byte_def)

lemma write_pixel_eq:
  assumes "surface_ok t" "x < win_width (tw_info t)" "y < win_height (tw_info t)"
  shows "write_pixel t x y c m =
    Inr (store (pixel_addr t x y 0) (encode (pixel_format (tw_info t)) c) m)"
proof -
  let ?i = "tw_info t"
  obtain p len where buf: "tw_buffer t = (p, len)" by (cases "tw_buffer t")
  define q where "q = y * stride ?i + x"
  define o' where "o' = q * bytes_per_pixel ?i"
  have b: "channels (pixel_format ?i) \<le> bytes_per_pixel ?i" "len < 2 ^ 64"
    using assms(1) buf by (simp_all add: surface_ok_def)
  have k: "o' + k < len" if "k < channels (pixel_format ?i)" for k
    using pixel_byte_less [of x "stride ?i" y "win_height ?i" k "bytes_per_pixel ?i"] assms that b buf
    by (simp add: surface_ok_def pixel_byte_def o'_def q_def)
  have "1 \<le> bytes_per_pixel ?i" using b channels_pos [of "pixel_format ?i"] by linarith
  then have "q \<le> o'" unfolding o'_def by (metis mult.right_neutral mult_le_mono2)
  moreover have "o' < 2 ^ 64" using k [of 0] b by simp
  ultimately have o: "y * stride ?i < 2 ^ 64" "q < 2 ^ 64" "o' < 2 ^ 64"
    unfolding q_def by linarith+
  have pa: "pixel_addr t x y 0 = p + o'" by (simp add: pixel_addr_def pixel_byte_def buf o'_def q_def)
  have s: "cmul y (stride ?i) = Inr (y * stride ?i)" "cadd (y * stride ?i) x = Inr q"
    "cmul q (bytes_per_pixel ?i) = Inr o'"
    using o by (simp_all add: q_def o'_def)
  show ?thesis
    using k [of 0] k [of 1] k [of 2] b(2)
    by (cases "pixel_format ?i")
      (simp_all add: write_pixel_def Let_def s buf pa buf_write_def channels_def encode_def numeral_2_eq_2)
qed

lemma pixel_addr_inj:
  assumes "surface_ok t" "x < win_width (tw_info t)" "x' < win_width (tw_info t)"
    and "k < bytes_per_pixel (tw_info t)" "k' < bytes_per_pixel (tw_info t)"
    and "pixel_addr t x y k = pixel_addr t x' y' k'"
  shows "x = x' \<and> y = y' \<and> k = k'"
  using assms pixel_byte_inj [of "stride (tw_info t)" "bytes_per_pixel (tw_info t)" x y k x' y' k']
  by (simp add: pixel_addr_def surface_ok_def)

text \<open>What \<open>store\<close> at a pixel does to the byte of a (possibly different) pixel.\<close>

lemma store_pixel:
  assumes "surface_ok t" "x < win_width (tw_info t)" "x' < win_width (tw_info t)"
    and "k < bytes_per_pixel (tw_info t)"
    and "length bs = channels (pixel_format (tw_info t))"
  shows "store (pixel_addr t x y 0) bs m (pixel_addr t x' y' k) =
    (if x' = x \<and> y' = y \<and> k < length bs then bs ! k else m (pixel_addr t x' y' k))"
proof (cases "x' = x \<and> y' = y")
  case True
  then show ?thesis by (simp add: store_apply pixel_addr_Suc [of t x y k])
next
  case False
  have "\<not> (pixel_addr t x y 0 \<le> pixel_addr t x' y' k \<and>
           pixel_addr t x' y' k < pixel_addr t x y 0 + length bs)"
  proof
    assume A: "pixel_addr t x y 0 \<le> pixel_addr t x' y' k \<and>
           pixel_addr t x' y' k < pixel_addr t x y 0 + length bs"
    define j where "j = pixel_addr t x' y' k - pixel_addr t x y 0"
    have "pixel_addr t x' y' k = pixel_addr t x y j" and "j < length bs"
      using A pixel_addr_Suc [of t x y j] by (auto simp: j_def)
    moreover have "j < bytes_per_pixel (tw_info t)"
      using \<open>j < length bs\<close> assms(1,5) by (simp add: surface_ok_def)
    ultimately show False using pixel_addr_inj [OF assms(1) assms(3,2) assms(4)] False by blast
  qed
  then have "store (pixel_addr t x y 0) bs m (pixel_addr t x' y' k) = m (pixel_addr t x' y' k)"
    by (simp only: store_apply if_False)
  with False show ?thesis by auto
qed

lemma outside_store:
  assumes "surface_ok t" "x < win_width (tw_info t)" "y < win_height (tw_info t)"
    and "length bs = channels (pixel_format (tw_info t))"
  shows "outside t (store (pixel_addr t x y 0) bs m) = outside t m"
proof
  fix a
  have "a \<in> win_addrs t" if "pixel_addr t x y 0 \<le> a" "a < pixel_addr t x y 0 + length bs"
  proof -
    have "a = pixel_addr t x y (a - pixel_addr t x y 0)"
      using that pixel_addr_Suc [of t x y "a - pixel_addr t x y 0"] by simp
    moreover have "a - pixel_addr t x y 0 < bytes_per_pixel (tw_info t)"
      using that assms(1,4) unfolding surface_ok_def by linarith
    ultimately show ?thesis using assms(2,3) unfolding win_addrs_def by blast
  qed
  then show "outside t (store (pixel_addr t x y 0) bs m) a = outside t m a"
    by (auto simp: outside_def store_apply)
qed

interpretation tw: pixel_surface "write_pixel t" "pix_bytes t" "encode (pixel_format (tw_info t))"
  "outside t" "win_width (tw_info t)" "win_height (tw_info t)" "surface_ok t" for t
proof
  fix x y c m
  assume ok: "surface_ok t" and x: "x < win_width (tw_info t)" and y: "y < win_height (tw_info t)"
  let ?e = "encode (pixel_format (tw_info t)) c"
  let ?m = "store (pixel_addr t x y 0) ?e m"
  have ch: "k < bytes_per_pixel (tw_info t)" if "k < channels (pixel_format (tw_info t))" for k
    using ok that by (simp add: surface_ok_def)
  have "pix_bytes t ?m x y = ?e"
    using store_pixel [OF ok x x, of _ ?e y m y] ch
    by (auto simp: pix_bytes_def intro!: nth_equalityI)
  moreover have "pix_bytes t ?m x' y' = pix_bytes t m x' y'"
    if "x' < win_width (tw_info t)" "(x', y') \<noteq> (x, y)" for x' y'
    using store_pixel [OF ok x that(1), of _ ?e y m y'] ch that(2) by (auto simp: pix_bytes_def)
  ultimately show "\<exists>m'. write_pixel t x y c m = Inr m' \<and> pix_bytes t m' x y = ?e \<and>
      (\<forall>x' y'. x' < win_width (tw_info t) \<longrightarrow> y' < win_height (tw_info t) \<longrightarrow> (x', y') \<noteq> (x, y) \<longrightarrow>
         pix_bytes t m' x' y' = pix_bytes t m x' y') \<and> outside t m' = outside t m"
    using write_pixel_eq [OF ok x y] outside_store [OF ok x y, of ?e m] by auto
qed

subsection \<open>Painting loops\<close>

text \<open>Two writers with the same window and buffer see the same pixels.\<close>

definition same_canvas :: "TerminalWriter \<Rightarrow> TerminalWriter \<Rightarrow> bool" where
  "same_canvas t t' \<longleftrightarrow> tw_info t' = tw_info t \<and> tw_buffer t' = tw_buffer t"

lemma same_canvas_refl [simp]: "same_canvas t t"
  by (simp add: same_canvas_def)

lemma same_canvas_trans: "same_canvas t u \<Longrightarrow> same_canvas u v \<Longrightarrow> same_canvas t v"
  by (simp add: same_canvas_def)

lemma same_canvas_simps:
  assumes "same_canvas t t'"
  shows "tw_info t' = tw_info t" "tw_buffer t' = tw_buffer t" "surface_ok t' = surface_ok t"
    and "pix_bytes t' = pix_bytes t" "outside t' = outside t" "win_addrs t' = win_addrs t"
  using assms
  by (auto simp: same_canvas_def surface_ok_def pix_bytes_def pixel_addr_def outside_def
      win_addrs_def fun_eq_iff)

text \<open>Writing the pixels of the columns \<open>0..<w\<close> in the rows \<open>a..<b\<close>, with the colours \<open>K x y\<close>.\<close>

lemma paint_rows:
  assumes "surface_ok t" "b \<le> win_height (tw_info t)"
    and "\<And>x y m. x < win_width (tw_info t) \<Longrightarrow> y < b \<Longrightarrow> f y x m = write_pixel t x y (K x y) m"
  shows "\<exists>m'. foldm (\<lambda>y. foldm (\<lambda>x. f y x) [0..<win_width (tw_info t)]) [a..<b] m = Inr m' \<and>
    (\<forall>x y. x < win_width (tw_info t) \<longrightarrow> a \<le> y \<longrightarrow> y < b \<longrightarrow>
       pix_bytes t m' x y = encode (pixel_format (tw_info t)) (K x y)) \<and>
    (\<forall>x y. x < win_width (tw_info t) \<longrightarrow> y < win_height (tw_info t) \<longrightarrow> \<not> (a \<le> y \<and> y < b) \<longrightarrow>
       pix_bytes t m' x y = pix_bytes t m x y) \<and>
    outside t m' = outside t m"
proof -
  let ?w = "win_width (tw_info t)"
  let ?is = "concat (map (\<lambda>y. map (Pair y) [0..<?w]) [a..<b])"
  have set: "set ?is = {a..<b} \<times> {0..<?w}" by auto
  have "inj_on (\<lambda>i. (snd i, fst i)) (set ?is)" by (auto simp: inj_on_def)
  then have "distinct (map (\<lambda>i. (snd i, fst i)) ?is)"
    by (simp add: distinct_map distinct_pairs)
  moreover have "\<forall>i\<in>set ?is. snd i < ?w \<and> fst i < win_height (tw_info t)"
    using assms(2) unfolding set by auto
  ultimately obtain m' where
    m': "foldm (\<lambda>i. write_pixel t (snd i) (fst i) (K (snd i) (fst i))) ?is m = Inr m'"
      "tw.painted t snd fst (\<lambda>i. K (snd i) (fst i)) (set ?is) m m'"
    using tw.paint [OF assms(1), of ?is snd fst "\<lambda>i. K (snd i) (fst i)" m] by blast
  have "foldm (\<lambda>y. foldm (\<lambda>x. f y x) [0..<?w]) [a..<b] m = foldm (\<lambda>i. f (fst i) (snd i)) ?is m"
    by (simp add: foldm_concat foldm_map)
  also have "\<dots> = foldm (\<lambda>i. write_pixel t (snd i) (fst i) (K (snd i) (fst i))) ?is m"
    using assms(3) by (intro foldm_cong) auto
  finally show ?thesis using m' unfolding tw.painted_def set by (auto simp: image_iff)
qed

subsection \<open>The invariant\<close>

text \<open>
  A terminal is well formed when its window lies in its buffer and is large enough for one line
  of one character, and its cursor leaves room for the current line.
\<close>

definition term_ok :: "font \<Rightarrow> TerminalWriter \<Rightarrow> bool" where
  "term_ok F t \<longleftrightarrow>
     surface_ok t \<and> win_width (tw_info t) < 2 ^ 62 \<and> win_height (tw_info t) < 2 ^ 62 \<and>
     line_height t = f_size_val F (font_height t) \<and>
     (\<forall>wt. f_raster_width F wt (font_height t) \<le> win_width (tw_info t)) \<and>
     x_pos t \<le> win_width (tw_info t) \<and> y_pos t + line_height t \<le> win_height (tw_info t)"

text \<open>What every drawing operation keeps: the invariant, the canvas, the settings, the rest of memory.\<close>

definition keeps :: "font \<Rightarrow> tstate \<Rightarrow> tstate \<Rightarrow> bool" where
  "keeps F s s' \<longleftrightarrow>
     term_ok F (fst s') \<and> same_canvas (fst s) (fst s') \<and>
     buffer_base_ptr (fst s') = buffer_base_ptr (fst s) \<and>
     font_height (fst s') = font_height (fst s) \<and> font_weight (fst s') = font_weight (fst s) \<and>
     foreground (fst s') = foreground (fst s) \<and> background (fst s') = background (fst s) \<and>
     outside (fst s) (snd s') = outside (fst s) (snd s)"

lemma keeps_refl: "term_ok F (fst s) \<Longrightarrow> keeps F s s"
  by (simp add: keeps_def)

lemma keeps_trans:
  assumes "keeps F s s'" "keeps F s' s''"
  shows "keeps F s s''"
proof -
  from assms(1) have "outside (fst s') = outside (fst s)"
    by (intro same_canvas_simps) (simp add: keeps_def)
  with assms show ?thesis by (auto simp: keeps_def intro: same_canvas_trans)
qed

lemma keeps_term_ok: "keeps F s s' \<Longrightarrow> term_ok F (fst s')"
  by (simp add: keeps_def)

subsection \<open>Clearing and starting a new line\<close>

lemma clear_ok:
  assumes "surface_ok t"
  shows "\<exists>m'. clear F sz (t, m) =
       Inr (case sz of
              None \<Rightarrow> t\<lparr>x_pos := 0, y_pos := 0\<rparr>
            | Some s \<Rightarrow> t\<lparr>x_pos := 0, y_pos := 0, font_height := s, line_height := f_size_val F s\<rparr>, m') \<and>
     (\<forall>x y. x < win_width (tw_info t) \<longrightarrow> y < win_height (tw_info t) \<longrightarrow>
        pix_bytes t m' x y = encode (pixel_format (tw_info t)) (clear_color t)) \<and>
     outside t m' = outside t m"
proof -
  let ?t = "t\<lparr>x_pos := 0, y_pos := 0\<rparr>"
  have c: "same_canvas t ?t" by (simp add: same_canvas_def)
  then have "surface_ok ?t" using assms by (simp add: same_canvas_simps)
  from paint_rows [OF this order_refl, of "\<lambda>y x. write_pixel ?t x y (clear_color ?t)"
      "\<lambda>_ _. clear_color ?t" 0 m]
  obtain m' where
    "foldm (\<lambda>y. foldm (\<lambda>x. write_pixel ?t x y (clear_color ?t)) [0..<win_width (tw_info ?t)])
       [0..<win_height (tw_info ?t)] m = Inr m'"
    "\<forall>x y. x < win_width (tw_info t) \<longrightarrow> y < win_height (tw_info t) \<longrightarrow>
        pix_bytes t m' x y = encode (pixel_format (tw_info t)) (clear_color t)"
    "outside t m' = outside t m"
    using same_canvas_simps [OF c] by auto
  then show ?thesis by (cases sz) (auto simp: clear_def)
qed

text \<open>The cursor and the background colour after \<open>newline\<close>.\<close>

definition next_line :: "TerminalWriter \<Rightarrow> TerminalWriter" where
  "next_line t =
     (if y_pos t + line_height t + line_height t > win_height (tw_info t)
      then t\<lparr>x_pos := 0, y_pos := 0,
             clear_color := new_color (col_b (clear_color t)) (col_r (clear_color t)) (col_g (clear_color t))\<rparr>
      else t\<lparr>x_pos := 0, y_pos := y_pos t + line_height t\<rparr>)"

definition checker :: "TerminalWriter \<Rightarrow> nat \<Rightarrow> nat \<Rightarrow> Color" where
  "checker t x y =
     (if (x + y) mod 2 = 0 then clear_color t
      else new_color (col_r (clear_color t) div 2) (col_g (clear_color t) div 2) (col_b (clear_color t) div 2))"

lemma next_line_canvas: "same_canvas t (next_line t)"
  by (simp add: same_canvas_def next_line_def)

lemma next_line_term_ok: "term_ok F t \<Longrightarrow> term_ok F (next_line t)"
  using same_canvas_simps [OF next_line_canvas [of t]]
  by (auto simp: term_ok_def next_line_def)

lemma newline_ok:
  assumes "term_ok F t"
  shows "\<exists>m'. newline (t, m) = Inr (next_line t, m') \<and> keeps F (t, m) (next_line t, m') \<and>
     (\<forall>x y. x < win_width (tw_info t) \<longrightarrow> y < win_height (tw_info t) \<longrightarrow>
        pix_bytes t m' x y =
          (if y_pos (next_line t) \<le> y \<and> y < y_pos (next_line t) + 2 * line_height t
           then encode (pixel_format (tw_info t)) (checker (next_line t) x y)
           else pix_bytes t m x y))"
proof -
  let ?n = "next_line t" and ?w = "win_width (tw_info t)" and ?h = "win_height (tw_info t)"
  let ?b = "min (y_pos ?n + line_height t * 2) ?h"
  note c = same_canvas_simps [OF next_line_canvas [of t]]
  have lh: "line_height t \<le> ?h" "?h < 2 ^ 62" "?w < 2 ^ 62" "y_pos t \<le> ?h"
    using assms by (simp_all add: term_ok_def)
  have nok: "term_ok F ?n" by (rule next_line_term_ok [OF assms])
  have ln: "line_height ?n = line_height t" by (simp add: next_line_def)
  have yn: "y_pos ?n \<le> ?h" using nok c(1) by (simp add: term_ok_def)
  have cur: "newline_cursor t = Inr ?n"
    using lh by (simp add: newline_cursor_def carriage_return_def next_line_def)
  have chk: "checker_color ?n x y = Inr (checker ?n x y)" if "x < ?w" "y < ?b" for x y
    using that lh by (simp add: checker_color_def checker_def)
  have "surface_ok ?n" using assms c(3) by (simp add: term_ok_def)
  then obtain m' where m':
    "foldm (\<lambda>y. foldm (\<lambda>x m. bnd (checker_color ?n x y) (\<lambda>c. write_pixel ?n x y c m)) [0..<?w])
       [y_pos ?n..<?b] m = Inr m'"
    "\<forall>x y. x < ?w \<longrightarrow> y_pos ?n \<le> y \<longrightarrow> y < ?b \<longrightarrow>
       pix_bytes t m' x y = encode (pixel_format (tw_info t)) (checker ?n x y)"
    "\<forall>x y. x < ?w \<longrightarrow> y < ?h \<longrightarrow> \<not> (y_pos ?n \<le> y \<and> y < ?b) \<longrightarrow> pix_bytes t m' x y = pix_bytes t m x y"
    "outside t m' = outside t m"
    using paint_rows [of ?n ?b "\<lambda>y x m. bnd (checker_color ?n x y) (\<lambda>c. write_pixel ?n x y c m)"
        "checker ?n" "y_pos ?n" m] chk c by auto
  have "newline (t, m) = Inr (?n, m')"
    using m'(1) lh yn by (simp add: newline_def cur ln c)
  moreover have "keeps F (t, m) (?n, m')"
    using nok m'(4) next_line_canvas [of t] by (simp add: keeps_def next_line_def)
  ultimately show ?thesis using m'(2,3) by (auto simp: mult.commute)
qed

end
