(* ===== verification/Terminal_Text.thy ===== *)
theory Terminal_Text
  imports Terminal
begin

text \<open>
  Printing text with the terminal of kernel/src/terminal_out.rs: what one character draws, that
  every character keeps the terminal's invariant and stays inside its window, and the same for
  strings, tabulators and pictures.
\<close>

subsection \<open>Drawing one glyph\<close>

lemma paint_box:
  assumes "surface_ok t" "x0 + W \<le> win_width (tw_info t)" "y0 + H \<le> win_height (tw_info t)"
    and "\<And>x y m. x < W \<Longrightarrow> y < H \<Longrightarrow> f y x m = write_pixel t (x0 + x) (y0 + y) (K x y) m"
  shows "\<exists>m'. foldm (\<lambda>y. foldm (\<lambda>x. f y x) [0..<W]) [0..<H] m = Inr m' \<and>
    (\<forall>x y. x < W \<longrightarrow> y < H \<longrightarrow>
       pix_bytes t m' (x0 + x) (y0 + y) = encode (pixel_format (tw_info t)) (K x y)) \<and>
    (\<forall>x y. x < win_width (tw_info t) \<longrightarrow> y < win_height (tw_info t) \<longrightarrow>
       \<not> (x0 \<le> x \<and> x < x0 + W \<and> y0 \<le> y \<and> y < y0 + H) \<longrightarrow>
       pix_bytes t m' x y = pix_bytes t m x y) \<and>
    outside t m' = outside t m"
proof -
  let ?is = "concat (map (\<lambda>y. map (Pair y) [0..<W]) [0..<H])"
  let ?X = "\<lambda>i :: nat \<times> nat. x0 + snd i" and ?Y = "\<lambda>i :: nat \<times> nat. y0 + fst i"
  let ?K = "\<lambda>i :: nat \<times> nat. K (snd i) (fst i)"
  have set: "set ?is = {0..<H} \<times> {0..<W}" by auto
  have "inj_on (\<lambda>i. (?X i, ?Y i)) (set ?is)" by (auto simp: inj_on_def)
  then have "distinct (map (\<lambda>i. (?X i, ?Y i)) ?is)" by (simp add: distinct_map distinct_pairs)
  moreover have "\<forall>i\<in>set ?is. ?X i < win_width (tw_info t) \<and> ?Y i < win_height (tw_info t)"
    using assms(2,3) unfolding set by auto
  ultimately obtain m' where
    m': "foldm (\<lambda>i. write_pixel t (?X i) (?Y i) (?K i)) ?is m = Inr m'"
      "tw.painted t ?X ?Y ?K (set ?is) m m'"
    using tw.paint [OF assms(1), of ?is ?X ?Y ?K m] by blast
  have "foldm (\<lambda>y. foldm (\<lambda>x. f y x) [0..<W]) [0..<H] m = foldm (\<lambda>i. f (fst i) (snd i)) ?is m"
    by (simp add: foldm_concat foldm_map)
  also have "\<dots> = foldm (\<lambda>i. write_pixel t (?X i) (?Y i) (?K i)) ?is m"
    using assms(4) by (intro foldm_cong) auto
  finally have "foldm (\<lambda>y. foldm (\<lambda>x. f y x) [0..<W]) [0..<H] m = Inr m'" using m'(1) by simp
  moreover have "(x, y) \<notin> (\<lambda>i. (?X i, ?Y i)) ` set ?is"
    if "\<not> (x0 \<le> x \<and> x < x0 + W \<and> y0 \<le> y \<and> y < y0 + H)" for x y
    using that unfolding set by auto
  ultimately show ?thesis using m'(2) unfolding tw.painted_def set by fastforce
qed

text \<open>The colour a raster byte is drawn in.\<close>

definition glyph_color :: "TerminalWriter \<Rightarrow> u8 \<Rightarrow> Color" where
  "glyph_color t byte =
     (case lerp (background t) (foreground t) (ucast byte * 1024 div 255) of Inr c \<Rightarrow> c | Inl _ \<Rightarrow> black)"

lemma unat_of_nat_u8: "unat (b :: u8) < 256"
  using unsigned_less [of b] by simp

lemma raster_alpha: "(ucast (b :: u8) * 1024 div 255 :: u32) \<le> 1024"
proof -
  have b: "unat b \<le> 255" using unat_of_nat_u8 [of b] by simp
  have "unat (ucast b :: u32) = unat b"
    using b by (simp add: unsigned_ucast_eq take_bit_nat_eq_self)
  then have "unat (ucast b * 1024 :: u32) = unat b * 1024"
    using b by (simp add: unat_word_ariths)
  then have "unat (ucast b * 1024 div 255 :: u32) = unat b * 1024 div 255"
    by (simp add: unat_div)
  also have "\<dots> \<le> 1024" using b by simp
  finally show ?thesis by (simp add: word_le_nat_alt)
qed

lemma lerp_glyph:
  "lerp (background t) (foreground t) (ucast (b :: u8) * 1024 div 255) = Inr (glyph_color t b)"
  using lerp_ok [OF raster_alpha [of b], of "background t" "foreground t"]
  by (auto simp: glyph_color_def)

lemma enumerate_upt: "enumerate 0 xs = map (\<lambda>i. (i, xs ! i)) [0..<length xs]"
  by (rule nth_equalityI) (simp_all add: nth_enumerate_eq)

lemma print_rasterized_char_ok:
  assumes "surface_ok t" "win_width (tw_info t) < 2 ^ 62" "win_height (tw_info t) < 2 ^ 62"
    and "\<forall>row\<in>set r. length row = W"
    and "x_pos t + W \<le> win_width (tw_info t)" "y_pos t + length r \<le> win_height (tw_info t)"
  shows "\<exists>m'. print_rasterized_char t r m = Inr m' \<and>
    (\<forall>x y. x < W \<longrightarrow> y < length r \<longrightarrow>
       pix_bytes t m' (x_pos t + x) (y_pos t + y) =
         encode (pixel_format (tw_info t)) (glyph_color t (r ! y ! x))) \<and>
    (\<forall>x y. x < win_width (tw_info t) \<longrightarrow> y < win_height (tw_info t) \<longrightarrow>
       \<not> (x_pos t \<le> x \<and> x < x_pos t + W \<and> y_pos t \<le> y \<and> y < y_pos t + length r) \<longrightarrow>
       pix_bytes t m' x y = pix_bytes t m x y) \<and>
    outside t m' = outside t m"
proof -
  let ?f = "\<lambda>y x m. bnd (cadd (x_pos t) x) (\<lambda>px. bnd (cadd (y_pos t) y) (\<lambda>py.
     write_pixel t px py (glyph_color t (r ! y ! x)) m))"
  have "print_rasterized_char t r m = foldm (\<lambda>y. foldm (\<lambda>x. ?f y x) [0..<W]) [0..<length r] m"
    unfolding print_rasterized_char_def enumerate_upt foldm_map
    using assms(4) by (intro foldm_cong) (simp_all add: lerp_glyph)
  then show ?thesis
    using paint_box [OF assms(1,5,6), of ?f "\<lambda>x y. glyph_color t (r ! y ! x)" m] assms(2-)
    by simp
qed

subsection \<open>One character\<close>

text \<open>The raster and the width of the character that is drawn for the code point \<open>c\<close>.\<close>

definition glyph :: "font \<Rightarrow> TerminalWriter \<Rightarrow> nat \<Rightarrow> u8 list list" where
  "glyph F t c =
     (case f_get_raster F c (font_weight t) (font_height t) of
        Some r \<Rightarrow> r
      | None \<Rightarrow> (case f_get_raster F 65533 (font_weight t) (font_height t) of Some r \<Rightarrow> r | None \<Rightarrow> []))"

abbreviation char_width :: "font \<Rightarrow> TerminalWriter \<Rightarrow> nat" where
  "char_width F t \<equiv> f_raster_width F (font_weight t) (font_height t)"

text \<open>The writer when the glyph is drawn: on the current line if the character fits, else on the next.\<close>

definition wrap :: "font \<Rightarrow> TerminalWriter \<Rightarrow> TerminalWriter" where
  "wrap F t = (if x_pos t + char_width F t \<ge> win_width (tw_info t) then next_line t else t)"

lemma get_rasterized_char_ok:
  assumes "font_ok F"
  shows "get_rasterized_char F t c = Inr (glyph F t c, char_width F t)"
    and "length (glyph F t c) = f_size_val F (font_height t)"
    and "\<forall>row\<in>set (glyph F t c). length row = char_width F t"
proof -
  obtain r where "f_get_raster F 65533 (font_weight t) (font_height t) = Some r"
    using assms unfolding font_ok_def by (metis not_None_eq)
  then show "get_rasterized_char F t c = Inr (glyph F t c, char_width F t)"
    and "length (glyph F t c) = f_size_val F (font_height t)"
    and "\<forall>row\<in>set (glyph F t c). length row = char_width F t"
    using assms by (auto simp: get_rasterized_char_def glyph_def font_ok_def split: option.splits)
qed

lemma wrap_fits:
  assumes "term_ok F t"
  shows "term_ok F (wrap F t)" "same_canvas t (wrap F t)"
    and "font_weight (wrap F t) = font_weight t" "font_height (wrap F t) = font_height t"
    and "foreground (wrap F t) = foreground t" "background (wrap F t) = background t"
    and "buffer_base_ptr (wrap F t) = buffer_base_ptr t"
    and "x_pos (wrap F t) + char_width F t \<le> win_width (tw_info t)"
  using assms next_line_term_ok [OF assms] next_line_canvas [of t]
  by (auto simp: wrap_def next_line_def term_ok_def)

lemma wrap_step:
  assumes "term_ok F t"
  shows "\<exists>m'. (if x_pos t + char_width F t \<ge> win_width (tw_info t) then newline (t, m) else Inr (t, m)) =
      Inr (wrap F t, m') \<and> outside t m' = outside t m \<and>
      (x_pos t + char_width F t < win_width (tw_info t) \<longrightarrow> m' = m)"
proof (cases "x_pos t + char_width F t \<ge> win_width (tw_info t)")
  case True
  with newline_ok [OF assms, of m] show ?thesis by (auto simp: wrap_def keeps_def)
qed (simp add: wrap_def)

lemma write_raw_char_ok:
  assumes "font_ok F" "term_ok F t"
  shows "\<exists>m'. write_raw_char F c (t, m) =
      Inr ((wrap F t)\<lparr>x_pos := x_pos (wrap F t) + char_width F t\<rparr>, m') \<and>
    keeps F (t, m) ((wrap F t)\<lparr>x_pos := x_pos (wrap F t) + char_width F t\<rparr>, m') \<and>
    (\<forall>x y. x < char_width F t \<longrightarrow> y < line_height t \<longrightarrow>
       pix_bytes t m' (x_pos (wrap F t) + x) (y_pos (wrap F t) + y) =
         encode (pixel_format (tw_info t)) (glyph_color t (glyph F t c ! y ! x))) \<and>
    (x_pos t + char_width F t < win_width (tw_info t) \<longrightarrow>
      (\<forall>x y. x < win_width (tw_info t) \<longrightarrow> y < win_height (tw_info t) \<longrightarrow>
        \<not> (x_pos t \<le> x \<and> x < x_pos t + char_width F t \<and> y_pos t \<le> y \<and> y < y_pos t + line_height t) \<longrightarrow>
        pix_bytes t m' x y = pix_bytes t m x y))"
proof -
  let ?t = "wrap F t" and ?W = "char_width F t" and ?r = "glyph F t c"
  note g = get_rasterized_char_ok [OF assms(1), of t c]
  note w = wrap_fits [OF assms(2)]
  note cv = same_canvas_simps [OF w(2)]
  have b: "surface_ok ?t" "win_width (tw_info ?t) < 2 ^ 62" "win_height (tw_info ?t) < 2 ^ 62"
    "length ?r = line_height ?t" "line_height ?t = line_height t"
    "y_pos ?t + length ?r \<le> win_height (tw_info ?t)" "x_pos t \<le> win_width (tw_info t)"
    "?W \<le> win_width (tw_info t)" "win_width (tw_info t) < 2 ^ 62"
    using w(1,4) g(2) assms(2) cv by (simp_all add: term_ok_def)
  obtain m1 where m1: "(if x_pos t + ?W \<ge> win_width (tw_info t) then newline (t, m) else Inr (t, m)) =
      Inr (?t, m1)" "outside t m1 = outside t m"
      "x_pos t + ?W < win_width (tw_info t) \<longrightarrow> m1 = m"
    using wrap_step [OF assms(2)] by blast
  have "x_pos ?t + ?W \<le> win_width (tw_info ?t)" using w(8) cv by simp
  from print_rasterized_char_ok [OF b(1-3) g(3) this b(6), of m1] obtain m' where m':
    "print_rasterized_char ?t ?r m1 = Inr m'"
    "\<forall>x y. x < ?W \<longrightarrow> y < line_height t \<longrightarrow> pix_bytes t m' (x_pos ?t + x) (y_pos ?t + y) =
         encode (pixel_format (tw_info t)) (glyph_color t (?r ! y ! x))"
    "\<forall>x y. x < win_width (tw_info t) \<longrightarrow> y < win_height (tw_info t) \<longrightarrow>
       \<not> (x_pos ?t \<le> x \<and> x < x_pos ?t + ?W \<and> y_pos ?t \<le> y \<and> y < y_pos ?t + line_height t) \<longrightarrow>
       pix_bytes t m' x y = pix_bytes t m1 x y"
    "outside t m' = outside t m1"
    unfolding cv b(4,5) using w(5,6) by (auto simp: glyph_color_def)
  have pad: "(if x_pos t = 0 then t\<lparr>x_pos := SIDE_PADDING\<rparr> else t) = t" by simp
  have "write_raw_char F c (t, m) = Inr (?t\<lparr>x_pos := x_pos ?t + ?W\<rparr>, m')"
    using b m1(1) m'(1) w(8) unfolding write_raw_char_def prod.case g(1) bnd_Inr pad Let_def by simp
  moreover have "keeps F (t, m) (?t\<lparr>x_pos := x_pos ?t + ?W\<rparr>, m')"
    using w m1(2) m'(4) cv(1,3)
    by (simp add: keeps_def term_ok_def same_canvas_def surface_ok_def)
  moreover have "x_pos t + ?W < win_width (tw_info t) \<Longrightarrow> ?t = t" by (simp add: wrap_def)
  ultimately show ?thesis using m'(2,3) m1(3) by metis
qed

subsection \<open>Tabulators and strings\<close>

lemma keeps_font: "keeps F s s' \<Longrightarrow> char_width F (fst s') = char_width F (fst s)"
  by (simp add: keeps_def)

lemma write_raw_char_keeps:
  assumes "font_ok F" "term_ok F (fst s)"
  shows "\<exists>s'. write_raw_char F c s = Inr s' \<and> keeps F s s'"
  using write_raw_char_ok [OF assms, of c "snd s"] by auto

text \<open>A sequence of operations each of which keeps a terminal in order keeps it in order.\<close>

lemma foldm_keeps_term:
  assumes "term_ok F (fst s)"
    and "\<And>x s. x \<in> set xs \<Longrightarrow> term_ok F (fst s) \<Longrightarrow> \<exists>s'. f x s = Inr s' \<and> keeps F s s'"
  shows "\<exists>s'. foldm f xs s = Inr s' \<and> keeps F s s'"
proof (rule foldm_invar [where I = "keeps F s"])
  show "keeps F s s" by (rule keeps_refl [OF assms(1)])
  fix x u
  assume "x \<in> set xs" "keeps F s u"
  with assms(2) obtain s' where "f x u = Inr s'" "keeps F u s'" by (metis keeps_term_ok)
  with \<open>keeps F s u\<close> show "\<exists>t. f x u = Inr t \<and> keeps F s t" by (metis keeps_trans)
qed

text \<open>The number of spaces a tabulator stands for: up to the next multiple of four columns.\<close>

lemma round_up_4: "(k + 1 + 3) div 4 * 4 - k = 4 - k mod (4 :: nat)"
  and round_up_4_le: "k \<le> (k + 1 + 3) div 4 * (4 :: nat)"
proof -
  have "k + 1 + 3 = k + 4" by simp
  then have "(k + 1 + 3) div 4 = k div 4 + 1" by simp
  moreover have "k div 4 * 4 + k mod 4 = k" "k mod 4 < 4" by simp_all
  ultimately show "(k + 1 + 3) div 4 * 4 - k = 4 - k mod (4 :: nat)" and "k \<le> (k + 1 + 3) div 4 * 4"
    by linarith+
qed

lemma tab_spaces_ok:
  assumes "font_ok F" "term_ok F t"
  shows "tab_spaces F t = Inr (4 - (x_pos t div char_width F t) mod 4)"
proof (cases "x_pos t = 0")
  case False
  let ?W = "char_width F t"
  let ?k = "x_pos t div ?W"
  have W: "0 < ?W" using assms(1) by (simp add: font_ok_def)
  have "?W < 2 ^ 62" "x_pos t < 2 ^ 62"
    using assms(2) unfolding term_ok_def by (metis le_less_trans)+
  moreover have "?k \<le> x_pos t" by (rule div_le_dividend)
  ultimately have k: "?k < 2 ^ 62" "?W < 2 ^ 62" by linarith+
  have r: "(?k + 1 + 3) div 4 * 4 \<le> ?k + 1 + 3" by (rule div_times_less_eq_dividend)
  have "cadd ?W LETTER_SPACING = Inr ?W" "csub (x_pos t) SIDE_PADDING = Inr (x_pos t)"
    "cdiv (x_pos t) ?W = Inr ?k" "cadd ?k 1 = Inr (?k + 1)" "cadd (?k + 1) TAB_SIZE = Inr (?k + 1 + 4)"
    "csub (?k + 1 + 4) 1 = Inr (?k + 1 + 3)"
    "cmul ((?k + 1 + 3) div TAB_SIZE) TAB_SIZE = Inr ((?k + 1 + 3) div 4 * 4)"
    "csub ((?k + 1 + 3) div 4 * 4) ?k = Inr (4 - ?k mod 4)"
    using k W r round_up_4 [of ?k] round_up_4_le [of ?k] by simp_all
  then show ?thesis using False by (simp only: tab_spaces_def if_False bnd_Inr)
qed (simp add: tab_spaces_def)

lemma tab_keeps:
  assumes "font_ok F" "term_ok F (fst s)"
  shows "\<exists>s'. tab F s = Inr s' \<and> keeps F s s'"
  unfolding tab_def tab_spaces_ok [OF assms] bnd_Inr
  by (rule foldm_keeps_term [OF assms(2)]) (rule write_raw_char_keeps [OF assms(1)])

lemma write_char_keeps:
  assumes "font_ok F" "term_ok F (fst s)"
  shows "\<exists>s'. write_char F c s = Inr s' \<and> keeps F s s'"
proof -
  have "keeps F s (carriage_return (fst s), snd s)"
    using assms(2) by (simp add: keeps_def carriage_return_def term_ok_def surface_ok_def same_canvas_def)
  moreover have "\<exists>s'. newline s = Inr s' \<and> keeps F s s'"
    using newline_ok [OF assms(2), of "snd s"] by auto
  ultimately show ?thesis
    using tab_keeps [OF assms] write_raw_char_keeps [OF assms] by (simp add: write_char_def)
qed

lemma write_str_keeps:
  assumes "font_ok F" "term_ok F (fst s)"
  shows "\<exists>s'. write_str F cs s = Inr s' \<and> keeps F s s'"
  unfolding write_str_def by (rule foldm_keeps_term [OF assms(2)]) (rule write_char_keeps [OF assms(1)])

text \<open>Spaces that fit on the line only move the cursor.\<close>

lemma spaces_advance:
  assumes "font_ok F" "term_ok F t" "x_pos t + n * char_width F t < win_width (tw_info t)"
  shows "\<exists>m'. foldm (\<lambda>_. write_raw_char F c) [0..<n] (t, m) =
    Inr (t\<lparr>x_pos := x_pos t + n * char_width F t\<rparr>, m')"
  using assms(3)
proof (induction n)
  case (Suc n)
  let ?t = "t\<lparr>x_pos := x_pos t + n * char_width F t\<rparr>"
  from Suc obtain m' where m': "foldm (\<lambda>_. write_raw_char F c) [0..<n] (t, m) = Inr (?t, m')" by auto
  have "term_ok F ?t" using assms(2) Suc.prems by (simp add: term_ok_def surface_ok_def)
  moreover have "wrap F ?t = ?t" using Suc.prems by (simp add: wrap_def)
  ultimately show ?case
    using write_raw_char_ok [OF assms(1), of ?t c m'] m' by (auto simp: foldm_append algebra_simps)
qed simp

subsection \<open>Pictures\<close>

lemma print_row_ok:
  assumes "term_ok F t" "yo < line_height t" "\<forall>x\<in>set xs. x + xo < 2 ^ 64"
  shows "\<exists>m'. print_row t xo yo xs cs m = Inr (drop (length xs) cs, length cs < length xs, m') \<and>
    outside t m' = outside t m"
  using assms(3)
proof (induction xs arbitrary: cs m)
  case (Cons x xs)
  have b: "surface_ok t" "y_pos t + yo < win_height (tw_info t)" "y_pos t + yo < 2 ^ 64"
    using assms(1,2) by (simp_all add: term_ok_def)
  show ?case
  proof (cases cs)
    case (Cons c cs')
    consider "x + xo \<ge> win_width (tw_info t)" | "x + xo < win_width (tw_info t)" by linarith
    then show ?thesis
    proof cases
      case 1
      then show ?thesis using Cons Cons.IH [of cs' m] Cons.prems by simp
    next
      case 2
      then obtain m1 where "write_pixel t (x + xo) (y_pos t + yo) c m = Inr m1" "outside t m1 = outside t m"
        using tw.put_ok [OF b(1) _ b(2), of "x + xo" c m] by blast
      with 2 show ?thesis using Cons Cons.IH [of cs' m1] Cons.prems b(3) by simp
    qed
  qed simp
qed simp

lemma keeps_memory: "term_ok F t \<Longrightarrow> outside t m' = outside t m \<Longrightarrow> keeps F (t, m) (t, m')"
  by (simp add: keeps_def)

text \<open>With a positive width the loop ends, whatever the number of colours.\<close>

lemma print_loop_ok:
  assumes "font_ok F" "0 < w" "w + xo < 2 ^ 64"
    and "term_ok F (fst s)" "yo < line_height (fst s)"
  shows "\<exists>yo' s'. print_loop w xo yo cs s = Some (Inr (yo', s')) \<and> keeps F s s'"
  using assms(4,5)
proof (induction "length cs" arbitrary: cs yo s rule: less_induct)
  case less
  obtain t m where s: "s = (t, m)" by (cases s)
  have t: "term_ok F t" "yo < line_height t" using less.prems by (simp_all add: s)
  have x: "\<forall>x\<in>set [0..<w]. x + xo < 2 ^ 64" using assms(3) by auto
  obtain m1 where row: "print_row t xo yo [0..<w] cs m = Inr (drop w cs, length cs < w, m1)"
    and k1: "keeps F s (t, m1)"
    using print_row_ok [OF t x, of cs m] keeps_memory [OF t(1)] unfolding s by auto
  show ?case
  proof (cases "length cs < w")
    case True
    then show ?thesis using row k1 by (simp add: s print_loop.simps [of w xo yo])
  next
    case False
    then have shorter: "length (drop w cs) < length cs" using assms(2) by simp
    have yo: "cadd yo 1 = Inr (yo + 1)" using t by (simp add: term_ok_def)
    show ?thesis
    proof (cases "yo + 1 < line_height t")
      case True
      from less.hyps [OF shorter, of "(t, m1)" "yo + 1"] t(1) True k1 show ?thesis
        using row False yo
        by (auto simp: s print_loop.simps [of w xo yo] intro: keeps_trans)
    next
      case nl: False
      obtain s2 where n: "newline (t, m1) = Inr s2" and k2: "keeps F (t, m1) s2"
        using newline_ok [OF t(1), of m1] by auto
      have "term_ok F (fst s2)" by (rule keeps_term_ok [OF k2])
      moreover from this have "0 < line_height (fst s2)"
        using assms(1) by (cases "font_height (fst s2)") (simp_all add: term_ok_def font_ok_def)
      ultimately obtain yo' s' where "print_loop w xo 0 (drop w cs) s2 = Some (Inr (yo', s'))" "keeps F s2 s'"
        using less.hyps [OF shorter, of s2 0] by blast
      then show ?thesis
        using row False yo nl n k1 k2
        by (auto simp: s print_loop.simps [of w xo yo] intro: keeps_trans)
    qed
  qed
qed

lemma print_pixels_keeps:
  assumes "font_ok F" "term_ok F (fst s)" "0 < w" "w < 2 ^ 62"
  shows "\<exists>s'. print_pixels w cs s = Some (Inr s') \<and> keeps F s s'"
proof -
  have "w + x_pos (fst s) < 2 ^ 64" using assms(2,4) by (simp add: term_ok_def)
  moreover have "0 < line_height (fst s)"
    using assms(1,2) by (cases "font_height (fst s)") (simp_all add: term_ok_def font_ok_def)
  ultimately obtain yo s1 where
    s1: "print_loop w (x_pos (fst s)) 0 cs s = Some (Inr (yo, s1))" "keeps F s s1"
    using print_loop_ok [OF assms(1,3) _ assms(2)] by blast
  have "\<exists>s'. newline s1 = Inr s' \<and> keeps F s1 s'"
    using newline_ok [OF keeps_term_ok [OF s1(2)], of "snd s1"] by auto
  then obtain s2 where s2: "newline s1 = Inr s2" "keeps F s1 s2" by blast
  show ?thesis using s1 s2 keeps_trans [OF s1(2) s2(2)]
    by (cases s1; cases s2) (simp add: print_pixels_def)
qed

text \<open>With width 0 no colour is ever taken from the iterator, and the loop has no result.\<close>

lemma print_loop_width_0:
  assumes "print_loop w xo yo cs s = Some r" "w = 0" "term_ok F (fst s)" "yo < line_height (fst s)" "font_ok F"
  shows False
  using assms
proof (induction rule: print_loop.raw_induct [rotated 1, consumes 1])
  case (1 f w xo yo cs s r)
  obtain t m where s: "s = (t, m)" by (cases s)
  have yo: "cadd yo 1 = Inr (yo + 1)" using 1 by (simp add: term_ok_def s)
  have t: "term_ok F t" using 1 by (simp add: s)
  show False
  proof (cases "yo + 1 < line_height t")
    case True
    then show ?thesis using 1 yo by (auto simp: s)
  next
    case False
    obtain s2 where n: "newline (t, m) = Inr s2" and k2: "keeps F (t, m) s2"
      using newline_ok [OF t, of m] by auto
    have "term_ok F (fst s2)" by (rule keeps_term_ok [OF k2])
    moreover from this have "0 < line_height (fst s2)"
      using 1(6) by (cases "font_height (fst s2)") (simp_all add: term_ok_def font_ok_def)
    ultimately show ?thesis using 1 yo n False by (cases s2) (auto simp: s)
  qed
qed

subsection \<open>A terminal on the screen\<close>

lemma window_of_term_ok:
  assumes "font_ok F" "framebuffer bi = Some fb0" "fb_sane (fb_info fb0)" "landscape (fb_info fb0)"
    and "placement_fits (fb_info fb0) p" "w = window_of (fb_info fb0) p"
    and "channels (fb_pixel_format (fb_info fb0)) \<le> fb_bytes_per_pixel (fb_info fb0)"
    and "\<forall>wt. f_raster_width F wt Size24 \<le> win_width w" "24 \<le> win_height w"
  shows "\<exists>t. new_terminal bi w = Inr t \<and> term_ok F t \<and> tw_info t = w \<and>
    win_addrs t = (\<lambda>a. fb_buffer_start fb0 + a) ` window_bytes w"
proof -
  let ?fb = "fb_info fb0"
  let ?S = "fb_stride ?fb" and ?B = "fb_bytes_per_pixel ?fb" and ?H = "fb_height ?fb"
  let ?t = "\<lparr>buffer_base_ptr = fb_buffer_start fb0,
     tw_buffer = (fb_buffer_start fb0 + byte_offset w, ?S * win_height w * ?B), tw_info = w,
     x_pos = 0, y_pos = 0, font_height = Size24, line_height = 24 + LETTER_SPACING,
     font_weight = Regular, foreground = white, background = black, clear_color = new_color 70 60 60\<rparr>"
  note e = edges [OF assms(5)]
  have w: "stride w = ?S" "bytes_per_pixel w = ?B" "pixel_format w = fb_pixel_format ?fb"
    "win_width w \<le> fb_width ?fb" "win_height w \<le> ?H"
    using e by (simp_all add: assms(6) window_of_def)
  have B: "1 \<le> ?B" using assms(7) channels_pos [of "fb_pixel_format ?fb"] by linarith
  have sane: "fb_width ?fb \<le> ?S" "(?S * (?H + 1) + ?S) * (?B + 1) < 2 ^ 64"
    using assms(3) by (simp_all add: fb_sane_def)
  have "?S * win_height w \<le> ?S * (?H + 1) + ?S" using w(5) by (intro trans_le_add1 mult_le_mono2) simp
  moreover from this have "?S * win_height w * ?B \<le> (?S * (?H + 1) + ?S) * (?B + 1)"
    by (rule mult_le_mono) simp
  moreover have "?S * (?H + 1) + ?S \<le> (?S * (?H + 1) + ?S) * (?B + 1)" by simp
  moreover have "?S * 4 \<le> (?S * (?H + 1) + ?S) * (?B + 1)"
    using mult_le_mono [of "?S * 1 + ?S" "?S * (?H + 1) + ?S" 2 "?B + 1"] B by simp
  ultimately have o: "?S * win_height w < 2 ^ 64" "?S * win_height w * ?B < 2 ^ 64" "?S * 4 < 2 ^ 64"
    using sane(2) by linarith+
  then have S: "?S < 2 ^ 62" by simp
  have "new_terminal bi w = Inr ?t"
    using o by (simp add: new_terminal_def construct_buffer_def assms(2) w(1,2))
  moreover have "term_ok F ?t"
    using o(2) S w sane(1) assms(1,4,7-9)
    by (simp add: term_ok_def surface_ok_def font_ok_def landscape_def)
  moreover have "win_addrs ?t = (\<lambda>a. fb_buffer_start fb0 + a) ` window_bytes w"
    unfolding win_addrs_def window_bytes_def pixel_addr_def by (auto simp: image_iff add.assoc)
  ultimately show ?thesis by (intro exI [of _ ?t]) simp
qed

lemma outside_eqD: "outside t m' = outside t m \<Longrightarrow> a \<notin> win_addrs t \<Longrightarrow> m' a = m a"
  unfolding outside_def by (metis (full_types))

lemma outside_pix:
  assumes "outside t m' = outside t m" "win_addrs t \<inter> win_addrs u = {}" "surface_ok u"
    and "x < win_width (tw_info u)" "y < win_height (tw_info u)"
  shows "pix_bytes u m' x y = pix_bytes u m x y"
proof -
  have "pixel_addr u x y k \<in> win_addrs u" if "k < channels (pixel_format (tw_info u))" for k
    using that assms(3-5) unfolding win_addrs_def surface_ok_def by force
  then have "m' (pixel_addr u x y k) = m (pixel_addr u x y k)"
    if "k < channels (pixel_format (tw_info u))" for k
    using that assms(2) outside_eqD [OF assms(1)] by blast
  then show ?thesis by (simp add: pix_bytes_def)
qed

subsection \<open>Properties\<close>

text \<open>
  C13: printing any string on a well-formed terminal returns: no index is out of bounds and no
  computation overflows.  The terminal is still well formed, its window and buffer are the same,
  and no byte outside the pixels of its window has changed.
\<close>

theorem write_str_safe:
  assumes "font_ok F" "term_ok F t"
  shows "\<exists>t' m'. write_str F cs (t, m) = Inr (t', m') \<and> term_ok F t' \<and>
    tw_info t' = tw_info t \<and> tw_buffer t' = tw_buffer t \<and> (\<forall>a. a \<notin> win_addrs t \<longrightarrow> m' a = m a)"
proof -
  obtain t' m' where "write_str F cs (t, m) = Inr (t', m')" and k: "keeps F (t, m) (t', m')"
    using write_str_keeps [of F "(t, m)" cs] assms by auto
  moreover have "outside t m' = outside t m" using k by (simp add: keeps_def)
  ultimately show ?thesis using outside_eqD [of t m' m] by (auto simp: keeps_def same_canvas_def)
qed

text \<open>
  A character that fits on the current line is drawn at the cursor, each pixel of its box in
  the interpolation between background and foreground that its raster asks for; no other pixel
  changes and the cursor moves right by the width of the character.
\<close>

lemma write_raw_char_draws:
  assumes "font_ok F" "term_ok F t" "x_pos t + char_width F t < win_width (tw_info t)"
  shows "\<exists>m'. write_raw_char F c (t, m) = Inr (t\<lparr>x_pos := x_pos t + char_width F t\<rparr>, m') \<and>
    (\<forall>x y. x < win_width (tw_info t) \<longrightarrow> y < win_height (tw_info t) \<longrightarrow>
       pix_bytes t m' x y =
         (if x_pos t \<le> x \<and> x < x_pos t + char_width F t \<and> y_pos t \<le> y \<and> y < y_pos t + line_height t
          then encode (pixel_format (tw_info t))
                 (glyph_color t (glyph F t c ! (y - y_pos t) ! (x - x_pos t)))
          else pix_bytes t m x y))"
proof -
  have w: "wrap F t = t" using assms(3) by (simp add: wrap_def)
  from write_raw_char_ok [OF assms(1,2), of c m, unfolded w] assms(3) obtain m' where
    m': "write_raw_char F c (t, m) = Inr (t\<lparr>x_pos := x_pos t + char_width F t\<rparr>, m')"
    "\<forall>x y. x < char_width F t \<longrightarrow> y < line_height t \<longrightarrow> pix_bytes t m' (x_pos t + x) (y_pos t + y) =
         encode (pixel_format (tw_info t)) (glyph_color t (glyph F t c ! y ! x))"
    "\<forall>x y. x < win_width (tw_info t) \<longrightarrow> y < win_height (tw_info t) \<longrightarrow>
        \<not> (x_pos t \<le> x \<and> x < x_pos t + char_width F t \<and> y_pos t \<le> y \<and> y < y_pos t + line_height t) \<longrightarrow>
        pix_bytes t m' x y = pix_bytes t m x y" by blast
  have "pix_bytes t m' x y =
      encode (pixel_format (tw_info t)) (glyph_color t (glyph F t c ! (y - y_pos t) ! (x - x_pos t)))"
    if "x_pos t \<le> x" "x < x_pos t + char_width F t" "y_pos t \<le> y" "y < y_pos t + line_height t" for x y
    using m'(2) [rule_format, of "x - x_pos t" "y - y_pos t"] that by simp
  with m'(1,3) show ?thesis by auto
qed

text \<open>
  A line feed moves the cursor to the start of the next line, or back to the top of the
  window with a rotated background colour when the next line does not fit; it overwrites the two
  lines below the cursor, as far as the window has them, with the checkerboard of the background
  colour and no other pixel.
\<close>

lemma newline_moves_and_erases:
  assumes "term_ok F t"
  shows "\<exists>t' m'. newline (t, m) = Inr (t', m') \<and> x_pos t' = 0 \<and>
    (if y_pos t + 2 * line_height t \<le> win_height (tw_info t)
     then y_pos t' = y_pos t + line_height t \<and> clear_color t' = clear_color t
     else y_pos t' = 0 \<and> clear_color t' =
       new_color (col_b (clear_color t)) (col_r (clear_color t)) (col_g (clear_color t))) \<and>
    (\<forall>x y. x < win_width (tw_info t) \<longrightarrow> y < win_height (tw_info t) \<longrightarrow>
       pix_bytes t m' x y =
         (if y_pos t' \<le> y \<and> y < y_pos t' + 2 * line_height t
          then encode (pixel_format (tw_info t))
                 (if even (x + y) then clear_color t'
                  else new_color (col_r (clear_color t') div 2) (col_g (clear_color t') div 2)
                         (col_b (clear_color t') div 2))
          else pix_bytes t m x y))"
proof -
  obtain m' where "newline (t, m) = Inr (next_line t, m')"
    "\<forall>x y. x < win_width (tw_info t) \<longrightarrow> y < win_height (tw_info t) \<longrightarrow>
        pix_bytes t m' x y =
          (if y_pos (next_line t) \<le> y \<and> y < y_pos (next_line t) + 2 * line_height t
           then encode (pixel_format (tw_info t)) (checker (next_line t) x y)
           else pix_bytes t m x y)"
    using newline_ok [OF assms, of m] by blast
  then show ?thesis
    by (intro exI [of _ "next_line t"] exI [of _ m'])
      (simp add: checker_def even_iff_mod_2_eq_zero, simp add: next_line_def)
qed

text \<open>
  Moving a terminal to another window, with a new font size or the old one, puts the cursor
  at its top left corner and paints every pixel of it in the background colour; no byte outside
  the new window changes.
\<close>

lemma set_window_info_clears:
  assumes "win_width info \<le> stride info" "channels (pixel_format info) \<le> bytes_per_pixel info"
    and "stride info * win_height info * bytes_per_pixel info < 2 ^ 64"
  shows "\<exists>t' m'. set_window_info F info sz (t, m) = Inr (t', m') \<and> tw_info t' = info \<and>
    x_pos t' = 0 \<and> y_pos t' = 0 \<and>
    fst (tw_buffer t') = buffer_base_ptr t + byte_offset info \<and>
    font_height t' = (case sz of None \<Rightarrow> font_height t | Some s \<Rightarrow> s) \<and>
    (\<forall>x y. x < win_width info \<longrightarrow> y < win_height info \<longrightarrow>
       pix_bytes t' m' x y = encode (pixel_format info) (clear_color t)) \<and>
    (\<forall>a. a \<notin> win_addrs t' \<longrightarrow> m' a = m a)"
proof -
  let ?len = "stride info * win_height info * bytes_per_pixel info"
  let ?t = "t\<lparr>tw_info := info, tw_buffer := (buffer_base_ptr t + byte_offset info, ?len)\<rparr>"
  have "1 \<le> bytes_per_pixel info" using assms(2) channels_pos [of "pixel_format info"] by linarith
  then have "stride info * win_height info \<le> ?len" by (metis mult.right_neutral mult_le_mono2)
  then have "stride info * win_height info < 2 ^ 64" using assms(3) by linarith
  then have "construct_buffer (buffer_base_ptr t) info = Inr (tw_buffer ?t)"
    using assms(3) by (simp add: construct_buffer_def)
  then have eq: "set_window_info F info sz (t, m) = clear F sz (?t, m)"
    by (simp add: set_window_info_def)
  define t' where "t' = (case sz of
              None \<Rightarrow> ?t\<lparr>x_pos := 0, y_pos := 0\<rparr>
            | Some s \<Rightarrow> ?t\<lparr>x_pos := 0, y_pos := 0, font_height := s, line_height := f_size_val F s\<rparr>)"
  have "surface_ok ?t" using assms by (simp add: surface_ok_def)
  from clear_ok [OF this, of F sz m] obtain m' where m': "clear F sz (?t, m) = Inr (t', m')"
     "\<forall>x y. x < win_width info \<longrightarrow> y < win_height info \<longrightarrow>
        pix_bytes ?t m' x y = encode (pixel_format info) (clear_color t)"
     "outside ?t m' = outside ?t m"
    unfolding t'_def by auto
  have c: "same_canvas ?t t'" by (cases sz) (simp_all add: t'_def same_canvas_def)
  have "\<forall>a. a \<notin> win_addrs t' \<longrightarrow> m' a = m a"
    using outside_eqD [OF m'(3)] same_canvas_simps(6) [OF c] by simp
  with m'(1,2) same_canvas_simps(1,2,4) [OF c] eq show ?thesis
    by (intro exI [of _ t'] exI [of _ m']) (cases sz; simp add: t'_def)
qed

text \<open>
  A tabulator at column \<open>k\<close> moves the cursor to the next column that is a multiple of four,
  when that column lies on the line.
\<close>

lemma tab_stops:
  assumes "font_ok F" "term_ok F t" "x_pos t = k * char_width F t"
    and "4 * (k div 4 + 1) * char_width F t < win_width (tw_info t)"
  shows "\<exists>m'. tab F (t, m) = Inr (t\<lparr>x_pos := 4 * (k div 4 + 1) * char_width F t\<rparr>, m')"
proof -
  let ?W = "char_width F t"
  have "0 < ?W" using assms(1) by (simp add: font_ok_def)
  then have "x_pos t div ?W = k" using assms(3) by simp
  then have "tab_spaces F t = Inr (4 - k mod 4)" using tab_spaces_ok [OF assms(1,2)] by simp
  moreover have "k + (4 - k mod 4) = 4 * (k div 4 + 1)"
  proof -
    have "k div 4 * 4 + k mod 4 = k" by (rule div_mult_mod_eq)
    moreover have "k mod 4 < 4" by simp
    ultimately show ?thesis unfolding distrib_left by linarith
  qed
  then have "x_pos t + (4 - k mod 4) * ?W = 4 * (k div 4 + 1) * ?W"
    unfolding assms(3) by (metis add_mult_distrib)
  ultimately show ?thesis
    using spaces_advance [OF assms(1,2), of "4 - k mod 4" 32 m] assms(4) by (simp add: tab_def)
qed

text \<open>
  A picture of positive width is drawn in finitely many steps whatever its number of pixels,
  without a panic, and changes nothing outside the window.
\<close>

lemma print_pixels_returns:
  assumes "font_ok F" "term_ok F t" "0 < w" "w < 2 ^ 62"
  shows "\<exists>t' m'. print_pixels w cs (t, m) = Some (Inr (t', m')) \<and> term_ok F t' \<and>
    tw_info t' = tw_info t \<and> (\<forall>a. a \<notin> win_addrs t \<longrightarrow> m' a = m a)"
proof -
  obtain t' m' where "print_pixels w cs (t, m) = Some (Inr (t', m'))" and k: "keeps F (t, m) (t', m')"
    using print_pixels_keeps [of F "(t, m)" w cs] assms by auto
  moreover have "outside t m' = outside t m" using k by (simp add: keeps_def)
  ultimately show ?thesis using outside_eqD [of t m' m] by (auto simp: keeps_def same_canvas_def)
qed

lemma print_pixels_zero:
  assumes "font_ok F" "term_ok F t"
  shows "print_pixels 0 cs (t, m) = None"
proof -
  have "0 < line_height t"
    using assms by (cases "font_height t") (simp_all add: term_ok_def font_ok_def)
  then have "print_loop 0 (x_pos t) 0 cs (t, m) = None"
    using print_loop_width_0 [of 0 "x_pos t" 0 cs "(t, m)" _ F] assms by fastforce
  then show ?thesis by (simp add: print_pixels_def)
qed

text \<open>
  A picture of width 0 is never finished: the loop takes no colour from the iterator, so it
  never sees its end, even when there is no pixel at all.
\<close>

lemma print_pixels_width_0:
  assumes "font_ok F" "term_ok F t"
  shows "print_pixels 0 cs (t, m) = None"
  by (rule print_pixels_zero [OF assms])


subsection \<open>Concrete terminals\<close>

text \<open>A font whose characters are two pixels wide and alternate black and white rows.\<close>

definition font_ex :: font where
  "font_ex =
     (let size = (\<lambda>sz. case sz of Size16 \<Rightarrow> 16 | Size20 \<Rightarrow> 20 | Size24 \<Rightarrow> 24 | Size32 \<Rightarrow> 32) in
      \<lparr>f_get_raster = (\<lambda>c wt sz. if c < 128 \<or> c = 65533
          then Some (map (\<lambda>y. replicate 2 (if even y then 255 else 0)) [0..<size sz]) else None),
       f_raster_width = (\<lambda>wt sz. 2), f_size_val = size\<rparr>)"

lemma font_ex_ok: "font_ok font_ex"
  by (simp add: font_ok_def font_ex_def Let_def)

definition term_ex :: TerminalWriter where
  "term_ex = \<lparr>buffer_base_ptr = 4096, tw_buffer = (4096, 64 * 48 * 3),
     tw_info = \<lparr>byte_offset = 0, win_width = 64, win_height = 48, pixel_format = Rgb,
       bytes_per_pixel = 3, stride = 64\<rparr>,
     x_pos = 6, y_pos = 0, font_height = Size24, line_height = 24, font_weight = Regular,
     foreground = white, background = black, clear_color = new_color 70 60 60\<rparr>"

lemma term_ex_ok: "term_ok font_ex term_ex"
  by (simp add: term_ok_def term_ex_def font_ex_def surface_ok_def channels_def Let_def)

theorem write_str_safe_witness:
  "\<exists>t' m'. write_str font_ex [72, 105, 10, 9, 8364] (term_ex, \<lambda>_. 0) = Inr (t', m') \<and>
     term_ok font_ex t' \<and> m' 4095 = 0"
proof -
  have "4095 \<notin> win_addrs term_ex" by (simp add: win_addrs_def pixel_addr_def term_ex_def)
  then show ?thesis
    using write_str_safe [OF font_ex_ok term_ex_ok, of "[72, 105, 10, 9, 8364]" "\<lambda>_. 0"] by fastforce
qed

lemma write_raw_char_draws_witness:
  "\<exists>m'. write_raw_char font_ex 65 (term_ex, \<lambda>_. 7) = Inr (term_ex\<lparr>x_pos := 8\<rparr>, m') \<and>
     pix_bytes term_ex m' 7 2 = [255, 255, 255] \<and> pix_bytes term_ex m' 8 2 = [7, 7, 7]"
proof -
  have g: "glyph_color term_ex 255 = white"
    by (simp add: glyph_color_def lerp_def lerp_channel_def chk_i32_def term_ex_def black_def white_def
        new_color_def signed_divide_int_def)
  have r: "glyph font_ex term_ex 65 ! 2 ! Suc 0 = 255"
    by (simp add: glyph_def font_ex_def term_ex_def Let_def)
  have p: "pix_bytes term_ex (\<lambda>_. 7) 8 2 = [7, 7, 7]"
    by (simp add: pix_bytes_def term_ex_def channels_def upt_rec)
  have s: "x_pos term_ex = 6" "y_pos term_ex = 0" "line_height term_ex = 24" "char_width font_ex term_ex = 2"
      "win_width (tw_info term_ex) = 64" "win_height (tw_info term_ex) = 48"
      "encode (pixel_format (tw_info term_ex)) white = [255, 255, 255]"
    by (simp_all add: term_ex_def font_ex_def encode_def white_def new_color_def Let_def)
  obtain m' where m': "write_raw_char font_ex 65 (term_ex, \<lambda>_. 7) = Inr (term_ex\<lparr>x_pos := 8\<rparr>, m')"
    and d: "\<And>x y. x < 64 \<Longrightarrow> y < 48 \<Longrightarrow> pix_bytes term_ex m' x y =
         (if 6 \<le> x \<and> x < 8 \<and> y < 24
          then encode (pixel_format (tw_info term_ex))
                 (glyph_color term_ex (glyph font_ex term_ex 65 ! y ! (x - 6)))
          else pix_bytes term_ex (\<lambda>_. 7) x y)"
    using write_raw_char_draws [OF font_ex_ok term_ex_ok, of 65 "\<lambda>_. 7"] by (auto simp: s)
  show ?thesis using m' d [of 7 2] d [of 8 2] by (simp add: p r g s)
qed

lemma newline_moves_and_erases_witness:
  "\<exists>t' m'. newline (term_ex, \<lambda>_. 0) = Inr (t', m') \<and> x_pos t' = 0 \<and> y_pos t' = 24 \<and>
     pix_bytes term_ex m' 0 24 = [70, 60, 60] \<and> pix_bytes term_ex m' 1 24 = [35, 30, 30]"
proof -
  have s: "y_pos term_ex = 0" "line_height term_ex = 24" "win_width (tw_info term_ex) = 64"
      "win_height (tw_info term_ex) = 48" "clear_color term_ex = new_color 70 60 60"
      "pixel_format (tw_info term_ex) = Rgb"
    by (simp_all add: term_ex_def)
  obtain t' m' where r: "newline (term_ex, \<lambda>_. 0) = Inr (t', m')" "x_pos t' = 0" "y_pos t' = 24"
      "clear_color t' = new_color 70 60 60"
    and d: "\<And>x y. x < 64 \<Longrightarrow> y < 48 \<Longrightarrow> pix_bytes term_ex m' x y =
         (if y_pos t' \<le> y \<and> y < y_pos t' + 48
          then encode Rgb (if even (x + y) then clear_color t'
                  else new_color (col_r (clear_color t') div 2) (col_g (clear_color t') div 2)
                         (col_b (clear_color t') div 2))
          else pix_bytes term_ex (\<lambda>_. 0) x y)"
    using newline_moves_and_erases [OF term_ex_ok, of "\<lambda>_. 0"] by (auto simp: s)
  show ?thesis using r d [of 0 24] d [of 1 24] by (simp add: encode_def new_color_def)
qed

lemma set_window_info_clears_witness:
  "\<exists>t' m'. set_window_info font_ex (tw_info term_ex) (Some Size16) (term_ex, \<lambda>_. 0) = Inr (t', m') \<and>
     font_height t' = Size16 \<and> pix_bytes t' m' 63 47 = [70, 60, 60]"
  using set_window_info_clears [of "tw_info term_ex" font_ex "Some Size16" term_ex "\<lambda>_. 0"]
  by (auto simp: term_ex_def channels_def encode_def new_color_def)

lemma tab_stops_witness:
  "\<exists>m'. tab font_ex (term_ex, \<lambda>_. 0) = Inr (term_ex\<lparr>x_pos := 8\<rparr>, m')"
  using tab_stops [OF font_ex_ok term_ex_ok, of 3 "\<lambda>_. 0"] by (simp add: term_ex_def font_ex_def Let_def)

lemma print_pixels_returns_witness:
  "\<exists>t' m'. print_pixels 5 [white, black, white] (term_ex, \<lambda>_. 0) = Some (Inr (t', m')) \<and>
     term_ok font_ex t'"
  using print_pixels_returns [OF font_ex_ok term_ex_ok, of 5 "[white, black, white]" "\<lambda>_. 0"] by auto

lemma print_pixels_width_0_witness: "print_pixels 0 [] (term_ex, \<lambda>_. 0) = None"
  using print_pixels_width_0 [OF font_ex_ok term_ex_ok] by simp


end
