(* ===== verification/Ports.thy ===== *)
theory Ports
  imports Prelude
begin

text \<open>
  Access to devices.  The instructions \<open>in\<close> and \<open>out\<close> (the type \<open>Port\<close> of the crate x86_64) act on
  hardware, which is not part of the repository: a device is a state \<open>'d\<close> together with the two
  operations of the record \<open>ports\<close>, an argument of every driver function.  Reading may change the
  state of the device.  What a driver relies on is stated as a hypothesis about the device.
\<close>

record 'd ports =
  port_in :: "u16 \<Rightarrow> 'd \<Rightarrow> u8 \<times> 'd"
  port_out :: "u16 \<Rightarrow> u8 \<Rightarrow> 'd \<Rightarrow> 'd"

text \<open>A sequence of writes to ports, first to last.\<close>

definition port_outs :: "'d ports \<Rightarrow> (u16 \<times> u8) list \<Rightarrow> 'd \<Rightarrow> 'd" where
  "port_outs D ws d = fold (\<lambda>(p, v). port_out D p v) ws d"

text \<open>A device that records what is written to it.\<close>

definition recorder :: "(u16 \<times> u8) list ports" where
  "recorder = \<lparr>port_in = (\<lambda>p d. (0, d)), port_out = (\<lambda>p v d. d @ [(p, v)])\<rparr>"

end
