(* ===== verification/Serial.thy ===== *)
theory Serial
  imports Ports
begin

text \<open>
  The serial port driver, kernel/src/serial.rs.  A polling loop that may never end is a partial
  function to an option; \<open>None\<close> means that it spins forever.
\<close>

datatype ComPort = COM1 | COM2 | COM3 | COM4

fun com_base :: "ComPort \<Rightarrow> u16" where
  "com_base COM1 = 0x3f8"
| "com_base COM2 = 0x2f8"
| "com_base COM3 = 0x3e8"
| "com_base COM4 = 0x2e8"

datatype BaudRate =
    BAUD_300 | BAUD_600 | BAUD_1200 | BAUD_2400 | BAUD_4800 | BAUD_9600 | BAUD_19200 | BAUD_38400
  | BAUD_57600 | BAUD_115200

fun baud_divisor :: "BaudRate \<Rightarrow> u16" where
  "baud_divisor BAUD_300 = 384"
| "baud_divisor BAUD_600 = 192"
| "baud_divisor BAUD_1200 = 96"
| "baud_divisor BAUD_2400 = 48"
| "baud_divisor BAUD_4800 = 24"
| "baud_divisor BAUD_9600 = 12"
| "baud_divisor BAUD_19200 = 6"
| "baud_divisor BAUD_38400 = 3"
| "baud_divisor BAUD_57600 = 2"
| "baud_divisor BAUD_115200 = 1"

definition RECEIVE_BUFFER_REGISTER :: u8 where "RECEIVE_BUFFER_REGISTER = 0"
definition TRANSMIT_BUFFER_REGISTER :: u8 where "TRANSMIT_BUFFER_REGISTER = 0"
definition INTERRUPT_ENABLE_REGISTER :: u8 where "INTERRUPT_ENABLE_REGISTER = 1"
definition DIVISOR_LOW_REGISTER :: u8 where "DIVISOR_LOW_REGISTER = 0"
definition DIVISOR_HIGH_REGISTER :: u8 where "DIVISOR_HIGH_REGISTER = 1"
definition LINE_CONTROL_REGISTER :: u8 where "LINE_CONTROL_REGISTER = 3"
definition MODEM_CONTROL_REGISTER :: u8 where "MODEM_CONTROL_REGISTER = 4"
definition LINE_STATUS_REGISTER :: u8 where "LINE_STATUS_REGISTER = 5"

definition DATA_READY :: u8 where "DATA_READY = push_bit 0 1"
definition OVERRUN_ERROR :: u8 where "OVERRUN_ERROR = push_bit 1 1"
definition PARITY_ERROR :: u8 where "PARITY_ERROR = push_bit 2 1"
definition FRAMING_ERROR :: u8 where "FRAMING_ERROR = push_bit 3 1"
definition TRANSMITTER_HOLDING_REGISTER :: u8 where "TRANSMITTER_HOLDING_REGISTER = push_bit 5 1"
definition TRANSMITTER_EMPTY :: u8 where "TRANSMITTER_EMPTY = push_bit 6 1"

lemmas mask_defs = DATA_READY_def OVERRUN_ERROR_def PARITY_ERROR_def FRAMING_ERROR_def
  TRANSMITTER_HOLDING_REGISTER_def TRANSMITTER_EMPTY_def

lemmas register_defs = RECEIVE_BUFFER_REGISTER_def TRANSMIT_BUFFER_REGISTER_def INTERRUPT_ENABLE_REGISTER_def
  DIVISOR_LOW_REGISTER_def DIVISOR_HIGH_REGISTER_def LINE_CONTROL_REGISTER_def MODEM_CONTROL_REGISTER_def
  LINE_STATUS_REGISTER_def

datatype SerialError = Busy | OverrunError | ParityError | FramingError

definition rr :: "'d ports \<Rightarrow> ComPort \<Rightarrow> u8 \<Rightarrow> 'd \<Rightarrow> u8 \<times> 'd" where
  "rr D com index d = port_in D (com_base com + ucast index) d"

definition wr :: "'d ports \<Rightarrow> ComPort \<Rightarrow> u8 \<Rightarrow> u8 \<Rightarrow> 'd \<Rightarrow> 'd" where
  "wr D com index v d = port_out D (com_base com + ucast index) v d"

definition serial_init :: "'d ports \<Rightarrow> ComPort \<Rightarrow> BaudRate \<Rightarrow> 'd \<Rightarrow> 'd" where
  "serial_init D com baud d =
     (let d = wr D com LINE_CONTROL_REGISTER 0x80 d;
          d = wr D com DIVISOR_LOW_REGISTER (ucast (baud_divisor baud AND 0xff)) d;
          d = wr D com DIVISOR_HIGH_REGISTER (ucast (drop_bit 8 (baud_divisor baud))) d;
          d = wr D com LINE_CONTROL_REGISTER 0x03 d;
          d = wr D com INTERRUPT_ENABLE_REGISTER 0 d
      in wr D com MODEM_CONTROL_REGISTER 0 d)"

subsection \<open>Reading\<close>

definition try_read :: "'d ports \<Rightarrow> ComPort \<Rightarrow> 'd \<Rightarrow> (SerialError + u8) \<times> 'd" where
  "try_read D com d =
     (let (status, d) = rr D com LINE_STATUS_REGISTER d in
      if status AND OVERRUN_ERROR \<noteq> 0 then (Inl OverrunError, d)
      else if status AND PARITY_ERROR \<noteq> 0 then (Inl ParityError, d)
      else if status AND FRAMING_ERROR \<noteq> 0 then (Inl FramingError, d)
      else if status AND DATA_READY \<noteq> 0
      then (let (v, d) = rr D com RECEIVE_BUFFER_REGISTER d in (Inr v, d))
      else (Inl Busy, d))"

partial_function (option) serial_read :: "'d ports \<Rightarrow> ComPort \<Rightarrow> 'd \<Rightarrow> ((SerialError + u8) \<times> 'd) option" where
  "serial_read D com d =
     (case try_read D com d of
        (Inr v, d') \<Rightarrow> Some (Inr v, d')
      | (Inl e, d') \<Rightarrow> if e = Busy then serial_read D com d' else Some (Inl e, d'))"

text \<open>A single byte is valid UTF-8 exactly when it is below 128.\<close>

partial_function (option) read_line_loop ::
  "'d ports \<Rightarrow> ComPort \<Rightarrow> u8 list \<Rightarrow> 'd \<Rightarrow> ((SerialError + u8 list) \<times> 'd) option"
where
  "read_line_loop D com s d =
     (case serial_read D com d of
        None \<Rightarrow> None
      | Some (r, d') \<Rightarrow>
          (case r of
             Inl e \<Rightarrow> Some (Inl e, d')
           | Inr c \<Rightarrow> if c = 13 then Some (Inr s, d')
                      else read_line_loop D com (if c < 128 then s @ [c] else s) d'))"

definition read_line :: "'d ports \<Rightarrow> ComPort \<Rightarrow> 'd \<Rightarrow> ((SerialError + u8 list) \<times> 'd) option" where
  "read_line D com d = read_line_loop D com [] d"

subsection \<open>Writing\<close>

definition try_write :: "'d ports \<Rightarrow> ComPort \<Rightarrow> u8 \<Rightarrow> 'd \<Rightarrow> (SerialError + unit) \<times> 'd" where
  "try_write D com v d =
     (let (status, d) = rr D com LINE_STATUS_REGISTER d in
      if status AND OVERRUN_ERROR \<noteq> 0 then (Inl OverrunError, d)
      else if status AND PARITY_ERROR \<noteq> 0 then (Inl ParityError, d)
      else if status AND FRAMING_ERROR \<noteq> 0 then (Inl FramingError, d)
      else if status AND TRANSMITTER_HOLDING_REGISTER \<noteq> 0
      then (Inr (), wr D com TRANSMIT_BUFFER_REGISTER v d)
      else (Inl Busy, d))"

partial_function (option) serial_write :: "'d ports \<Rightarrow> ComPort \<Rightarrow> u8 \<Rightarrow> 'd \<Rightarrow> 'd option" where
  "serial_write D com v d =
     (case try_write D com v d of
        (Inr _, d') \<Rightarrow> Some d'
      | (Inl _, d') \<Rightarrow> serial_write D com v d')"

partial_function (option) serial_flush :: "'d ports \<Rightarrow> ComPort \<Rightarrow> 'd \<Rightarrow> 'd option" where
  "serial_flush D com d =
     (case rr D com LINE_STATUS_REGISTER d of
        (status, d') \<Rightarrow> if status AND TRANSMITTER_EMPTY = 0 then serial_flush D com d' else Some d')"

text \<open>A character is its code point; those above 127 are skipped.\<close>

primrec serial_write_str :: "'d ports \<Rightarrow> ComPort \<Rightarrow> nat list \<Rightarrow> 'd \<Rightarrow> 'd option" where
  "serial_write_str D com [] d = Some d"
| "serial_write_str D com (c # cs) d =
     (if c < 128
      then (case serial_write D com (word_of_nat c) d of
              None \<Rightarrow> None
            | Some d' \<Rightarrow> serial_write_str D com cs d')
      else serial_write_str D com cs d)"

text \<open>The two ports of \<open>SERIAL\<close> after its initialisation; printing to it.\<close>

definition SERIAL :: "'d ports \<Rightarrow> 'd \<Rightarrow> ComPort \<times> ComPort \<times> 'd" where
  "SERIAL D d = (COM1, COM1, serial_init D COM1 BAUD_115200 d)"

definition print_serial :: "'d ports \<Rightarrow> nat list \<Rightarrow> 'd \<Rightarrow> 'd option" where
  "print_serial D cs d = serial_write_str D COM1 cs d"

subsection \<open>A UART\<close>

text \<open>The status register shows no error, and the given bit.\<close>

definition status_ready :: "u8 \<Rightarrow> u8 \<Rightarrow> bool" where
  "status_ready bit_mask st \<longleftrightarrow>
     st AND OVERRUN_ERROR = 0 \<and> st AND PARITY_ERROR = 0 \<and> st AND FRAMING_ERROR = 0 \<and> st AND bit_mask \<noteq> 0"

text \<open>
  \<open>uart_sends D com sent wait\<close>: reading the line status does not change what has been sent; after
  \<open>wait d\<close> more readings it reports an empty transmit register and no error, and then a byte
  written to the data register is sent.
\<close>

definition uart_sends :: "'d ports \<Rightarrow> ComPort \<Rightarrow> ('d \<Rightarrow> u8 list) \<Rightarrow> ('d \<Rightarrow> nat) \<Rightarrow> bool" where
  "uart_sends D com sent wait \<longleftrightarrow>
     (\<forall>d. sent (snd (port_in D (com_base com + 5) d)) = sent d \<and>
        (if wait d = 0
         then status_ready TRANSMITTER_HOLDING_REGISTER (fst (port_in D (com_base com + 5) d)) \<and>
              (\<forall>v. sent (port_out D (com_base com) v (snd (port_in D (com_base com + 5) d))) = sent d @ [v])
         else \<not> status_ready TRANSMITTER_HOLDING_REGISTER (fst (port_in D (com_base com + 5) d)) \<and>
              wait (snd (port_in D (com_base com + 5) d)) < wait d))"

text \<open>
  \<open>uart_receives D com incoming wait\<close>: while bytes are incoming, the status reports the first of
  them after \<open>wait d\<close> more readings, without an error, and reading the data register takes it.
\<close>

definition uart_receives :: "'d ports \<Rightarrow> ComPort \<Rightarrow> ('d \<Rightarrow> u8 list) \<Rightarrow> ('d \<Rightarrow> nat) \<Rightarrow> bool" where
  "uart_receives D com incoming wait \<longleftrightarrow>
     (\<forall>d. incoming d \<noteq> [] \<longrightarrow>
        (if wait d = 0
         then status_ready DATA_READY (fst (port_in D (com_base com + 5) d)) \<and>
              fst (port_in D (com_base com) (snd (port_in D (com_base com + 5) d))) = hd (incoming d) \<and>
              incoming (snd (port_in D (com_base com) (snd (port_in D (com_base com + 5) d)))) = tl (incoming d)
         else fst (port_in D (com_base com + 5) d) AND (OVERRUN_ERROR OR PARITY_ERROR OR FRAMING_ERROR OR DATA_READY) = 0 \<and>
              incoming (snd (port_in D (com_base com + 5) d)) = incoming d \<and>
              wait (snd (port_in D (com_base com + 5) d)) < wait d))"

lemma rr_registers:
  "rr D com LINE_STATUS_REGISTER d = port_in D (com_base com + 5) d"
  "rr D com RECEIVE_BUFFER_REGISTER d = port_in D (com_base com) d"
  "wr D com TRANSMIT_BUFFER_REGISTER v d = port_out D (com_base com) v d"
  by (simp_all add: rr_def wr_def register_defs)

lemma try_write_cases:
  "try_write D com v d =
    (if status_ready TRANSMITTER_HOLDING_REGISTER (fst (port_in D (com_base com + 5) d))
     then (Inr (), port_out D (com_base com) v (snd (port_in D (com_base com + 5) d)))
     else (Inl (projl (fst (try_write D com v d))), snd (port_in D (com_base com + 5) d)))"
  by (simp add: try_write_def rr_registers status_ready_def split: prod.split)

lemma serial_write_sends:
  assumes "uart_sends D com sent wait"
  shows "\<exists>d'. serial_write D com v d = Some d' \<and> sent d' = sent d @ [v]"
proof (induction "wait d" arbitrary: d rule: less_induct)
  case less
  let ?d = "snd (port_in D (com_base com + 5) d)"
  have u: "sent ?d = sent d"
    "wait d = 0 \<Longrightarrow> status_ready TRANSMITTER_HOLDING_REGISTER (fst (port_in D (com_base com + 5) d))"
    "wait d = 0 \<Longrightarrow> sent (port_out D (com_base com) v ?d) = sent d @ [v]"
    "wait d \<noteq> 0 \<Longrightarrow> \<not> status_ready TRANSMITTER_HOLDING_REGISTER (fst (port_in D (com_base com + 5) d))"
    "wait d \<noteq> 0 \<Longrightarrow> wait ?d < wait d"
    using assms unfolding uart_sends_def by (metis)+
  show ?case
  proof (cases "wait d = 0")
    case True
    then show ?thesis using u(2,3) try_write_cases [of D com v d] by (simp add: serial_write.simps [of D com v d])
  next
    case False
    then obtain e where "try_write D com v d = (Inl e, ?d)" using u(4) try_write_cases [of D com v d] by metis
    with less.hyps [OF u(5) [OF False]] u(1) show ?thesis by (simp add: serial_write.simps [of D com v d])
  qed
qed

lemma mask_or_0:
  "(st :: u8) AND (a OR b OR c OR e) = 0 \<longleftrightarrow> st AND a = 0 \<and> st AND b = 0 \<and> st AND c = 0 \<and> st AND e = 0"
  by (auto simp: bit_eq_iff bit_simps)

lemma serial_read_receives:
  assumes "uart_receives D com incoming wait" "incoming d = c # cs"
  shows "\<exists>d'. serial_read D com d = Some (Inr c, d') \<and> incoming d' = cs"
  using assms(2)
proof (induction "wait d" arbitrary: d rule: less_induct)
  case less
  let ?d = "snd (port_in D (com_base com + 5) d)" and ?st = "fst (port_in D (com_base com + 5) d)"
  have ne: "incoming d \<noteq> []" using less.prems by simp
  note u = assms(1) [unfolded uart_receives_def, rule_format, OF ne]
  show ?case
  proof (cases "wait d = 0")
    case True
    then have r: "status_ready DATA_READY ?st" "fst (port_in D (com_base com) ?d) = c"
      "incoming (snd (port_in D (com_base com) ?d)) = cs" using u less.prems by simp_all
    then have "try_read D com d = (Inr c, snd (port_in D (com_base com) ?d))"
      by (simp add: try_read_def rr_registers status_ready_def case_prod_beta)
    with r(3) show ?thesis by (simp add: serial_read.simps [of D com d])
  next
    case False
    then have r: "?st AND (OVERRUN_ERROR OR PARITY_ERROR OR FRAMING_ERROR OR DATA_READY) = 0"
      "incoming ?d = c # cs" "wait ?d < wait d" using u less.prems by simp_all
    then have "try_read D com d = (Inl Busy, ?d)"
      unfolding mask_or_0 by (simp add: try_read_def rr_registers case_prod_beta)
    with less.hyps [OF r(3,2)] show ?thesis by (simp add: serial_read.simps [of D com d])
  qed
qed

lemma read_line_loop_receives:
  assumes "uart_receives D com incoming wait" "incoming d = line @ 13 # rest" "13 \<notin> set line"
  shows "\<exists>d'. read_line_loop D com acc d = Some (Inr (acc @ filter (\<lambda>c. c < 128) line), d') \<and> incoming d' = rest"
  using assms(2,3)
proof (induction line arbitrary: acc d)
  case Nil
  then obtain d' where "serial_read D com d = Some (Inr 13, d')" "incoming d' = rest"
    using serial_read_receives [OF assms(1)] by fastforce
  then show ?case by (simp add: read_line_loop.simps [of D com acc d])
next
  case (Cons c line)
  then obtain d' where d': "serial_read D com d = Some (Inr c, d')" "incoming d' = line @ 13 # rest"
    using serial_read_receives [OF assms(1)] by fastforce
  moreover have "c \<noteq> 13" "13 \<notin> set line" using Cons.prems(2) by auto
  ultimately show ?case
    using Cons.IH [OF d'(2), of "if c < 128 then acc @ [c] else acc"]
    by (cases "c < 128") (simp_all add: read_line_loop.simps [of D com acc d])
qed

lemma serial_write_str_ok:
  assumes "uart_sends D com sent wait"
  shows "\<exists>d'. serial_write_str D com cs d = Some d' \<and>
    sent d' = sent d @ map word_of_nat (filter (\<lambda>c. c < 128) cs)"
proof (induction cs arbitrary: d)
  case (Cons c cs)
  show ?case
  proof (cases "c < 128")
    case True
    obtain d1 where "serial_write D com (word_of_nat c) d = Some d1" "sent d1 = sent d @ [word_of_nat c]"
      using serial_write_sends [OF assms] by blast
    with True Cons.IH [of d1] show ?thesis by simp
  next
    case False
    with Cons.IH [of d] show ?thesis by simp
  qed
qed simp

subsection \<open>Properties\<close>

text \<open>
  C24: printing a string on a UART that becomes ready again and again returns, and sends exactly
  the ASCII characters of the string, in order and each of them once; status errors are waited
  out.
\<close>

theorem serial_write_str_sends:
  assumes "uart_sends D com sent wait"
  shows "\<exists>d'. serial_write_str D com cs d = Some d' \<and>
    sent d' = sent d @ map word_of_nat (filter (\<lambda>c. c < 128) cs)"
  by (rule serial_write_str_ok [OF assms])

text \<open>
  Reading a line returns the ASCII bytes received before the first carriage return, drops the
  other bytes, and leaves what follows the carriage return to the next reader.
\<close>

lemma read_line_receives:
  assumes "uart_receives D com incoming wait" "incoming d = line @ 13 # rest" "13 \<notin> set line"
  shows "\<exists>d'. read_line D com d = Some (Inr (filter (\<lambda>c. c < 128) line), d') \<and> incoming d' = rest"
  using read_line_loop_receives [OF assms, of "[]"] by (simp add: read_line_def)

text \<open>
  Initialisation leaves the divisor latch with the divisor of the baud rate, eight data bits,
  no parity, one stop bit, closed divisor latch, no interrupts and no loopback: the last values
  written to the registers, where the registers 0 and 1 are the divisor while bit 7 of the line
  control register is set.
\<close>

lemma serial_init_divisor:
  "\<exists>low high. serial_init recorder com baud [] =
     [(com_base com + 3, 0x80), (com_base com, low), (com_base com + 1, high), (com_base com + 3, 3),
      (com_base com + 1, 0), (com_base com + 4, 0)] \<and>
   unat low + 256 * unat high = unat (baud_divisor baud)"
  by (cases baud) (simp_all add: serial_init_def wr_def recorder_def register_defs)

subsection \<open>A concrete UART\<close>

text \<open>
  Its state: the bytes received and not yet read, the bytes sent, and whether the last status
  reading reported an idle port; it is busy at every other reading.
\<close>

definition uart_ref :: "(u8 list \<times> u8 list \<times> bool) ports" where
  "uart_ref = \<lparr>
     port_in = (\<lambda>p (inc, sent, idle).
       if p = com_base COM1 + 5
       then (if idle then 0 else if inc = [] then 0x20 else 0x21, (inc, sent, \<not> idle))
       else if inc = [] then (0, (inc, sent, idle)) else (hd inc, (tl inc, sent, idle))),
     port_out = (\<lambda>p v (inc, sent, idle). (inc, sent @ [v], idle))\<rparr>"

definition uart_wait :: "u8 list \<times> u8 list \<times> bool \<Rightarrow> nat" where
  "uart_wait d = (if snd (snd d) then 1 else 0)"

lemma uart_ref_sends: "uart_sends uart_ref COM1 (\<lambda>d. fst (snd d)) uart_wait"
  by (auto simp: uart_sends_def uart_ref_def uart_wait_def status_ready_def mask_defs)

lemma uart_ref_receives: "uart_receives uart_ref COM1 fst uart_wait"
  by (auto simp: uart_receives_def uart_ref_def uart_wait_def status_ready_def mask_defs)

theorem serial_write_str_sends_witness:
  "\<exists>d'. serial_write_str uart_ref COM1 [72, 8364, 105] ([], [], True) = Some d' \<and> fst (snd d') = [72, 105]"
  using serial_write_str_sends [OF uart_ref_sends, of "[72, 8364, 105]" "([], [], True)"] by simp

lemma read_line_receives_witness:
  "\<exists>d'. read_line uart_ref COM1 ([76, 200, 83, 13, 65], [], False) = Some (Inr [76, 83], d') \<and> fst d' = [65]"
  using read_line_receives [OF uart_ref_receives, of "([76, 200, 83, 13, 65], [], False)" "[76, 200, 83]" "[65]"]
  by simp

end
