(* ===== verification/Frame_Source.thy ===== *)
theory Frame_Source
  imports Prelude
begin

text \<open>
  The interface of a physical frame allocator (the traits \<open>FrameAllocator\<close> and
  \<open>FrameDeallocator\<close> that memory.rs implements), as a locale: the two operations, the
  abstraction \<open>frames a fs\<close> ("\<open>a\<close> is well formed and its free frames are \<open>fs\<close>, in the order in
  which they will be handed out"), and the pool of frames it manages.  What every user of an
  allocator relies on is proved once, from these laws.
\<close>

text \<open>A client holds a list of frames; it takes new ones and gives back some that it holds.\<close>

datatype fop = Take | Give nat

fun client_step ::
  "('a \<Rightarrow> (nat option \<times> 'a) res) \<Rightarrow> (nat \<Rightarrow> 'a \<Rightarrow> 'a res) \<Rightarrow> fop \<Rightarrow> nat list \<times> 'a \<Rightarrow> (nat list \<times> 'a) res"
where
  "client_step al de Take (held, a) =
     bnd (al a) (\<lambda>(r, a'). Inr (case r of None \<Rightarrow> (held, a') | Some f \<Rightarrow> (f # held, a')))"
| "client_step al de (Give f) (held, a) =
     (if f \<in> set held then bnd (de f a) (\<lambda>a'. Inr (remove1 f held, a')) else Inr (held, a))"

text \<open>
  The abstract specification of a frame allocator is a stack of frames.  \<open>source_run\<close> lets an
  implementation and \<open>stack_run\<close> the specification answer a sequence of requests; a sequence is
  legal if it only gives back frames of the pool that are not free at that moment.
\<close>

fun stack_step :: "fop \<Rightarrow> nat list \<Rightarrow> nat option \<times> nat list" where
  "stack_step Take [] = (None, [])"
| "stack_step Take (f # fs) = (Some f, fs)"
| "stack_step (Give f) fs = (None, f # fs)"

fun stack_run :: "fop list \<Rightarrow> nat list \<Rightarrow> nat option list \<times> nat list" where
  "stack_run [] fs = ([], fs)"
| "stack_run (op # ops) fs =
     (let (r, fs') = stack_step op fs; (rs, fs'') = stack_run ops fs' in (r # rs, fs''))"

fun legal :: "nat set \<Rightarrow> fop list \<Rightarrow> nat list \<Rightarrow> bool" where
  "legal pool [] fs \<longleftrightarrow> True"
| "legal pool (op # ops) fs \<longleftrightarrow>
     (case op of Take \<Rightarrow> True | Give f \<Rightarrow> f \<in> pool \<and> f \<notin> set fs) \<and> legal pool ops (snd (stack_step op fs))"

fun source_step ::
  "('a \<Rightarrow> (nat option \<times> 'a) res) \<Rightarrow> (nat \<Rightarrow> 'a \<Rightarrow> 'a res) \<Rightarrow> fop \<Rightarrow> 'a \<Rightarrow> (nat option \<times> 'a) res"
where
  "source_step al de Take a = al a"
| "source_step al de (Give f) a = bnd (de f a) (\<lambda>a. Inr (None, a))"

fun source_run ::
  "('a \<Rightarrow> (nat option \<times> 'a) res) \<Rightarrow> (nat \<Rightarrow> 'a \<Rightarrow> 'a res) \<Rightarrow> fop list \<Rightarrow> 'a \<Rightarrow> (nat option list \<times> 'a) res"
where
  "source_run al de [] a = Inr ([], a)"
| "source_run al de (op # ops) a =
     bnd (source_step al de op a) (\<lambda>(r, a). bnd (source_run al de ops a) (\<lambda>(rs, a). Inr (r # rs, a)))"

locale frame_source =
  fixes alloc :: "'a \<Rightarrow> (nat option \<times> 'a) res"
    and dealloc :: "nat \<Rightarrow> 'a \<Rightarrow> 'a res"
    and frames :: "'a \<Rightarrow> nat list \<Rightarrow> bool"
    and pool :: "nat set"
  assumes alloc_empty: "frames a [] \<Longrightarrow> alloc a = Inr (None, a)"
    and alloc_first: "frames a (f # fs) \<Longrightarrow> \<exists>a'. alloc a = Inr (Some f, a') \<and> frames a' fs"
    and dealloc_ok: "frames a fs \<Longrightarrow> f \<in> pool \<Longrightarrow> f \<notin> set fs \<Longrightarrow>
                       \<exists>a'. dealloc f a = Inr a' \<and> frames a' (f # fs)"
    and frames_distinct: "frames a fs \<Longrightarrow> distinct fs"
    and frames_pool: "frames a fs \<Longrightarrow> set fs \<subseteq> pool"
begin

text \<open>A frame given back is the next one handed out.\<close>

lemma dealloc_alloc:
  assumes "frames a fs" "f \<in> pool" "f \<notin> set fs"
  shows "\<exists>a' a''. dealloc f a = Inr a' \<and> alloc a' = Inr (Some f, a'') \<and> frames a'' fs"
  using dealloc_ok [OF assms] alloc_first by blast

text \<open>The held and the free frames partition the pool.\<close>

definition partitions :: "nat list \<Rightarrow> nat list \<Rightarrow> bool" where
  "partitions held fs \<longleftrightarrow> distinct (held @ fs) \<and> set (held @ fs) = pool"

lemma client_step_partitions:
  assumes "frames a fs" "partitions held fs"
  shows "\<exists>held' a' fs'. client_step alloc dealloc op (held, a) = Inr (held', a') \<and>
           frames a' fs' \<and> partitions held' fs'"
proof (cases op)
  case Take
  show ?thesis
  proof (cases fs)
    case Nil
    with assms alloc_empty [of a] Take show ?thesis by auto
  next
    case (Cons f fs')
    with assms alloc_first [of a f fs'] obtain a' where "alloc a = Inr (Some f, a')" "frames a' fs'"
      by blast
    moreover from assms(2) Cons have "partitions (f # held) fs'" by (auto simp: partitions_def)
    ultimately show ?thesis using Take by auto
  qed
next
  case (Give f)
  show ?thesis
  proof (cases "f \<in> set held")
    case True
    with assms have "f \<in> pool" "f \<notin> set fs" by (auto simp: partitions_def)
    with dealloc_ok assms(1) obtain a' where "dealloc f a = Inr a'" "frames a' (f # fs)" by blast
    moreover from True assms(2) have "partitions (remove1 f held) (f # fs)"
      by (auto simp: partitions_def)
    ultimately show ?thesis using Give True by auto
  next
    case False
    with Give assms show ?thesis by auto
  qed
qed

lemma client_run_partitions:
  assumes "frames a fs" "partitions held fs"
  shows "\<exists>held' a' fs'. foldm (client_step alloc dealloc) ops (held, a) = Inr (held', a') \<and>
           frames a' fs' \<and> partitions held' fs'"
proof -
  let ?I = "\<lambda>(held, a). \<exists>fs. frames a fs \<and> partitions held fs"
  have "\<exists>t. foldm (client_step alloc dealloc) ops (held, a) = Inr t \<and> ?I t"
  proof (rule foldm_invar)
    show "?I (held, a)" using assms by auto
    fix op s
    assume "?I s"
    then show "\<exists>t. client_step alloc dealloc op s = Inr t \<and> ?I t"
      using client_step_partitions by (cases s) fastforce
  qed
  then show ?thesis by auto
qed

text \<open>Every allocator with these laws simulates the stack.\<close>

lemma source_step_simulates:
  assumes "frames a fs" "case op of Take \<Rightarrow> True | Give f \<Rightarrow> f \<in> pool \<and> f \<notin> set fs"
  shows "\<exists>a'. source_step alloc dealloc op a = Inr (fst (stack_step op fs), a') \<and> frames a' (snd (stack_step op fs))"
proof (cases op)
  case Take
  with assms(1) show ?thesis
    by (cases fs) (auto dest: alloc_empty alloc_first)
next
  case (Give f)
  with assms dealloc_ok [of a fs f] show ?thesis by auto
qed

lemma source_run_simulates:
  assumes "frames a fs" "legal pool ops fs"
  shows "\<exists>a'. source_run alloc dealloc ops a = Inr (fst (stack_run ops fs), a') \<and> frames a' (snd (stack_run ops fs))"
  using assms
proof (induction ops arbitrary: a fs)
  case (Cons op ops)
  from source_step_simulates [OF Cons.prems(1), of op] Cons.prems(2) obtain a' where
    a': "source_step alloc dealloc op a = Inr (fst (stack_step op fs), a')" "frames a' (snd (stack_step op fs))" by auto
  from Cons.IH [OF a'(2)] Cons.prems(2) a'(1) show ?case by (auto split: prod.splits)
qed simp

end

end
