(* ===== verification/Frame_Allocator.thy ===== *)
theory Frame_Allocator
  imports X86_Lib Frame_Source
begin

text \<open>
  The physical frame allocator of kernel/src/memory.rs: an intrusive linked list of free
  frames, each node stored in the frame it describes and reached through the direct mapping of
  physical memory at \<open>physical_memory_offset\<close>.

  The memory the allocator reads and writes through raw pointers is the field \<open>node_mem\<close>, a
  map from the virtual address of a node to the node written there.  \<open>free_chain\<close> relates that
  memory to the list of free frames, \<open>fa_inv\<close> is the invariant of the allocator, and the
  interpretation of \<open>frame_source\<close> at the end discharges the laws every client uses.
\<close>

definition physical_memory_offset :: "x86 \<Rightarrow> BootInfo \<Rightarrow> nat res" where
  "physical_memory_offset X bi =
     (case boot_physical_memory_offset bi of
        None \<Rightarrow> Inl UndefinedBehaviour
      | Some off \<Rightarrow> x_virt_new X off)"

definition phys_to_virt :: "x86 \<Rightarrow> BootInfo \<Rightarrow> nat \<Rightarrow> nat res" where
  "phys_to_virt X bi phys = bnd (physical_memory_offset X bi) (\<lambda>off. x_virt_add X off phys)"

record FreeNode =
  node_next :: "nat option"
  node_frame :: nat

record BootInfoFrameAllocator =
  free_memory_head :: "nat option"
  total_frames :: nat
  free_frames :: nat

type_synonym node_memory = "nat \<rightharpoonup> FreeNode"

text \<open>The allocator together with the memory it dereferences.\<close>

record falloc = BootInfoFrameAllocator +
  node_mem :: node_memory

definition phys_addr_to_node_ref :: "x86 \<Rightarrow> BootInfo \<Rightarrow> nat \<Rightarrow> nat res" where
  "phys_addr_to_node_ref X bi addr = bnd (x_phys_new X addr) (phys_to_virt X bi)"

subsection \<open>Initialisation\<close>

text \<open>One turn of the loop that finds the physical range of the ram disk.\<close>

definition ramdisk_step ::
  "x86 \<Rightarrow> (nat \<Rightarrow> nat option) \<Rightarrow> nat \<Rightarrow> nat \<Rightarrow> nat option \<times> nat option \<Rightarrow> (nat option \<times> nat option) res"
where
  "ramdisk_step X translate_page base_addr i = (\<lambda>(first_phys_addr, last_phys_addr).
     bnd (cmul i 4096) (\<lambda>o'.
     bnd (cadd base_addr o') (\<lambda>a.
     bnd (x_virt_new X a) (\<lambda>v.
     bnd (unwrap (x_page_from_start X v)) (\<lambda>page.
     bnd (unwrap (translate_page page)) (\<lambda>phys_addr.
     case last_phys_addr of
       Some l \<Rightarrow> bnd (cadd l 4096) (\<lambda>n. bnd (ass (phys_addr = n)) (\<lambda>_.
                  Inr (first_phys_addr, Some phys_addr)))
     | None \<Rightarrow> Inr (Some phys_addr, Some phys_addr)))))))"

definition ramdisk_range :: "x86 \<Rightarrow> BootInfo \<Rightarrow> (nat \<Rightarrow> nat option) \<Rightarrow> (nat \<times> nat) res" where
  "ramdisk_range X bi translate_page =
     bnd (unwrap (ramdisk_addr bi)) (\<lambda>addr.
     bnd (x_align_down X addr 4096) (\<lambda>base_addr.
     bnd (x_align_up X (ramdisk_len bi) 4096) (\<lambda>len.
     bnd (foldm (ramdisk_step X translate_page base_addr) [0..<len div 4096] (None, None))
       (\<lambda>(first_phys_addr, last_phys_addr).
     bnd (unwrap first_phys_addr) (\<lambda>f.
     bnd (unwrap last_phys_addr) (\<lambda>l.
     Inr (f, l)))))))"

definition region_frames :: "x86 \<Rightarrow> MemoryRegion \<Rightarrow> nat list res" where
  "region_frames X r =
     bnd (x_align_up X (region_start r) 4096) (\<lambda>a.
     bnd (x_align_down X (region_end r) 4096) (\<lambda>b.
     Inr (step_by 4096 a b)))"

text \<open>The iterator chain that yields the addresses of the frames to put on the free list.\<close>

definition raw_usable_frame_addresses :: "x86 \<Rightarrow> BootInfo \<Rightarrow> nat \<times> nat \<Rightarrow> nat list res" where
  "raw_usable_frame_addresses X bi = (\<lambda>(first, last).
     bnd (foldm (\<lambda>r acc. bnd (region_frames X r) (\<lambda>fs. Inr (acc @ fs)))
            (filter (\<lambda>r. region_kind r = Usable \<and> region_start r > 0) (memory_regions bi)) [])
       (\<lambda>fs. Inr (filter (\<lambda>f. \<not> (first \<le> f \<and> f \<le> last)) fs)))"

text \<open>\<open>peek().map(phys_addr_to_node_ref)\<close> on the frames that remain.\<close>

fun peek_node_ref :: "x86 \<Rightarrow> BootInfo \<Rightarrow> nat list \<Rightarrow> nat option res" where
  "peek_node_ref X bi [] = Inr None"
| "peek_node_ref X bi (a # as) = bnd (phys_addr_to_node_ref X bi a) (\<lambda>p. Inr (Some p))"

fun write_free_nodes ::
  "x86 \<Rightarrow> BootInfo \<Rightarrow> nat list \<Rightarrow> node_memory \<times> nat \<Rightarrow> (node_memory \<times> nat) res"
where
  "write_free_nodes X bi [] (m, frame_count) = Inr (m, frame_count)"
| "write_free_nodes X bi (phys_addr # as) (m, frame_count) =
     bnd (phys_addr_to_node_ref X bi phys_addr) (\<lambda>node_ref.
     bnd (peek_node_ref X bi as) (\<lambda>node_next_ref.
     bnd (x_phys_new X phys_addr) (\<lambda>p.
     bnd (unwrap (x_frame_from_start X p)) (\<lambda>fr.
     bnd (cadd frame_count 1) (\<lambda>n.
     write_free_nodes X bi as
       (m(node_ref \<mapsto> \<lparr>node_next = node_next_ref, node_frame = fr\<rparr>), n))))))"

definition initialize_free_memory ::
  "x86 \<Rightarrow> BootInfo \<Rightarrow> (nat \<Rightarrow> nat option) \<Rightarrow> node_memory \<Rightarrow> (nat option \<times> nat \<times> node_memory) res"
where
  "initialize_free_memory X bi translate_page m =
     bnd (ramdisk_range X bi translate_page) (\<lambda>already_mapped_range.
     bnd (raw_usable_frame_addresses X bi already_mapped_range) (\<lambda>as.
     bnd (peek_node_ref X bi as) (\<lambda>free_memory_head.
     bnd (write_free_nodes X bi as (m, 0)) (\<lambda>(m', frame_count).
     Inr (free_memory_head, frame_count, m')))))"

definition new_allocator ::
  "x86 \<Rightarrow> BootInfo \<Rightarrow> (nat \<Rightarrow> nat option) \<Rightarrow> node_memory \<Rightarrow> falloc res"
where
  "new_allocator X bi translate_page m =
     bnd (initialize_free_memory X bi translate_page m) (\<lambda>(head, frame_count, m').
     bnd (cmul frame_count 4096) (\<lambda>_.
     Inr \<lparr>free_memory_head = head, total_frames = frame_count, free_frames = frame_count,
          node_mem = m'\<rparr>))"

subsection \<open>Allocation and deallocation\<close>

definition allocate_frame :: "falloc \<Rightarrow> (nat option \<times> falloc) res" where
  "allocate_frame self =
     (case free_memory_head self of
        None \<Rightarrow> Inr (None, self)
      | Some node \<Rightarrow>
          bnd (csub (free_frames self) 1) (\<lambda>n.
          case node_mem self node of
            None \<Rightarrow> Inl UndefinedBehaviour
          | Some nd \<Rightarrow>
              Inr (Some (node_frame nd),
                   self\<lparr>free_frames := n, free_memory_head := node_next nd\<rparr>)))"

definition deallocate_frame :: "x86 \<Rightarrow> BootInfo \<Rightarrow> nat \<Rightarrow> falloc \<Rightarrow> falloc res" where
  "deallocate_frame X bi fr self =
     bnd (phys_addr_to_node_ref X bi fr) (\<lambda>node.
     bnd (cadd (free_frames self) 1) (\<lambda>n.
     Inr (self\<lparr>node_mem := (node_mem self)(node \<mapsto>
                  \<lparr>node_next = free_memory_head self, node_frame = fr\<rparr>),
               free_memory_head := Some node,
               free_frames := n\<rparr>)))"

definition get_memory_utilization :: "falloc \<Rightarrow> (nat \<times> nat) res" where
  "get_memory_utilization a =
     bnd (csub (total_frames a) (free_frames a)) (\<lambda>used. Inr (used, total_frames a))"

subsection \<open>The free list in memory\<close>

text \<open>
  \<open>free_chain m off h fs\<close>: following the chain of nodes from the pointer \<open>h\<close> through the direct
  mapping at \<open>off\<close> visits exactly the frames \<open>fs\<close>, in this order.
\<close>

fun free_chain :: "node_memory \<Rightarrow> nat \<Rightarrow> nat option \<Rightarrow> nat list \<Rightarrow> bool" where
  "free_chain m off h [] \<longleftrightarrow> h = None"
| "free_chain m off h (f # fs) \<longleftrightarrow>
     h = Some (off + f) \<and>
     (case m (off + f) of
        None \<Rightarrow> False
      | Some nd \<Rightarrow> node_frame nd = f \<and> free_chain m off (node_next nd) fs)"

lemma free_chain_upd [simp]:
  "f \<notin> set fs \<Longrightarrow> free_chain (m(off + f := v)) off h fs = free_chain m off h fs"
  by (induction fs arbitrary: h) (auto split: option.splits)

lemma free_chain_cong:
  "(\<And>f. f \<in> set fs \<Longrightarrow> m (off + f) = m' (off + f)) \<Longrightarrow> free_chain m off h fs = free_chain m' off h fs"
  by (induction fs arbitrary: h) (auto split: option.splits)

text \<open>The direct mapping is usable, and a frame lies inside it.\<close>

definition dm_ok :: "x86 \<Rightarrow> BootInfo \<Rightarrow> nat \<Rightarrow> bool" where
  "dm_ok X bi off \<longleftrightarrow> x86_ok X \<and> boot_physical_memory_offset bi = Some off \<and> off < 2 ^ 47"

definition frame_ok :: "nat \<Rightarrow> nat \<Rightarrow> bool" where
  "frame_ok off f \<longleftrightarrow> 4096 dvd f \<and> f < 2 ^ 52 \<and> off + f < 2 ^ 47"

lemma phys_to_virt_ok: "dm_ok X bi off \<Longrightarrow> off + p < 2 ^ 47 \<Longrightarrow> phys_to_virt X bi p = Inr (off + p)"
  by (simp add: dm_ok_def phys_to_virt_def physical_memory_offset_def x86_addr_simps)

lemma node_ref_ok:
  "dm_ok X bi off \<Longrightarrow> frame_ok off f \<Longrightarrow> phys_addr_to_node_ref X bi f = Inr (off + f)"
  by (simp add: phys_addr_to_node_ref_def frame_ok_def phys_to_virt_ok dm_ok_def x86_addr_simps(1))

lemma frame_new_ok:
  assumes "dm_ok X bi off" "frame_ok off f"
  shows "x_phys_new X f = Inr f" and "x_frame_from_start X f = Some f"
  using assms by (simp_all add: dm_ok_def frame_ok_def x86_addr_simps x86_page_simps)

subsection \<open>Building the free list\<close>

lemma peek_node_ref_ok:
  "dm_ok X bi off \<Longrightarrow> \<forall>f\<in>set as. frame_ok off f \<Longrightarrow>
     peek_node_ref X bi as = Inr (case as of [] \<Rightarrow> None | a # _ \<Rightarrow> Some (off + a))"
  by (cases as) (simp_all add: node_ref_ok)

lemma write_free_nodes_ok:
  assumes "dm_ok X bi off" "\<forall>f\<in>set as. frame_ok off f" "distinct as" "n + length as < 2 ^ 64"
  shows "\<exists>m'. write_free_nodes X bi as (m, n) = Inr (m', n + length as) \<and>
           free_chain m' off (case as of [] \<Rightarrow> None | a # _ \<Rightarrow> Some (off + a)) as \<and>
           (\<forall>f. f \<notin> set as \<longrightarrow> m' (off + f) = m (off + f))"
  using assms(2-)
proof (induction as arbitrary: m n)
  case (Cons a as)
  let ?nx = "case as of [] \<Rightarrow> None | a # _ \<Rightarrow> Some (off + a)"
  let ?m = "m(off + a \<mapsto> \<lparr>node_next = ?nx, node_frame = a\<rparr>)"
  from Cons.prems have a: "frame_ok off a" and "a \<notin> set as" by simp_all
  from Cons.prems have "\<forall>f\<in>set as. frame_ok off f" "distinct as" "n + 1 + length as < 2 ^ 64"
    by simp_all
  from Cons.IH [OF this, of ?m] obtain m' where
    m': "write_free_nodes X bi as (?m, n + 1) = Inr (m', n + 1 + length as)"
      "free_chain m' off ?nx as" "\<forall>f. f \<notin> set as \<longrightarrow> m' (off + f) = ?m (off + f)"
    by blast
  have "write_free_nodes X bi (a # as) (m, n) = Inr (m', n + length (a # as))"
    using m'(1) Cons.prems a assms(1)
    by (simp add: node_ref_ok peek_node_ref_ok frame_new_ok)
  with m' \<open>a \<notin> set as\<close> show ?case by auto
qed simp

subsection \<open>Which frames are free after initialisation\<close>

definition regions_ok :: "nat \<Rightarrow> MemoryRegion list \<Rightarrow> bool" where
  "regions_ok off rs \<longleftrightarrow>
     (\<forall>r\<in>set rs. region_start r \<le> region_end r \<and> region_end r < 2 ^ 52 \<and> off + region_end r \<le> 2 ^ 47) \<and>
     sorted_wrt (\<lambda>r r'. region_end r \<le> region_start r' \<or> region_end r' \<le> region_start r) rs"

definition region_pool :: "MemoryRegion \<Rightarrow> nat set" where
  "region_pool r = {f. 4096 dvd f \<and> region_start r \<le> f \<and> f + 4096 \<le> region_end r}"

definition usable_pool :: "MemoryRegion list \<Rightarrow> nat set" where
  "usable_pool rs = (\<Union>r\<in>{r \<in> set rs. region_kind r = Usable \<and> region_start r > 0}. region_pool r)"

lemma region_frames_ok:
  assumes "x86_ok X" "region_start r \<le> region_end r" "region_end r < 2 ^ 52"
  shows "\<exists>fs. region_frames X r = Inr fs \<and> set fs = region_pool r \<and> distinct fs"
proof -
  let ?a = "(region_start r + 4095) div 4096 * 4096" and ?b = "region_end r div 4096 * 4096"
  have "region_frames X r = Inr (step_by 4096 ?a ?b)"
    using assms by (simp add: region_frames_def x86_align_page)
  moreover have "set (step_by 4096 ?a ?b) = region_pool r"
  proof -
    have "(\<exists>k. x = ?a + k * 4096 \<and> x < ?b) \<longleftrightarrow> x \<in> region_pool r" for x
    proof
      assume "\<exists>k. x = ?a + k * 4096 \<and> x < ?b"
      then obtain k where k: "x = ((region_start r + 4095) div 4096 + k) * 4096" "x < ?b"
        by (auto simp: distrib_right)
      then have q: "(region_start r + 4095) div 4096 + k < region_end r div 4096" by simp
      have "region_start r \<le> x" using k(1) le_page_up [of "region_start r"] by simp
      moreover have "Suc ((region_start r + 4095) div 4096 + k) * 4096 \<le> region_end r div 4096 * 4096"
        using q by (intro mult_le_mono1 Suc_leI)
      then have "x + 4096 \<le> region_end r"
        using k(1) div_times_less_eq_dividend [of "region_end r" 4096] by simp
      ultimately show "x \<in> region_pool r" using k(1) by (simp add: region_pool_def)
    next
      assume "x \<in> region_pool r"
      then obtain q where q: "x = 4096 * q" "region_start r \<le> 4096 * q" "4096 * q + 4096 \<le> region_end r"
        by (auto simp: region_pool_def elim: dvdE)
      then have "x = ?a + (q - (region_start r + 4095) div 4096) * 4096 \<and> x < ?b"
        by (simp add: diff_mult_distrib)
      then show "\<exists>k. x = ?a + k * 4096 \<and> x < ?b" by blast
    qed
    then show ?thesis by (simp add: set_step_by set_eq_iff)
  qed
  ultimately show ?thesis by (simp add: distinct_step_by)
qed

lemma region_pool_disjoint:
  "region_end r \<le> region_start r' \<or> region_end r' \<le> region_start r \<Longrightarrow>
     region_pool r \<inter> region_pool r' = {}"
  by (auto simp: region_pool_def)

lemma collect_regions_ok:
  assumes "x86_ok X" "regions_ok off rs" "distinct acc" "\<forall>r\<in>set rs. set acc \<inter> region_pool r = {}"
  shows "\<exists>fs. foldm (\<lambda>r acc. bnd (region_frames X r) (\<lambda>fs. Inr (acc @ fs))) rs acc = Inr fs \<and>
           set fs = set acc \<union> (\<Union>r\<in>set rs. region_pool r) \<and> distinct fs"
  using assms(2-)
proof (induction rs arbitrary: acc)
  case (Cons r rs)
  then have r: "region_start r \<le> region_end r" "region_end r < 2 ^ 52" and rs: "regions_ok off rs"
    by (auto simp: regions_ok_def)
  from region_frames_ok [OF assms(1) r] obtain fs where
    fs: "region_frames X r = Inr fs" "set fs = region_pool r" "distinct fs" by blast
  have "\<forall>r'\<in>set rs. region_pool r \<inter> region_pool r' = {}"
    using Cons.prems(1) by (auto simp: regions_ok_def intro!: region_pool_disjoint)
  with Cons.prems fs have "distinct (acc @ fs)" "\<forall>r'\<in>set rs. set (acc @ fs) \<inter> region_pool r' = {}"
    by auto
  from Cons.IH [OF rs this] fs show ?case by auto
qed simp

lemma regions_ok_filter: "regions_ok off rs \<Longrightarrow> regions_ok off (filter P rs)"
  by (auto simp: regions_ok_def intro: sorted_wrt_filter)

lemma raw_usable_ok:
  assumes "x86_ok X" "regions_ok off (memory_regions bi)"
  shows "\<exists>fs. raw_usable_frame_addresses X bi (f0, l0) = Inr fs \<and> distinct fs \<and>
           set fs = usable_pool (memory_regions bi) - {f0..l0}"
proof -
  let ?rs = "filter (\<lambda>r. region_kind r = Usable \<and> region_start r > 0) (memory_regions bi)"
  let ?step = "\<lambda>r acc. bnd (region_frames X r) (\<lambda>fs. Inr (acc @ fs))"
  have "\<exists>fs. foldm ?step ?rs [] = Inr fs \<and> set fs = set [] \<union> (\<Union>r\<in>set ?rs. region_pool r) \<and> distinct fs"
    by (rule collect_regions_ok [OF assms(1) regions_ok_filter [OF assms(2)]]) simp_all
  then obtain fs where fs: "foldm ?step ?rs [] = Inr fs"
    "set fs = (\<Union>r\<in>set ?rs. region_pool r)" "distinct fs" by auto
  have "raw_usable_frame_addresses X bi (f0, l0) = Inr (filter (\<lambda>f. \<not> (f0 \<le> f \<and> f \<le> l0)) fs)"
    using fs(1) by (simp add: raw_usable_frame_addresses_def)
  with fs(2,3) show ?thesis by (auto simp: usable_pool_def)
qed

lemma usable_pool_frame_ok:
  "regions_ok off rs \<Longrightarrow> f \<in> usable_pool rs \<Longrightarrow> frame_ok off f"
  by (auto simp: regions_ok_def usable_pool_def region_pool_def frame_ok_def)

text \<open>The ram disk is mapped, page by page, to consecutive frames that start at \<open>r0\<close>.\<close>

definition ramdisk_mapped :: "BootInfo \<Rightarrow> (nat \<Rightarrow> nat option) \<Rightarrow> nat \<Rightarrow> bool" where
  "ramdisk_mapped bi translate_page r0 \<longleftrightarrow>
     (\<exists>addr. ramdisk_addr bi = Some addr \<and> 0 < ramdisk_len bi \<and>
        addr + ramdisk_len bi + 4096 < 2 ^ 47 \<and> r0 + ramdisk_len bi + 4096 < 2 ^ 64 \<and>
        (\<forall>i < (ramdisk_len bi + 4095) div 4096.
           translate_page (addr div 4096 * 4096 + i * 4096) = Some (r0 + i * 4096)))"

definition ramdisk_last :: "BootInfo \<Rightarrow> nat \<Rightarrow> nat" where
  "ramdisk_last bi r0 = r0 + ((ramdisk_len bi + 4095) div 4096 - 1) * 4096"

lemma ramdisk_step_ok:
  assumes "x86_ok X" "4096 dvd base" "base + i * 4096 < 2 ^ 47"
    and "translate_page (base + i * 4096) = Some p"
  shows "ramdisk_step X translate_page base i (None, l0) =
           (if l0 = None then Inr (Some p, Some p) else ramdisk_step X translate_page base i (None, l0))"
    and "l + 4096 = p \<Longrightarrow> p < 2 ^ 64 \<Longrightarrow>
           ramdisk_step X translate_page base i (f, Some l) = Inr (f, Some p)"
proof -
  have "x_virt_new X (base + i * 4096) = Inr (base + i * 4096)"
    using assms(1,3) by (rule x86_addr_simps)
  moreover have "x_page_from_start X (base + i * 4096) = Some (base + i * 4096)"
    using assms(1,2) by (intro x86_page_simps) simp_all
  moreover have "i * 4096 < 2 ^ 64" "base + i * 4096 < 2 ^ 64" using assms(3) by simp_all
  ultimately show
    "ramdisk_step X translate_page base i (None, l0) =
       (if l0 = None then Inr (Some p, Some p) else ramdisk_step X translate_page base i (None, l0))"
    "l + 4096 = p \<Longrightarrow> p < 2 ^ 64 \<Longrightarrow>
       ramdisk_step X translate_page base i (f, Some l) = Inr (f, Some p)"
    using assms(4) by (simp_all add: ramdisk_step_def)
qed

lemma ramdisk_loop:
  assumes "x86_ok X" "4096 dvd base" "base + Suc n * 4096 < 2 ^ 47" "r0 + Suc n * 4096 < 2 ^ 64"
    and "\<forall>i<Suc n. translate_page (base + i * 4096) = Some (r0 + i * 4096)"
  shows "foldm (ramdisk_step X translate_page base) [0..<Suc n] (None, None) =
           Inr (Some r0, Some (r0 + n * 4096))"
  using assms(3-)
proof (induction n)
  case 0
  then show ?case using ramdisk_step_ok(1) [OF assms(1,2), of 0 translate_page r0 None] by simp
next
  case (Suc n)
  have "foldm (ramdisk_step X translate_page base) [0..<Suc n] (None, None) =
      Inr (Some r0, Some (r0 + n * 4096))"
    by (rule Suc.IH) (use Suc.prems in simp_all)
  moreover have "ramdisk_step X translate_page base (Suc n) (Some r0, Some (r0 + n * 4096)) =
      Inr (Some r0, Some (r0 + Suc n * 4096))"
    using Suc.prems by (intro ramdisk_step_ok(2) [OF assms(1,2)]) auto
  ultimately show ?case by (simp only: upt_Suc_append [of 0 "Suc n"] foldm_append) simp
qed

lemma ramdisk_range_ok:
  assumes "x86_ok X" "ramdisk_mapped bi translate_page r0"
  shows "ramdisk_range X bi translate_page = Inr (r0, ramdisk_last bi r0)"
proof -
  from assms(2) obtain addr where m: "ramdisk_addr bi = Some addr" "0 < ramdisk_len bi"
      "addr + ramdisk_len bi + 4096 < 2 ^ 47" "r0 + ramdisk_len bi + 4096 < 2 ^ 64"
      "\<forall>i < (ramdisk_len bi + 4095) div 4096.
         translate_page (addr div 4096 * 4096 + i * 4096) = Some (r0 + i * 4096)"
    unfolding ramdisk_mapped_def by blast
  define b where "b = addr div 4096 * 4096"
  have "(ramdisk_len bi + 4095) div 4096 \<noteq> 0" using m(2) by simp
  then obtain n where n: "(ramdisk_len bi + 4095) div 4096 = Suc n" by (meson not0_implies_Suc)
  have "Suc n * 4096 \<le> ramdisk_len bi + 4095" unfolding n [symmetric]
    by (rule div_times_less_eq_dividend)
  moreover have "b \<le> addr" unfolding b_def by (rule div_times_less_eq_dividend)
  ultimately have "b + Suc n * 4096 < 2 ^ 47" "r0 + Suc n * 4096 < 2 ^ 64"
    using m(3,4) by linarith+
  then have "foldm (ramdisk_step X translate_page b) [0..<Suc n] (None, None) =
      Inr (Some r0, Some (r0 + n * 4096))"
    using m(5) unfolding n b_def [symmetric] by (intro ramdisk_loop assms(1)) (simp_all add: b_def)
  moreover have "x_align_down X addr 4096 = Inr b"
    using assms(1) by (simp add: x86_align_page b_def)
  moreover have "x_align_up X (ramdisk_len bi) 4096 = Inr (Suc n * 4096)"
    using assms(1) m(4) unfolding n [symmetric] by (intro x86_align_page) simp_all
  ultimately show ?thesis
    using m(1) n by (simp add: ramdisk_range_def ramdisk_last_def del: upt_Suc)
qed

subsection \<open>The invariant\<close>

definition fa_inv :: "x86 \<Rightarrow> BootInfo \<Rightarrow> nat \<Rightarrow> nat set \<Rightarrow> falloc \<Rightarrow> nat list \<Rightarrow> bool" where
  "fa_inv X bi off pool a fs \<longleftrightarrow>
     dm_ok X bi off \<and> (\<forall>f\<in>pool. frame_ok off f) \<and>
     free_chain (node_mem a) off (free_memory_head a) fs \<and> distinct fs \<and> set fs \<subseteq> pool \<and>
     free_frames a = length fs \<and> total_frames a = card pool"

lemma pool_finite:
  assumes "\<forall>f\<in>pool. frame_ok off f"
  shows "finite pool" and "card pool < 2 ^ 52"
proof -
  have sub: "pool \<subseteq> (\<lambda>q. 4096 * q) ` {..<2 ^ 40}"
    using assms by (auto simp: frame_ok_def elim!: dvdE)
  then show "finite pool" by (rule finite_subset) simp
  have "card pool \<le> card ((\<lambda>q. 4096 * q) ` {..<2 ^ 40 :: nat})" using sub by (rule card_mono [rotated]) simp
  also have "\<dots> \<le> 2 ^ 40" using card_image_le [of "{..<2 ^ 40 :: nat}" "\<lambda>q. 4096 * q"] by simp
  finally show "card pool < 2 ^ 52" by simp
qed

lemma fa_inv_length:
  assumes "fa_inv X bi off pool a fs"
  shows "length fs \<le> card pool"
  using assms pool_finite card_mono [of pool "set fs"] by (auto simp: fa_inv_def distinct_card)

lemma allocate_frame_Nil: "fa_inv X bi off pool a [] \<Longrightarrow> allocate_frame a = Inr (None, a)"
  by (simp add: fa_inv_def allocate_frame_def)

lemma allocate_frame_Cons:
  "fa_inv X bi off pool a (f # fs) \<Longrightarrow>
     \<exists>a'. allocate_frame a = Inr (Some f, a') \<and> fa_inv X bi off pool a' fs"
  by (auto simp: fa_inv_def allocate_frame_def split: option.splits)

lemma deallocate_frame_ok:
  assumes inv: "fa_inv X bi off pool a fs" and f: "f \<in> pool" "f \<notin> set fs"
  shows "\<exists>a'. deallocate_frame X bi f a = Inr a' \<and> fa_inv X bi off pool a' (f # fs)"
proof -
  from inv f have "phys_addr_to_node_ref X bi f = Inr (off + f)"
    by (simp add: fa_inv_def node_ref_ok)
  moreover have "free_frames a + 1 < 2 ^ 64"
    using fa_inv_length [OF inv] pool_finite(2) [of pool off] inv by (simp add: fa_inv_def)
  ultimately show ?thesis using inv f by (simp add: deallocate_frame_def fa_inv_def)
qed

interpretation fa: frame_source allocate_frame "deallocate_frame X bi" "fa_inv X bi off pool" pool
  for X bi off pool
proof
  show "\<And>a. fa_inv X bi off pool a [] \<Longrightarrow> allocate_frame a = Inr (None, a)"
    by (rule allocate_frame_Nil)
  show "\<And>a f fs. fa_inv X bi off pool a (f # fs) \<Longrightarrow>
      \<exists>a'. allocate_frame a = Inr (Some f, a') \<and> fa_inv X bi off pool a' fs"
    by (rule allocate_frame_Cons)
  show "\<And>a fs f. fa_inv X bi off pool a fs \<Longrightarrow> f \<in> pool \<Longrightarrow> f \<notin> set fs \<Longrightarrow>
      \<exists>a'. deallocate_frame X bi f a = Inr a' \<and> fa_inv X bi off pool a' (f # fs)"
    by (rule deallocate_frame_ok)
qed (simp_all add: fa_inv_def)

subsection \<open>Properties\<close>

text \<open>What the bootloader promises about memory, as far as initialisation relies on it.\<close>

definition boot_memory_ok :: "x86 \<Rightarrow> BootInfo \<Rightarrow> (nat \<Rightarrow> nat option) \<Rightarrow> nat \<Rightarrow> nat \<Rightarrow> bool" where
  "boot_memory_ok X bi translate_page off r0 \<longleftrightarrow>
     dm_ok X bi off \<and> regions_ok off (memory_regions bi) \<and> ramdisk_mapped bi translate_page r0"

definition boot_pool :: "BootInfo \<Rightarrow> nat \<Rightarrow> nat set" where
  "boot_pool bi r0 = usable_pool (memory_regions bi) - {r0..ramdisk_last bi r0}"

lemma new_allocator_ok:
  assumes "boot_memory_ok X bi translate_page off r0"
  shows "\<exists>a fs. new_allocator X bi translate_page m = Inr a \<and>
           fa_inv X bi off (boot_pool bi r0) a fs \<and> set fs = boot_pool bi r0"
proof -
  from assms have dm: "dm_ok X bi off" and X: "x86_ok X" and rg: "regions_ok off (memory_regions bi)"
    and rd: "ramdisk_mapped bi translate_page r0"
    by (auto simp: boot_memory_ok_def dm_ok_def)
  from raw_usable_ok [OF X rg] obtain fs where
    fs: "raw_usable_frame_addresses X bi (r0, ramdisk_last bi r0) = Inr fs" "distinct fs"
      "set fs = boot_pool bi r0"
    unfolding boot_pool_def by blast
  have ok: "\<forall>f\<in>set fs. frame_ok off f"
    using fs(3) rg by (auto simp: boot_pool_def intro: usable_pool_frame_ok)
  have len: "length fs = card (boot_pool bi r0)" using fs by (metis distinct_card)
  have "length fs < 2 ^ 52" using pool_finite(2) [of "set fs" off] ok fs(2)
    by (simp add: distinct_card)
  then have "0 + length fs < 2 ^ 64" "length fs * 4096 < 2 ^ 64" by simp_all
  from write_free_nodes_ok [OF dm ok fs(2) this(1), of m] obtain m' where
    m': "write_free_nodes X bi fs (m, 0) = Inr (m', length fs)"
      "free_chain m' off (case fs of [] \<Rightarrow> None | a # _ \<Rightarrow> Some (off + a)) fs" by auto
  let ?a = "\<lparr>free_memory_head = (case fs of [] \<Rightarrow> None | a # _ \<Rightarrow> Some (off + a)),
    total_frames = length fs, free_frames = length fs, node_mem = m'\<rparr>"
  have "new_allocator X bi translate_page m = Inr ?a"
    using fs(1) m'(1) ramdisk_range_ok [OF X rd] peek_node_ref_ok [OF dm ok] \<open>length fs * 4096 < 2 ^ 64\<close>
    by (simp add: new_allocator_def initialize_free_memory_def)
  moreover have "fa_inv X bi off (boot_pool bi r0) ?a fs"
    using m'(2) fs dm ok len by (simp add: fa_inv_def)
  ultimately show ?thesis using fs(3) by blast
qed


text \<open>
  C1: let clients take frames and give back frames they hold, in any order, starting from the
  freshly initialised allocator.  The allocator never panics and never touches memory that
  holds no node; no frame is handed out twice; every frame handed out is one of the usable
  ones; and the utilisation it reports is exactly the number of frames held.
\<close>

theorem frame_allocator_exclusive:
  assumes "boot_memory_ok X bi translate_page off r0"
    and "new_allocator X bi translate_page m = Inr a"
  shows "\<exists>held a'. foldm (client_step allocate_frame (deallocate_frame X bi)) ops ([], a) = Inr (held, a') \<and>
     distinct held \<and> set held \<subseteq> boot_pool bi r0 \<and>
     get_memory_utilization a' = Inr (length held, card (boot_pool bi r0))"
proof -
  let ?pool = "boot_pool bi r0"
  from new_allocator_ok [OF assms(1), of m] assms(2) obtain fs where
    "fa_inv X bi off ?pool a fs" "set fs = ?pool" by auto
  then have "fa_inv X bi off ?pool a fs" "fa.partitions ?pool [] fs"
    by (simp_all add: fa.partitions_def fa_inv_def)
  from fa.client_run_partitions [OF this] obtain held a' fs' where
    run: "foldm (client_step allocate_frame (deallocate_frame X bi)) ops ([], a) = Inr (held, a')"
    and inv: "fa_inv X bi off ?pool a' fs'" and part: "fa.partitions ?pool held fs'"
    by blast
  from part have "card ?pool = length held + length fs'"
    unfolding fa.partitions_def by (metis distinct_card length_append)
  with run inv part show ?thesis
    by (auto simp: fa.partitions_def fa_inv_def get_memory_utilization_def)
qed

text \<open>
  The frames of the free list, read off the memory; the counter of free frames bounds the walk.
\<close>

fun walk :: "nat \<Rightarrow> node_memory \<Rightarrow> nat option \<Rightarrow> nat list" where
  "walk (Suc n) m (Some p) = (case m p of None \<Rightarrow> [] | Some nd \<Rightarrow> node_frame nd # walk n m (node_next nd))"
| "walk _ _ _ = []"

definition abs_frames :: "falloc \<Rightarrow> nat list" where
  "abs_frames a = walk (free_frames a) (node_mem a) (free_memory_head a)"

lemma walk_chain: "free_chain m off h fs \<Longrightarrow> walk (length fs) m h = fs"
  by (induction fs arbitrary: h) (auto split: option.splits)

lemma abs_frames_inv: "fa_inv X bi off pool a fs \<Longrightarrow> abs_frames a = fs"
  unfolding abs_frames_def fa_inv_def using walk_chain [of "node_mem a" off "free_memory_head a" fs] by simp

text \<open>
  C4: the allocator in memory refines a stack of frames.  From the freshly initialised allocator,
  every sequence of requests that gives back only frames of the pool which are not free gets the
  same answers as from the stack that holds the initial free list, and the free list in memory
  ends as the stack does.
\<close>

theorem frame_allocator_refines_stack:
  assumes "boot_memory_ok X bi translate_page off r0"
    and "new_allocator X bi translate_page m = Inr a"
    and "legal (boot_pool bi r0) ops (abs_frames a)"
  shows "\<exists>a'. source_run allocate_frame (deallocate_frame X bi) ops a = Inr (fst (stack_run ops (abs_frames a)), a') \<and>
    abs_frames a' = snd (stack_run ops (abs_frames a)) \<and> set (abs_frames a) = boot_pool bi r0"
proof -
  from new_allocator_ok [OF assms(1), of m] assms(2) obtain fs where
    fs: "fa_inv X bi off (boot_pool bi r0) a fs" "set fs = boot_pool bi r0" by auto
  then have eq: "abs_frames a = fs" by (simp add: abs_frames_inv)
  from fa.source_run_simulates [OF fs(1)] assms(3) eq obtain a' where
    "source_run allocate_frame (deallocate_frame X bi) ops a = Inr (fst (stack_run ops fs), a')"
    "fa_inv X bi off (boot_pool bi r0) a' (snd (stack_run ops fs))" by blast
  with fs(2) eq show ?thesis by (auto dest: abs_frames_inv)
qed

subsection \<open>A concrete machine\<close>

text \<open>
  A boot information record with one usable region of four frames, of which the ram disk
  occupies the second, used to show that the hypotheses above can hold together.
\<close>

definition bi_ex :: BootInfo where
  "bi_ex = \<lparr>memory_regions = [\<lparr>region_start = 65536, region_end = 81920, region_kind = Usable\<rparr>],
     framebuffer = None, boot_physical_memory_offset = Some 55525337202688,
     ramdisk_addr = Some 4096000, ramdisk_len = 100, rsdp_addr = None\<rparr>"

definition translate_ex :: "nat \<Rightarrow> nat option" where
  "translate_ex p = (if p = 4096000 then Some 69632 else None)"

lemma boot_memory_ok_ex: "boot_memory_ok x86_ref bi_ex translate_ex 55525337202688 69632"
  by (simp add: boot_memory_ok_def dm_ok_def x86_ref_ok regions_ok_def ramdisk_mapped_def bi_ex_def
      translate_ex_def)

lemma boot_pool_ex: "boot_pool bi_ex 69632 = {65536, 73728, 77824}"
proof -
  have "{r \<in> set (memory_regions bi_ex). region_kind r = Usable \<and> region_start r > 0} =
      {\<lparr>region_start = 65536, region_end = 81920, region_kind = Usable\<rparr>}"
    by (auto simp: bi_ex_def)
  then have "boot_pool bi_ex 69632 = {f. 4096 dvd f \<and> 65536 \<le> f \<and> f + 4096 \<le> 81920} - {69632}"
    by (auto simp: boot_pool_def usable_pool_def region_pool_def bi_ex_def ramdisk_last_def)
  also have "\<dots> = {65536, 73728, 77824}" by (auto elim!: dvdE)
  finally show ?thesis .
qed


theorem frame_allocator_exclusive_witness:
  "\<exists>a held a'. new_allocator x86_ref bi_ex translate_ex Map.empty = Inr a \<and>
     foldm (client_step allocate_frame (deallocate_frame x86_ref bi_ex)) [Take, Take, Give 65536, Take]
       ([], a) = Inr (held, a') \<and>
     distinct held \<and> set held \<subseteq> {65536, 73728, 77824} \<and>
     get_memory_utilization a' = Inr (length held, 3)"
proof -
  obtain a where a: "new_allocator x86_ref bi_ex translate_ex Map.empty = Inr a"
    using new_allocator_ok [OF boot_memory_ok_ex] by blast
  from frame_allocator_exclusive [OF boot_memory_ok_ex a, of "[Take, Take, Give 65536, Take]"] a
  show ?thesis unfolding boot_pool_ex by auto
qed

theorem frame_allocator_refines_stack_witness:
  "\<exists>a a' f. new_allocator x86_ref bi_ex translate_ex Map.empty = Inr a \<and>
     source_run allocate_frame (deallocate_frame x86_ref bi_ex) [Take, Give f, Take] a = Inr ([Some f, None, Some f], a')"
proof -
  from new_allocator_ok [OF boot_memory_ok_ex, of Map.empty] obtain a fs where
    a: "new_allocator x86_ref bi_ex translate_ex Map.empty = Inr a" and
    fs: "fa_inv x86_ref bi_ex 55525337202688 (boot_pool bi_ex 69632) a fs" "set fs = boot_pool bi_ex 69632" by blast
  then obtain f gs where "fs = f # gs" by (cases fs) (simp_all add: boot_pool_ex)
  with fs abs_frames_inv [OF fs(1)] have f: "abs_frames a = f # gs" "f \<in> boot_pool bi_ex 69632" "f \<notin> set gs"
    by (auto simp: fa_inv_def)
  then have "legal (boot_pool bi_ex 69632) [Take, Give f, Take] (abs_frames a)" by simp
  from frame_allocator_refines_stack [OF boot_memory_ok_ex a this] f(1) a show ?thesis by auto
qed

end
