(* ===== verification/Acpi.thy ===== *)
theory Acpi
  imports Frame_Allocator
begin

text \<open>
  The use of the ACPI tables, kernel/src/acpi.rs.  The crate acpi parses the tables; its two entry
  points are the fields of the record \<open>acpi_lib\<close> and its data types are below.  The module finds
  the local APIC and counts the processors that can be started.
\<close>

datatype ProcessorState = Disabled | WaitingForSipi | Running

record Processor =
  proc_state :: ProcessorState
  proc_is_ap :: bool

datatype InterruptModel = UnknownModel | ApicModel nat

record ProcessorInfo =
  application_processors :: "Processor list"

record PlatformInfo =
  interrupt_model :: InterruptModel
  processor_info :: "ProcessorInfo option"

record 't acpi_lib =
  from_rsdp :: "nat \<Rightarrow> 't option"
  platform_info :: "'t \<Rightarrow> PlatformInfo option"

record PhysicalMapping =
  pm_physical_start :: nat
  pm_virtual_start :: nat
  pm_region_length :: nat
  pm_mapped_length :: nat

definition map_physical_region :: "x86 \<Rightarrow> BootInfo \<Rightarrow> nat \<Rightarrow> nat \<Rightarrow> PhysicalMapping res" where
  "map_physical_region X bi physical_address len =
     bnd (physical_memory_offset X bi) (\<lambda>off.
     bnd (cadd physical_address off) (\<lambda>p.
     bnd (if p = 0 then Inl UnwrapNone else Inr p) (\<lambda>ptr.
     Inr \<lparr>pm_physical_start = physical_address, pm_virtual_start = ptr,
          pm_region_length = len, pm_mapped_length = len\<rparr>)))"

record 't Acpi =
  acpi_tables :: 't
  acpi_local_apic_ptr :: nat
  ap_count :: nat

definition log_proccessor_info :: "'t acpi_lib \<Rightarrow> 't \<Rightarrow> Processor list res" where
  "log_proccessor_info A tables =
     bnd (unwrap (platform_info A tables)) (\<lambda>info.
     bnd (unwrap (processor_info info)) (\<lambda>p.
     Inr (application_processors p)))"

definition new_acpi :: "'t acpi_lib \<Rightarrow> x86 \<Rightarrow> BootInfo \<Rightarrow> 't Acpi res" where
  "new_acpi A X bi =
     bnd (unwrap (rsdp_addr bi)) (\<lambda>rsdp.
     bnd (unwrap (from_rsdp A rsdp)) (\<lambda>tables.
     bnd (unwrap (platform_info A tables)) (\<lambda>info.
     bnd (case interrupt_model info of
            ApicModel a \<Rightarrow> Inr a
          | UnknownModel \<Rightarrow> Inl (Explicit ''Apic not supported'')) (\<lambda>local_apic_address.
     bnd (unwrap (processor_info info)) (\<lambda>p.
     let count = length (filter (\<lambda>e. proc_state e \<noteq> Disabled \<and> proc_is_ap e) (application_processors p)) in
     bnd (physical_memory_offset X bi) (\<lambda>off.
     bnd (cadd off local_apic_address) (\<lambda>ptr.
     bnd (log_proccessor_info A tables) (\<lambda>_.
     Inr \<lparr>acpi_tables = tables, acpi_local_apic_ptr = ptr, ap_count = count\<rparr>))))))))"

lemma dm_offset: "dm_ok X bi off \<Longrightarrow> physical_memory_offset X bi = Inr off"
  by (simp add: dm_ok_def physical_memory_offset_def x86_addr_simps)

text \<open>
  When the bootloader hands over the tables and they describe a local APIC and the processors,
  the module finds the register page behind the direct mapping and counts the startable cores.
\<close>

lemma new_acpi_ok:
  assumes "dm_ok X bi off" "rsdp_addr bi = Some r" "from_rsdp A r = Some t" "platform_info A t = Some info"
    and "interrupt_model info = ApicModel a" "processor_info info = Some p" "off + a < 2 ^ 64"
  shows "new_acpi A X bi = Inr \<lparr>acpi_tables = t, acpi_local_apic_ptr = off + a,
    ap_count = length (filter (\<lambda>e. proc_state e \<noteq> Disabled \<and> proc_is_ap e) (application_processors p))\<rparr>"
  using assms by (simp add: new_acpi_def log_proccessor_info_def dm_offset)

lemma map_physical_region_ok:
  assumes "dm_ok X bi off" "0 < off + a" "off + a < 2 ^ 64"
  shows "map_physical_region X bi a len = Inr \<lparr>pm_physical_start = a, pm_virtual_start = off + a,
    pm_region_length = len, pm_mapped_length = len\<rparr>"
  using assms by (simp add: map_physical_region_def dm_offset add.commute)

end
