(* ===== verification/Bitfield.thy ===== *)
theory Bitfield
  imports Prelude
begin

text \<open>
  The accessors that the macro of the crate bitfield generates for a structure over one machine
  word, as the fields of a record.  \<open>bitfield_ok\<close> is what the crate documents: a setter replaces
  the bits from \<open>lsb\<close> to \<open>msb\<close> by the low bits of the value and keeps the others, a getter returns
  these bits shifted down.  The drivers of the interval timer and of the local APIC use it.
\<close>

record 'w bitfield =
  bf_set_bit :: "nat \<Rightarrow> bool \<Rightarrow> 'w \<Rightarrow> 'w"
  bf_get_bit :: "nat \<Rightarrow> 'w \<Rightarrow> bool"
  bf_set :: "nat \<Rightarrow> nat \<Rightarrow> 'w \<Rightarrow> 'w \<Rightarrow> 'w"
  bf_get :: "nat \<Rightarrow> nat \<Rightarrow> 'w \<Rightarrow> 'w"

definition bitfield_ok :: "'a::len word bitfield \<Rightarrow> bool" where
  "bitfield_ok BF \<longleftrightarrow>
     (\<forall>i b w n. bit (bf_set_bit BF i b w) n = (if n = i \<and> n < LENGTH('a) then b else bit w n)) \<and>
     (\<forall>i w. bf_get_bit BF i w = bit w i) \<and>
     (\<forall>msb lsb v w n. bit (bf_set BF msb lsb v w) n =
        (if lsb \<le> n \<and> n \<le> msb \<and> n < LENGTH('a) then bit v (n - lsb) else bit w n)) \<and>
     (\<forall>msb lsb w n. bit (bf_get BF msb lsb w) n = (lsb + n \<le> msb \<and> bit w (lsb + n)))"

lemma bitfield_okD:
  fixes BF :: "'a::len word bitfield"
  assumes "bitfield_ok BF"
  shows "bit (bf_set_bit BF i b w) n = (if n = i \<and> n < LENGTH('a) then b else bit w n)"
    and "bf_get_bit BF i w = bit w i"
    and "bit (bf_set BF msb lsb v w) n =
        (if lsb \<le> n \<and> n \<le> msb \<and> n < LENGTH('a) then bit v (n - lsb) else bit w n)"
    and "bit (bf_get BF msb lsb w) n = (lsb + n \<le> msb \<and> bit w (lsb + n))"
  using assms unfolding bitfield_ok_def by simp_all

text \<open>An implementation of the accessors that does what the crate documents.\<close>

definition bitfield_ref :: "'a::len word bitfield" where
  "bitfield_ref = \<lparr>
     bf_set_bit = (\<lambda>i b w. if b then set_bit i w else unset_bit i w),
     bf_get_bit = (\<lambda>i w. bit w i),
     bf_set = (\<lambda>msb lsb v w.
       (w AND NOT (push_bit lsb (mask (msb + 1 - lsb)))) OR push_bit lsb (take_bit (msb + 1 - lsb) v)),
     bf_get = (\<lambda>msb lsb w. take_bit (msb + 1 - lsb) (drop_bit lsb w))\<rparr>"

lemma bitfield_ref_ok: "bitfield_ok (bitfield_ref :: 'a::len word bitfield)"
  unfolding bitfield_ok_def
proof (intro conjI allI)
  fix i b n and w :: "'a word"
  show "bit (bf_set_bit bitfield_ref i b w) n = (if n = i \<and> n < LENGTH('a) then b else bit w n)"
    by (auto simp: bitfield_ref_def bit_simps dest: bit_imp_le_length)
next
  fix i and w :: "'a word"
  show "bf_get_bit bitfield_ref i w = bit w i" by (simp add: bitfield_ref_def)
next
  fix msb lsb n and v w :: "'a word"
  show "bit (bf_set bitfield_ref msb lsb v w) n =
        (if lsb \<le> n \<and> n \<le> msb \<and> n < LENGTH('a) then bit v (n - lsb) else bit w n)"
    by (auto simp: bitfield_ref_def bit_simps dest: bit_imp_le_length)
next
  fix msb lsb n and w :: "'a word"
  show "bit (bf_get bitfield_ref msb lsb w) n = (lsb + n \<le> msb \<and> bit w (lsb + n))"
    by (auto simp: bitfield_ref_def bit_simps dest: bit_imp_le_length)
qed

end
