(* ===== verification/Pit.thy ===== *)
theory Pit
  imports Ports Bitfield
begin

text \<open>
  The interval timer driver, kernel/src/pit.rs.  A structure that the macro of the crate bitfield
  declares is its byte; its accessors are those of \<open>Bitfield\<close> at the positions the source gives.
\<close>

datatype AccessMode = LatchCountValue | LowByteOnly | HighByteOnly | LowAndHighByte

fun access_mode :: "AccessMode \<Rightarrow> u8" where
  "access_mode LatchCountValue = 0"
| "access_mode LowByteOnly = 1"
| "access_mode HighByteOnly = 2"
| "access_mode LowAndHighByte = 3"

datatype OperatingMode =
    InterruptOnTerminalCount | ProgrammableOneShot | RateGenerator | SquareWaveGenerator
  | SoftwareTriggeredStrobe | HardwareTriggeredStrobe

fun operating_mode :: "OperatingMode \<Rightarrow> u8" where
  "operating_mode InterruptOnTerminalCount = 0"
| "operating_mode ProgrammableOneShot = 1"
| "operating_mode RateGenerator = 2"
| "operating_mode SquareWaveGenerator = 3"
| "operating_mode SoftwareTriggeredStrobe = 4"
| "operating_mode HardwareTriggeredStrobe = 5"

datatype TimerResult = OutOfRange | NotActive

definition new_mode :: "u8 bitfield \<Rightarrow> AccessMode \<Rightarrow> OperatingMode \<Rightarrow> bool \<Rightarrow> u8" where
  "new_mode BF am om bcd_format =
     (let m = bf_set_bit BF 0 bcd_format 0;
          m = bf_set BF 5 4 (access_mode am) m
      in bf_set BF 3 1 (operating_mode om) m)"

definition set_channel :: "u8 bitfield \<Rightarrow> u8 \<Rightarrow> u8 \<Rightarrow> u8" where
  "set_channel BF channel m = bf_set BF 7 6 channel m"

definition mode_write :: "'d ports \<Rightarrow> u8 \<Rightarrow> 'd \<Rightarrow> 'd" where
  "mode_write D m d = port_out D 0x43 m d"

definition control_read :: "'d ports \<Rightarrow> 'd \<Rightarrow> u8 \<times> 'd" where
  "control_read D d = port_in D 0x61 d"

definition control_write :: "'d ports \<Rightarrow> u8 \<Rightarrow> 'd \<Rightarrow> 'd" where
  "control_write D c d = port_out D 0x61 c d"

definition set_data :: "'d ports \<Rightarrow> u8 \<Rightarrow> u8 \<Rightarrow> 'd \<Rightarrow> 'd" where
  "set_data D channel v d = port_out D (0x40 + ucast channel) v d"

definition get_data :: "'d ports \<Rightarrow> u8 \<Rightarrow> 'd \<Rightarrow> u8 \<times> 'd" where
  "get_data D channel d = port_in D (0x40 + ucast channel) d"

definition BASE_FREQUENCY :: nat where
  "BASE_FREQUENCY = 1193182"

text \<open>The counter for an interval in microseconds; \<open>us\<close> is a \<open>u16\<close>, so the product fits.\<close>

definition pit_counter :: "u16 \<Rightarrow> nat" where
  "pit_counter us = BASE_FREQUENCY * unat us div 1000000"

definition pit_set :: "u8 bitfield \<Rightarrow> 'd ports \<Rightarrow> u16 \<Rightarrow> 'd \<Rightarrow> (TimerResult + unit) \<times> 'd" where
  "pit_set BF D us d =
     (let counter = pit_counter us in
      if counter > 0xffff then (Inl OutOfRange, d)
      else
        let (c, d) = control_read D d;
            c = bf_set_bit BF 1 False c;
            c = bf_set_bit BF 0 True c;
            d = control_write D c d;
            m = new_mode BF LowAndHighByte InterruptOnTerminalCount False;
            m = set_channel BF 2 m;
            d = mode_write D m d;
            d = set_data D 2 (word_of_nat (counter mod 256)) d;
            d = set_data D 2 (word_of_nat (counter div 256 mod 256)) d
        in (Inr (), d))"

definition pit_get :: "u8 bitfield \<Rightarrow> 'd ports \<Rightarrow> 'd \<Rightarrow> u16 \<times> 'd" where
  "pit_get BF D d =
     (let d = mode_write D (set_channel BF 2 0) d;
          (low, d) = get_data D 2 d;
          (high, d) = get_data D 2 d
      in (ucast low OR push_bit 8 (ucast high), d))"

definition is_active :: "u8 bitfield \<Rightarrow> 'd ports \<Rightarrow> 'd \<Rightarrow> bool \<times> 'd" where
  "is_active BF D d = (let (c, d) = control_read D d in (bf_get_bit BF 0 c \<and> \<not> bf_get_bit BF 5 c, d))"

partial_function (option) wait_for_timeout ::
  "u8 bitfield \<Rightarrow> 'd ports \<Rightarrow> 'd \<Rightarrow> ((TimerResult + unit) \<times> 'd) option"
where
  "wait_for_timeout BF D d =
     (case control_read D d of
        (c, d') \<Rightarrow>
          if \<not> bf_get_bit BF 0 c then Some (Inl NotActive, d')
          else if bf_get_bit BF 5 c then Some (Inr (), d')
          else wait_for_timeout BF D d')"

definition delay :: "u8 bitfield \<Rightarrow> 'd ports \<Rightarrow> u16 \<Rightarrow> 'd \<Rightarrow> ((TimerResult + unit) \<times> 'd) option" where
  "delay BF D us d =
     (case pit_set BF D us d of
        (Inl e, d) \<Rightarrow> Some (Inl e, d)
      | (Inr _, d) \<Rightarrow> wait_for_timeout BF D d)"

definition pit_disable :: "u8 bitfield \<Rightarrow> 'd ports \<Rightarrow> 'd \<Rightarrow> 'd" where
  "pit_disable BF D d =
     (let c = bf_set_bit BF 1 False 0;
          c = bf_set_bit BF 0 False c
      in control_write D c d)"

subsection \<open>The timer\<close>

text \<open>
  \<open>pit_ok D run left\<close>: once the gate bit of the control port is set, the mode "channel 2, low then
  high byte, interrupt on terminal count" is written and two counter bytes follow, the timer runs;
  a running timer keeps its gate open, and its output bit appears after \<open>left d\<close> more readings of
  the control port at the latest.
\<close>

definition pit_ok :: "'d ports \<Rightarrow> ('d \<Rightarrow> bool) \<Rightarrow> ('d \<Rightarrow> nat) \<Rightarrow> bool" where
  "pit_ok D run left \<longleftrightarrow>
     (\<forall>d c low high. bit c 0 \<longrightarrow> run (port_outs D [(0x61, c), (0x43, 0xB0), (0x42, low), (0x42, high)] d)) \<and>
     (\<forall>d. run d \<longrightarrow>
        bit (fst (port_in D 0x61 d)) 0 \<and> run (snd (port_in D 0x61 d)) \<and>
        (bit (fst (port_in D 0x61 d)) 5 \<or> left (snd (port_in D 0x61 d)) < left d))"

lemma wait_for_timeout_ok:
  assumes "bitfield_ok BF" "pit_ok D run left" "run d"
  shows "\<exists>d'. wait_for_timeout BF D d = Some (Inr (), d')"
  using assms(3)
proof (induction "left d" arbitrary: d rule: less_induct)
  case less
  let ?d = "snd (port_in D 0x61 d)" and ?c = "fst (port_in D 0x61 d)"
  have get: "bf_get_bit BF i w = bit w i" for i w using assms(1) by (simp add: bitfield_ok_def)
  have c: "bit ?c 0" "run ?d" "bit ?c 5 \<or> left ?d < left d"
    using assms(2) less.prems unfolding pit_ok_def by blast+
  show ?case
  proof (cases "bit ?c 5")
    case True
    with c(1) show ?thesis
      by (simp add: wait_for_timeout.simps [of BF D d] control_read_def case_prod_beta get)
  next
    case False
    with c less.hyps [OF _ c(2)] show ?thesis
      by (simp add: wait_for_timeout.simps [of BF D d] control_read_def case_prod_beta get)
  qed
qed

lemma less_8_cases: "n < 8 \<Longrightarrow> n \<in> {0, 1, 2, 3, 4, 5, 6, 7 :: nat}"
  by auto

lemma mode_byte:
  assumes "bitfield_ok BF"
  shows "set_channel BF 2 (new_mode BF LowAndHighByte InterruptOnTerminalCount False) = 0xB0"
proof (rule bit_word_eqI)
  fix n assume "n < LENGTH(8)"
  then have "n < 8" by simp
  from less_8_cases [OF this] assms
  show "bit (set_channel BF 2 (new_mode BF LowAndHighByte InterruptOnTerminalCount False)) n = bit (0xB0 :: u8) n"
    by (auto simp: set_channel_def new_mode_def bitfield_ok_def Let_def)
qed

lemma pit_range: "pit_counter us \<le> 0xffff \<longleftrightarrow> unat us \<le> 54925"
proof -
  have "pit_counter us \<le> 65535 \<longleftrightarrow> 1193182 * unat us < 65536 * 1000000"
    unfolding pit_counter_def BASE_FREQUENCY_def
    using div_less_iff_less_mult [of 1000000 "1193182 * unat us" 65536] by auto
  then show ?thesis by auto
qed

lemma counter_bytes:
  assumes "n \<le> 0xffff"
  shows "unat (word_of_nat (n mod 256) :: u8) + 256 * unat (word_of_nat (n div 256 mod 256) :: u8) = n"
proof -
  have "n div 256 < 256" using assms by simp
  then have "unat (word_of_nat (n div 256 mod 256) :: u8) = n div 256"
    by (simp add: unsigned_of_nat take_bit_nat_eq_self)
  moreover have "unat (word_of_nat (n mod 256) :: u8) = n mod 256"
    by (simp add: unsigned_of_nat take_bit_nat_eq_self)
  ultimately show ?thesis by simp
qed

text \<open>Programming an interval in range: the writes, and that the timer runs afterwards.\<close>

lemma pit_set_writes:
  assumes "bitfield_ok BF" "pit_counter us \<le> 0xffff"
  obtains c low high where "bit c 0" "\<not> bit c 1" "unat low + 256 * unat high = pit_counter us"
    "pit_set BF D us d = (Inr (), port_outs D [(0x61, c), (0x43, 0xB0), (0x42, low), (0x42, high)]
       (snd (port_in D 0x61 d)))"
proof
  let ?c = "bf_set_bit BF 0 True (bf_set_bit BF 1 False (fst (port_in D 0x61 d)))"
  let ?low = "word_of_nat (pit_counter us mod 256) :: u8"
  let ?high = "word_of_nat (pit_counter us div 256 mod 256) :: u8"
  show "bit ?c 0" "\<not> bit ?c 1" using bitfield_okD [OF assms(1)] by simp_all
  show "unat ?low + 256 * unat ?high = pit_counter us" by (rule counter_bytes [OF assms(2)])
  show "pit_set BF D us d = (Inr (), port_outs D [(0x61, ?c), (0x43, 0xB0), (0x42, ?low), (0x42, ?high)]
       (snd (port_in D 0x61 d)))"
    using assms(2) by (simp add: pit_set_def control_read_def control_write_def mode_write_def set_data_def
        case_prod_beta Let_def mode_byte [OF assms(1)] port_outs_def)
qed

lemma pit_set_runs:
  assumes "bitfield_ok BF" "pit_ok D run left" "pit_counter us \<le> 0xffff"
  shows "\<exists>d'. pit_set BF D us d = (Inr (), d') \<and> run d'"
proof -
  obtain c low high where "bit c 0" "pit_set BF D us d = (Inr (),
      port_outs D [(0x61, c), (0x43, 0xB0), (0x42, low), (0x42, high)] (snd (port_in D 0x61 d)))"
    using pit_set_writes [OF assms(1,3), of D d] by metis
  with assms(2) show ?thesis unfolding pit_ok_def by blast
qed

lemma delay_returns:
  assumes "bitfield_ok BF" "pit_ok D run left" "unat us \<le> 54925"
  shows "\<exists>d'. delay BF D us d = Some (Inr (), d')"
proof -
  have n: "pit_counter us \<le> 0xffff" using assms(3) by (simp add: pit_range)
  obtain d' where d': "pit_set BF D us d = (Inr (), d')" "run d'"
    using pit_set_runs [OF assms(1,2) n, of d] by blast
  with wait_for_timeout_ok [OF assms(1,2) d'(2)] show ?thesis by (simp add: delay_def)
qed

subsection \<open>Properties\<close>

text \<open>
  A delay of at most 54925 microseconds opens the gate without the speaker, programs channel 2
  with the two bytes of the counter that the interval asks for, and returns once the timer has
  expired; a longer delay is refused before any port is touched.
\<close>

lemma pit_delay:
  assumes "bitfield_ok BF" "pit_ok D run left"
  shows "(unat us \<le> 54925 \<longrightarrow>
      (\<exists>c low high d'. bit c 0 \<and> \<not> bit c 1 \<and> unat low + 256 * unat high = 1193182 * unat us div 1000000 \<and>
         pit_set BF D us d = (Inr (), port_outs D [(0x61, c), (0x43, 0xB0), (0x42, low), (0x42, high)]
           (snd (port_in D 0x61 d))) \<and>
         delay BF D us d = Some (Inr (), d'))) \<and>
    (54925 < unat us \<longrightarrow> delay BF D us d = Some (Inl OutOfRange, d))"
proof (intro conjI impI)
  assume "54925 < unat us"
  then have "\<not> pit_counter us \<le> 0xffff" by (simp add: pit_range)
  then show "delay BF D us d = Some (Inl OutOfRange, d)" by (simp add: delay_def pit_set_def)
next
  assume us: "unat us \<le> 54925"
  then have n: "pit_counter us \<le> 0xffff" by (simp add: pit_range)
  obtain c low high where "bit c 0" "\<not> bit c 1" "unat low + 256 * unat high = 1193182 * unat us div 1000000"
    "pit_set BF D us d = (Inr (), port_outs D [(0x61, c), (0x43, 0xB0), (0x42, low), (0x42, high)]
       (snd (port_in D 0x61 d)))"
    using pit_set_writes [OF assms(1) n, of D d] unfolding pit_counter_def BASE_FREQUENCY_def by metis
  with delay_returns [OF assms us, of d] show "\<exists>c low high d'. bit c 0 \<and> \<not> bit c 1 \<and>
      unat low + 256 * unat high = 1193182 * unat us div 1000000 \<and>
      pit_set BF D us d = (Inr (), port_outs D [(0x61, c), (0x43, 0xB0), (0x42, low), (0x42, high)]
        (snd (port_in D 0x61 d))) \<and>
      delay BF D us d = Some (Inr (), d')"
    by blast
qed

subsection \<open>A concrete timer\<close>

text \<open>A timer whose state is the number of readings until its output goes high.\<close>

definition pit_ref :: "nat ports" where
  "pit_ref = \<lparr>port_in = (\<lambda>p n. (if n = 0 then 0x21 else 0x01, n - 1)),
     port_out = (\<lambda>p v n. if p = 0x42 then 3 else n)\<rparr>"

lemma pit_ref_ok: "pit_ok pit_ref (\<lambda>_. True) (\<lambda>n. n)"
  by (auto simp: pit_ok_def pit_ref_def)

lemma pit_delay_witness:
  "(\<exists>d'. delay bitfield_ref pit_ref 50000 0 = Some (Inr (), d')) \<and>
   delay bitfield_ref pit_ref 60000 0 = Some (Inl OutOfRange, 0)"
  using pit_delay [OF bitfield_ref_ok pit_ref_ok, of 50000 0] pit_delay [OF bitfield_ref_ok pit_ref_ok, of 60000 0]
  by auto

end
