(* ===== verification/Apic.thy ===== *)
theory Apic
  imports Pit
begin

text \<open>
  The registers of the local APIC, kernel/src/apic.rs: access through volatile reads and writes of
  the register page, and the inter-processor interrupts of the module \<open>ipi\<close>.  The machine behind
  the ports and the register page is the record \<open>hw\<close> over a device state \<open>'d\<close>.
\<close>

record 'd hw =
  hw_ports :: "'d ports"
  mmio_read :: "u64 \<Rightarrow> 'd \<Rightarrow> u32 \<times> 'd"
  mmio_write :: "u64 \<Rightarrow> u32 \<Rightarrow> 'd \<Rightarrow> 'd"

record Apic =
  local_apic_ptr :: u64

datatype Offset =
    ApicId | Version | TaskPriority | ArbitrationPriority | ProcessorPriority | EndOfInterrupt
  | RemoteRead | LocalDestination | DestinationFormat | SpuriousInterruptVector | InService
  | TriggerMode | InterruptRequest | ErrorStatus | InterruptCommandLow | InterruptCommandHigh
  | TimerLocalVectorTableEntry | ThermalLocalVectorTableEntry
  | PerformanceCounterLocalVectorTableEntry | LocalInterrupt0VectorTableEntry
  | LocalInterrupt1VectorTableEntry | ErrorVectorTableEntry | TimerInitialCount
  | TimerCurrentCount | TimerDivideConfiguration | ExtendedApicFeature | ExtendedApicControl
  | SpecificEndOfInterrupt | InterruptEnable | ExtendedInterruptLocalVectorTable

fun offset_value :: "Offset \<Rightarrow> u64" where
  "offset_value ApicId = 0x20"
| "offset_value Version = 0x30"
| "offset_value TaskPriority = 0x80"
| "offset_value ArbitrationPriority = 0x90"
| "offset_value ProcessorPriority = 0xa0"
| "offset_value EndOfInterrupt = 0xb0"
| "offset_value RemoteRead = 0xc0"
| "offset_value LocalDestination = 0xd0"
| "offset_value DestinationFormat = 0xe0"
| "offset_value SpuriousInterruptVector = 0xf0"
| "offset_value InService = 0x100"
| "offset_value TriggerMode = 0x180"
| "offset_value InterruptRequest = 0x200"
| "offset_value ErrorStatus = 0x280"
| "offset_value InterruptCommandLow = 0x300"
| "offset_value InterruptCommandHigh = 0x310"
| "offset_value TimerLocalVectorTableEntry = 0x320"
| "offset_value ThermalLocalVectorTableEntry = 0x330"
| "offset_value PerformanceCounterLocalVectorTableEntry = 0x340"
| "offset_value LocalInterrupt0VectorTableEntry = 0x350"
| "offset_value LocalInterrupt1VectorTableEntry = 0x360"
| "offset_value ErrorVectorTableEntry = 0x370"
| "offset_value TimerInitialCount = 0x380"
| "offset_value TimerCurrentCount = 0x390"
| "offset_value TimerDivideConfiguration = 0x3e0"
| "offset_value ExtendedApicFeature = 0x400"
| "offset_value ExtendedApicControl = 0x410"
| "offset_value SpecificEndOfInterrupt = 0x420"
| "offset_value InterruptEnable = 0x480"
| "offset_value ExtendedInterruptLocalVectorTable = 0x500"

definition apic_offset :: "Apic \<Rightarrow> Offset \<Rightarrow> u64" where
  "apic_offset ap off = local_apic_ptr ap + offset_value off"

definition apic_read :: "'d hw \<Rightarrow> Apic \<Rightarrow> Offset \<Rightarrow> 'd \<Rightarrow> u32 \<times> 'd" where
  "apic_read H ap off d = mmio_read H (apic_offset ap off) d"

definition apic_write :: "'d hw \<Rightarrow> Apic \<Rightarrow> Offset \<Rightarrow> u32 \<Rightarrow> 'd \<Rightarrow> 'd" where
  "apic_write H ap off value d = mmio_write H (apic_offset ap off) value d"

definition signal_end_of_interrupt :: "'d hw \<Rightarrow> Apic \<Rightarrow> 'd \<Rightarrow> 'd" where
  "signal_end_of_interrupt H ap d = apic_write H ap EndOfInterrupt 0 d"

definition apic_id :: "'d hw \<Rightarrow> Apic \<Rightarrow> 'd \<Rightarrow> u8 \<times> 'd" where
  "apic_id H ap d = (let (w, d) = apic_read H ap ApicId d in (ucast (drop_bit 24 w), d))"

definition stop_timer :: "'d hw \<Rightarrow> Apic \<Rightarrow> 'd \<Rightarrow> 'd" where
  "stop_timer H ap d = apic_write H ap TimerLocalVectorTableEntry (push_bit 16 1) d"

subsection \<open>Inter-processor interrupts\<close>

text \<open>\<open>InterruptCommand\<close> is a bit field over a \<open>u64\<close>; its accessors are at the positions below.\<close>

type_synonym InterruptCommand = u64

definition set_interupt_vector :: "u64 bitfield \<Rightarrow> u64 \<Rightarrow> InterruptCommand \<Rightarrow> InterruptCommand" where
  "set_interupt_vector BF v ic = bf_set BF 7 0 v ic"

definition set_delivery_mode :: "u64 bitfield \<Rightarrow> u64 \<Rightarrow> InterruptCommand \<Rightarrow> InterruptCommand" where
  "set_delivery_mode BF v ic = bf_set BF 10 8 v ic"

definition set_destination_mode_logical :: "u64 bitfield \<Rightarrow> bool \<Rightarrow> InterruptCommand \<Rightarrow> InterruptCommand" where
  "set_destination_mode_logical BF b ic = bf_set_bit BF 11 b ic"

definition set_not_de_assert :: "u64 bitfield \<Rightarrow> bool \<Rightarrow> InterruptCommand \<Rightarrow> InterruptCommand" where
  "set_not_de_assert BF b ic = bf_set_bit BF 14 b ic"

definition set_de_assert :: "u64 bitfield \<Rightarrow> bool \<Rightarrow> InterruptCommand \<Rightarrow> InterruptCommand" where
  "set_de_assert BF b ic = bf_set_bit BF 15 b ic"

definition set_destination_type :: "u64 bitfield \<Rightarrow> u64 \<Rightarrow> InterruptCommand \<Rightarrow> InterruptCommand" where
  "set_destination_type BF v ic = bf_set BF 19 18 v ic"

definition ic_lower :: "u64 bitfield \<Rightarrow> InterruptCommand \<Rightarrow> u64" where
  "ic_lower BF ic = bf_get BF 31 0 ic"

definition ic_upper :: "u64 bitfield \<Rightarrow> InterruptCommand \<Rightarrow> u64" where
  "ic_upper BF ic = bf_get BF 63 32 ic"

definition set_lower :: "u64 bitfield \<Rightarrow> u64 \<Rightarrow> InterruptCommand \<Rightarrow> InterruptCommand" where
  "set_lower BF v ic = bf_set BF 31 0 v ic"

definition set_upper :: "u64 bitfield \<Rightarrow> u64 \<Rightarrow> InterruptCommand \<Rightarrow> InterruptCommand" where
  "set_upper BF v ic = bf_set BF 63 32 v ic"

definition create_send_init_cmd :: "u64 bitfield \<Rightarrow> InterruptCommand" where
  "create_send_init_cmd BF =
     (let ic = set_interupt_vector BF 0 0;
          ic = set_delivery_mode BF 5 ic;
          ic = set_destination_mode_logical BF False ic;
          ic = set_de_assert BF False ic;
          ic = set_not_de_assert BF True ic
      in set_destination_type BF 3 ic)"

definition create_startup_cmd :: "u64 bitfield \<Rightarrow> u8 \<Rightarrow> InterruptCommand" where
  "create_startup_cmd BF vector =
     (let ic = set_interupt_vector BF (ucast vector) 0;
          ic = set_delivery_mode BF 6 ic;
          ic = set_destination_mode_logical BF False ic;
          ic = set_de_assert BF False ic;
          ic = set_not_de_assert BF True ic
      in set_destination_type BF 3 ic)"

definition write_interrupt_command :: "u64 bitfield \<Rightarrow> 'd hw \<Rightarrow> Apic \<Rightarrow> InterruptCommand \<Rightarrow> 'd \<Rightarrow> 'd" where
  "write_interrupt_command BF H ap cmd d =
     (let d = apic_write H ap InterruptCommandHigh (ucast (ic_upper BF cmd)) d
      in apic_write H ap InterruptCommandLow (ucast (ic_lower BF cmd)) d)"

definition read_interrupt_command :: "u64 bitfield \<Rightarrow> 'd hw \<Rightarrow> Apic \<Rightarrow> 'd \<Rightarrow> InterruptCommand \<times> 'd" where
  "read_interrupt_command BF H ap d =
     (let (high, d) = apic_read H ap InterruptCommandHigh d;
          (low, d) = apic_read H ap InterruptCommandLow d;
          cmd = set_upper BF (ucast high) 0
      in (set_lower BF (ucast low) cmd, d))"

lemmas ipi_defs = set_interupt_vector_def set_delivery_mode_def set_destination_mode_logical_def
  set_not_de_assert_def set_de_assert_def set_destination_type_def ic_lower_def ic_upper_def
  set_lower_def set_upper_def

subsection \<open>The commands\<close>

text \<open>Equality of two 64-bit words, bit by bit.\<close>

lemma word64_eqI:
  assumes "list_all (\<lambda>n. bit v n = bit w n) [0..<64]"
  shows "v = (w :: u64)"
  using assms by (intro bit_word_eqI) (simp add: list_all_iff)

lemma bit_u8_beyond [simp]: "8 \<le> n \<Longrightarrow> \<not> bit (v :: u8) n"
  using bit_imp_le_length [of v n] by auto

lemma startup_cmd_value:
  assumes "bitfield_ok BF"
  shows "create_startup_cmd BF vector = 0xC4600 OR ucast vector"
  by (rule word64_eqI)
    (simp add: create_startup_cmd_def ipi_defs bitfield_okD [OF assms] bit_simps upt_conv_Cons)

lemma init_cmd_value:
  assumes "bitfield_ok BF"
  shows "create_send_init_cmd BF = 0xC4500"
  by (rule word64_eqI)
    (simp add: create_send_init_cmd_def ipi_defs bitfield_okD [OF assms] bit_simps upt_conv_Cons)

lemma ic_halves:
  assumes "bitfield_ok BF"
  shows "ucast (ic_upper BF ic) = (ucast (drop_bit 32 ic) :: u32)"
    and "ucast (ic_lower BF ic) = (ucast ic :: u32)"
    and "set_lower BF (ucast low) (set_upper BF (ucast high) 0) = push_bit 32 (ucast (high :: u32)) OR ucast (low :: u32)"
proof -
  note b = bitfield_okD [OF assms]
  show "ucast (ic_upper BF ic) = (ucast (drop_bit 32 ic) :: u32)" "ucast (ic_lower BF ic) = (ucast ic :: u32)"
    by (rule bit_word_eqI; auto simp: ipi_defs b bit_simps)+
  show "set_lower BF (ucast low) (set_upper BF (ucast high) 0) = push_bit 32 (ucast high) OR ucast low"
    by (rule bit_word_eqI) (auto simp: ipi_defs b bit_simps dest: bit_imp_le_length)
qed

text \<open>A sequence of writes to the register page at \<open>p\<close>, first to last.\<close>

definition reg_writes :: "'d hw \<Rightarrow> u64 \<Rightarrow> (u64 \<times> u32) list \<Rightarrow> 'd \<Rightarrow> 'd" where
  "reg_writes H p ws d = fold (\<lambda>(off, v). mmio_write H (p + off) v) ws d"

lemma ipi_writes:
  assumes "bitfield_ok BF"
  shows "write_interrupt_command BF H ap (create_send_init_cmd BF) d =
      reg_writes H (local_apic_ptr ap) [(0x310, 0), (0x300, 0xC4500)] d"
    and "write_interrupt_command BF H ap (create_startup_cmd BF vector) d =
      reg_writes H (local_apic_ptr ap) [(0x310, 0), (0x300, 0xC4600 OR ucast vector)] d"
proof -
  have up: "drop_bit 32 (ucast vector :: u64) = 0"
    by (rule word64_eqI) (simp add: bit_simps upt_conv_Cons)
  have low: "ucast (0xC4600 OR ucast vector :: u64) = (0xC4600 OR ucast vector :: u32)"
    by (rule bit_word_eqI) (auto simp: bit_simps)
  show "write_interrupt_command BF H ap (create_startup_cmd BF vector) d =
      reg_writes H (local_apic_ptr ap) [(0x310, 0), (0x300, 0xC4600 OR ucast vector)] d"
    by (simp add: write_interrupt_command_def startup_cmd_value [OF assms]
        ic_halves [OF assms] up low reg_writes_def apic_write_def apic_offset_def)
  show "write_interrupt_command BF H ap (create_send_init_cmd BF) d =
      reg_writes H (local_apic_ptr ap) [(0x310, 0), (0x300, 0xC4500)] d"
    by (simp add: write_interrupt_command_def init_cmd_value [OF assms]
        ic_halves [OF assms] reg_writes_def apic_write_def apic_offset_def)
qed

subsection \<open>Properties\<close>

text \<open>
  The two commands that start the other cores reach the interrupt command register with the
  high half first and the triggering low half last; an INIT and a STARTUP with the given vector,
  asserted, edge triggered, to all cores but the sender.
\<close>

lemma ipi_commands:
  assumes "bitfield_ok BF"
  shows "write_interrupt_command BF H ap (create_send_init_cmd BF) d =
      reg_writes H (local_apic_ptr ap) [(0x310, 0), (0x300, 0xC4500)] d \<and>
    write_interrupt_command BF H ap (create_startup_cmd BF vector) d =
      reg_writes H (local_apic_ptr ap) [(0x310, 0), (0x300, 0xC4600 OR ucast vector)] d"
  by (simp add: ipi_writes [OF assms])

text \<open>
  On registers that hold what was written, reading the interrupt command register returns the
  command that was written.
\<close>

lemma interrupt_command_roundtrip:
  assumes "bitfield_ok BF"
    and "\<forall>a d. mmio_read H a d = (mem d a, d)" "\<forall>a v d. mem (mmio_write H a v d) = (mem d)(a := v)"
  shows "fst (read_interrupt_command BF H ap (write_interrupt_command BF H ap cmd d)) = cmd"
proof -
  have "push_bit 32 (ucast (ucast (drop_bit 32 cmd) :: u32)) OR ucast (ucast cmd :: u32) = cmd"
    by (rule bit_word_eqI) (auto simp: bit_simps dest: bit_imp_le_length)
  then show ?thesis
    using assms(2,3)
    by (simp add: read_interrupt_command_def write_interrupt_command_def apic_read_def apic_write_def
        apic_offset_def ic_halves [OF assms(1)])
qed

text \<open>Registers that record the writes.\<close>

definition hw_rec :: "(u64 \<times> u32) list hw" where
  "hw_rec = \<lparr>hw_ports = \<lparr>port_in = (\<lambda>p d. (0, d)), port_out = (\<lambda>p v d. d)\<rparr>,
     mmio_read = (\<lambda>a d. (0, d)), mmio_write = (\<lambda>a v d. d @ [(a, v)])\<rparr>"

lemma ipi_commands_witness:
  "write_interrupt_command bitfield_ref hw_rec \<lparr>local_apic_ptr = 0xFEE00000\<rparr> (create_startup_cmd bitfield_ref 8) [] =
     [(0xFEE00310, 0), (0xFEE00300, 0xC4608)]"
  using ipi_commands [OF bitfield_ref_ok, where H = hw_rec and ap = "\<lparr>local_apic_ptr = 0xFEE00000\<rparr>"
      and vector = 8 and d = "[]"]
  by (simp add: reg_writes_def hw_rec_def)

definition hw_mem :: "(u64 \<Rightarrow> u32) hw" where
  "hw_mem = \<lparr>hw_ports = \<lparr>port_in = (\<lambda>p d. (0, d)), port_out = (\<lambda>p v d. d)\<rparr>,
     mmio_read = (\<lambda>a d. (d a, d)), mmio_write = (\<lambda>a v d. d(a := v))\<rparr>"

lemma interrupt_command_roundtrip_witness:
  "fst (read_interrupt_command bitfield_ref hw_mem \<lparr>local_apic_ptr = 0xFEE00000\<rparr>
     (write_interrupt_command bitfield_ref hw_mem \<lparr>local_apic_ptr = 0xFEE00000\<rparr> 0x03000000000C4608 (\<lambda>_. 0))) =
   0x03000000000C4608"
  using interrupt_command_roundtrip [OF bitfield_ref_ok, where H = hw_mem and mem = "\<lambda>d. d"]
  by (simp add: hw_mem_def)

end
