(* ===== verification/Core_Local.thy ===== *)
theory Core_Local
  imports Apic Constants
begin

text \<open>
  The data that every core keeps for itself (kernel/src/smp.rs, struct \<open>CoreLocalData\<close> and its
  accessors), the handle of the local APIC (\<open>get_apic\<close> of apic.rs) and the handler of the timer
  interrupt (interrupts.rs).

  \<open>kernel\<close> holds the statics of these modules and the state of the machine as the running core sees
  it.  A cell of \<open>CORE_LOCAL\<close> is a \<open>OnceCell\<close>, empty or holding the data; \<open>get_cld\<close> returns the
  index of the cell behind its mutable reference.  The boxed values of the field \<open>stuff\<close> are the
  counters that common_main.rs stores there, and a function pointer of type \<open>fn()\<close> is one of the
  two functions that the kernel passes to \<open>start_timer\<close>.
\<close>

record RunningApplicationCLD =
  application_resources :: nat
  abort_addr :: u64
  saved_stack_pointer :: u64

datatype callback = Timer_interrupt | Request_frame

record CoreLocalData =
  running_application_data :: "RunningApplicationCLD option"
  cpu_index_field :: nat
  apic_timer_ticks_per_second :: "nat option"
  apic_timer_interrupt_function :: "callback option"
  stuff :: "nat list option"

definition default_cld :: CoreLocalData where
  "default_cld = \<lparr>running_application_data = None, cpu_index_field = 0, apic_timer_ticks_per_second = None,
     apic_timer_interrupt_function = None, stuff = None\<rparr>"

record 'd kernel =
  device :: 'd
  LOCAL_APIC_PTR :: "u64 option"
  CORE_LOCAL :: "CoreLocalData option list"
  NEW_FRAME_REQUESTED :: bool

definition CORE_LOCAL_ENTRY_INIT :: "CoreLocalData option" where
  "CORE_LOCAL_ENTRY_INIT = None"

definition core_local_init :: "CoreLocalData option list" where
  "core_local_init = replicate MAX_CORES CORE_LOCAL_ENTRY_INIT"

definition get_apic :: "'d kernel \<Rightarrow> Apic res" where
  "get_apic k = (case LOCAL_APIC_PTR k of
     None \<Rightarrow> Inl (Explicit ''APIC not initialized'') | Some p \<Rightarrow> Inr \<lparr>local_apic_ptr = p\<rparr>)"

definition try_get_apic :: "'d kernel \<Rightarrow> Apic option" where
  "try_get_apic k = map_option (\<lambda>p. \<lparr>local_apic_ptr = p\<rparr>) (LOCAL_APIC_PTR k)"

text \<open>\<open>create\<close> of apic.rs: the first call fixes the address of the register page.\<close>

definition create_apic :: "u64 \<Rightarrow> 'd kernel \<Rightarrow> 'd kernel" where
  "create_apic acpi_ptr k = (case LOCAL_APIC_PTR k of
     None \<Rightarrow> k\<lparr>LOCAL_APIC_PTR := Some acpi_ptr\<rparr> | Some _ \<Rightarrow> k)"

text \<open>\<open>get_apic().id()\<close>\<close>

definition own_id :: "'d hw \<Rightarrow> 'd kernel \<Rightarrow> (nat \<times> 'd kernel) res" where
  "own_id H k =
     bnd (get_apic k) (\<lambda>ap.
     let (i, d) = apic_id H ap (device k) in Inr (unat i, k\<lparr>device := d\<rparr>))"

definition initialize_own_core_local_data :: "'d hw \<Rightarrow> CoreLocalData \<Rightarrow> 'd kernel \<Rightarrow> 'd kernel res" where
  "initialize_own_core_local_data H c k =
     bnd (own_id H k) (\<lambda>(i, k).
     if i < length (CORE_LOCAL k)
     then Inr (case CORE_LOCAL k ! i of
        None \<Rightarrow> k\<lparr>CORE_LOCAL := (CORE_LOCAL k)[i := Some c]\<rparr>
      | Some _ \<Rightarrow> k)
     else Inl IndexOut)"

definition get_cld :: "'d hw \<Rightarrow> 'd kernel \<Rightarrow> (nat \<times> 'd kernel) res" where
  "get_cld H k =
     bnd (own_id H k) (\<lambda>(i, k).
     if i < length (CORE_LOCAL k)
     then (case CORE_LOCAL k ! i of
        None \<Rightarrow> Inl (Explicit ''core local data not initialized'')
      | Some _ \<Rightarrow> Inr (i, k))
     else Inl IndexOut)"

definition try_get_cld :: "'d hw \<Rightarrow> 'd kernel \<Rightarrow> (nat option \<times> 'd kernel) res" where
  "try_get_cld H k =
     (case try_get_apic k of
        None \<Rightarrow> Inr (None, k)
      | Some ap \<Rightarrow>
          let (i, d) = apic_id H ap (device k); k = k\<lparr>device := d\<rparr> in
          if unat i < length (CORE_LOCAL k)
          then Inr (case CORE_LOCAL k ! unat i of None \<Rightarrow> None | Some _ \<Rightarrow> Some (unat i), k)
          else Inl IndexOut)"

text \<open>Reading and writing through the reference.\<close>

definition cld :: "nat \<Rightarrow> 'd kernel \<Rightarrow> CoreLocalData" where
  "cld i k = the (CORE_LOCAL k ! i)"

definition cld_update :: "nat \<Rightarrow> (CoreLocalData \<Rightarrow> CoreLocalData) \<Rightarrow> 'd kernel \<Rightarrow> 'd kernel" where
  "cld_update i f k = k\<lparr>CORE_LOCAL := (CORE_LOCAL k)[i := map_option f (CORE_LOCAL k ! i)]\<rparr>"

definition cpu_index :: "'d hw \<Rightarrow> 'd kernel \<Rightarrow> (nat \<times> 'd kernel) res" where
  "cpu_index H k = bnd (get_cld H k) (\<lambda>(i, k). Inr (cpu_index_field (cld i k), k))"

subsection \<open>The timer interrupt\<close>

text \<open>\<open>timer_interrupt\<close> of common_main.rs increments the first counter of the core.\<close>

definition main_timer_interrupt :: "'d hw \<Rightarrow> 'd kernel \<Rightarrow> 'd kernel res" where
  "main_timer_interrupt H k =
     bnd (get_cld H k) (\<lambda>(i, k).
     bnd (unwrap (stuff (cld i k))) (\<lambda>xs.
     if xs = [] then Inl IndexOut
     else Inr (cld_update i (\<lambda>c. c\<lparr>stuff := Some (xs[0 := (hd xs + 1) mod 2 ^ 64])\<rparr>) k)))"

fun run_callback :: "'d hw \<Rightarrow> callback \<Rightarrow> 'd kernel \<Rightarrow> 'd kernel res" where
  "run_callback H Timer_interrupt k = main_timer_interrupt H k"
| "run_callback H Request_frame k = Inr (k\<lparr>NEW_FRAME_REQUESTED := True\<rparr>)"

definition timer_interrupt :: "'d hw \<Rightarrow> 'd kernel \<Rightarrow> 'd kernel res" where
  "timer_interrupt H k =
     bnd (get_cld H k) (\<lambda>(i, k).
     bnd (case apic_timer_interrupt_function (cld i k) of
            Some callback \<Rightarrow> run_callback H callback k | None \<Rightarrow> Inr k) (\<lambda>k.
     bnd (get_apic k) (\<lambda>ap.
     Inr (k\<lparr>device := signal_end_of_interrupt H ap (device k)\<rparr>))))"

subsection \<open>Access by the running core\<close>

text \<open>
  \<open>runs_on H p a\<close>: the running core's register page is at \<open>p\<close>, and reading the identification
  register gives \<open>a\<close> and has no effect.
\<close>

definition runs_on :: "'d hw \<Rightarrow> u64 \<Rightarrow> u8 \<Rightarrow> bool" where
  "runs_on H p a \<longleftrightarrow> (\<forall>d. \<exists>w. mmio_read H (p + 0x20) d = (w, d) \<and> ucast (drop_bit 24 w) = a)"

definition kernel_ok :: "u64 \<Rightarrow> 'd kernel \<Rightarrow> bool" where
  "kernel_ok p k \<longleftrightarrow> LOCAL_APIC_PTR k = Some p \<and> length (CORE_LOCAL k) = MAX_CORES"

definition has_cld :: "u8 \<Rightarrow> 'd kernel \<Rightarrow> CoreLocalData \<Rightarrow> bool" where
  "has_cld a k c \<longleftrightarrow> CORE_LOCAL k ! unat a = Some c"

lemma own_id_ok:
  assumes "runs_on H p a" "kernel_ok p k"
  shows "own_id H k = Inr (unat a, k)"
proof -
  obtain w where "mmio_read H (p + 0x20) (device k) = (w, device k)" "ucast (drop_bit 24 w) = a"
    using assms(1) unfolding runs_on_def by blast
  with assms(2) show ?thesis
    by (simp add: own_id_def get_apic_def kernel_ok_def apic_id_def apic_read_def apic_offset_def)
qed

lemma id_in_range:
  assumes "kernel_ok p k"
  shows "unat (a :: u8) < length (CORE_LOCAL k)"
proof -
  have "unat a < 2 ^ 8" using unsigned_less [of a] by simp
  with assms show ?thesis by (simp add: kernel_ok_def MAX_CORES_def)
qed

lemma get_cld_ok:
  assumes "runs_on H p a" "kernel_ok p k" "has_cld a k c"
  shows "get_cld H k = Inr (unat a, k)" "cld (unat a) k = c"
  using assms own_id_ok [OF assms(1,2)] id_in_range [OF assms(2), of a]
  by (simp_all add: get_cld_def cld_def has_cld_def)

lemma cld_update_ok:
  assumes "kernel_ok p k" "has_cld a k c"
  shows "kernel_ok p (cld_update (unat a) f k)" "has_cld a (cld_update (unat a) f k) (f c)"
    and "device (cld_update (unat a) f k) = device k"
    and "b \<noteq> a \<Longrightarrow> CORE_LOCAL (cld_update (unat a) f k) ! unat b = CORE_LOCAL k ! unat b"
  using assms id_in_range [OF assms(1), of a]
  by (auto simp: kernel_ok_def has_cld_def cld_update_def nth_list_update word_unat_eq_iff)

lemma kernel_ok_device [simp]: "kernel_ok p (k\<lparr>device := d\<rparr>) = kernel_ok p k"
  by (simp add: kernel_ok_def)

lemma has_cld_device [simp]: "has_cld a (k\<lparr>device := d\<rparr>) c = has_cld a k c"
  by (simp add: has_cld_def)

lemma get_apic_ok: "kernel_ok p k \<Longrightarrow> get_apic k = Inr \<lparr>local_apic_ptr = p\<rparr>"
  by (simp add: get_apic_def kernel_ok_def)

subsection \<open>Counting timer interrupts\<close>

definition count_up :: "nat \<Rightarrow> CoreLocalData \<Rightarrow> CoreLocalData" where
  "count_up n c = (case stuff c of
     Some (x # xs) \<Rightarrow> c\<lparr>stuff := Some ((x + n) mod 2 ^ 64 # xs)\<rparr> | _ \<Rightarrow> c)"

lemma count_up_count_up: "count_up n (count_up m c) = count_up (m + n) c"
  by (auto simp: count_up_def mod_simps add.assoc split: option.split list.split)

lemma cld_update_has_cld:
  assumes "has_cld a k c"
  shows "cld_update (unat a) f k = k\<lparr>CORE_LOCAL := (CORE_LOCAL k)[unat a := Some (f c)]\<rparr>"
  using assms by (simp add: cld_update_def has_cld_def)

text \<open>One interrupt: the callback runs once, then the end of the interrupt is signalled.\<close>

definition eoi :: "'d hw \<Rightarrow> u64 \<Rightarrow> 'd \<Rightarrow> 'd" where
  "eoi H p d = mmio_write H (p + 0xb0) 0 d"

lemma timer_interrupt_counts:
  assumes "runs_on H p a" "kernel_ok p k" "has_cld a k c"
    and "apic_timer_interrupt_function c = Some Timer_interrupt" "stuff c = Some (x # xs)"
  shows "timer_interrupt H k = Inr (cld_update (unat a) (count_up 1) k\<lparr>device := eoi H p (device k)\<rparr>)"
proof -
  note g = get_cld_ok [OF assms(1-3)]
  have "main_timer_interrupt H k = Inr (cld_update (unat a) (count_up 1) k)"
    using assms(3,5) g
    by (simp add: main_timer_interrupt_def cld_update_has_cld count_up_def)
  then show ?thesis
    using g assms(4) get_apic_ok [OF cld_update_ok(1) [OF assms(2,3)], of "count_up 1"]
    by (simp add: timer_interrupt_def signal_end_of_interrupt_def apic_write_def apic_offset_def eoi_def
        cld_update_ok(3) [OF assms(2,3)])
qed

lemma timer_interrupts_count:
  assumes "runs_on H p a" "kernel_ok p k" "has_cld a k c" "x < 2 ^ 64"
    and "apic_timer_interrupt_function c = Some Timer_interrupt" "stuff c = Some (x # xs)"
  shows "\<exists>k'. foldm (\<lambda>_. timer_interrupt H) (replicate n ()) k = Inr k' \<and> kernel_ok p k' \<and>
    has_cld a k' (c\<lparr>stuff := Some ((x + n) mod 2 ^ 64 # xs)\<rparr>) \<and> device k' = (eoi H p ^^ n) (device k) \<and>
    (\<forall>b. b \<noteq> a \<longrightarrow> CORE_LOCAL k' ! unat b = CORE_LOCAL k ! unat b)"
  using assms(2-)
proof (induction n arbitrary: k c x)
  case 0
  then have "c\<lparr>stuff := Some (x # xs)\<rparr> = c" by simp
  with 0(2) have "has_cld a k (c\<lparr>stuff := Some (x # xs)\<rparr>)" by (simp only:)
  with 0 show ?case by simp
next
  case (Suc n)
  let ?k = "cld_update (unat a) (count_up 1) k\<lparr>device := eoi H p (device k)\<rparr>"
  let ?x = "(x + 1) mod 2 ^ 64"
  have step: "timer_interrupt H k = Inr ?k"
    by (rule timer_interrupt_counts [OF assms(1) Suc.prems(1,2,4,5)])
  note u = cld_update_ok [OF Suc.prems(1,2), where f = "count_up 1"]
  have c: "count_up 1 c = c\<lparr>stuff := Some (?x # xs)\<rparr>" using Suc.prems(5) by (simp add: count_up_def)
  obtain k' where "foldm (\<lambda>_. timer_interrupt H) (replicate n ()) ?k = Inr k'" "kernel_ok p k'"
      "has_cld a k' (c\<lparr>stuff := Some ((?x + n) mod 2 ^ 64 # xs)\<rparr>)" "device k' = (eoi H p ^^ n) (device ?k)"
      "\<forall>b. b \<noteq> a \<longrightarrow> CORE_LOCAL k' ! unat b = CORE_LOCAL ?k ! unat b"
    using Suc.IH [of ?k "c\<lparr>stuff := Some (?x # xs)\<rparr>" ?x] u(1,2) c Suc.prems(4) by auto
  moreover have "(?x + n) mod 2 ^ 64 = (x + Suc n) mod 2 ^ 64" by (simp add: mod_simps)
  moreover have "(eoi H p ^^ n) (device ?k) = (eoi H p ^^ Suc n) (device k)" by (simp add: funpow_swap1)
  ultimately show ?case using step u(4) by auto
qed

subsection \<open>Properties\<close>

text \<open>
  Before a core has initialised its local data, asking for them is a panic; afterwards the
  core gets the data it stored, a second initialisation changes nothing, and the data of no other
  core are touched.
\<close>

lemma core_local_data:
  assumes "runs_on H p a" "kernel_ok p k" "CORE_LOCAL k ! unat a = None"
  shows "get_cld H k = Inl (Explicit ''core local data not initialized'') \<and>
    (\<exists>k'. initialize_own_core_local_data H c k = Inr k' \<and>
       get_cld H k' = Inr (unat a, k') \<and> cld (unat a) k' = c \<and>
       initialize_own_core_local_data H c2 k' = Inr k' \<and>
       (\<forall>b. b \<noteq> a \<longrightarrow> CORE_LOCAL k' ! unat b = CORE_LOCAL k ! unat b))"
proof -
  let ?k = "k\<lparr>CORE_LOCAL := (CORE_LOCAL k)[unat a := Some c]\<rparr>"
  have ok: "kernel_ok p ?k" "has_cld a ?k c"
    using assms(2) id_in_range [OF assms(2), of a] by (simp_all add: kernel_ok_def has_cld_def)
  have "initialize_own_core_local_data H c k = Inr ?k" "get_cld H k = Inl (Explicit ''core local data not initialized'')"
    using own_id_ok [OF assms(1,2)] id_in_range [OF assms(2), of a] assms(3)
    by (simp_all add: initialize_own_core_local_data_def get_cld_def)
  moreover have "initialize_own_core_local_data H c2 ?k = Inr ?k"
    using own_id_ok [OF assms(1) ok(1)] id_in_range [OF ok(1), of a] ok(2)
    by (simp add: initialize_own_core_local_data_def has_cld_def)
  moreover have "\<forall>b. b \<noteq> a \<longrightarrow> CORE_LOCAL ?k ! unat b = CORE_LOCAL k ! unat b"
    by (auto simp: nth_list_update word_unat_eq_iff)
  ultimately show ?thesis using get_cld_ok [OF assms(1) ok] by auto
qed

text \<open>
  After \<open>n\<close> timer interrupts on a core whose callback is the counting function, the core's own
  counter has advanced by \<open>n\<close>, the end of the interrupt was signalled \<open>n\<close> times to its own APIC,
  and no other core's data have changed.
\<close>

lemma timer_interrupts:
  assumes "runs_on H p a" "kernel_ok p k" "CORE_LOCAL k ! unat a = Some c"
    and "apic_timer_interrupt_function c = Some Timer_interrupt" "stuff c = Some (x # xs)" "x + n < 2 ^ 64"
  shows "\<exists>k'. foldm (\<lambda>_. timer_interrupt H) (replicate n ()) k = Inr k' \<and>
    CORE_LOCAL k' ! unat a = Some (c\<lparr>stuff := Some ((x + n) # xs)\<rparr>) \<and>
    device k' = (mmio_write H (p + 0xb0) 0 ^^ n) (device k) \<and>
    (\<forall>b. b \<noteq> a \<longrightarrow> CORE_LOCAL k' ! unat b = CORE_LOCAL k ! unat b)"
proof -
  have e: "eoi H p = mmio_write H (p + 0xb0) 0" by (simp add: fun_eq_iff eoi_def)
  have "(x + n) mod 2 ^ 64 = x + n" using assms(6) by simp
  with timer_interrupts_count [OF assms(1,2) _ _ assms(4,5), of n] assms(3,6) show ?thesis
    unfolding has_cld_def e by auto
qed

subsection \<open>A concrete core\<close>

text \<open>A core with APIC identification 3 whose registers record the writes.\<close>

definition hw_core :: "(u64 \<times> u32) list hw" where
  "hw_core = hw_rec\<lparr>mmio_read := (\<lambda>a d. (0x03000000, d))\<rparr>"

definition kernel_core :: "(u64 \<times> u32) list kernel" where
  "kernel_core = \<lparr>device = [], LOCAL_APIC_PTR = Some 0xFEE00000, CORE_LOCAL = core_local_init,
     NEW_FRAME_REQUESTED = True\<rparr>"

lemma runs_on_core: "runs_on hw_core p 3"
proof -
  have "drop_bit 24 (0x03000000 :: u32) = 3" by (simp add: drop_bit_eq_div)
  then show ?thesis by (simp add: runs_on_def hw_core_def)
qed

lemma kernel_ok_core: "kernel_ok 0xFEE00000 kernel_core"
  by (simp add: kernel_ok_def kernel_core_def core_local_init_def)

lemma core_local_data_witness:
  "\<exists>k'. initialize_own_core_local_data hw_core default_cld kernel_core = Inr k' \<and>
     get_cld hw_core k' = Inr (3, k') \<and> cld 3 k' = default_cld"
proof -
  have "CORE_LOCAL kernel_core ! unat (3 :: u8) = None"
    by (simp add: kernel_core_def core_local_init_def CORE_LOCAL_ENTRY_INIT_def MAX_CORES_def)
  from core_local_data [OF runs_on_core kernel_ok_core this, of default_cld] show ?thesis by auto
qed

lemma timer_interrupts_witness:
  "\<exists>k'. foldm (\<lambda>_. timer_interrupt hw_core) (replicate 5 ())
      (kernel_core\<lparr>CORE_LOCAL := core_local_init[3 := Some (default_cld\<lparr>stuff := Some [0],
         apic_timer_interrupt_function := Some Timer_interrupt\<rparr>)]\<rparr>) = Inr k' \<and>
     stuff (cld 3 k') = Some [5] \<and> length (device k') = 5"
proof -
  let ?c = "default_cld\<lparr>stuff := Some [0], apic_timer_interrupt_function := Some Timer_interrupt\<rparr>"
  let ?k = "kernel_core\<lparr>CORE_LOCAL := core_local_init[3 := Some ?c]\<rparr>"
  have ok: "kernel_ok 0xFEE00000 ?k" "CORE_LOCAL ?k ! unat (3 :: u8) = Some ?c"
    by (simp_all add: kernel_ok_def kernel_core_def core_local_init_def MAX_CORES_def)
  have "length ((mmio_write hw_core q 0 ^^ n) d) = n + length d" for n d q
    by (induction n) (simp_all add: hw_core_def hw_rec_def)
  then have len: "length ((mmio_write hw_core q 0 ^^ 5) []) = 5" for q by simp
  obtain k' where "foldm (\<lambda>_. timer_interrupt hw_core) (replicate 5 ()) ?k = Inr k'"
      "CORE_LOCAL k' ! unat (3 :: u8) = Some (?c\<lparr>stuff := Some [0 + 5]\<rparr>)"
      "device k' = (mmio_write hw_core (0xFEE00000 + 0xb0) 0 ^^ 5) (device ?k)"
    using timer_interrupts [OF runs_on_core ok, of 0 "[]" 5] by auto
  with len show ?thesis by (auto simp: cld_def kernel_core_def)
qed

end
