(* ===== verification/Apic_Timer.thy ===== *)
theory Apic_Timer
  imports Core_Local
begin

text \<open>
  The timer of the local APIC, kernel/src/apic.rs: \<open>init\<close>, \<open>init_timer\<close> (which measures its speed
  with the interval timer) and \<open>start_timer\<close>.  \<open>init_timer\<close> waits for the interval timer, so its
  result is an option: \<open>None\<close> stands for waiting forever.  The lock it takes keeps the other cores
  away from the interval timer; the model is one core's run of the critical section.
\<close>

definition init_timer ::
  "u8 bitfield \<Rightarrow> 'd hw \<Rightarrow> Apic \<Rightarrow> 'd kernel \<Rightarrow> 'd kernel res option"
where
  "init_timer BF H ap k =
     (let d = apic_write H ap TimerDivideConfiguration 0x3 (device k);
          d = apic_write H ap TimerInitialCount 0xFFFFFFFF d
      in case delay BF (hw_ports H) 50000 d of
           None \<Rightarrow> None
         | Some (Inl _, _) \<Rightarrow> Some (Inl UnwrapNone)
         | Some (Inr _, d) \<Rightarrow>
             let d = apic_write H ap TimerLocalVectorTableEntry (push_bit 16 1) d;
                 (current, d) = apic_read H ap TimerCurrentCount d;
                 ticks_in_50ms = 0xFFFFFFFF - current;
                 ticks_per_second = unat ticks_in_50ms * 20;
                 k = k\<lparr>device := d\<rparr>
             in Some
                 (if ticks_per_second = 0 then Inl (Explicit ''apic timer initialization failed'')
                  else bnd (get_cld H k) (\<lambda>(i, k).
                    Inr (cld_update i (\<lambda>c. c\<lparr>apic_timer_ticks_per_second := Some ticks_per_second\<rparr>) k))))"

definition apic_init_self ::
  "u8 bitfield \<Rightarrow> 'd hw \<Rightarrow> Apic \<Rightarrow> 'd kernel \<Rightarrow> 'd kernel res option"
where
  "apic_init_self BF H ap k =
     (let d = apic_write H ap TaskPriority 0 (device k);
          d = apic_write H ap SpuriousInterruptVector 0x11FF d
      in init_timer BF H ap (k\<lparr>device := d\<rparr>))"

text \<open>The function \<open>init\<close> that every core calls once.\<close>

definition apic_init :: "u8 bitfield \<Rightarrow> 'd hw \<Rightarrow> 'd kernel \<Rightarrow> 'd kernel res option" where
  "apic_init BF H k = (case get_apic k of
     Inl e \<Rightarrow> Some (Inl e) | Inr ap \<Rightarrow> apic_init_self BF H ap k)"

text \<open>\<open>start_timer\<close> returns \<open>Err(())\<close> as \<open>Inl ()\<close> inside its result.\<close>

definition start_timer ::
  "'d hw \<Rightarrow> Apic \<Rightarrow> u32 \<Rightarrow> bool \<Rightarrow> callback \<Rightarrow> 'd kernel \<Rightarrow> ((unit + unit) \<times> 'd kernel) res"
where
  "start_timer H ap interval_us periodic interrupt k =
     bnd (get_cld H k) (\<lambda>(i, k).
     let k = cld_update i (\<lambda>c. c\<lparr>apic_timer_interrupt_function := Some interrupt\<rparr>) k in
     bnd (get_cld H k) (\<lambda>(i, k).
     bnd (unwrap (apic_timer_ticks_per_second (cld i k))) (\<lambda>ticks_per_second.
     bnd (cmul ticks_per_second (unat interval_us)) (\<lambda>p.
     let ticks_in_interval = p div 1000000 in
     if 2 ^ 32 \<le> ticks_in_interval then Inr (Inl (), k)
     else
       bnd (if periodic then ass (0 < ticks_in_interval) else Inr ()) (\<lambda>_.
       let d = apic_write H ap TimerLocalVectorTableEntry (push_bit 16 1) (device k);
           d = apic_write H ap TimerLocalVectorTableEntry (32 OR (if periodic then 0x20000 else 0x40000)) d;
           d = apic_write H ap TimerDivideConfiguration 0x3 d;
           d = apic_write H ap TimerInitialCount (word_of_nat ticks_in_interval) d
       in Inr (Inr (), k\<lparr>device := d\<rparr>))))))"

lemma init_timer_run:
  assumes "bitfield_ok BF" "pit_ok (hw_ports H) run left"
    and "runs_on H p a" "kernel_ok p k" "CORE_LOCAL k ! unat a = Some c"
  shows "\<exists>d current d'.
    delay BF (hw_ports H) 50000 (reg_writes H p [(0x3e0, 3), (0x380, 0xFFFFFFFF)] (device k)) = Some (Inr (), d) \<and>
    mmio_read H (p + 0x390) (reg_writes H p [(0x320, 0x10000)] d) = (current, d') \<and>
    (if current = 0xFFFFFFFF
     then init_timer BF H \<lparr>local_apic_ptr = p\<rparr> k = Some (Inl (Explicit ''apic timer initialization failed''))
     else \<exists>k' t. init_timer BF H \<lparr>local_apic_ptr = p\<rparr> k = Some (Inr k') \<and>
       t = 20 * (2 ^ 32 - 1 - unat current) \<and> 0 < t \<and> t < 2 ^ 37 \<and> device k' = d' \<and> kernel_ok p k' \<and>
       CORE_LOCAL k' ! unat a = Some (c\<lparr>apic_timer_ticks_per_second := Some t\<rparr>) \<and>
       (\<forall>b. b \<noteq> a \<longrightarrow> CORE_LOCAL k' ! unat b = CORE_LOCAL k ! unat b))"
proof -
  let ?d0 = "reg_writes H p [(0x3e0, 3), (0x380, 0xFFFFFFFF)] (device k)"
  obtain d where d: "delay BF (hw_ports H) 50000 ?d0 = Some (Inr (), d)"
    using delay_returns [OF assms(1,2), of 50000 ?d0] by auto
  obtain cur d' where r: "mmio_read H (p + 0x390) (reg_writes H p [(0x320, 0x10000)] d) = (cur, d')"
    by fastforce
  let ?t = "20 * (2 ^ 32 - 1 - unat cur)" and ?k = "k\<lparr>device := d'\<rparr>"
  have lt: "unat cur < 2 ^ 32" using unsigned_less [of cur] by simp
  then have "cur \<le> 0xFFFFFFFF" by (simp add: word_le_nat_alt)
  then have t: "unat (0xFFFFFFFF - cur) = 2 ^ 32 - 1 - unat cur" by (simp add: unat_sub)
  have max: "cur = 0xFFFFFFFF \<longleftrightarrow> unat cur = 2 ^ 32 - 1" by (simp add: word_unat_eq_iff)
  have ok: "kernel_ok p ?k" "has_cld a ?k c" using assms(4,5) by (simp_all add: has_cld_def kernel_ok_def)
  note g = get_cld_ok [OF assms(3) ok] and u = cld_update_ok [OF ok]
  have run: "init_timer BF H \<lparr>local_apic_ptr = p\<rparr> k = Some (if ?t = 0
      then Inl (Explicit ''apic timer initialization failed'')
      else Inr (cld_update (unat a) (\<lambda>c. c\<lparr>apic_timer_ticks_per_second := Some ?t\<rparr>) ?k))"
    using d r t g by (simp add: init_timer_def reg_writes_def apic_write_def apic_read_def apic_offset_def Let_def
        mult.commute)
  show ?thesis
  proof (intro exI conjI)
    show "if cur = 0xFFFFFFFF
     then init_timer BF H \<lparr>local_apic_ptr = p\<rparr> k = Some (Inl (Explicit ''apic timer initialization failed''))
     else \<exists>k' t. init_timer BF H \<lparr>local_apic_ptr = p\<rparr> k = Some (Inr k') \<and>
       t = 20 * (2 ^ 32 - 1 - unat cur) \<and> 0 < t \<and> t < 2 ^ 37 \<and> device k' = d' \<and> kernel_ok p k' \<and>
       CORE_LOCAL k' ! unat a = Some (c\<lparr>apic_timer_ticks_per_second := Some t\<rparr>) \<and>
       (\<forall>b. b \<noteq> a \<longrightarrow> CORE_LOCAL k' ! unat b = CORE_LOCAL k ! unat b)"
      using run max lt u(1-4) by (auto simp: has_cld_def)
  qed (use d r in auto)
qed

subsection \<open>Properties\<close>

lemma start_timer_eq:
  assumes "runs_on H p a" "kernel_ok p k" "CORE_LOCAL k ! unat a = Some c"
    and "apic_timer_ticks_per_second c = Some t"
  shows "let n = t * unat us div 1000000;
      k' = cld_update (unat a) (\<lambda>c. c\<lparr>apic_timer_interrupt_function := Some f\<rparr>) k in
    start_timer H \<lparr>local_apic_ptr = p\<rparr> us periodic f k =
      (if 2 ^ 64 \<le> t * unat us then Inl ArithOverflow
       else if 2 ^ 32 \<le> n then Inr (Inl (), k')
       else if periodic \<and> n = 0 then Inl AssertFail
       else Inr (Inr (), k'\<lparr>device := reg_writes H p
         [(0x320, 0x10000), (0x320, if periodic then 0x20020 else 0x40020), (0x3e0, 3), (0x380, word_of_nat n)]
         (device k)\<rparr>)) \<and>
    n * 1000000 \<le> t * unat us \<and> t * unat us < (n + 1) * 1000000"
proof -
  let ?f = "\<lambda>c :: CoreLocalData. c\<lparr>apic_timer_interrupt_function := Some f\<rparr>"
  let ?k = "cld_update (unat a) ?f k"
  have c: "has_cld a k c" using assms(3) by (simp add: has_cld_def)
  note u = cld_update_ok [OF assms(2) c, where f = ?f]
  have "t * unat us < (t * unat us div 1000000 + 1) * 1000000"
    using dividend_less_div_times [of 1000000 "t * unat us"] by simp
  then show ?thesis
    using get_cld_ok [OF assms(1,2) c] get_cld_ok [OF assms(1) u(1,2)] u(3) assms(4)
    by (auto simp: start_timer_def Let_def reg_writes_def apic_write_def apic_offset_def cmul_def)
qed

text \<open>
  Calibration always ends.  It programs the counter with its largest value and a divider of
  16, lets it run for 50 milliseconds, masks the timer and reads the counter; a counter that has
  not moved is a panic, otherwise the core keeps twenty times the elapsed ticks as its number of
  ticks per second, a positive number below \<open>2 ^ 37\<close>, and no other core's data change.
\<close>

lemma init_timer_calibrates:
  assumes "bitfield_ok BF" "pit_ok (hw_ports H) run left"
    and "runs_on H p a" "kernel_ok p k" "CORE_LOCAL k ! unat a = Some c"
  shows "\<exists>d current d'.
    delay BF (hw_ports H) 50000 (reg_writes H p [(0x3e0, 3), (0x380, 0xFFFFFFFF)] (device k)) = Some (Inr (), d) \<and>
    mmio_read H (p + 0x390) (reg_writes H p [(0x320, 0x10000)] d) = (current, d') \<and>
    (if current = 0xFFFFFFFF
     then init_timer BF H \<lparr>local_apic_ptr = p\<rparr> k = Some (Inl (Explicit ''apic timer initialization failed''))
     else \<exists>k' t. init_timer BF H \<lparr>local_apic_ptr = p\<rparr> k = Some (Inr k') \<and>
       t = 20 * (2 ^ 32 - 1 - unat current) \<and> 0 < t \<and> t < 2 ^ 37 \<and> device k' = d' \<and> kernel_ok p k' \<and>
       CORE_LOCAL k' ! unat a = Some (c\<lparr>apic_timer_ticks_per_second := Some t\<rparr>) \<and>
       (\<forall>b. b \<noteq> a \<longrightarrow> CORE_LOCAL k' ! unat b = CORE_LOCAL k ! unat b))"
  by (rule init_timer_run [OF assms])

text \<open>
  On a core with calibrated timer, \<open>start_timer\<close> writes the registers mask, vector 32 with the
  mode bits, divider and count in this order, where the count is the number of ticks in the
  interval rounded down; an interval of more ticks than the counter holds gives an error, with no
  register written but the callback already replaced; a periodic interval of no tick at all and a
  product that exceeds 64 bits are panics.
\<close>

lemma start_timer_programs:
  assumes "runs_on H p a" "kernel_ok p k" "CORE_LOCAL k ! unat a = Some c"
    and "apic_timer_ticks_per_second c = Some t"
  shows "let n = t * unat us div 1000000;
      k' = cld_update (unat a) (\<lambda>c. c\<lparr>apic_timer_interrupt_function := Some f\<rparr>) k in
    start_timer H \<lparr>local_apic_ptr = p\<rparr> us periodic f k =
      (if 2 ^ 64 \<le> t * unat us then Inl ArithOverflow
       else if 2 ^ 32 \<le> n then Inr (Inl (), k')
       else if periodic \<and> n = 0 then Inl AssertFail
       else Inr (Inr (), k'\<lparr>device := reg_writes H p
         [(0x320, 0x10000), (0x320, if periodic then 0x20020 else 0x40020), (0x3e0, 3), (0x380, word_of_nat n)]
         (device k)\<rparr>)) \<and>
    n * 1000000 \<le> t * unat us \<and> t * unat us < (n + 1) * 1000000"
  by (rule start_timer_eq [OF assms])

text \<open>
  The mode bits of a timer that is not periodic.  Bit 17 is clear and bit 18 is set, which
  selects the deadline mode of the timer; a one-shot countdown would have both bits clear.
\<close>

lemma one_shot_sets_deadline_mode:
  assumes "runs_on H p a" "kernel_ok p k" "CORE_LOCAL k ! unat a = Some c"
    and "apic_timer_ticks_per_second c = Some t" "t * unat us < 2 ^ 32 * 1000000"
  shows "\<exists>k' entry. start_timer H \<lparr>local_apic_ptr = p\<rparr> us False f k = Inr (Inr (), k') \<and>
    device k' = reg_writes H p [(0x320, 0x10000), (0x320, entry), (0x3e0, 3),
      (0x380, word_of_nat (t * unat us div 1000000))] (device k) \<and>
    \<not> bit entry 17 \<and> bit entry 18"
proof -
  let ?f = "\<lambda>c :: CoreLocalData. c\<lparr>apic_timer_interrupt_function := Some f\<rparr>"
  have c: "has_cld a k c" using assms(3) by (simp add: has_cld_def)
  note u = cld_update_ok [OF assms(2) c, where f = ?f]
  have n: "t * unat us < 2 ^ 64" "t * unat us div 1000000 < 2 ^ 32"
    using assms(5) less_mult_imp_div_less [of "t * unat us" "2 ^ 32" 1000000] by simp_all
  then show ?thesis
    using get_cld_ok [OF assms(1,2) c] get_cld_ok [OF assms(1) u(1,2)] u(3) assms(4)
    by (intro exI [of _ "(cld_update (unat a) ?f k)\<lparr>device := reg_writes H p [(0x320, 0x10000), (0x320, 0x40020),
          (0x3e0, 3), (0x380, word_of_nat (t * unat us div 1000000))] (device k)\<rparr>"] exI [of _ "0x40020"])
      (simp add: start_timer_def Let_def reg_writes_def apic_write_def apic_offset_def)
qed

subsection \<open>A concrete timer\<close>

text \<open>Core 3 with a timer whose counter reads one million below its start after the delay.\<close>

definition hw_timer :: "nat hw" where
  "hw_timer = \<lparr>hw_ports = pit_ref,
     mmio_read = (\<lambda>a d. (if a = 0xFEE00020 then 0x03000000 else 0xFFFFFFFF - 1000000, d)),
     mmio_write = (\<lambda>a v d. d)\<rparr>"

definition kernel_timer :: "nat option \<Rightarrow> nat kernel" where
  "kernel_timer ticks = \<lparr>device = 0, LOCAL_APIC_PTR = Some 0xFEE00000,
     CORE_LOCAL = core_local_init[3 := Some (default_cld\<lparr>apic_timer_ticks_per_second := ticks\<rparr>)],
     NEW_FRAME_REQUESTED = True\<rparr>"

lemma kernel_timer_ok:
  "runs_on hw_timer 0xFEE00000 3" "kernel_ok 0xFEE00000 (kernel_timer ticks)"
  "CORE_LOCAL (kernel_timer ticks) ! unat (3 :: u8) = Some (default_cld\<lparr>apic_timer_ticks_per_second := ticks\<rparr>)"
  by (simp_all add: runs_on_def hw_timer_def kernel_ok_def kernel_timer_def core_local_init_def MAX_CORES_def
      drop_bit_eq_div)

lemma init_timer_calibrates_witness:
  "\<exists>k'. init_timer bitfield_ref hw_timer \<lparr>local_apic_ptr = 0xFEE00000\<rparr> (kernel_timer None) = Some (Inr k') \<and>
     apic_timer_ticks_per_second (cld 3 k') = Some 20000000"
proof -
  have p: "pit_ok (hw_ports hw_timer) (\<lambda>_. True) (\<lambda>n. n)" using pit_ref_ok by (simp add: hw_timer_def)
  from init_timer_calibrates [OF bitfield_ref_ok p kernel_timer_ok, of None]
  show ?thesis by (auto simp: hw_timer_def cld_def split: if_splits)
qed

lemma start_timer_programs_witness:
  "\<exists>k'. start_timer hw_timer \<lparr>local_apic_ptr = 0xFEE00000\<rparr> 30000 True Request_frame (kernel_timer (Some 20000000)) =
     Inr (Inr (), k') \<and> apic_timer_interrupt_function (cld 3 k') = Some Request_frame"
proof -
  have n: "kernel_ok 0xFEE00000 (kernel_timer (Some 20000000))" "has_cld 3 (kernel_timer (Some 20000000))
      (default_cld\<lparr>apic_timer_ticks_per_second := Some 20000000\<rparr>)"
    using kernel_timer_ok by (simp_all add: has_cld_def)
  from start_timer_programs [OF kernel_timer_ok(1) n(1), where t = 20000000 and us = 30000 and f = Request_frame
      and periodic = True] n(2)
    cld_update_ok(2) [OF n, of "\<lambda>c. c\<lparr>apic_timer_interrupt_function := Some Request_frame\<rparr>"]
  show ?thesis by (simp add: Let_def cld_def has_cld_def)
qed

end
