(* ===== verification/Paging.thy ===== *)
theory Paging
  imports Frame_Allocator Constants
begin

text \<open>
  The page-table operations of the crate x86_64 that memory.rs calls: \<open>PageTable::zero\<close>, indexing a
  table, and the methods \<open>map_to\<close>, \<open>unmap\<close>, \<open>update_flags\<close> and \<open>translate_page\<close> of
  \<open>OffsetPageTable\<close>.  The crate is not part of the repository: the operations are the fields of
  the record \<open>paging\<close>, over an arbitrary type \<open>'pt\<close> of physical memory seen as page tables and
  \<open>'e\<close> of table entries, and \<open>paging_ok\<close> states what the crate and the processor manual document.

  A table is named by the address of its \<open>PageTable\<close> object, a page and a frame by their start
  address, and flags are the set of flag names.  \<open>pg_look\<close> is what the processor finds when it
  translates a page: a 4 KiB leaf with its frame and flags, or a huge page.
\<close>

datatype PageTableFlag =
  PRESENT | WRITABLE | USER_ACCESSIBLE | WRITE_THROUGH | NO_CACHE | NO_EXECUTE

type_synonym PageTableFlags = "PageTableFlag set"

datatype leaf = Small nat PageTableFlags | Huge

datatype MapError = PageAlreadyMapped | FrameAllocationFailed | ParentEntryHugePage | PageNotMapped

record ('pt, 'e) paging =
  pg_entry :: "'pt \<Rightarrow> nat \<Rightarrow> nat \<Rightarrow> 'e"
  pg_entry_frame :: "'e \<Rightarrow> nat option"
  pg_set_entry :: "nat \<Rightarrow> nat \<Rightarrow> 'e \<Rightarrow> 'pt \<Rightarrow> 'pt"
  pg_zero :: "nat \<Rightarrow> 'pt \<Rightarrow> 'pt"
  pg_map_to :: "(falloc \<Rightarrow> (nat option \<times> falloc) res) \<Rightarrow> nat \<Rightarrow> nat \<Rightarrow> nat \<Rightarrow> PageTableFlags \<Rightarrow>
                 'pt \<Rightarrow> falloc \<Rightarrow> (MapError option \<times> 'pt \<times> falloc) res"
  pg_unmap :: "nat \<Rightarrow> nat \<Rightarrow> 'pt \<Rightarrow> MapError + (nat \<times> 'pt)"
  pg_update_flags :: "nat \<Rightarrow> nat \<Rightarrow> PageTableFlags \<Rightarrow> 'pt \<Rightarrow> MapError + 'pt"
  pg_look :: "'pt \<Rightarrow> nat \<Rightarrow> nat \<Rightarrow> leaf option"

text \<open>The next-level table behind a slot of a top-level table.\<close>

definition slot :: "('pt, 'e) paging \<Rightarrow> 'pt \<Rightarrow> nat \<Rightarrow> nat \<Rightarrow> nat option" where
  "slot P pt r i = pg_entry_frame P (pg_entry P pt r i)"

text \<open>A page of \<open>r'\<close> is reached through the same next-level table as in \<open>r\<close>.\<close>

definition shares :: "('pt, 'e) paging \<Rightarrow> 'pt \<Rightarrow> nat \<Rightarrow> nat \<Rightarrow> nat \<Rightarrow> bool" where
  "shares P pt r r' p \<longleftrightarrow>
     r' = r \<or> slot P pt r (l4_index p) \<noteq> None \<and> slot P pt r' (l4_index p) = slot P pt r (l4_index p)"

text \<open>\<open>al\<close> hands out the frames listed by \<open>frames\<close>, first to last.\<close>

definition hands_out :: "(falloc \<Rightarrow> (nat option \<times> falloc) res) \<Rightarrow> (falloc \<Rightarrow> nat list \<Rightarrow> bool) \<Rightarrow> bool" where
  "hands_out al frames \<longleftrightarrow>
     (\<forall>a f fs. frames a (f # fs) \<longrightarrow> (\<exists>a'. al a = Inr (Some f, a') \<and> frames a' fs))"

text \<open>
  The laws.  \<open>tb pt\<close> are the frames in use as page tables and \<open>rt pt\<close> the addresses of the
  top-level tables among them, seen through the direct mapping at \<open>off\<close>.  \<open>paging_static\<close>: a page
  below an empty slot is not mapped, and the translation below a slot depends on the next-level
  table only.  The other four state the effect of each operation on every top-level table.
\<close>

definition paging_static where
  "paging_static P off tb rt \<longleftrightarrow>
     (\<forall>pt. rt pt \<subseteq> (\<lambda>f. off + f) ` tb pt) \<and>
     (\<forall>pt r i t. r \<in> rt pt \<longrightarrow> slot P pt r i = Some t \<longrightarrow> t \<in> tb pt) \<and>
     (\<forall>pt r p. slot P pt r (l4_index p) = None \<longrightarrow> pg_look P pt r p = None) \<and>
     (\<forall>pt r r' p. shares P pt r r' p \<longrightarrow> pg_look P pt r' p = pg_look P pt r p)"

definition paging_tables where
  "paging_tables P off tb rt \<longleftrightarrow>
     (\<forall>pt f. f \<notin> tb pt \<longrightarrow>
        tb (pg_zero P (off + f) pt) \<subseteq> insert f (tb pt) \<and>
        rt (pg_zero P (off + f) pt) = insert (off + f) (rt pt) \<and>
        (\<forall>i. slot P (pg_zero P (off + f) pt) (off + f) i = None) \<and>
        (\<forall>r\<in>rt pt. \<forall>i. pg_entry P (pg_zero P (off + f) pt) r i = pg_entry P pt r i) \<and>
        (\<forall>r\<in>rt pt. \<forall>p. pg_look P (pg_zero P (off + f) pt) r p = pg_look P pt r p)) \<and>
     (\<forall>pt r i e. r \<in> rt pt \<longrightarrow>
        (\<forall>t. pg_entry_frame P e = Some t \<longrightarrow> t \<in> tb pt) \<longrightarrow>
        tb (pg_set_entry P r i e pt) \<subseteq> tb pt \<and>
        rt (pg_set_entry P r i e pt) = rt pt \<and>
        (\<forall>r' j. pg_entry P (pg_set_entry P r i e pt) r' j =
            (if r' = r \<and> j = i then e else pg_entry P pt r' j)) \<and>
        (\<forall>r'\<in>rt pt. \<forall>p. r' \<noteq> r \<or> l4_index p \<noteq> i \<longrightarrow>
            pg_look P (pg_set_entry P r i e pt) r' p = pg_look P pt r' p))"

definition paging_map where
  "paging_map P tb rt \<longleftrightarrow>
     (\<forall>pt r page f fl al frames a fs.
        hands_out al frames \<longrightarrow> r \<in> rt pt \<longrightarrow> 4096 dvd page \<longrightarrow> page < 2 ^ 47 \<longrightarrow>
        pg_look P pt r page = None \<longrightarrow> frames a fs \<longrightarrow> 3 \<le> length fs \<longrightarrow> set fs \<inter> tb pt = {} \<longrightarrow>
        (\<exists>pt' a' n. pg_map_to P al r page f fl pt a = Inr (None, pt', a') \<and> n \<le> 3 \<and>
           frames a' (drop n fs) \<and> tb pt' \<subseteq> tb pt \<union> set (take n fs) \<and> rt pt' = rt pt \<and>
           (\<forall>r'\<in>rt pt. \<forall>p. pg_look P pt' r' p =
              (if p = page \<and> shares P pt r r' page then Some (Small f fl) else pg_look P pt r' p)) \<and>
           (\<forall>r'\<in>rt pt. \<forall>i. slot P pt' r' i = slot P pt r' i \<or>
              r' = r \<and> i = l4_index page \<and> slot P pt r i = None \<and>
              (\<exists>g\<in>set (take n fs). slot P pt' r i = Some g)))) \<and>
     (\<forall>pt r page f fl al frames a fs.
        hands_out al frames \<longrightarrow> r \<in> rt pt \<longrightarrow> pg_look P pt r page \<noteq> None \<longrightarrow> frames a fs \<longrightarrow>
        (\<exists>e s. pg_map_to P al r page f fl pt a = Inr (Some e, s)))"

definition paging_unmap where
  "paging_unmap P tb rt \<longleftrightarrow>
     (\<forall>pt r page f fl. r \<in> rt pt \<longrightarrow> pg_look P pt r page = Some (Small f fl) \<longrightarrow>
        (\<exists>pt'. pg_unmap P r page pt = Inr (f, pt') \<and> tb pt' \<subseteq> tb pt \<and> rt pt' = rt pt \<and>
           (\<forall>r'\<in>rt pt. \<forall>p. pg_look P pt' r' p =
              (if p = page \<and> shares P pt r r' page then None else pg_look P pt r' p)) \<and>
           (\<forall>r'\<in>rt pt. \<forall>i. slot P pt' r' i = slot P pt r' i))) \<and>
     (\<forall>pt r page. r \<in> rt pt \<longrightarrow> pg_look P pt r page = None \<longrightarrow> (\<exists>e. pg_unmap P r page pt = Inl e))"

definition paging_flags where
  "paging_flags P tb rt \<longleftrightarrow>
     (\<forall>pt r page f fl fl'. r \<in> rt pt \<longrightarrow> pg_look P pt r page = Some (Small f fl) \<longrightarrow>
        (\<exists>pt'. pg_update_flags P r page fl' pt = Inr pt' \<and> tb pt' \<subseteq> tb pt \<and> rt pt' = rt pt \<and>
           (\<forall>r'\<in>rt pt. \<forall>p. pg_look P pt' r' p =
              (if p = page \<and> shares P pt r r' page then Some (Small f fl') else pg_look P pt r' p)) \<and>
           (\<forall>r'\<in>rt pt. \<forall>i. slot P pt' r' i = slot P pt r' i))) \<and>
     (\<forall>pt r page fl'. r \<in> rt pt \<longrightarrow> pg_look P pt r page = None \<longrightarrow>
        (\<exists>e. pg_update_flags P r page fl' pt = Inl e))"

definition paging_ok where
  "paging_ok P off tb rt \<longleftrightarrow>
     paging_static P off tb rt \<and> paging_tables P off tb rt \<and> paging_map P tb rt \<and>
     paging_unmap P tb rt \<and> paging_flags P tb rt"

lemma shares_refl [simp]: "shares P pt r r p"
  by (simp add: shares_def)

subsection \<open>The laws, one by one\<close>

lemma shares_sym: "shares P pt r r' p \<Longrightarrow> shares P pt r' r p"
  by (auto simp: shares_def)

lemma shares_trans: "shares P pt r r' p \<Longrightarrow> shares P pt r' r'' p \<Longrightarrow> shares P pt r r'' p"
  by (auto simp: shares_def)

lemma pg_static:
  assumes "paging_ok P off tb rt"
  shows "r \<in> rt pt \<Longrightarrow> \<exists>f\<in>tb pt. r = off + f"
    and "r \<in> rt pt \<Longrightarrow> slot P pt r i = Some t \<Longrightarrow> t \<in> tb pt"
    and "slot P pt r (l4_index p) = None \<Longrightarrow> pg_look P pt r p = None"
    and "shares P pt r r' p \<Longrightarrow> pg_look P pt r' p = pg_look P pt r p"
  using assms unfolding paging_ok_def paging_static_def by blast+

lemma pg_zero_ok:
  assumes "paging_ok P off tb rt" "f \<notin> tb pt"
  shows "tb (pg_zero P (off + f) pt) \<subseteq> insert f (tb pt)"
    and "rt (pg_zero P (off + f) pt) = insert (off + f) (rt pt)"
    and "slot P (pg_zero P (off + f) pt) (off + f) i = None"
    and "r \<in> rt pt \<Longrightarrow> pg_entry P (pg_zero P (off + f) pt) r i = pg_entry P pt r i"
    and "r \<in> rt pt \<Longrightarrow> pg_look P (pg_zero P (off + f) pt) r p = pg_look P pt r p"
  using assms unfolding paging_ok_def paging_tables_def by blast+

lemma pg_set_entry_ok:
  assumes "paging_ok P off tb rt" "r \<in> rt pt" "\<forall>t. pg_entry_frame P e = Some t \<longrightarrow> t \<in> tb pt"
  shows "tb (pg_set_entry P r i e pt) \<subseteq> tb pt"
    and "rt (pg_set_entry P r i e pt) = rt pt"
    and "pg_entry P (pg_set_entry P r i e pt) r' j = (if r' = r \<and> j = i then e else pg_entry P pt r' j)"
    and "r' \<in> rt pt \<Longrightarrow> r' \<noteq> r \<Longrightarrow> pg_look P (pg_set_entry P r i e pt) r' p = pg_look P pt r' p"
  using assms unfolding paging_ok_def paging_tables_def by blast+

lemma pg_map_ok:
  assumes "paging_ok P off tb rt" "hands_out al frames" "r \<in> rt pt" "4096 dvd page" "page < 2 ^ 47"
    and "pg_look P pt r page = None" "frames a fs" "3 \<le> length fs" "set fs \<inter> tb pt = {}"
  obtains pt' a' n where "pg_map_to P al r page f fl pt a = Inr (None, pt', a')" "n \<le> 3"
    "frames a' (drop n fs)" "tb pt' \<subseteq> tb pt \<union> set (take n fs)" "rt pt' = rt pt"
    "\<forall>r'\<in>rt pt. \<forall>p. pg_look P pt' r' p =
       (if p = page \<and> shares P pt r r' page then Some (Small f fl) else pg_look P pt r' p)"
    "\<forall>r'\<in>rt pt. \<forall>i. slot P pt' r' i = slot P pt r' i \<or>
       r' = r \<and> i = l4_index page \<and> slot P pt r i = None \<and> (\<exists>g\<in>set (take n fs). slot P pt' r i = Some g)"
proof -
  from assms(1) have "paging_map P tb rt" by (simp add: paging_ok_def)
  then have "\<exists>pt' a' n. pg_map_to P al r page f fl pt a = Inr (None, pt', a') \<and> n \<le> 3 \<and>
           frames a' (drop n fs) \<and> tb pt' \<subseteq> tb pt \<union> set (take n fs) \<and> rt pt' = rt pt \<and>
           (\<forall>r'\<in>rt pt. \<forall>p. pg_look P pt' r' p =
              (if p = page \<and> shares P pt r r' page then Some (Small f fl) else pg_look P pt r' p)) \<and>
           (\<forall>r'\<in>rt pt. \<forall>i. slot P pt' r' i = slot P pt r' i \<or>
              r' = r \<and> i = l4_index page \<and> slot P pt r i = None \<and>
              (\<exists>g\<in>set (take n fs). slot P pt' r i = Some g))"
    unfolding paging_map_def using assms(2-) by blast
  then show thesis using that by blast
qed

lemma pg_map_err:
  assumes "paging_ok P off tb rt" "hands_out al frames" "r \<in> rt pt" "pg_look P pt r page \<noteq> None" "frames a fs"
  obtains e s where "pg_map_to P al r page f fl pt a = Inr (Some e, s)"
proof -
  from assms(1) have "paging_map P tb rt" by (simp add: paging_ok_def)
  from this [unfolded paging_map_def, THEN conjunct2, rule_format, OF assms(2,3) _ assms(5)] assms(4)
  show thesis using that by blast
qed

lemma pg_unmap_ok:
  assumes "paging_ok P off tb rt" "r \<in> rt pt" "pg_look P pt r page = Some (Small f fl)"
  obtains pt' where "pg_unmap P r page pt = Inr (f, pt')" "tb pt' \<subseteq> tb pt" "rt pt' = rt pt"
    "\<forall>r'\<in>rt pt. \<forall>p. pg_look P pt' r' p =
       (if p = page \<and> shares P pt r r' page then None else pg_look P pt r' p)"
    "\<forall>r'\<in>rt pt. \<forall>i. slot P pt' r' i = slot P pt r' i"
proof -
  from assms(1) have "paging_unmap P tb rt" by (simp add: paging_ok_def)
  from this [unfolded paging_unmap_def, THEN conjunct1, rule_format, OF assms(2,3)]
  show thesis using that by blast
qed

lemma pg_update_flags_ok:
  assumes "paging_ok P off tb rt" "r \<in> rt pt" "pg_look P pt r page = Some (Small f fl)"
  obtains pt' where "pg_update_flags P r page fl' pt = Inr pt'" "tb pt' \<subseteq> tb pt" "rt pt' = rt pt"
    "\<forall>r'\<in>rt pt. \<forall>p. pg_look P pt' r' p =
       (if p = page \<and> shares P pt r r' page then Some (Small f fl') else pg_look P pt r' p)"
    "\<forall>r'\<in>rt pt. \<forall>i. slot P pt' r' i = slot P pt r' i"
proof -
  from assms(1) have "paging_flags P tb rt" by (simp add: paging_ok_def)
  from this [unfolded paging_flags_def, THEN conjunct1, rule_format, OF assms(2,3), of fl']
  show thesis using that by blast
qed

lemma pg_not_mapped:
  assumes "paging_ok P off tb rt" "r \<in> rt pt" "pg_look P pt r page = None"
  shows "\<exists>e. pg_unmap P r page pt = Inl e" and "\<exists>e. pg_update_flags P r page fl pt = Inl e"
proof -
  from assms(1) have "paging_unmap P tb rt" "paging_flags P tb rt" by (simp_all add: paging_ok_def)
  then show "\<exists>e. pg_unmap P r page pt = Inl e" and "\<exists>e. pg_update_flags P r page fl pt = Inl e"
    using assms(2,3) by (simp_all add: paging_unmap_def paging_flags_def)
qed

subsection \<open>A concrete instance\<close>

text \<open>
  Two-level tables: every top-level slot is empty or names a next-level table, which maps pages
  to leaves; a missing next-level table costs one frame.
\<close>

record pt_ref =
  slots :: "nat \<Rightarrow> nat \<Rightarrow> nat option"
  leaves :: "nat \<Rightarrow> nat \<Rightarrow> leaf option"
  roots :: "nat list"

definition look_ref :: "pt_ref \<Rightarrow> nat \<Rightarrow> nat \<Rightarrow> leaf option" where
  "look_ref pt r p = (case slots pt r (l4_index p) of None \<Rightarrow> None | Some t \<Rightarrow> leaves pt t p)"

definition set_leaf :: "nat \<Rightarrow> nat \<Rightarrow> leaf option \<Rightarrow> pt_ref \<Rightarrow> pt_ref" where
  "set_leaf t p l pt = pt\<lparr>leaves := (leaves pt)(t := (leaves pt t)(p := l))\<rparr>"

definition paging_ref :: "(pt_ref, nat option) paging" where
  "paging_ref =
    \<lparr>pg_entry = (\<lambda>pt r i. slots pt r i), pg_entry_frame = (\<lambda>e. e),
     pg_set_entry = (\<lambda>r i e pt. pt\<lparr>slots := (slots pt)(r := (slots pt r)(i := e))\<rparr>),
     pg_zero = (\<lambda>r pt. pt\<lparr>slots := (slots pt)(r := \<lambda>_. None), roots := r # roots pt\<rparr>),
     pg_map_to = (\<lambda>al r page f fl pt a.
        if look_ref pt r page \<noteq> None then Inr (Some PageAlreadyMapped, pt, a)
        else case slots pt r (l4_index page) of
          Some t \<Rightarrow> Inr (None, set_leaf t page (Some (Small f fl)) pt, a)
        | None \<Rightarrow> bnd (al a) (\<lambda>(g, a').
            case g of None \<Rightarrow> Inr (Some FrameAllocationFailed, pt, a')
            | Some g \<Rightarrow> Inr (None, pt\<lparr>slots := (slots pt)(r := (slots pt r)(l4_index page := Some g)),
                 leaves := (leaves pt)(g := (\<lambda>_. None)(page := Some (Small f fl)))\<rparr>, a'))),
     pg_unmap = (\<lambda>r page pt. case slots pt r (l4_index page) of None \<Rightarrow> Inl PageNotMapped
        | Some t \<Rightarrow> (case leaves pt t page of
            Some (Small f fl) \<Rightarrow> Inr (f, set_leaf t page None pt)
          | Some Huge \<Rightarrow> Inl ParentEntryHugePage | None \<Rightarrow> Inl PageNotMapped)),
     pg_update_flags = (\<lambda>r page fl' pt. case slots pt r (l4_index page) of None \<Rightarrow> Inl PageNotMapped
        | Some t \<Rightarrow> (case leaves pt t page of
            Some (Small f fl) \<Rightarrow> Inr (set_leaf t page (Some (Small f fl')) pt)
          | Some Huge \<Rightarrow> Inl ParentEntryHugePage | None \<Rightarrow> Inl PageNotMapped)),
     pg_look = look_ref\<rparr>"

definition rt_ref :: "nat \<Rightarrow> pt_ref \<Rightarrow> nat set" where
  "rt_ref off pt = {r \<in> set (roots pt). off \<le> r}"

definition tb_ref :: "nat \<Rightarrow> pt_ref \<Rightarrow> nat set" where
  "tb_ref off pt = {f. off + f \<in> set (roots pt)} \<union> {t. \<exists>r\<in>rt_ref off pt. \<exists>i. slots pt r i = Some t}"

lemma slot_ref [simp]: "slot paging_ref pt r i = slots pt r i"
  by (simp add: slot_def paging_ref_def)

lemma look_ref_sel [simp]: "pg_look paging_ref = look_ref"
  by (simp add: paging_ref_def)

lemma set_leaf_sel [simp]:
  "slots (set_leaf t p l pt) = slots pt" "roots (set_leaf t p l pt) = roots pt"
  "rt_ref off (set_leaf t p l pt) = rt_ref off pt" "tb_ref off (set_leaf t p l pt) = tb_ref off pt"
  by (simp_all add: set_leaf_def rt_ref_def tb_ref_def)

lemma look_set_leaf:
  assumes "slots pt r (l4_index page) = Some t"
  shows "look_ref (set_leaf t page l pt) r' p =
    (if p = page \<and> shares paging_ref pt r r' page then l else look_ref pt r' p)"
  using assms by (auto simp: look_ref_def set_leaf_def shares_def split: option.splits)

lemma paging_static_ref: "paging_static paging_ref off (tb_ref off) (rt_ref off)"
  unfolding paging_static_def
proof (intro conjI allI impI)
  fix pt
  show "rt_ref off pt \<subseteq> (\<lambda>f. off + f) ` tb_ref off pt"
  proof
    fix r assume "r \<in> rt_ref off pt"
    then have "r = off + (r - off)" "r - off \<in> tb_ref off pt" by (auto simp: rt_ref_def tb_ref_def)
    then show "r \<in> (\<lambda>f. off + f) ` tb_ref off pt" by blast
  qed
qed (auto simp: rt_ref_def tb_ref_def look_ref_def shares_def split: option.splits)

lemma paging_tables_ref: "paging_tables paging_ref off (tb_ref off) (rt_ref off)"
proof -
  have "off + f \<notin> set (roots pt)" if "f \<notin> tb_ref off pt" for pt f
    using that by (simp add: tb_ref_def)
  then show ?thesis unfolding paging_tables_def
    by (intro conjI allI impI)
      (auto simp: paging_ref_def slot_def tb_ref_def rt_ref_def look_ref_def split: if_splits option.split)
qed

lemma paging_map_ref: "paging_map paging_ref (tb_ref off) (rt_ref off)"
  unfolding paging_map_def
proof (intro conjI allI impI)
  fix pt r page f fl al frames a fs
  assume h: "hands_out al frames" "r \<in> rt_ref off pt" "pg_look paging_ref pt r page = None"
    and fs: "frames a fs" "3 \<le> length fs" "set fs \<inter> tb_ref off pt = {}"
  let ?i = "l4_index page"
  show "\<exists>pt' a' n. pg_map_to paging_ref al r page f fl pt a = Inr (None, pt', a') \<and> n \<le> 3 \<and>
     frames a' (drop n fs) \<and> tb_ref off pt' \<subseteq> tb_ref off pt \<union> set (take n fs) \<and> rt_ref off pt' = rt_ref off pt \<and>
     (\<forall>r'\<in>rt_ref off pt. \<forall>p. pg_look paging_ref pt' r' p =
        (if p = page \<and> shares paging_ref pt r r' page then Some (Small f fl) else pg_look paging_ref pt r' p)) \<and>
     (\<forall>r'\<in>rt_ref off pt. \<forall>i. slot paging_ref pt' r' i = slot paging_ref pt r' i \<or>
        r' = r \<and> i = ?i \<and> slot paging_ref pt r i = None \<and>
        (\<exists>g\<in>set (take n fs). slot paging_ref pt' r i = Some g))"
  proof (cases "slots pt r ?i")
    case (Some t)
    then have "pg_map_to paging_ref al r page f fl pt a = Inr (None, set_leaf t page (Some (Small f fl)) pt, a)"
      using h(3) by (simp add: paging_ref_def)
    then show ?thesis
      by (intro exI [of _ "set_leaf t page (Some (Small f fl)) pt"] exI [of _ a] exI [of _ 0])
        (simp add: fs(1) look_set_leaf [OF Some])
  next
    case None
    obtain g fs' where fs': "fs = g # fs'" using fs(2) by (cases fs) auto
    with h(1) fs(1) obtain a' where a': "al a = Inr (Some g, a')" "frames a' fs'"
      unfolding hands_out_def by blast
    let ?pt = "pt\<lparr>slots := (slots pt)(r := (slots pt r)(?i := Some g)),
                 leaves := (leaves pt)(g := (\<lambda>_. None)(page := Some (Small f fl)))\<rparr>"
    have "pg_map_to paging_ref al r page f fl pt a = Inr (None, ?pt, a')"
      using h(3) None a'(1) by (simp add: paging_ref_def look_ref_def)
    moreover have "g \<notin> tb_ref off pt" using fs(3) fs' by auto
    then have ng: "slots pt r' j \<noteq> Some g" if "r' \<in> rt_ref off pt" for r' j
      using that by (auto simp: tb_ref_def)
    have "look_ref ?pt r' p =
        (if p = page \<and> shares paging_ref pt r r' page then Some (Small f fl) else look_ref pt r' p)"
      if "r' \<in> rt_ref off pt" for r' p
      using ng [OF that, of "l4_index p"] None
      by (auto simp: look_ref_def shares_def split: option.splits)
    moreover have "rt_ref off ?pt = rt_ref off pt" by (simp add: rt_ref_def)
    moreover have "tb_ref off ?pt \<subseteq> tb_ref off pt \<union> {g}"
      by (auto simp: tb_ref_def rt_ref_def split: if_splits)
    ultimately show ?thesis
      using a'(2) fs' None by (intro exI [of _ ?pt] exI [of _ a'] exI [of _ 1]) simp
  qed
qed (simp add: paging_ref_def)

lemma paging_unmap_ref: "paging_unmap paging_ref (tb_ref off) (rt_ref off)"
  unfolding paging_unmap_def
proof (intro conjI allI impI)
  fix pt r page f fl
  assume "pg_look paging_ref pt r page = Some (Small f fl)"
  then obtain t where t: "slots pt r (l4_index page) = Some t" "leaves pt t page = Some (Small f fl)"
    by (auto simp: look_ref_def split: option.splits)
  then have "pg_unmap paging_ref r page pt = Inr (f, set_leaf t page None pt)"
    by (simp add: paging_ref_def)
  then show "\<exists>pt'. pg_unmap paging_ref r page pt = Inr (f, pt') \<and> tb_ref off pt' \<subseteq> tb_ref off pt \<and>
      rt_ref off pt' = rt_ref off pt \<and>
      (\<forall>r'\<in>rt_ref off pt. \<forall>p. pg_look paging_ref pt' r' p =
         (if p = page \<and> shares paging_ref pt r r' page then None else pg_look paging_ref pt r' p)) \<and>
      (\<forall>r'\<in>rt_ref off pt. \<forall>i. slot paging_ref pt' r' i = slot paging_ref pt r' i)"
    by (intro exI [of _ "set_leaf t page None pt"]) (simp add: look_set_leaf [OF t(1)])
qed (auto simp: paging_ref_def look_ref_def split: option.splits)

lemma paging_flags_ref: "paging_flags paging_ref (tb_ref off) (rt_ref off)"
  unfolding paging_flags_def
proof (intro conjI allI impI)
  fix pt r page f fl fl'
  assume "pg_look paging_ref pt r page = Some (Small f fl)"
  then obtain t where t: "slots pt r (l4_index page) = Some t" "leaves pt t page = Some (Small f fl)"
    by (auto simp: look_ref_def split: option.splits)
  then have "pg_update_flags paging_ref r page fl' pt = Inr (set_leaf t page (Some (Small f fl')) pt)"
    by (simp add: paging_ref_def)
  then show "\<exists>pt'. pg_update_flags paging_ref r page fl' pt = Inr pt' \<and> tb_ref off pt' \<subseteq> tb_ref off pt \<and>
      rt_ref off pt' = rt_ref off pt \<and>
      (\<forall>r'\<in>rt_ref off pt. \<forall>p. pg_look paging_ref pt' r' p =
         (if p = page \<and> shares paging_ref pt r r' page then Some (Small f fl') else pg_look paging_ref pt r' p)) \<and>
      (\<forall>r'\<in>rt_ref off pt. \<forall>i. slot paging_ref pt' r' i = slot paging_ref pt r' i)"
    by (intro exI [of _ "set_leaf t page (Some (Small f fl')) pt"]) (simp add: look_set_leaf [OF t(1)])
qed (auto simp: paging_ref_def look_ref_def split: option.splits)

lemma paging_ref_ok: "paging_ok paging_ref off (tb_ref off) (rt_ref off)"
  by (simp add: paging_ok_def paging_static_ref paging_tables_ref paging_map_ref paging_unmap_ref
      paging_flags_ref)

end
