(* ===== verification/Memory.thy ===== *)
theory Memory
  imports Paging
begin

text \<open>
  The memory manager of kernel/src/memory.rs: struct \<open>Memory\<close>, the functions that build and
  switch top-level page tables, and the operations that map, unmap and protect pages.

  The state extends the struct by what its methods change outside of it: the control register
  \<open>cr3\<close> of the running core and the page tables in physical memory.  Flushing the translation
  buffer has no effect in the model, because \<open>pg_look\<close> is the translation after the flush.
\<close>

record Memory =
  kernel_page_table :: nat
  frame_allocator :: falloc

record 'pt machine = Memory +
  cr3 :: nat
  page_tables :: 'pt

subsection \<open>Page-table references\<close>

definition page_table_from_frame :: "x86 \<Rightarrow> BootInfo \<Rightarrow> nat \<Rightarrow> nat res" where
  "page_table_from_frame X bi frame = phys_to_virt X bi frame"

definition frame_from_page_table :: "x86 \<Rightarrow> BootInfo \<Rightarrow> nat \<Rightarrow> nat res" where
  "frame_from_page_table X bi page_table =
     bnd (physical_memory_offset X bi) (\<lambda>off.
     bnd (csub page_table off) (\<lambda>d.
     bnd (x_phys_new X d) (\<lambda>phys.
     unwrap (x_frame_from_start X phys))))"

definition active_level_4_table :: "x86 \<Rightarrow> BootInfo \<Rightarrow> 'pt machine \<Rightarrow> nat res" where
  "active_level_4_table X bi s = page_table_from_frame X bi (cr3 s)"

definition active_level_4_table_phys_addr :: "'pt machine \<Rightarrow> nat" where
  "active_level_4_table_phys_addr s = cr3 s"

definition get_active_l4_page_table :: "x86 \<Rightarrow> BootInfo \<Rightarrow> 'pt machine \<Rightarrow> nat res" where
  "get_active_l4_page_table X bi s =
     bnd (active_level_4_table X bi s) (\<lambda>l4_table.
     bnd (physical_memory_offset X bi) (\<lambda>_.
     Inr l4_table))"

definition create_new_l4_page_table ::
  "x86 \<Rightarrow> BootInfo \<Rightarrow> ('pt, 'e) paging \<Rightarrow> 'pt machine \<Rightarrow> (nat \<times> 'pt machine) res"
where
  "create_new_l4_page_table X bi P s =
     bnd (get_active_l4_page_table X bi s) (\<lambda>active_l4_table.
     bnd (allocate_frame (frame_allocator s)) (\<lambda>(r, a).
     case r of
       None \<Rightarrow> Inl (Explicit ''Out of memory'')
     | Some frame \<Rightarrow>
         bnd (page_table_from_frame X bi frame) (\<lambda>new_l4_table.
         let pt = pg_zero P new_l4_table (page_tables s);
             pt = fold (\<lambda>i pt. pg_set_entry P new_l4_table i (pg_entry P pt active_l4_table i) pt)
                    KERNEL_L4_PAGE_TABLE_RANGE pt
         in bnd (physical_memory_offset X bi) (\<lambda>_.
            Inr (new_l4_table, s\<lparr>frame_allocator := a, page_tables := pt\<rparr>)))))"

definition switch_l4_page_table :: "x86 \<Rightarrow> BootInfo \<Rightarrow> nat \<Rightarrow> 'pt machine \<Rightarrow> 'pt machine res" where
  "switch_l4_page_table X bi l4_table s =
     bnd (frame_from_page_table X bi l4_table) (\<lambda>frame. Inr (s\<lparr>cr3 := frame\<rparr>))"

subsection \<open>Cache settings\<close>

text \<open>The model-specific register that is written, and its value.\<close>

definition change_pat_so_write_through_plus_cache_disabled_is_write_combining :: "u32 \<times> u64" where
  "change_pat_so_write_through_plus_cache_disabled_is_write_combining = (0x277, 0x0007040601070406)"

definition frame_buffer_pages :: "x86 \<Rightarrow> FrameBuffer \<Rightarrow> nat list res" where
  "frame_buffer_pages X fb =
     bnd (if 0 < fb_byte_len (fb_info fb) then Inr () else Inl IndexOut) (\<lambda>_.
     bnd (x_virt_new X (fb_buffer_start fb)) (\<lambda>region_start.
     bnd (x_virt_add X region_start (fb_byte_len (fb_info fb))) (\<lambda>e.
     bnd (x_virt_sub X e 1) (\<lambda>region_end.
     Inr (x_page_range_inclusive X (x_page_containing X region_start) (x_page_containing X region_end))))))"

definition set_frame_buffer_cache_to_write_combining ::
  "x86 \<Rightarrow> BootInfo \<Rightarrow> ('pt, 'e) paging \<Rightarrow> 'pt machine \<Rightarrow> 'pt machine res"
where
  "set_frame_buffer_cache_to_write_combining X bi P s =
     bnd (unwrap (framebuffer bi)) (\<lambda>fb.
     bnd (frame_buffer_pages X fb) (\<lambda>page_range.
     foldm (\<lambda>page s.
       bnd (get_active_l4_page_table X bi s) (\<lambda>l4.
       case pg_update_flags P l4 page {PRESENT, WRITABLE, NO_EXECUTE, WRITE_THROUGH, NO_CACHE} (page_tables s) of
         Inl _ \<Rightarrow> Inl UnwrapNone
       | Inr pt \<Rightarrow> Inr (s\<lparr>page_tables := pt\<rparr>))) page_range s))"

subsection \<open>Mapping\<close>

definition new_memory ::
  "x86 \<Rightarrow> BootInfo \<Rightarrow> (nat \<Rightarrow> nat option) \<Rightarrow> node_memory \<Rightarrow> nat \<Rightarrow> 'pt \<Rightarrow> 'pt machine res"
where
  "new_memory X bi translate_page m cr3' pt =
     bnd (page_table_from_frame X bi cr3') (\<lambda>kpt.
     bnd (new_allocator X bi translate_page m) (\<lambda>a.
     Inr \<lparr>kernel_page_table = kpt, frame_allocator = a, cr3 = cr3', page_tables = pt\<rparr>))"

text \<open>The four numbers the log line shows: used and total pages, free and total megabytes.\<close>

definition log_memory_utilization :: "'pt machine \<Rightarrow> (nat \<times> nat \<times> nat \<times> nat) res" where
  "log_memory_utilization s =
     bnd (get_memory_utilization (frame_allocator s)) (\<lambda>(used, total).
     bnd (csub total used) (\<lambda>free.
     bnd (cmul free 4096) (\<lambda>free_bytes.
     bnd (cmul total 4096) (\<lambda>total_bytes.
     Inr (used, total, free_bytes div 1024 div 1024, total_bytes div 1024 div 1024)))))"

definition create_user_page_table where
  "create_user_page_table X bi P s = create_new_l4_page_table X bi P s"

definition switch_to_user_page_table where
  "switch_to_user_page_table X bi user_page_table s = switch_l4_page_table X bi user_page_table s"

definition switch_to_kernel_page_table where
  "switch_to_kernel_page_table X bi s = switch_l4_page_table X bi (kernel_page_table s) s"

definition map_frame ::
  "x86 \<Rightarrow> BootInfo \<Rightarrow> ('pt, 'e) paging \<Rightarrow> nat \<Rightarrow> PageTableFlags \<Rightarrow> nat \<Rightarrow> 'pt machine \<Rightarrow> 'pt machine res"
where
  "map_frame X bi P page flags frame s =
     bnd (get_active_l4_page_table X bi s) (\<lambda>l4.
     bnd (pg_map_to P allocate_frame l4 page frame flags (page_tables s) (frame_allocator s)) (\<lambda>(err, pt, a).
     case err of
       Some _ \<Rightarrow> Inl (Explicit ''Unable to map page'')
     | None \<Rightarrow> Inr (s\<lparr>page_tables := pt, frame_allocator := a\<rparr>)))"

definition alloc_or_panic :: "'pt machine \<Rightarrow> (nat \<times> 'pt machine) res" where
  "alloc_or_panic s =
     bnd (allocate_frame (frame_allocator s)) (\<lambda>(r, a).
     let s = s\<lparr>frame_allocator := a\<rparr> in
     case r of
       Some frame \<Rightarrow> Inr (frame, s)
     | None \<Rightarrow> bnd (log_memory_utilization s) (\<lambda>_. Inl (Explicit ''Out of memory'')))"

definition map_ram_kernel ::
  "x86 \<Rightarrow> BootInfo \<Rightarrow> ('pt, 'e) paging \<Rightarrow> nat \<Rightarrow> PageTableFlags \<Rightarrow> 'pt machine \<Rightarrow> (nat \<times> 'pt machine) res"
where
  "map_ram_kernel X bi P page flags s =
     bnd (ass (KERNEL_START \<le> page \<and> page < KERNEL_END)) (\<lambda>_.
     bnd (alloc_or_panic s) (\<lambda>(frame, s).
     bnd (map_frame X bi P page (flags \<union> {PRESENT}) frame s) (\<lambda>s.
     Inr (frame, s))))"

definition map_ram_user ::
  "x86 \<Rightarrow> BootInfo \<Rightarrow> ('pt, 'e) paging \<Rightarrow> nat \<Rightarrow> PageTableFlags \<Rightarrow> 'pt machine \<Rightarrow> (nat \<times> 'pt machine) res"
where
  "map_ram_user X bi P page flags s =
     bnd (ass (USER_START \<le> page \<and> page < USER_END)) (\<lambda>_.
     bnd (alloc_or_panic s) (\<lambda>(frame, s).
     bnd (map_frame X bi P page (flags \<union> {USER_ACCESSIBLE} \<union> {PRESENT}) frame s) (\<lambda>s.
     Inr (frame, s))))"

definition change_flags ::
  "x86 \<Rightarrow> BootInfo \<Rightarrow> ('pt, 'e) paging \<Rightarrow> nat \<Rightarrow> PageTableFlags \<Rightarrow> 'pt machine \<Rightarrow> 'pt machine res"
where
  "change_flags X bi P page flags s =
     bnd (get_active_l4_page_table X bi s) (\<lambda>l4.
     case pg_update_flags P l4 page flags (page_tables s) of
       Inl _ \<Rightarrow> Inl (Explicit ''Unable to change flags of page'')
     | Inr pt \<Rightarrow> Inr (s\<lparr>page_tables := pt\<rparr>))"

definition unmap ::
  "x86 \<Rightarrow> BootInfo \<Rightarrow> ('pt, 'e) paging \<Rightarrow> nat \<Rightarrow> 'pt machine \<Rightarrow> (nat \<times> 'pt machine) res"
where
  "unmap X bi P page s =
     bnd (get_active_l4_page_table X bi s) (\<lambda>l4.
     case pg_unmap P l4 page (page_tables s) of
       Inl _ \<Rightarrow> Inl (Explicit ''Unable to unmap page'')
     | Inr (frame, pt) \<Rightarrow> Inr (frame, s\<lparr>page_tables := pt\<rparr>))"

definition unmap_ram ::
  "x86 \<Rightarrow> BootInfo \<Rightarrow> ('pt, 'e) paging \<Rightarrow> nat \<Rightarrow> 'pt machine \<Rightarrow> 'pt machine res"
where
  "unmap_ram X bi P page s =
     bnd (unmap X bi P page s) (\<lambda>(frame, s).
     bnd (deallocate_frame X bi frame (frame_allocator s)) (\<lambda>a.
     Inr (s\<lparr>frame_allocator := a\<rparr>)))"

subsection \<open>The invariant\<close>

text \<open>
  Pages that only the memory manager maps: the user half and everything of the kernel's range
  behind the area that the bootloader fills (which contains the direct mapping of all memory).
\<close>

definition managed :: "nat \<Rightarrow> bool" where
  "managed p \<longleftrightarrow> USER_START \<le> p \<and> p < USER_END \<or> KERNEL_HEAP_START \<le> p \<and> p < KERNEL_END"

text \<open>
  \<open>mem_inv\<close>: the allocator is well formed with free frames \<open>fs\<close>; the active and the kernel's
  table are top-level tables; no free frame is in use as a page table; a frame of the pool that
  is mapped at a managed page is neither free nor a page table, and is mapped at no other managed
  page of any table, except where tables share the same next-level table; and no two tables share
  the next-level table of the user's range.
\<close>

definition user_private where
  "user_private P rt pt \<longleftrightarrow>
     (\<forall>r\<in>rt pt. \<forall>r'\<in>rt pt. r \<noteq> r' \<longrightarrow> slot P pt r 0 \<noteq> None \<longrightarrow> slot P pt r' 0 \<noteq> slot P pt r 0)"

definition frames_apart where
  "frames_apart P tb rt pool pt fs \<longleftrightarrow>
     (\<forall>r\<in>rt pt. \<forall>p f fl. managed p \<longrightarrow> pg_look P pt r p = Some (Small f fl) \<longrightarrow> f \<in> pool \<longrightarrow>
        f \<notin> set fs \<and> f \<notin> tb pt)"

definition frames_exclusive where
  "frames_exclusive P rt pool pt \<longleftrightarrow>
     (\<forall>r\<in>rt pt. \<forall>r'\<in>rt pt. \<forall>p p' f fl fl'. managed p \<longrightarrow> managed p' \<longrightarrow>
        pg_look P pt r p = Some (Small f fl) \<longrightarrow> pg_look P pt r' p' = Some (Small f fl') \<longrightarrow> f \<in> pool \<longrightarrow>
        p = p' \<and> shares P pt r r' p)"

definition mem_inv where
  "mem_inv X bi P off tb rt pool s fs \<longleftrightarrow>
     fa_inv X bi off pool (frame_allocator s) fs \<and> paging_ok P off tb rt \<and>
     off + cr3 s \<in> rt (page_tables s) \<and> kernel_page_table s \<in> rt (page_tables s) \<and>
     (\<forall>f\<in>tb (page_tables s). frame_ok off f) \<and> set fs \<inter> tb (page_tables s) = {} \<and>
     frames_apart P tb rt pool (page_tables s) fs \<and> frames_exclusive P rt pool (page_tables s) \<and>
     user_private P rt (page_tables s)"

text \<open>The active top-level table.\<close>

abbreviation active :: "nat \<Rightarrow> 'pt machine \<Rightarrow> nat" where
  "active off s \<equiv> off + cr3 s"

lemma mem_invD:
  assumes "mem_inv X bi P off tb rt pool s fs"
  shows "fa_inv X bi off pool (frame_allocator s) fs" "paging_ok P off tb rt"
    and "active off s \<in> rt (page_tables s)" "kernel_page_table s \<in> rt (page_tables s)"
    and "set fs \<inter> tb (page_tables s) = {}"
    and "frames_apart P tb rt pool (page_tables s) fs" "frames_exclusive P rt pool (page_tables s)"
    and "dm_ok X bi off" "distinct fs" "set fs \<subseteq> pool"
    and "f \<in> tb (page_tables s) \<Longrightarrow> frame_ok off f" "f \<in> set fs \<Longrightarrow> frame_ok off f"
    and "r \<in> rt (page_tables s) \<Longrightarrow> frame_ok off (r - off) \<and> off + (r - off) = r"
    and "user_private P rt (page_tables s)"
proof -
  show "user_private P rt (page_tables s)" using assms by (simp add: mem_inv_def)
  show "fa_inv X bi off pool (frame_allocator s) fs" "paging_ok P off tb rt"
    "active off s \<in> rt (page_tables s)" "kernel_page_table s \<in> rt (page_tables s)"
    "set fs \<inter> tb (page_tables s) = {}"
    "frames_apart P tb rt pool (page_tables s) fs" "frames_exclusive P rt pool (page_tables s)"
    "dm_ok X bi off" "distinct fs" "set fs \<subseteq> pool"
    and tb: "f \<in> tb (page_tables s) \<Longrightarrow> frame_ok off f" and "f \<in> set fs \<Longrightarrow> frame_ok off f" for f
    using assms by (auto simp: mem_inv_def fa_inv_def)
  assume "r \<in> rt (page_tables s)"
  with pg_static(1) [OF \<open>paging_ok P off tb rt\<close>] obtain g where "g \<in> tb (page_tables s)" "r = off + g" by blast
  with tb show "frame_ok off (r - off) \<and> off + (r - off) = r" by simp
qed

text \<open>Of the boot information only the offset of the direct mapping matters.\<close>

lemma mem_inv_boot_info:
  assumes "boot_physical_memory_offset bi' = boot_physical_memory_offset bi"
  shows "mem_inv X bi' P off tb rt pool s fs = mem_inv X bi P off tb rt pool s fs"
  using assms by (simp add: mem_inv_def fa_inv_def dm_ok_def)

lemma hands_out_fa: "hands_out allocate_frame (fa_inv X bi off pool)"
  unfolding hands_out_def by (blast dest: allocate_frame_Cons)

lemma physical_memory_offset_ok: "dm_ok X bi off \<Longrightarrow> physical_memory_offset X bi = Inr off"
  by (simp add: dm_ok_def physical_memory_offset_def x86_addr_simps)

lemma page_table_from_frame_ok:
  "dm_ok X bi off \<Longrightarrow> frame_ok off f \<Longrightarrow> page_table_from_frame X bi f = Inr (off + f)"
  by (simp add: page_table_from_frame_def phys_to_virt_ok frame_ok_def)

lemma frame_from_page_table_ok:
  "dm_ok X bi off \<Longrightarrow> frame_ok off f \<Longrightarrow> frame_from_page_table X bi (off + f) = Inr f"
  by (simp add: frame_from_page_table_def physical_memory_offset_ok frame_new_ok)

lemma active_ok:
  assumes "mem_inv X bi P off tb rt pool s fs"
  shows "get_active_l4_page_table X bi s = Inr (active off s)"
proof -
  note m = mem_invD [OF assms]
  have "frame_ok off (cr3 s)" using m(13) [OF m(3)] by simp
  with m(8) show ?thesis
    by (simp add: get_active_l4_page_table_def active_level_4_table_def page_table_from_frame_ok
        physical_memory_offset_ok)
qed

lemma switch_ok:
  assumes "mem_inv X bi P off tb rt pool s fs" "r \<in> rt (page_tables s)"
  shows "\<exists>s'. switch_l4_page_table X bi r s = Inr s' \<and> mem_inv X bi P off tb rt pool s' fs \<and>
    active off s' = r \<and> s' = s\<lparr>cr3 := r - off\<rparr>"
proof -
  note m = mem_invD [OF assms(1)]
  have "frame_from_page_table X bi r = Inr (r - off)"
    using frame_from_page_table_ok [OF m(8), of "r - off"] m(13) [OF assms(2)] by simp
  then show ?thesis using assms m(13) [OF assms(2)]
    by (simp add: switch_l4_page_table_def mem_inv_def)
qed

subsection \<open>The effect of mapping a page\<close>

text \<open>
  \<open>remaps P off rt s s' page l\<close>: from \<open>s\<close> to \<open>s'\<close> the translation of \<open>page\<close> becomes \<open>l\<close> in the
  active table and in the tables that share the next-level table with it, and no other
  translation changes; no slot in use changes.
\<close>

definition remaps where
  "remaps P off rt s s' page l \<longleftrightarrow>
     cr3 s' = cr3 s \<and> kernel_page_table s' = kernel_page_table s \<and>
     rt (page_tables s') = rt (page_tables s) \<and>
     (\<forall>r\<in>rt (page_tables s). \<forall>p. pg_look P (page_tables s') r p =
        (if p = page \<and> shares P (page_tables s) (active off s) r page then l
         else pg_look P (page_tables s) r p)) \<and>
     (\<forall>r\<in>rt (page_tables s). \<forall>i. slot P (page_tables s) r i \<noteq> None \<longrightarrow>
        slot P (page_tables s') r i = slot P (page_tables s) r i)"

lemma remaps_shares:
  assumes "remaps P off rt s s' page l" "r \<in> rt (page_tables s)" "r' \<in> rt (page_tables s)"
    and "shares P (page_tables s) r r' p"
  shows "shares P (page_tables s') r r' p"
proof (cases "r' = r")
  case False
  with assms(4) have "slot P (page_tables s) r (l4_index p) \<noteq> None"
    "slot P (page_tables s) r' (l4_index p) = slot P (page_tables s) r (l4_index p)"
    by (simp_all add: shares_def)
  with assms(1-3) show ?thesis by (simp add: remaps_def shares_def)
qed simp

text \<open>A frame that is free to be mapped.\<close>

definition unmapped where
  "unmapped P tb rt pool pt fs f \<longleftrightarrow>
     (f \<in> pool \<longrightarrow> f \<notin> set fs \<and> f \<notin> tb pt \<and>
        (\<forall>r\<in>rt pt. \<forall>p fl. managed p \<longrightarrow> pg_look P pt r p \<noteq> Some (Small f fl)))"

lemma remaps_exclusive:
  assumes "remaps P off rt s s' page l" "frames_exclusive P rt pool (page_tables s)"
    and "active off s \<in> rt (page_tables s)"
    and "\<And>f fl. l = Some (Small f fl) \<Longrightarrow> unmapped P tb rt pool (page_tables s) fs f"
  shows "frames_exclusive P rt pool (page_tables s')"
  unfolding frames_exclusive_def
proof (intro ballI allI impI)
  fix r r' p p' f fl fl'
  assume r: "r \<in> rt (page_tables s')" "r' \<in> rt (page_tables s')" and p: "managed p" "managed p'" "f \<in> pool"
    and l: "pg_look P (page_tables s') r p = Some (Small f fl)"
      "pg_look P (page_tables s') r' p' = Some (Small f fl')"
  let ?pt = "page_tables s"
  let ?new = "\<lambda>r p. p = page \<and> shares P ?pt (active off s) r page"
  have rt: "r \<in> rt ?pt" "r' \<in> rt ?pt" using assms(1) r by (simp_all add: remaps_def)
  have lk: "(if ?new r p then l else pg_look P ?pt r p) = Some (Small f fl)"
    "(if ?new r' p' then l else pg_look P ?pt r' p') = Some (Small f fl')"
    using assms(1) rt l by (simp_all add: remaps_def)
  have no: "pg_look P ?pt q u \<noteq> Some (Small f v)" if "l = Some (Small f w)" "q \<in> rt ?pt" "managed u" for q u v w
    using assms(4) [OF that(1)] that p(3) by (simp add: unmapped_def)
  have "p = p' \<and> shares P ?pt r r' p"
  proof (cases "?new r p")
    case True
    then have "?new r' p'" using lk no [OF _ rt(2) p(2)] by (auto split: if_splits)
    with True show ?thesis by (metis shares_sym shares_trans)
  next
    case False
    then have F: "\<not> ?new r' p'" using lk no [OF _ rt(1) p(1)] by (auto split: if_splits)
    have "pg_look P ?pt r p = Some (Small f fl)" using lk(1) False by (simp only: if_False)
    moreover have "pg_look P ?pt r' p' = Some (Small f fl')" using lk(2) F by (simp only: if_False)
    ultimately show ?thesis using assms(2) rt p unfolding frames_exclusive_def by blast
  qed
  with remaps_shares [OF assms(1) rt] show "p = p' \<and> shares P (page_tables s') r r' p" by blast
qed

lemma map_frame_ok:
  assumes inv: "mem_inv X bi P off tb rt pool s fs"
    and page: "4096 dvd page" "page < 2 ^ 47" "pg_look P (page_tables s) (active off s) page = None"
    and fs: "3 \<le> length fs" and f: "unmapped P tb rt pool (page_tables s) fs f"
  shows "\<exists>s' n. map_frame X bi P page fl f s = Inr s' \<and> n \<le> 3 \<and>
    mem_inv X bi P off tb rt pool s' (drop n fs) \<and>
    remaps P off rt s s' page (Some (Small f fl))"
proof -
  note m = mem_invD [OF inv]
  obtain pt' a' n where r:
    "pg_map_to P allocate_frame (active off s) page f fl (page_tables s) (frame_allocator s) = Inr (None, pt', a')"
    "n \<le> 3" "fa_inv X bi off pool a' (drop n fs)" "tb pt' \<subseteq> tb (page_tables s) \<union> set (take n fs)"
    "rt pt' = rt (page_tables s)"
    "\<forall>r'\<in>rt (page_tables s). \<forall>p. pg_look P pt' r' p =
       (if p = page \<and> shares P (page_tables s) (active off s) r' page then Some (Small f fl)
        else pg_look P (page_tables s) r' p)"
    "\<forall>r'\<in>rt (page_tables s). \<forall>i. slot P pt' r' i = slot P (page_tables s) r' i \<or>
       r' = active off s \<and> i = l4_index page \<and> slot P (page_tables s) (active off s) i = None \<and>
       (\<exists>g\<in>set (take n fs). slot P pt' (active off s) i = Some g)"
    by (rule pg_map_ok [OF m(2) hands_out_fa m(3) page m(1) fs m(5)])
  let ?s = "s\<lparr>page_tables := pt', frame_allocator := a'\<rparr>"
  have rm: "remaps P off rt s ?s page (Some (Small f fl))"
    using r(5-7) by (fastforce simp: remaps_def)
  have disj: "set (drop n fs) \<inter> set (take n fs) = {}"
    using m(9) set_take_disj_set_drop_if_distinct [of fs n n] by blast
  have sub: "set (drop n fs) \<subseteq> set fs" "set (take n fs) \<subseteq> set fs"
    by (simp_all add: set_drop_subset set_take_subset)
  have apart: "frames_apart P tb rt pool pt' (drop n fs)"
    unfolding frames_apart_def
  proof (intro ballI allI impI)
    fix q p g w
    assume q: "q \<in> rt pt'" "managed p" "g \<in> pool" and l: "pg_look P pt' q p = Some (Small g w)"
    have "g \<notin> set fs \<and> g \<notin> tb (page_tables s)"
    proof (cases "p = page \<and> shares P (page_tables s) (active off s) q page")
      case True
      then have "g = f" using l r(5,6) q by simp
      with f q show ?thesis by (simp add: unmapped_def)
    next
      case False
      then have "pg_look P (page_tables s) q p = Some (Small g w)" using l r(5,6) q by auto
      with m(6) q r(5) show ?thesis unfolding frames_apart_def by blast
    qed
    then show "g \<notin> set (drop n fs) \<and> g \<notin> tb pt'" using sub r(4) by blast
  qed
  have excl: "frames_exclusive P rt pool pt'"
    using remaps_exclusive [OF rm m(7,3), of tb fs] f by simp
  have fok: "frame_ok off g" if "g \<in> tb pt'" for g using that r(4) sub m(11,12) by blast
  have priv: "user_private P rt pt'"
    unfolding user_private_def
  proof (intro ballI impI)
    fix q q' assume q: "q \<in> rt pt'" "q' \<in> rt pt'" "q \<noteq> q'" "slot P pt' q 0 \<noteq> None"
    have old: "slot P (page_tables s) u 0 \<noteq> Some g" if "u \<in> rt (page_tables s)" "g \<in> set (take n fs)" for u g
      using pg_static(2) [OF m(2) that(1), of 0 g] that(2) sub(2) m(5) by blast
    have "slot P (page_tables s) q' 0 \<noteq> slot P (page_tables s) q 0" if "slot P (page_tables s) q 0 \<noteq> None"
      using m(14) q that r(5) by (simp add: user_private_def)
    then show "slot P pt' q' 0 \<noteq> slot P pt' q 0"
      using r(7) q r(5) old by metis
  qed
  have "set (drop n fs) \<inter> tb pt' = {}" using r(4) disj sub m(5) by blast
  then have "mem_inv X bi P off tb rt pool ?s (drop n fs)"
    using r(3,5) m(2-4) apart excl fok priv by (simp add: mem_inv_def)
  moreover have "map_frame X bi P page fl f s = Inr ?s"
    by (simp add: map_frame_def active_ok [OF inv] r(1))
  ultimately show ?thesis using r(2) rm by blast
qed

subsection \<open>Mapping fresh memory\<close>

lemma fa_inv_length_64: "fa_inv X bi off pool a fs \<Longrightarrow> card pool * 4096 < 2 ^ 64"
proof -
  assume "fa_inv X bi off pool a fs"
  then have "card pool < 2 ^ 52" using pool_finite(2) [of pool off] by (simp add: fa_inv_def)
  then show ?thesis by simp
qed

lemma log_memory_utilization_ok:
  assumes "fa_inv X bi off pool (frame_allocator s) fs"
  shows "log_memory_utilization s =
    Inr (card pool - length fs, card pool, length fs * 4096 div 1024 div 1024, card pool * 4096 div 1024 div 1024)"
proof -
  have l: "length fs \<le> card pool" by (rule fa_inv_length [OF assms])
  then have "length fs * 4096 < 2 ^ 64" "card pool * 4096 < 2 ^ 64"
    using fa_inv_length_64 [OF assms] by linarith+
  with l assms show ?thesis
    by (simp add: log_memory_utilization_def get_memory_utilization_def fa_inv_def)
qed

lemma alloc_or_panic_Nil:
  assumes "fa_inv X bi off pool (frame_allocator s) []"
  shows "alloc_or_panic s = Inl (Explicit ''Out of memory'')"
  using allocate_frame_Nil [OF assms] log_memory_utilization_ok [OF assms]
  by (simp add: alloc_or_panic_def)

lemma alloc_or_panic_Cons:
  assumes "mem_inv X bi P off tb rt pool s (f # fs)"
  shows "\<exists>a. alloc_or_panic s = Inr (f, s\<lparr>frame_allocator := a\<rparr>) \<and>
    mem_inv X bi P off tb rt pool (s\<lparr>frame_allocator := a\<rparr>) fs \<and>
    unmapped P tb rt pool (page_tables s) fs f"
proof -
  note m = mem_invD [OF assms]
  obtain a where a: "allocate_frame (frame_allocator s) = Inr (Some f, a)" "fa_inv X bi off pool a fs"
    using allocate_frame_Cons [OF m(1)] by blast
  have "mem_inv X bi P off tb rt pool (s\<lparr>frame_allocator := a\<rparr>) fs"
    using assms a(2) by (auto simp: mem_inv_def frames_apart_def)
  moreover have "unmapped P tb rt pool (page_tables s) fs f"
    using m(5,6,9) by (auto simp: unmapped_def frames_apart_def)
  ultimately show ?thesis using a(1) by (intro exI [of _ a]) (simp add: alloc_or_panic_def)
qed

lemma map_fresh_ok:
  assumes "mem_inv X bi P off tb rt pool s fs" "4 \<le> length fs" "4096 dvd page" "page < 2 ^ 47"
    and "pg_look P (page_tables s) (active off s) page = None"
  shows "\<exists>f s' n. bnd (alloc_or_panic s) (\<lambda>(frame, s). bnd (map_frame X bi P page fl frame s) (\<lambda>s. Inr (frame, s))) =
      Inr (f, s') \<and> f \<in> set (take n fs) \<and> n \<le> 4 \<and> mem_inv X bi P off tb rt pool s' (drop n fs) \<and>
      remaps P off rt s s' page (Some (Small f fl))"
proof -
  obtain f fs' where fs: "fs = f # fs'" using assms(2) by (cases fs) auto
  obtain a where a: "alloc_or_panic s = Inr (f, s\<lparr>frame_allocator := a\<rparr>)"
      "mem_inv X bi P off tb rt pool (s\<lparr>frame_allocator := a\<rparr>) fs'"
      "unmapped P tb rt pool (page_tables s) fs' f"
    using alloc_or_panic_Cons assms(1) unfolding fs by blast
  obtain s' n where "map_frame X bi P page fl f (s\<lparr>frame_allocator := a\<rparr>) = Inr s'" "n \<le> 3"
      "mem_inv X bi P off tb rt pool s' (drop n fs')"
      "remaps P off rt (s\<lparr>frame_allocator := a\<rparr>) s' page (Some (Small f fl))"
    using map_frame_ok [OF a(2), of page f fl] a(3) assms(2-5) fs by auto
  with a(1) show ?thesis
    by (intro exI [of _ f] exI [of _ s'] exI [of _ "Suc n"]) (simp add: fs remaps_def)
qed

text \<open>The pages each of the two mapping operations accepts.\<close>

definition kernel_page :: "nat \<Rightarrow> bool" where
  "kernel_page p \<longleftrightarrow> 4096 dvd p \<and> KERNEL_START \<le> p \<and> p < KERNEL_END"

definition user_page :: "nat \<Rightarrow> bool" where
  "user_page p \<longleftrightarrow> 4096 dvd p \<and> USER_START \<le> p \<and> p < USER_END"

lemma page_bounds: "kernel_page p \<Longrightarrow> p < 2 ^ 47" "user_page p \<Longrightarrow> p < 2 ^ 47"
  by (simp_all add: kernel_page_def user_page_def layout_values)

lemma user_page_l4: "user_page p \<Longrightarrow> l4_index p = 0"
  by (simp add: user_page_def layout_values l4_index_def)

lemma user_page_managed: "user_page p \<Longrightarrow> managed p"
  by (simp add: user_page_def managed_def)

text \<open>No frame is mapped at two user pages, in one or in two address spaces.\<close>

lemma user_frame_private:
  fixes s :: "'pt machine"
  assumes "mem_inv X bi P off tb rt pool s fs" "r \<in> rt (page_tables s)" "r' \<in> rt (page_tables s)"
    and "user_page p" "user_page p'" "f \<in> pool" "pg_look P (page_tables s) r p = Some (Small f fl)"
    and "pg_look P (page_tables s) r' p' = Some (Small f fl')"
  shows "p = p' \<and> r = r'"
proof -
  note m = mem_invD [OF assms(1)]
  have "p = p' \<and> shares P (page_tables s) r r' p"
    using m(7) assms(2-8) user_page_managed unfolding frames_exclusive_def by blast
  moreover have "r = r'" if "shares P (page_tables s) r r' p"
    using that m(14) assms(2,3) user_page_l4 [OF assms(4)] unfolding shares_def user_private_def by metis
  ultimately show ?thesis by blast
qed

lemma map_ram_kernel_ok:
  assumes "mem_inv X bi P off tb rt pool s fs" "kernel_page page" "4 \<le> length fs"
    and "pg_look P (page_tables s) (active off s) page = None"
  shows "\<exists>f s' n. map_ram_kernel X bi P page fl s = Inr (f, s') \<and> f \<in> set (take n fs) \<and> n \<le> 4 \<and>
      mem_inv X bi P off tb rt pool s' (drop n fs) \<and>
      remaps P off rt s s' page (Some (Small f (fl \<union> {PRESENT})))"
  using map_fresh_ok [OF assms(1,3) _ page_bounds(1) [OF assms(2)] assms(4), of "fl \<union> {PRESENT}"] assms(2)
  by (simp add: map_ram_kernel_def kernel_page_def)

lemma map_ram_user_ok:
  assumes "mem_inv X bi P off tb rt pool s fs" "user_page page" "4 \<le> length fs"
    and "pg_look P (page_tables s) (active off s) page = None"
  shows "\<exists>f s' n. map_ram_user X bi P page fl s = Inr (f, s') \<and> f \<in> set (take n fs) \<and> n \<le> 4 \<and>
      mem_inv X bi P off tb rt pool s' (drop n fs) \<and>
      remaps P off rt s s' page (Some (Small f (fl \<union> {USER_ACCESSIBLE} \<union> {PRESENT})))"
  using map_fresh_ok [OF assms(1,3) _ page_bounds(2) [OF assms(2)] assms(4),
      of "fl \<union> {USER_ACCESSIBLE} \<union> {PRESENT}"] assms(2)
  by (simp add: map_ram_user_def user_page_def)

lemma map_frame_mapped:
  assumes "mem_inv X bi P off tb rt pool s fs" "pg_look P (page_tables s) (active off s) page \<noteq> None"
  shows "map_frame X bi P page fl f s = Inl (Explicit ''Unable to map page'')"
proof -
  note m = mem_invD [OF assms(1)]
  obtain e u where
    "pg_map_to P allocate_frame (active off s) page f fl (page_tables s) (frame_allocator s) = Inr (Some e, u)"
    by (rule pg_map_err [OF m(2) hands_out_fa m(3) assms(2) m(1)])
  then show ?thesis by (cases u) (simp add: map_frame_def active_ok [OF assms(1)])
qed

subsection \<open>Protecting and unmapping pages\<close>

lemma change_flags_ok:
  assumes "mem_inv X bi P off tb rt pool s fs"
    and "pg_look P (page_tables s) (active off s) page = Some (Small f fl)"
  shows "\<exists>s'. change_flags X bi P page fl' s = Inr s' \<and> mem_inv X bi P off tb rt pool s' fs \<and>
    remaps P off rt s s' page (Some (Small f fl'))"
proof -
  note m = mem_invD [OF assms(1)]
  let ?pt = "page_tables s"
  obtain pt' where r: "pg_update_flags P (active off s) page fl' ?pt = Inr pt'" "tb pt' \<subseteq> tb ?pt"
      "rt pt' = rt ?pt"
      "\<forall>r'\<in>rt ?pt. \<forall>p. pg_look P pt' r' p =
         (if p = page \<and> shares P ?pt (active off s) r' page then Some (Small f fl') else pg_look P ?pt r' p)"
      "\<forall>r'\<in>rt ?pt. \<forall>i. slot P pt' r' i = slot P ?pt r' i"
    by (rule pg_update_flags_ok [OF m(2,3) assms(2)])
  let ?s = "s\<lparr>page_tables := pt'\<rparr>"
  have rm: "remaps P off rt s ?s page (Some (Small f fl'))" using r(3-5) by (simp add: remaps_def)
  have same: "\<exists>w. pg_look P ?pt q p = Some (Small g w)"
    if "q \<in> rt ?pt" "pg_look P pt' q p = Some (Small g v)" for q p g v
  proof (cases "p = page \<and> shares P ?pt (active off s) q page")
    case True
    with that r(4) have "g = f" by simp
    moreover have "pg_look P ?pt q p = Some (Small f fl)"
      using True pg_static(4) [OF m(2)] assms(2) by metis
    ultimately show ?thesis by blast
  next
    case False
    with that r(4) show ?thesis by auto
  qed
  have "frames_apart P tb rt pool pt' fs"
    unfolding frames_apart_def
  proof (intro ballI allI impI)
    fix q p g v
    assume q: "q \<in> rt pt'" "managed p" "pg_look P pt' q p = Some (Small g v)" "g \<in> pool"
    then obtain w where "pg_look P ?pt q p = Some (Small g w)" using same r(3) by blast
    with m(6) q r(2,3) show "g \<notin> set fs \<and> g \<notin> tb pt'" unfolding frames_apart_def by blast
  qed
  moreover have "frames_exclusive P rt pool pt'"
    unfolding frames_exclusive_def
  proof (intro ballI allI impI)
    fix q q' p p' g v v'
    assume q: "q \<in> rt pt'" "q' \<in> rt pt'" "managed p" "managed p'" "pg_look P pt' q p = Some (Small g v)"
      "pg_look P pt' q' p' = Some (Small g v')" "g \<in> pool"
    then obtain w w' where "pg_look P ?pt q p = Some (Small g w)" "pg_look P ?pt q' p' = Some (Small g w')"
      using same r(3) by blast
    with m(7) q r(3) have "p = p' \<and> shares P ?pt q q' p" unfolding frames_exclusive_def by blast
    moreover from this have "shares P ?pt q q' p" by blast
    with remaps_shares [OF rm, of q q' p] q(1,2) r(3) have "shares P pt' q q' p" by simp
    ultimately show "p = p' \<and> shares P pt' q q' p" by blast
  qed
  moreover have "user_private P rt pt'" using m(14) r(3,5) by (simp add: user_private_def)
  moreover have "\<forall>g\<in>tb pt'. frame_ok off g" "set fs \<inter> tb pt' = {}" using r(2) m(5,11) by blast+
  ultimately have "mem_inv X bi P off tb rt pool ?s fs" using m(1-4) r(3) by (simp add: mem_inv_def)
  with rm show ?thesis by (simp add: change_flags_def active_ok [OF assms(1)] r(1))
qed

lemma unmap_ok:
  assumes "mem_inv X bi P off tb rt pool s fs"
    and "pg_look P (page_tables s) (active off s) page = Some (Small f fl)"
  shows "\<exists>s'. unmap X bi P page s = Inr (f, s') \<and> mem_inv X bi P off tb rt pool s' fs \<and>
    frame_allocator s' = frame_allocator s \<and> tb (page_tables s') \<subseteq> tb (page_tables s) \<and>
    remaps P off rt s s' page None"
proof -
  note m = mem_invD [OF assms(1)]
  let ?pt = "page_tables s"
  obtain pt' where r: "pg_unmap P (active off s) page ?pt = Inr (f, pt')" "tb pt' \<subseteq> tb ?pt" "rt pt' = rt ?pt"
      "\<forall>r'\<in>rt ?pt. \<forall>p. pg_look P pt' r' p =
         (if p = page \<and> shares P ?pt (active off s) r' page then None else pg_look P ?pt r' p)"
      "\<forall>r'\<in>rt ?pt. \<forall>i. slot P pt' r' i = slot P ?pt r' i"
    by (rule pg_unmap_ok [OF m(2,3) assms(2)])
  let ?s = "s\<lparr>page_tables := pt'\<rparr>"
  have rm: "remaps P off rt s ?s page None" using r(3-5) by (simp add: remaps_def)
  have "frames_apart P tb rt pool pt' fs"
    unfolding frames_apart_def
  proof (intro ballI allI impI)
    fix q p g v
    assume q: "q \<in> rt pt'" "managed p" "pg_look P pt' q p = Some (Small g v)" "g \<in> pool"
    then have "pg_look P ?pt q p = Some (Small g v)" using r(3,4) by (simp split: if_splits)
    with m(6) q r(2,3) show "g \<notin> set fs \<and> g \<notin> tb pt'" unfolding frames_apart_def by blast
  qed
  moreover have "frames_exclusive P rt pool pt'" using remaps_exclusive [OF rm m(7,3)] by simp
  moreover have "user_private P rt pt'" using m(14) r(3,5) by (simp add: user_private_def)
  moreover have "\<forall>g\<in>tb pt'. frame_ok off g" "set fs \<inter> tb pt' = {}" using r(2) m(5,11) by blast+
  ultimately have "mem_inv X bi P off tb rt pool ?s fs" using m(1-4) r(3) by (simp add: mem_inv_def)
  with rm show ?thesis by (simp add: unmap_def active_ok [OF assms(1)] r(1,2))
qed

lemma unmap_ram_ok:
  assumes "mem_inv X bi P off tb rt pool s fs" "managed page" "f \<in> pool"
    and "pg_look P (page_tables s) (active off s) page = Some (Small f fl)"
  shows "\<exists>s'. unmap_ram X bi P page s = Inr s' \<and> mem_inv X bi P off tb rt pool s' (f # fs) \<and>
    remaps P off rt s s' page None"
proof -
  note m = mem_invD [OF assms(1)]
  obtain s1 where s1: "unmap X bi P page s = Inr (f, s1)" "mem_inv X bi P off tb rt pool s1 fs"
      "frame_allocator s1 = frame_allocator s" "tb (page_tables s1) \<subseteq> tb (page_tables s)"
      "remaps P off rt s s1 page None"
    using unmap_ok [OF assms(1,4)] by blast
  note m1 = mem_invD [OF s1(2)]
  have f: "f \<notin> set fs" "f \<notin> tb (page_tables s)"
    using m(6) m(3) assms(2-4) unfolding frames_apart_def by blast+
  obtain a where a: "deallocate_frame X bi f (frame_allocator s1) = Inr a" "fa_inv X bi off pool a (f # fs)"
    using deallocate_frame_ok [OF m1(1) assms(3) f(1)] by blast
  let ?s = "s1\<lparr>frame_allocator := a\<rparr>"
  have gone: "g \<noteq> f" if "q \<in> rt (page_tables s1)" "managed p" "g \<in> pool"
      "pg_look P (page_tables s1) q p = Some (Small g v)" for q p g v
  proof
    assume "g = f"
    have q: "q \<in> rt (page_tables s)" using that(1) s1(5) by (simp add: remaps_def)
    then have "\<not> (p = page \<and> shares P (page_tables s) (active off s) q page)"
      and l: "pg_look P (page_tables s) q p = Some (Small f v)"
      using that(4) s1(5) \<open>g = f\<close> by (auto simp: remaps_def split: if_splits)
    moreover have "page = p \<and> shares P (page_tables s) (active off s) q page"
      using m(7) m(3) q assms(2-4) that(2) l unfolding frames_exclusive_def by blast
    ultimately show False by blast
  qed
  have "frames_apart P tb rt pool (page_tables s1) (f # fs)"
    unfolding frames_apart_def
  proof (intro ballI allI impI)
    fix q p g v
    assume q: "q \<in> rt (page_tables s1)" "managed p" "pg_look P (page_tables s1) q p = Some (Small g v)" "g \<in> pool"
    from gone [OF q(1,2,4,3)] m1(6) q show "g \<notin> set (f # fs) \<and> g \<notin> tb (page_tables s1)"
      unfolding frames_apart_def by auto
  qed
  moreover have "set (f # fs) \<inter> tb (page_tables s1) = {}" using m1(5) f(2) s1(4) by auto
  ultimately have "mem_inv X bi P off tb rt pool ?s (f # fs)"
    using s1(2) a(2) by (simp add: mem_inv_def)
  moreover have "remaps P off rt s ?s page None" using s1(5) by (simp add: remaps_def)
  ultimately show ?thesis using s1(1) a(1) by (simp add: unmap_ram_def)
qed

subsection \<open>A new top-level table\<close>

lemma copy_slots:
  assumes "paging_ok P off tb rt" "new \<in> rt pt" "act \<in> rt pt" "new \<noteq> act"
  defines "step \<equiv> \<lambda>i pt. pg_set_entry P new i (pg_entry P pt act i) pt"
  shows "tb (fold step is pt) \<subseteq> tb pt \<and> rt (fold step is pt) = rt pt \<and>
    (\<forall>r i. pg_entry P (fold step is pt) r i =
       (if r = new \<and> i \<in> set is then pg_entry P pt act i else pg_entry P pt r i)) \<and>
    (\<forall>r\<in>rt pt. \<forall>p. r \<noteq> new \<longrightarrow> pg_look P (fold step is pt) r p = pg_look P pt r p)"
  using assms(2,3)
proof (induction "is" arbitrary: pt)
  case (Cons i "is")
  have e: "\<forall>t. pg_entry_frame P (pg_entry P pt act i) = Some t \<longrightarrow> t \<in> tb pt"
    using pg_static(2) [OF assms(1) Cons.prems(2), of i] by (simp add: slot_def)
  note u = pg_set_entry_ok [OF assms(1) Cons.prems(1) e, where i = i]
  have "tb (fold step is (step i pt)) \<subseteq> tb (step i pt) \<and> rt (fold step is (step i pt)) = rt (step i pt) \<and>
    (\<forall>r j. pg_entry P (fold step is (step i pt)) r j =
       (if r = new \<and> j \<in> set is then pg_entry P (step i pt) act j else pg_entry P (step i pt) r j)) \<and>
    (\<forall>r\<in>rt (step i pt). \<forall>p. r \<noteq> new \<longrightarrow> pg_look P (fold step is (step i pt)) r p = pg_look P (step i pt) r p)"
    using Cons.prems by (intro Cons.IH) (simp_all add: step_def u(2) [unfolded step_def])
  then show ?case using u assms(4) by (auto simp: step_def)
qed simp

text \<open>Its slots: those of the kernel's range as in the active table, all others empty.\<close>

definition fresh_table where
  "fresh_table P off rt s s' new \<longleftrightarrow>
     cr3 s' = cr3 s \<and> kernel_page_table s' = kernel_page_table s \<and>
     new \<notin> rt (page_tables s) \<and> rt (page_tables s') = insert new (rt (page_tables s)) \<and>
     (\<forall>i. slot P (page_tables s') new i =
        (if i \<in> set KERNEL_L4_PAGE_TABLE_RANGE then slot P (page_tables s) (active off s) i else None)) \<and>
     (\<forall>r\<in>rt (page_tables s). \<forall>i. slot P (page_tables s') r i = slot P (page_tables s) r i) \<and>
     (\<forall>r\<in>rt (page_tables s). \<forall>p. pg_look P (page_tables s') r p = pg_look P (page_tables s) r p)"

lemma kernel_range_set: "set KERNEL_L4_PAGE_TABLE_RANGE = {100..<116}"
  by (simp only: KERNEL_L4_PAGE_TABLE_RANGE_def set_upt)

lemma fresh_table_look:
  assumes "paging_ok P off tb rt" "fresh_table P off rt s s' new" "active off s \<in> rt (page_tables s)"
  shows "pg_look P (page_tables s') new p =
    (if l4_index p \<in> set KERNEL_L4_PAGE_TABLE_RANGE then pg_look P (page_tables s) (active off s) p else None)"
    and "pg_look P (page_tables s') new p \<noteq> None \<Longrightarrow> shares P (page_tables s') (active off s) new p"
proof -
  let ?pt = "page_tables s'" and ?a = "active off s"
  have sl: "slot P ?pt new (l4_index p) =
      (if l4_index p \<in> set KERNEL_L4_PAGE_TABLE_RANGE then slot P ?pt ?a (l4_index p) else None)"
    using assms(2,3) by (simp add: fresh_table_def)
  have same: "pg_look P ?pt ?a p = pg_look P (page_tables s) ?a p"
    using assms(2,3) by (simp add: fresh_table_def)
  consider "slot P ?pt new (l4_index p) = None" | "slot P ?pt new (l4_index p) \<noteq> None" by blast
  then have "pg_look P ?pt new p =
      (if l4_index p \<in> set KERNEL_L4_PAGE_TABLE_RANGE then pg_look P (page_tables s) ?a p else None) \<and>
      (pg_look P ?pt new p \<noteq> None \<longrightarrow> shares P ?pt ?a new p)"
  proof cases
    case 1
    then show ?thesis using pg_static(3) [OF assms(1), of ?pt] sl same by (auto split: if_splits)
  next
    case 2
    then have "shares P ?pt ?a new p" using sl by (auto simp: shares_def split: if_splits)
    then show ?thesis using 2 pg_static(4) [OF assms(1)] sl same by (auto split: if_splits)
  qed
  then show "pg_look P ?pt new p =
      (if l4_index p \<in> set KERNEL_L4_PAGE_TABLE_RANGE then pg_look P (page_tables s) ?a p else None)"
    and "pg_look P ?pt new p \<noteq> None \<Longrightarrow> shares P ?pt ?a new p" by blast+
qed

lemma fresh_table_inv:
  assumes inv: "mem_inv X bi P off tb rt pool s (f # fs)" and ft: "fresh_table P off rt s s' new"
    and tb: "tb (page_tables s') \<subseteq> insert f (tb (page_tables s))"
    and fa: "fa_inv X bi off pool (frame_allocator s') fs"
  shows "mem_inv X bi P off tb rt pool s' fs"
proof -
  note m = mem_invD [OF inv]
  let ?pt = "page_tables s" and ?pt' = "page_tables s'" and ?a = "active off s"
  define rep where "rep q = (if q = new then ?a else q)" for q
  note fl = fresh_table_look [OF m(2) ft m(3)]
  have rt: "rt ?pt' = insert new (rt ?pt)" using ft by (simp add: fresh_table_def)
  have rep: "rep q \<in> rt ?pt" if "q \<in> rt ?pt'" for q using that rt m(3) by (auto simp: rep_def)
  have look: "pg_look P ?pt (rep q) p = Some l \<and> shares P ?pt' (rep q) q p"
    if "q \<in> rt ?pt'" "pg_look P ?pt' q p = Some l" for q p l
  proof (cases "q = new")
    case True
    with that fl [of p] show ?thesis by (auto simp: rep_def split: if_splits)
  next
    case False
    with that rt ft show ?thesis by (auto simp: rep_def fresh_table_def)
  qed
  have old_shares: "shares P ?pt' q q' p" if "q \<in> rt ?pt" "q' \<in> rt ?pt" "shares P ?pt q q' p" for q q' p
    using that ft by (auto simp: fresh_table_def shares_def)
  have "frames_apart P tb rt pool ?pt' fs"
    unfolding frames_apart_def
  proof (intro ballI allI impI)
    fix q p g v
    assume q: "q \<in> rt ?pt'" "managed p" "pg_look P ?pt' q p = Some (Small g v)" "g \<in> pool"
    from m(6) rep [OF q(1)] look [OF q(1,3)] q(2,4) have "g \<notin> set (f # fs) \<and> g \<notin> tb ?pt"
      unfolding frames_apart_def by blast
    with tb show "g \<notin> set fs \<and> g \<notin> tb ?pt'" by auto
  qed
  moreover have "frames_exclusive P rt pool ?pt'"
    unfolding frames_exclusive_def
  proof (intro ballI allI impI)
    fix q q' p p' g v v'
    assume q: "q \<in> rt ?pt'" "q' \<in> rt ?pt'" "managed p" "managed p'" "pg_look P ?pt' q p = Some (Small g v)"
      "pg_look P ?pt' q' p' = Some (Small g v')" "g \<in> pool"
    have "p = p' \<and> shares P ?pt (rep q) (rep q') p"
      using m(7) rep [OF q(1)] rep [OF q(2)] look [OF q(1,5)] look [OF q(2,6)] q(3,4,7)
      unfolding frames_exclusive_def by blast
    with old_shares [OF rep [OF q(1)] rep [OF q(2)]] look [OF q(1,5)] look [OF q(2,6)]
    show "p = p' \<and> shares P ?pt' q q' p" by (metis shares_sym shares_trans)
  qed
  moreover have "user_private P rt ?pt'"
    using m(14) ft rt by (auto simp: user_private_def fresh_table_def kernel_range_set)
  moreover have "\<forall>g\<in>tb ?pt'. frame_ok off g" using tb m(11) m(12) [of f] by auto
  moreover have "set fs \<inter> tb ?pt' = {}" using tb m(5,9) by auto
  ultimately show ?thesis using m(2-4) ft rt fa by (simp add: mem_inv_def fresh_table_def)
qed

lemma create_user_page_table_ok:
  assumes "mem_inv X bi P off tb rt pool s (f # fs)"
  shows "\<exists>s'. create_user_page_table X bi P s = Inr (off + f, s') \<and>
    mem_inv X bi P off tb rt pool s' fs \<and> fresh_table P off rt s s' (off + f)"
proof -
  note m = mem_invD [OF assms]
  let ?pt = "page_tables s" and ?a = "active off s" and ?n = "off + f"
  obtain a where a: "allocate_frame (frame_allocator s) = Inr (Some f, a)" "fa_inv X bi off pool a fs"
    using allocate_frame_Cons [OF m(1)] by blast
  have f: "f \<notin> tb ?pt" using m(5) by auto
  then have n: "?n \<notin> rt ?pt" using pg_static(1) [OF m(2), of ?n ?pt] by auto
  then have na: "?n \<noteq> ?a" using m(3) by metis
  note z = pg_zero_ok [OF m(2) f]
  let ?z = "pg_zero P ?n ?pt"
  let ?step = "\<lambda>i pt. pg_set_entry P ?n i (pg_entry P pt ?a i) pt"
  let ?pt' = "fold ?step KERNEL_L4_PAGE_TABLE_RANGE ?z"
  let ?s = "s\<lparr>frame_allocator := a, page_tables := ?pt'\<rparr>"
  have c: "tb ?pt' \<subseteq> tb ?z" "rt ?pt' = rt ?z"
    "\<And>r i. pg_entry P ?pt' r i =
       (if r = ?n \<and> i \<in> set KERNEL_L4_PAGE_TABLE_RANGE then pg_entry P ?z ?a i else pg_entry P ?z r i)"
    "\<And>r p. r \<in> rt ?z \<Longrightarrow> r \<noteq> ?n \<Longrightarrow> pg_look P ?pt' r p = pg_look P ?z r p"
    using copy_slots [OF m(2), of ?n ?z ?a KERNEL_L4_PAGE_TABLE_RANGE] z(2) m(3) na by simp_all
  have old: "pg_look P ?pt' r p = pg_look P ?pt r p" if "r \<in> rt ?pt" for r p
    using c(4) [of r p] z(2) z(5) [OF that] that n by auto
  have ft: "fresh_table P off rt s ?s ?n"
    using n m(3) c(2,3) z(2-4) old by (auto simp: fresh_table_def slot_def)
  have "tb ?pt' \<subseteq> insert f (tb ?pt)" using c(1) z(1) by blast
  then have "mem_inv X bi P off tb rt pool ?s fs"
    using fresh_table_inv [OF assms ft] a(2) by simp
  moreover have "create_user_page_table X bi P s = Inr (?n, ?s)"
    using m(8,12) a(1)
    by (simp add: create_user_page_table_def create_new_l4_page_table_def active_ok [OF assms]
        page_table_from_frame_ok physical_memory_offset_ok)
  ultimately show ?thesis using ft by blast
qed

subsection \<open>Sequences of operations\<close>

text \<open>
  A client of the memory manager: it creates tables, switches between the kernel's and its own
  tables, maps unmapped pages of the range each operation is meant for, and unmaps pages that
  are mapped to a frame of the pool.  Requests that do not satisfy this are not issued.
\<close>

datatype mop =
    NewTable
  | SwitchTo nat
  | SwitchKernel
  | MapUser nat PageTableFlags
  | MapKernel nat PageTableFlags
  | Unmap nat

definition pool_frame :: "nat set \<Rightarrow> leaf option \<Rightarrow> bool" where
  "pool_frame pool l = (case l of Some (Small f _) \<Rightarrow> f \<in> pool | _ \<Rightarrow> False)"

fun mem_step where
  "mem_step X bi P off pool NewTable (ts, s) =
     bnd (create_user_page_table X bi P s) (\<lambda>(t, s). Inr (t # ts, s))"
| "mem_step X bi P off pool (SwitchTo k) (ts, s) =
     (if k < length ts then bnd (switch_to_user_page_table X bi (ts ! k) s) (\<lambda>s. Inr (ts, s)) else Inr (ts, s))"
| "mem_step X bi P off pool SwitchKernel (ts, s) =
     bnd (switch_to_kernel_page_table X bi s) (\<lambda>s. Inr (ts, s))"
| "mem_step X bi P off pool (MapUser p fl) (ts, s) =
     (if user_page p \<and> pg_look P (page_tables s) (active off s) p = None
      then bnd (map_ram_user X bi P p fl s) (\<lambda>(_, s). Inr (ts, s)) else Inr (ts, s))"
| "mem_step X bi P off pool (MapKernel p fl) (ts, s) =
     (if kernel_page p \<and> pg_look P (page_tables s) (active off s) p = None
      then bnd (map_ram_kernel X bi P p fl s) (\<lambda>(_, s). Inr (ts, s)) else Inr (ts, s))"
| "mem_step X bi P off pool (Unmap p) (ts, s) =
     (if managed p \<and> pool_frame pool (pg_look P (page_tables s) (active off s) p)
      then bnd (unmap_ram X bi P p s) (\<lambda>s. Inr (ts, s)) else Inr (ts, s))"

definition client_inv where
  "client_inv X bi P off tb rt pool n ts s \<longleftrightarrow>
     (\<exists>fs. mem_inv X bi P off tb rt pool s fs \<and> n \<le> length fs \<and> set ts \<subseteq> rt (page_tables s))"

lemma mem_step_ok:
  assumes "client_inv X bi P off tb rt pool (n + 4) ts s"
  shows "\<exists>ts' s'. mem_step X bi P off pool op (ts, s) = Inr (ts', s') \<and> client_inv X bi P off tb rt pool n ts' s'"
proof -
  from assms obtain fs where inv: "mem_inv X bi P off tb rt pool s fs" and len: "n + 4 \<le> length fs"
    and ts: "set ts \<subseteq> rt (page_tables s)" by (auto simp: client_inv_def)
  note m = mem_invD [OF inv]
  have rem: "client_inv X bi P off tb rt pool n ts s'"
    if "mem_inv X bi P off tb rt pool s' fs'" "n \<le> length fs'" "rt (page_tables s') = rt (page_tables s)" for s' fs'
    using that ts by (auto simp: client_inv_def)
  have stay: "client_inv X bi P off tb rt pool n ts s" by (rule rem [OF inv]) (use len in simp_all)
  show ?thesis
  proof (cases op)
    case NewTable
    obtain f fs' where fs: "fs = f # fs'" using len by (cases fs) auto
    obtain s' where "create_user_page_table X bi P s = Inr (off + f, s')"
        "mem_inv X bi P off tb rt pool s' fs'" "fresh_table P off rt s s' (off + f)"
      using create_user_page_table_ok [of X bi P off tb rt pool s f fs'] inv unfolding fs by blast
    with NewTable len ts fs show ?thesis by (auto simp: client_inv_def fresh_table_def)
  next
    case (SwitchTo k)
    show ?thesis
    proof (cases "k < length ts")
      case True
      then have "ts ! k \<in> rt (page_tables s)" using ts by auto
      with switch_ok [OF inv] obtain s' where "switch_l4_page_table X bi (ts ! k) s = Inr s'"
          "mem_inv X bi P off tb rt pool s' fs" "page_tables s' = page_tables s" by auto
      with True SwitchTo rem [of s' fs] len show ?thesis by (simp add: switch_to_user_page_table_def)
    next
      case False
      with SwitchTo stay show ?thesis by simp
    qed
  next
    case SwitchKernel
    from switch_ok [OF inv m(4)] obtain s' where "switch_l4_page_table X bi (kernel_page_table s) s = Inr s'"
        "mem_inv X bi P off tb rt pool s' fs" "page_tables s' = page_tables s" by auto
    with SwitchKernel rem [of s' fs] len show ?thesis by (simp add: switch_to_kernel_page_table_def)
  next
    case (MapUser p fl)
    show ?thesis
    proof (cases "user_page p \<and> pg_look P (page_tables s) (active off s) p = None")
      case True
      then obtain f s' k where "map_ram_user X bi P p fl s = Inr (f, s')" "k \<le> 4"
          "mem_inv X bi P off tb rt pool s' (drop k fs)" "rt (page_tables s') = rt (page_tables s)"
        using map_ram_user_ok [OF inv, of p fl] len unfolding remaps_def by auto
      with True MapUser rem [of s' "drop k fs"] len show ?thesis by simp
    qed (use MapUser stay in auto)
  next
    case (MapKernel p fl)
    show ?thesis
    proof (cases "kernel_page p \<and> pg_look P (page_tables s) (active off s) p = None")
      case True
      then obtain f s' k where "map_ram_kernel X bi P p fl s = Inr (f, s')" "k \<le> 4"
          "mem_inv X bi P off tb rt pool s' (drop k fs)" "rt (page_tables s') = rt (page_tables s)"
        using map_ram_kernel_ok [OF inv, of p fl] len unfolding remaps_def by auto
      with True MapKernel rem [of s' "drop k fs"] len show ?thesis by simp
    qed (use MapKernel stay in auto)
  next
    case (Unmap p)
    show ?thesis
    proof (cases "managed p \<and> pool_frame pool (pg_look P (page_tables s) (active off s) p)")
      case True
      then obtain f fl where "pg_look P (page_tables s) (active off s) p = Some (Small f fl)" "f \<in> pool"
        by (auto simp: pool_frame_def split: option.splits leaf.splits)
      with unmap_ram_ok [OF inv] True obtain s' where "unmap_ram X bi P p s = Inr s'"
          "mem_inv X bi P off tb rt pool s' (f # fs)" "rt (page_tables s') = rt (page_tables s)"
        unfolding remaps_def by blast
      with True Unmap rem [of s' "f # fs"] len show ?thesis by simp
    qed (use Unmap stay in auto)
  qed
qed

lemma mem_run_ok:
  assumes "client_inv X bi P off tb rt pool (n + 4 * length ops) ts s"
  shows "\<exists>ts' s'. foldm (mem_step X bi P off pool) ops (ts, s) = Inr (ts', s') \<and>
    client_inv X bi P off tb rt pool n ts' s'"
  using assms
proof (induction ops arbitrary: ts s)
  case (Cons op ops)
  then have "client_inv X bi P off tb rt pool (n + 4 * length ops + 4) ts s" by (simp add: add.commute add.left_commute)
  from mem_step_ok [OF this, of op] obtain ts1 s1 where
    "mem_step X bi P off pool op (ts, s) = Inr (ts1, s1)"
    "client_inv X bi P off tb rt pool (n + 4 * length ops) ts1 s1" by blast
  with Cons.IH [of ts1 s1] show ?case by simp
qed simp

subsection \<open>Properties\<close>

text \<open>
  C5: whatever tables are created, switched to, and whatever pages are mapped and unmapped, in
  any order, as long as four frames per operation are available: no operation panics; no two
  user pages, of one table or of two, are ever mapped to the same frame; no frame that a managed
  page is mapped to is on the free list or in use as a page table.
\<close>

theorem memory_exclusive:
  assumes "mem_inv X bi P off tb rt pool s fs" "4 * length ops \<le> length fs"
  shows "\<exists>ts' s' fs'. foldm (mem_step X bi P off pool) ops ([], s) = Inr (ts', s') \<and>
    set ts' \<subseteq> rt (page_tables s') \<and> fa_inv X bi off pool (frame_allocator s') fs' \<and>
    (\<forall>r p r' p' f fl fl'. r \<in> rt (page_tables s') \<longrightarrow> r' \<in> rt (page_tables s') \<longrightarrow>
       user_page p \<longrightarrow> user_page p' \<longrightarrow> f \<in> pool \<longrightarrow>
       pg_look P (page_tables s') r p = Some (Small f fl) \<longrightarrow>
       pg_look P (page_tables s') r' p' = Some (Small f fl') \<longrightarrow> p = p' \<and> r = r') \<and>
    (\<forall>r p f fl. r \<in> rt (page_tables s') \<longrightarrow> managed p \<longrightarrow> f \<in> pool \<longrightarrow>
       pg_look P (page_tables s') r p = Some (Small f fl) \<longrightarrow> f \<notin> set fs' \<and> f \<notin> tb (page_tables s'))"
proof -
  have "client_inv X bi P off tb rt pool (0 + 4 * length ops) [] s"
    using assms by (auto simp: client_inv_def)
  from mem_run_ok [OF this] obtain ts' s' fs' where
    run: "foldm (mem_step X bi P off pool) ops ([], s) = Inr (ts', s')"
    and inv: "mem_inv X bi P off tb rt pool s' fs'" and ts: "set ts' \<subseteq> rt (page_tables s')"
    by (auto simp: client_inv_def)
  note m = mem_invD [OF inv]
  have "p = p' \<and> r = r'"
    if "r \<in> rt (page_tables s')" "r' \<in> rt (page_tables s')" "user_page p" "user_page p'" "f \<in> pool"
      "pg_look P (page_tables s') r p = Some (Small f fl)"
      "pg_look P (page_tables s') r' p' = Some (Small f fl')" for r r' p p' f fl fl'
    by (rule user_frame_private [OF inv that])
  moreover have "f \<notin> set fs' \<and> f \<notin> tb (page_tables s')"
    if "r \<in> rt (page_tables s')" "managed p" "f \<in> pool"
      "pg_look P (page_tables s') r p = Some (Small f fl)" for r p f fl
    using m(6) that unfolding frames_apart_def by blast
  ultimately show ?thesis using run ts m(1) by (intro exI [of _ ts'] exI [of _ s'] exI [of _ fs']) blast
qed

text \<open>
  A new user page table translates every kernel page exactly as the active table does, and
  no page outside the kernel's range; no existing table changes.
\<close>

lemma create_user_page_table_shares_kernel:
  assumes "mem_inv X bi P off tb rt pool s fs" "fs \<noteq> []"
  shows "\<exists>new s'. create_user_page_table X bi P s = Inr (new, s') \<and>
    mem_inv X bi P off tb rt pool s' (tl fs) \<and> new \<in> rt (page_tables s') \<and> new \<notin> rt (page_tables s) \<and>
    (\<forall>p < 2 ^ 48. pg_look P (page_tables s') new p =
       (if KERNEL_START \<le> p \<and> p < KERNEL_END then pg_look P (page_tables s) (active off s) p else None)) \<and>
    (\<forall>r\<in>rt (page_tables s). \<forall>p. pg_look P (page_tables s') r p = pg_look P (page_tables s) r p)"
proof -
  obtain f fs' where fs: "fs = f # fs'" using assms(2) by (cases fs) auto
  obtain s' where s': "create_user_page_table X bi P s = Inr (off + f, s')"
      "mem_inv X bi P off tb rt pool s' fs'" and ft: "fresh_table P off rt s s' (off + f)"
    using create_user_page_table_ok [of X bi P off tb rt pool s f fs'] assms(1) unfolding fs by blast
  note m = mem_invD [OF assms(1)]
  have "pg_look P (page_tables s') (off + f) p =
       (if KERNEL_START \<le> p \<and> p < KERNEL_END then pg_look P (page_tables s) (active off s) p else None)"
    if "p < 2 ^ 48" for p
    using fresh_table_look(1) [OF m(2) ft m(3), of p] kernel_l4 [OF that] by simp
  moreover have "off + f \<in> rt (page_tables s')" "off + f \<notin> rt (page_tables s)"
    "\<forall>r\<in>rt (page_tables s). \<forall>p. pg_look P (page_tables s') r p = pg_look P (page_tables s) r p"
    using ft by (simp_all add: fresh_table_def)
  ultimately show ?thesis using s' fs by auto
qed

text \<open>
  Mapping user memory takes a frame from the free list that no managed page of any table was
  mapped to, maps it at the page with the user flag in the active table, and changes the
  translation of no other page of it and of no page of any other table.
\<close>

lemma map_ram_user_isolated:
  assumes "mem_inv X bi P off tb rt pool s fs" "4 \<le> length fs" "user_page page"
    and "pg_look P (page_tables s) (active off s) page = None"
  shows "\<exists>f s'. map_ram_user X bi P page fl s = Inr (f, s') \<and> f \<in> set fs \<and> cr3 s' = cr3 s \<and>
    (\<forall>r\<in>rt (page_tables s). \<forall>p fl'. managed p \<longrightarrow> pg_look P (page_tables s) r p \<noteq> Some (Small f fl')) \<and>
    (\<forall>r\<in>rt (page_tables s). \<forall>p. pg_look P (page_tables s') r p =
       (if r = active off s \<and> p = page then Some (Small f (fl \<union> {USER_ACCESSIBLE, PRESENT}))
        else pg_look P (page_tables s) r p))"
proof -
  note m = mem_invD [OF assms(1)]
  obtain f s' n where s': "map_ram_user X bi P page fl s = Inr (f, s')" "f \<in> set (take n fs)"
      "remaps P off rt s s' page (Some (Small f (fl \<union> {USER_ACCESSIBLE} \<union> {PRESENT})))"
    using map_ram_user_ok [OF assms(1,3,2,4)] by blast
  have f: "f \<in> set fs" using s'(2) set_take_subset by fast
  have "pg_look P (page_tables s) r p \<noteq> Some (Small f fl')" if "r \<in> rt (page_tables s)" "managed p" for r p fl'
    using m(6,10) f that unfolding frames_apart_def by blast
  moreover have "shares P (page_tables s) (active off s) r page \<longleftrightarrow> r = active off s" if "r \<in> rt (page_tables s)" for r
    using m(14) m(3) that user_page_l4 [OF assms(3)] unfolding shares_def user_private_def by metis
  ultimately show ?thesis using s' f by (auto simp: remaps_def insert_commute)
qed

text \<open>
  Mapping kernel memory is visible in every table whose slot for the page names the same
  next-level table as the active one, so in every table created when that slot was in use.
\<close>

lemma map_ram_kernel_shared:
  assumes "mem_inv X bi P off tb rt pool s fs" "4 \<le> length fs" "kernel_page page"
    and "pg_look P (page_tables s) (active off s) page = None"
    and "slot P (page_tables s) (active off s) (l4_index page) \<noteq> None"
  shows "\<exists>f s'. map_ram_kernel X bi P page fl s = Inr (f, s') \<and> f \<in> set fs \<and>
    (\<forall>r\<in>rt (page_tables s). \<forall>p. pg_look P (page_tables s') r p =
       (if p = page \<and> slot P (page_tables s) r (l4_index page) = slot P (page_tables s) (active off s) (l4_index page)
        then Some (Small f (fl \<union> {PRESENT})) else pg_look P (page_tables s) r p))"
proof -
  obtain f s' n where s': "map_ram_kernel X bi P page fl s = Inr (f, s')" "f \<in> set (take n fs)"
      "remaps P off rt s s' page (Some (Small f (fl \<union> {PRESENT})))"
    using map_ram_kernel_ok [OF assms(1,3,2,4)] by blast
  moreover have "shares P (page_tables s) (active off s) r page \<longleftrightarrow>
      slot P (page_tables s) r (l4_index page) = slot P (page_tables s) (active off s) (l4_index page)" for r
    using assms(5) unfolding shares_def by metis
  moreover have "f \<in> set fs" using s'(2) set_take_subset by fast
  ultimately show ?thesis by (auto simp: remaps_def)
qed

text \<open>
  Mapping user memory and unmapping it again restores every translation of every table, and
  the frame is the next one the allocator hands out.
\<close>

lemma map_unmap_restores:
  assumes "mem_inv X bi P off tb rt pool s fs" "4 \<le> length fs" "user_page page"
    and "pg_look P (page_tables s) (active off s) page = None"
  shows "\<exists>f s1 s2 a. map_ram_user X bi P page fl s = Inr (f, s1) \<and> unmap_ram X bi P page s1 = Inr s2 \<and>
    (\<forall>r\<in>rt (page_tables s). \<forall>p. pg_look P (page_tables s2) r p = pg_look P (page_tables s) r p) \<and>
    allocate_frame (frame_allocator s2) = Inr (Some f, a)"
proof -
  note m = mem_invD [OF assms(1)]
  obtain f s1 n where s1: "map_ram_user X bi P page fl s = Inr (f, s1)" "f \<in> set (take n fs)"
      "mem_inv X bi P off tb rt pool s1 (drop n fs)"
      and rm1: "remaps P off rt s s1 page (Some (Small f (fl \<union> {USER_ACCESSIBLE} \<union> {PRESENT})))"
    using map_ram_user_ok [OF assms(1,3,2,4)] by blast
  have f: "f \<in> pool" using s1(2) m(10) set_take_subset by fast
  have l: "pg_look P (page_tables s1) (active off s1) page = Some (Small f (fl \<union> {USER_ACCESSIBLE} \<union> {PRESENT}))"
    using rm1 m(3) by (simp add: remaps_def)
  obtain s2 where s2: "unmap_ram X bi P page s1 = Inr s2" "mem_inv X bi P off tb rt pool s2 (f # drop n fs)"
      and rm2: "remaps P off rt s1 s2 page None"
    using unmap_ram_ok [OF s1(3) user_page_managed [OF assms(3)] f l] by blast
  have "pg_look P (page_tables s2) r p = pg_look P (page_tables s) r p" if "r \<in> rt (page_tables s)" for r p
  proof (cases "p = page \<and> shares P (page_tables s) (active off s) r page")
    case True
    then have "shares P (page_tables s1) (active off s1) r page"
      using remaps_shares [OF rm1 m(3) that, of page] rm1 by (simp add: remaps_def)
    moreover have "pg_look P (page_tables s) r page = None"
      using True pg_static(4) [OF m(2)] assms(4) by metis
    ultimately show ?thesis using True rm1 rm2 that by (simp add: remaps_def)
  next
    case False
    then have "pg_look P (page_tables s1) r p = pg_look P (page_tables s) r p"
      using rm1 that by (auto simp: remaps_def)
    moreover have "pg_look P (page_tables s2) r p = pg_look P (page_tables s1) r p"
    proof (cases "p = page \<and> shares P (page_tables s1) (active off s1) r page")
      case True
      then have "pg_look P (page_tables s1) r page = pg_look P (page_tables s1) (active off s1) page"
        using pg_static(4) [OF m(2)] by metis
      then show ?thesis using l calculation True False assms(4) m(7) f that m(6) s1(2) set_take_subset
          user_page_managed [OF assms(3)] unfolding frames_apart_def by (metis subsetD)
    next
      case False
      then show ?thesis using rm1 rm2 that by (auto simp: remaps_def)
    qed
    ultimately show ?thesis by simp
  qed
  with s1(1) s2 show ?thesis using allocate_frame_Cons [OF mem_invD(1) [OF s2(2)]] by blast
qed

text \<open>
  The mapping operations refuse with a panic, without a mapping, a page outside the range of
  the operation, a page that is already mapped, and any request when no frame is left.
\<close>

lemma map_ram_refuses:
  assumes "mem_inv X bi P off tb rt pool s fs"
  shows "(\<not> (USER_START \<le> page \<and> page < USER_END) \<longrightarrow> map_ram_user X bi P page fl s = Inl AssertFail) \<and>
    (\<not> (KERNEL_START \<le> page \<and> page < KERNEL_END) \<longrightarrow> map_ram_kernel X bi P page fl s = Inl AssertFail) \<and>
    (fs = [] \<longrightarrow> user_page page \<longrightarrow> map_ram_user X bi P page fl s = Inl (Explicit ''Out of memory'')) \<and>
    (fs \<noteq> [] \<longrightarrow> user_page page \<longrightarrow> pg_look P (page_tables s) (active off s) page \<noteq> None \<longrightarrow>
       map_ram_user X bi P page fl s = Inl (Explicit ''Unable to map page''))"
proof (intro conjI impI)
  note m = mem_invD [OF assms]
  show "map_ram_user X bi P page fl s = Inl AssertFail" if "\<not> (USER_START \<le> page \<and> page < USER_END)"
    using that by (simp add: map_ram_user_def)
  show "map_ram_kernel X bi P page fl s = Inl AssertFail" if "\<not> (KERNEL_START \<le> page \<and> page < KERNEL_END)"
    using that by (simp add: map_ram_kernel_def)
  show "map_ram_user X bi P page fl s = Inl (Explicit ''Out of memory'')" if "fs = []" "user_page page"
    using that alloc_or_panic_Nil [of X bi off pool s] m(1) by (simp add: map_ram_user_def user_page_def)
  show "map_ram_user X bi P page fl s = Inl (Explicit ''Unable to map page'')"
    if A: "fs \<noteq> []" "user_page page" "pg_look P (page_tables s) (active off s) page \<noteq> None"
  proof -
    obtain f fs' where fs: "fs = f # fs'" using A(1) by (cases fs) auto
    obtain a where "alloc_or_panic s = Inr (f, s\<lparr>frame_allocator := a\<rparr>)"
        "mem_inv X bi P off tb rt pool (s\<lparr>frame_allocator := a\<rparr>) fs'"
      using alloc_or_panic_Cons assms unfolding fs by blast
    then show ?thesis
      using A(2,3) map_frame_mapped [of X bi P off tb rt pool "s\<lparr>frame_allocator := a\<rparr>" fs' page]
      by (simp add: map_ram_user_def user_page_def)
  qed
qed

subsection \<open>A concrete machine\<close>

text \<open>
  \<open>n\<close> usable frames (the ram disk takes the last one of the region), the direct mapping at
  101 * 2 ^ 39, and one top-level table in frame 4096 whose slot for the kernel heap is in use.
\<close>

definition bi_frames :: "nat \<Rightarrow> BootInfo" where
  "bi_frames n = bi_ex\<lparr>memory_regions :=
     [\<lparr>region_start = 65536, region_end = 65536 + (n + 1) * 4096, region_kind = Usable\<rparr>]\<rparr>"

definition translate_frames :: "nat \<Rightarrow> nat \<Rightarrow> nat option" where
  "translate_frames n p = (if p = 4096000 then Some (65536 + n * 4096) else None)"

abbreviation off_mem :: nat where
  "off_mem \<equiv> 55525337202688"

definition pt_mem :: pt_ref where
  "pt_mem = \<lparr>slots = (\<lambda>r i. if r = off_mem + 4096 \<and> i = 108 then Some 8192 else None),
     leaves = (\<lambda>_ _. None), roots = [off_mem + 4096]\<rparr>"

definition pool_frames :: "nat \<Rightarrow> nat set" where
  "pool_frames n = boot_pool (bi_frames n) (65536 + n * 4096)"

abbreviation inv_frames :: "nat \<Rightarrow> pt_ref machine \<Rightarrow> nat list \<Rightarrow> bool" where
  "inv_frames n \<equiv> mem_inv x86_ref (bi_frames n) paging_ref off_mem (tb_ref off_mem) (rt_ref off_mem) (pool_frames n)"

lemma boot_memory_ok_frames:
  "n < 1000000 \<Longrightarrow> boot_memory_ok x86_ref (bi_frames n) (translate_frames n) off_mem (65536 + n * 4096)"
  by (simp add: boot_memory_ok_def dm_ok_def x86_ref_ok regions_ok_def ramdisk_mapped_def bi_frames_def bi_ex_def
      translate_frames_def)

lemma pool_frames_eq: "pool_frames n = (\<lambda>k. 65536 + k * 4096) ` {..<n}"
proof -
  have "{r \<in> set (memory_regions (bi_frames n)). region_kind r = Usable \<and> region_start r > 0} =
      {\<lparr>region_start = 65536, region_end = 65536 + (n + 1) * 4096, region_kind = Usable\<rparr>}"
    by (auto simp: bi_frames_def)
  then have "pool_frames n =
      {f. 4096 dvd f \<and> 65536 \<le> f \<and> f + 4096 \<le> 65536 + (n + 1) * 4096} - {65536 + n * 4096}"
    by (auto simp: pool_frames_def boot_pool_def usable_pool_def region_pool_def bi_frames_def bi_ex_def ramdisk_last_def)
  also have "\<dots> = (\<lambda>k. 65536 + k * 4096) ` {..<n}"
  proof (intro set_eqI iffI)
    fix f assume "f \<in> {f. 4096 dvd f \<and> 65536 \<le> f \<and> f + 4096 \<le> 65536 + (n + 1) * 4096} - {65536 + n * 4096}"
    then obtain q where q: "f = 4096 * q" "65536 \<le> f" "f + 4096 \<le> 65536 + (n + 1) * 4096" "f \<noteq> 65536 + n * 4096"
      by (auto elim!: dvdE)
    then have "f = 65536 + (q - 16) * 4096" "q - 16 < n" by auto
    then show "f \<in> (\<lambda>k. 65536 + k * 4096) ` {..<n}" by blast
  next
    fix f assume "f \<in> (\<lambda>k. 65536 + k * 4096) ` {..<n}"
    then obtain k where "f = 4096 * (16 + k)" "k < n" by auto
    then show "f \<in> {f. 4096 dvd f \<and> 65536 \<le> f \<and> f + 4096 \<le> 65536 + (n + 1) * 4096} - {65536 + n * 4096}" by auto
  qed
  finally show ?thesis .
qed

lemma look_mem [simp]: "look_ref pt_mem r p = None"
  by (simp add: look_ref_def pt_mem_def split: option.split)

lemma new_memory_frames:
  assumes "n < 1000000"
  obtains s fs where "new_memory x86_ref (bi_frames n) (translate_frames n) Map.empty 4096 pt_mem = Inr s"
    "inv_frames n s fs" "length fs = n" "page_tables s = pt_mem" "cr3 s = 4096" "kernel_page_table s = off_mem + 4096"
proof -
  obtain a fs where a: "new_allocator x86_ref (bi_frames n) (translate_frames n) Map.empty = Inr a"
      "fa_inv x86_ref (bi_frames n) off_mem (pool_frames n) a fs" "set fs = pool_frames n"
    using new_allocator_ok [OF boot_memory_ok_frames [OF assms]] unfolding pool_frames_def by blast
  let ?s = "\<lparr>kernel_page_table = off_mem + 4096, frame_allocator = a, cr3 = 4096, page_tables = pt_mem\<rparr>"
  have dm: "dm_ok x86_ref (bi_frames n) off_mem" using a(2) by (simp add: fa_inv_def)
  have "inj_on (\<lambda>k. 65536 + k * 4096) {..<n}" by (simp add: inj_on_def)
  then have "card (pool_frames n) = n" unfolding pool_frames_eq by (simp add: card_image)
  then have len: "length fs = n" using a(2,3) distinct_card [of fs] by (simp add: fa_inv_def)
  have rt: "rt_ref off_mem pt_mem = {off_mem + 4096}" by (auto simp: rt_ref_def pt_mem_def)
  have tb: "tb_ref off_mem pt_mem = {4096, 8192}" unfolding tb_ref_def rt by (auto simp: pt_mem_def)
  have "set fs \<inter> {4096, 8192} = {}" unfolding a(3) pool_frames_eq by auto
  then have "inv_frames n ?s fs"
    using a(2) paging_ref_ok [of off_mem]
    by (simp add: mem_inv_def rt tb frames_apart_def frames_exclusive_def user_private_def frame_ok_def)
  moreover have "new_memory x86_ref (bi_frames n) (translate_frames n) Map.empty 4096 pt_mem = Inr ?s"
    using a(1) page_table_from_frame_ok [OF dm, of 4096] by (simp add: new_memory_def frame_ok_def)
  ultimately show thesis using that [of ?s fs] len by simp
qed

text \<open>Thirty frames are enough for the examples of this theory.\<close>

abbreviation bi_mem :: BootInfo where
  "bi_mem \<equiv> bi_frames 30"

abbreviation translate_mem :: "nat \<Rightarrow> nat option" where
  "translate_mem \<equiv> translate_frames 30"

abbreviation inv_mem :: "pt_ref machine \<Rightarrow> nat list \<Rightarrow> bool" where
  "inv_mem \<equiv> inv_frames 30"

lemma new_memory_mem:
  obtains s fs where "new_memory x86_ref bi_mem translate_mem Map.empty 4096 pt_mem = Inr s"
    "inv_mem s fs" "length fs = 30" "page_tables s = pt_mem" "cr3 s = 4096"
  by (rule new_memory_frames [of 30]) simp_all

lemma rt_mem: "rt_ref off_mem pt_mem = {off_mem + 4096}"
  by (auto simp: rt_ref_def pt_mem_def)

lemma user_page_ex: "user_page USER_STACK_START"
  by (simp add: user_page_def layout_values)

lemma kernel_page_ex: "kernel_page KERNEL_HEAP_START"
  by (simp add: kernel_page_def layout_values)

theorem memory_exclusive_witness:
  "\<exists>s ts' s'. new_memory x86_ref bi_mem translate_mem Map.empty 4096 pt_mem = Inr s \<and>
     foldm (mem_step x86_ref bi_mem paging_ref off_mem (pool_frames 30))
       [NewTable, SwitchTo 0, MapUser USER_STACK_START {WRITABLE}, NewTable, SwitchTo 0,
        MapUser USER_STACK_START {WRITABLE}, Unmap USER_STACK_START] ([], s) = Inr (ts', s')"
proof -
  obtain s fs where s: "new_memory x86_ref bi_mem translate_mem Map.empty 4096 pt_mem = Inr s"
    "inv_mem s fs" "length fs = 30" by (rule new_memory_mem)
  from memory_exclusive [OF s(2), of "[NewTable, SwitchTo 0, MapUser USER_STACK_START {WRITABLE}, NewTable,
      SwitchTo 0, MapUser USER_STACK_START {WRITABLE}, Unmap USER_STACK_START]"] s(1,3)
  show ?thesis by auto
qed

lemma create_user_page_table_shares_kernel_witness:
  "\<exists>s new s'. new_memory x86_ref bi_mem translate_mem Map.empty 4096 pt_mem = Inr s \<and>
     create_user_page_table x86_ref bi_mem paging_ref s = Inr (new, s') \<and>
     pg_look paging_ref (page_tables s') new USER_STACK_START = None"
proof -
  obtain s fs where s: "new_memory x86_ref bi_mem translate_mem Map.empty 4096 pt_mem = Inr s"
    "inv_mem s fs" "length fs = 30" by (rule new_memory_mem)
  have "fs \<noteq> []" using s(3) by auto
  from create_user_page_table_shares_kernel [OF s(2) this] obtain new s' where
    "create_user_page_table x86_ref bi_mem paging_ref s = Inr (new, s')"
    "\<forall>p < 2 ^ 48. pg_look paging_ref (page_tables s') new p =
       (if KERNEL_START \<le> p \<and> p < KERNEL_END then pg_look paging_ref (page_tables s) (off_mem + cr3 s) p else None)"
    by blast
  with s(1) show ?thesis by (auto simp: layout_values)
qed

lemma map_ram_user_isolated_witness:
  "\<exists>s f s'. new_memory x86_ref bi_mem translate_mem Map.empty 4096 pt_mem = Inr s \<and>
     map_ram_user x86_ref bi_mem paging_ref USER_STACK_START {WRITABLE} s = Inr (f, s') \<and>
     pg_look paging_ref (page_tables s') (off_mem + 4096) USER_STACK_START =
       Some (Small f {WRITABLE, USER_ACCESSIBLE, PRESENT})"
proof -
  obtain s fs where s: "new_memory x86_ref bi_mem translate_mem Map.empty 4096 pt_mem = Inr s"
    "inv_mem s fs" "length fs = 30" "page_tables s = pt_mem" "cr3 s = 4096" by (rule new_memory_mem)
  from map_ram_user_isolated [OF s(2) _ user_page_ex, of "{WRITABLE}"] s(3-5) obtain f s' where
    "map_ram_user x86_ref bi_mem paging_ref USER_STACK_START {WRITABLE} s = Inr (f, s')"
    "\<forall>r\<in>rt_ref off_mem pt_mem. \<forall>p. pg_look paging_ref (page_tables s') r p =
       (if r = off_mem + 4096 \<and> p = USER_STACK_START
        then Some (Small f ({WRITABLE} \<union> {USER_ACCESSIBLE, PRESENT})) else None)"
    by auto
  with s(1) show ?thesis by (auto simp: rt_mem)
qed

lemma map_ram_kernel_shared_witness:
  "\<exists>s f s'. new_memory x86_ref bi_mem translate_mem Map.empty 4096 pt_mem = Inr s \<and>
     map_ram_kernel x86_ref bi_mem paging_ref KERNEL_HEAP_START {WRITABLE} s = Inr (f, s') \<and>
     pg_look paging_ref (page_tables s') (off_mem + 4096) KERNEL_HEAP_START = Some (Small f {WRITABLE, PRESENT})"
proof -
  obtain s fs where s: "new_memory x86_ref bi_mem translate_mem Map.empty 4096 pt_mem = Inr s"
    "inv_mem s fs" "length fs = 30" "page_tables s = pt_mem" "cr3 s = 4096" by (rule new_memory_mem)
  have i: "l4_index KERNEL_HEAP_START = 108" by (simp add: l4_index_def layout_values)
  have sl: "slots pt_mem 55525337206784 108 = Some 8192" by (simp add: pt_mem_def)
  from map_ram_kernel_shared [OF s(2) _ kernel_page_ex, of "{WRITABLE}"] s(3-5) obtain f s' where
    "map_ram_kernel x86_ref bi_mem paging_ref KERNEL_HEAP_START {WRITABLE} s = Inr (f, s')"
    "\<forall>r\<in>rt_ref off_mem pt_mem. \<forall>p. pg_look paging_ref (page_tables s') r p =
       (if p = KERNEL_HEAP_START \<and> slots pt_mem r 108 = Some 8192
        then Some (Small f ({WRITABLE} \<union> {PRESENT})) else None)"
    by (auto simp: i sl)
  then have "pg_look paging_ref (page_tables s') (off_mem + 4096) KERNEL_HEAP_START =
      Some (Small f ({WRITABLE} \<union> {PRESENT}))" using sl by (simp add: rt_mem)
  with s(1) \<open>map_ram_kernel x86_ref bi_mem paging_ref KERNEL_HEAP_START {WRITABLE} s = Inr (f, s')\<close>
  show ?thesis by (auto simp: insert_commute)
qed

lemma map_unmap_restores_witness:
  "\<exists>s f s1 s2. new_memory x86_ref bi_mem translate_mem Map.empty 4096 pt_mem = Inr s \<and>
     map_ram_user x86_ref bi_mem paging_ref USER_STACK_START {WRITABLE} s = Inr (f, s1) \<and>
     unmap_ram x86_ref bi_mem paging_ref USER_STACK_START s1 = Inr s2 \<and>
     pg_look paging_ref (page_tables s2) (off_mem + 4096) USER_STACK_START = None"
proof -
  obtain s fs where s: "new_memory x86_ref bi_mem translate_mem Map.empty 4096 pt_mem = Inr s"
    "inv_mem s fs" "length fs = 30" "page_tables s = pt_mem" "cr3 s = 4096" by (rule new_memory_mem)
  from map_unmap_restores [OF s(2) _ user_page_ex, of "{WRITABLE}"] s show ?thesis
    by (auto simp: rt_mem)
qed

lemma map_ram_refuses_witness:
  "\<exists>s. new_memory x86_ref bi_mem translate_mem Map.empty 4096 pt_mem = Inr s \<and>
     map_ram_user x86_ref bi_mem paging_ref KERNEL_HEAP_START {WRITABLE} s = Inl AssertFail"
proof -
  obtain s fs where s: "new_memory x86_ref bi_mem translate_mem Map.empty 4096 pt_mem = Inr s"
    "inv_mem s fs" by (rule new_memory_mem)
  from map_ram_refuses [OF s(2), of KERNEL_HEAP_START "{WRITABLE}"] s(1) show ?thesis
    by (auto simp: layout_values)
qed

end
