(* ===== verification/Ram_Mapper.thy ===== *)
theory Ram_Mapper
  imports Memory
begin

text \<open>
  The interface between the memory manager and its users in the kernel (heap growth, the program
  loader, the stacks of the cores): an operation that maps fresh memory at a page.  The laws are
  stated as a locale, the effect of mapping a list of pages is proved once from them, and the
  locale is interpreted for \<open>map_ram_kernel\<close> and for \<open>map_ram_user\<close>.
\<close>

text \<open>The loop \<open>for page in pages { memory.map_ram(page, flags); }\<close>.\<close>

definition map_pages ::
  "(nat \<Rightarrow> PageTableFlags \<Rightarrow> 's \<Rightarrow> (nat \<times> 's) res) \<Rightarrow> PageTableFlags \<Rightarrow> nat list \<Rightarrow> 's \<Rightarrow> 's res"
where
  "map_pages map_ram flags = foldm (\<lambda>page s. bnd (map_ram page flags s) (\<lambda>(_, s). Inr s))"

locale ram_mapper =
  fixes map_ram :: "nat \<Rightarrow> PageTableFlags \<Rightarrow> 's \<Rightarrow> (nat \<times> 's) res"
    and inv :: "'s \<Rightarrow> nat list \<Rightarrow> bool"
    and look :: "'s \<Rightarrow> nat \<Rightarrow> leaf option"
    and rest :: "'s \<Rightarrow> 'c"
    and allowed :: "nat \<Rightarrow> bool"
    and final :: "PageTableFlags \<Rightarrow> PageTableFlags"
  assumes inv_distinct: "inv s fs \<Longrightarrow> distinct fs"
    and map_ok: "inv s fs \<Longrightarrow> allowed page \<Longrightarrow> look s page = None \<Longrightarrow> 4 \<le> length fs \<Longrightarrow>
      \<exists>f s' n. map_ram page fl s = Inr (f, s') \<and> f \<in> set (take n fs) \<and> n \<le> 4 \<and> inv s' (drop n fs) \<and>
        rest s' = rest s \<and> (\<forall>p. look s' p = (if p = page then Some (Small f (final fl)) else look s p))"
begin

text \<open>
  \<open>backed s s' fl pages taken\<close>: every page of the list is mapped, to a frame of its own among
  \<open>taken\<close> and with the final flags, and no other page of this address space has changed.
\<close>

definition backed :: "'s \<Rightarrow> 's \<Rightarrow> PageTableFlags \<Rightarrow> nat list \<Rightarrow> nat set \<Rightarrow> bool" where
  "backed s s' fl pages taken \<longleftrightarrow>
     (\<exists>fr. inj_on fr (set pages) \<and> fr ` set pages \<subseteq> taken \<and>
        (\<forall>p. look s' p = (if p \<in> set pages then Some (Small (fr p) (final fl)) else look s p)))"

lemma map_all:
  assumes "inv s fs" "distinct pages" "\<forall>p\<in>set pages. allowed p \<and> look s p = None"
    and "4 * length pages \<le> length fs"
  shows "\<exists>s' n. map_pages map_ram fl pages s = Inr s' \<and> n \<le> 4 * length pages \<and> inv s' (drop n fs) \<and>
    rest s' = rest s \<and> backed s s' fl pages (set (take n fs))"
  using assms
proof (induction pages arbitrary: s fs)
  case Nil
  then show ?case by (intro exI [of _ s] exI [of _ 0]) (simp add: map_pages_def backed_def)
next
  case (Cons page pages)
  obtain f s1 n where s1: "map_ram page fl s = Inr (f, s1)" "f \<in> set (take n fs)" "n \<le> 4" "inv s1 (drop n fs)"
      "rest s1 = rest s" "\<forall>p. look s1 p = (if p = page then Some (Small f (final fl)) else look s p)"
    using map_ok [OF Cons.prems(1), of page fl] Cons.prems(3,4) by auto
  have "\<forall>p\<in>set pages. allowed p \<and> look s1 p = None" using Cons.prems(2,3) s1(6) by auto
  moreover have "4 * length pages \<le> length (drop n fs)" using Cons.prems(4) s1(3) by simp
  ultimately obtain s' k where s': "map_pages map_ram fl pages s1 = Inr s'" "k \<le> 4 * length pages"
      "inv s' (drop k (drop n fs))" "rest s' = rest s1" "backed s1 s' fl pages (set (take k (drop n fs)))"
    using Cons.IH [OF s1(4)] Cons.prems(2) by auto
  then obtain fr where fr: "inj_on fr (set pages)" "fr ` set pages \<subseteq> set (take k (drop n fs))"
      "\<forall>p. look s' p = (if p \<in> set pages then Some (Small (fr p) (final fl)) else look s1 p)"
    by (auto simp: backed_def)
  let ?fr = "fr(page := f)"
  have split: "take (n + k) fs = take n fs @ take k (drop n fs)" by (simp add: take_add)
  have page: "page \<notin> set pages" using Cons.prems(2) by simp
  then have same: "?fr q = fr q" if "q \<in> set pages" for q using that by auto
  have "f \<notin> set (take k (drop n fs))"
    using inv_distinct [OF Cons.prems(1)] s1(2) set_take_disj_set_drop_if_distinct [of fs n n]
      set_take_subset [of k "drop n fs"] by auto
  then have "f \<notin> fr ` set pages" using fr(2) by blast
  then have "inj_on ?fr (set (page # pages))" using fr(1) page by (auto simp: inj_on_def)
  moreover have "?fr ` set (page # pages) \<subseteq> set (take (n + k) fs)"
    using s1(2) fr(2) page unfolding split by auto
  moreover have "\<forall>p. look s' p = (if p \<in> set (page # pages) then Some (Small (?fr p) (final fl)) else look s p)"
    using fr(3) s1(6) page by auto
  ultimately have "backed s s' fl (page # pages) (set (take (n + k) fs))" unfolding backed_def by blast
  moreover have "map_pages map_ram fl (page # pages) s = Inr s'" using s1(1) s'(1) by (simp add: map_pages_def)
  moreover have "n + k \<le> 4 * length (page # pages)" using s1(3) s'(2) by simp
  moreover have "inv s' (drop (n + k) fs)" using s'(3) by (simp add: add.commute)
  moreover have "rest s' = rest s" using s'(4) s1(5) by simp
  ultimately show ?case by blast
qed

end

subsection \<open>The two mapping operations\<close>

text \<open>What mapping kernel memory leaves alone: registers, the set of tables, all user pages.\<close>

definition kernel_rest where
  "kernel_rest P rt s =
     (cr3 s, kernel_page_table s, rt (page_tables s),
      \<lambda>r p. if r \<in> rt (page_tables s) \<and> \<not> kernel_page p then pg_look P (page_tables s) r p else None)"

text \<open>What mapping user memory leaves alone: registers, the set of tables, all other tables.\<close>

definition user_rest where
  "user_rest P off rt s =
     (cr3 s, kernel_page_table s, rt (page_tables s),
      \<lambda>r. if r \<in> rt (page_tables s) \<and> r \<noteq> active off s then Some (pg_look P (page_tables s) r) else None)"

definition kernel_final :: "PageTableFlags \<Rightarrow> PageTableFlags" where
  "kernel_final fl = fl \<union> {PRESENT}"

definition user_final :: "PageTableFlags \<Rightarrow> PageTableFlags" where
  "user_final fl = fl \<union> {USER_ACCESSIBLE} \<union> {PRESENT}"

abbreviation alook where
  "alook P off s \<equiv> pg_look P (page_tables s) (active off s)"

lemma remaps_alook:
  assumes "remaps P off rt s s' page l" "active off s \<in> rt (page_tables s)"
  shows "alook P off s' p = (if p = page then l else alook P off s p)"
  using assms by (simp add: remaps_def)

lemma remaps_user_rest:
  assumes "mem_inv X bi P off tb rt pool s fs" "user_page page" "remaps P off rt s s' page l"
  shows "user_rest P off rt s' = user_rest P off rt s"
proof -
  note m = mem_invD [OF assms(1)]
  have "\<not> shares P (page_tables s) (active off s) r page" if "r \<in> rt (page_tables s)" "r \<noteq> active off s" for r
    using m(14) m(3) that user_page_l4 [OF assms(2)] unfolding shares_def user_private_def by metis
  then show ?thesis using assms(3) by (auto simp: user_rest_def remaps_def fun_eq_iff)
qed

interpretation kernel_ram: ram_mapper "map_ram_kernel X bi P" "mem_inv X bi P off tb rt pool"
  "alook P off" "kernel_rest P rt" kernel_page kernel_final
  for X bi P off tb rt pool
proof
  fix s fs page fl
  assume A: "mem_inv X bi P off tb rt pool s fs" "kernel_page page" "alook P off s page = None" "4 \<le> length fs"
  obtain f s' n where s': "map_ram_kernel X bi P page fl s = Inr (f, s')" "f \<in> set (take n fs)" "n \<le> 4"
      "mem_inv X bi P off tb rt pool s' (drop n fs)" "remaps P off rt s s' page (Some (Small f (fl \<union> {PRESENT})))"
    using map_ram_kernel_ok [OF A(1,2,4,3)] by blast
  have "kernel_rest P rt s' = kernel_rest P rt s"
    using s'(5) A(2) by (auto simp: kernel_rest_def remaps_def fun_eq_iff)
  then show "\<exists>f s' n. map_ram_kernel X bi P page fl s = Inr (f, s') \<and> f \<in> set (take n fs) \<and> n \<le> 4 \<and>
      mem_inv X bi P off tb rt pool s' (drop n fs) \<and> kernel_rest P rt s' = kernel_rest P rt s \<and>
      (\<forall>p. alook P off s' p = (if p = page then Some (Small f (kernel_final fl)) else alook P off s p))"
    using s' remaps_alook [OF s'(5) mem_invD(3) [OF A(1)]] unfolding kernel_final_def by blast
qed (rule mem_invD)

interpretation user_ram: ram_mapper "map_ram_user X bi P" "mem_inv X bi P off tb rt pool"
  "alook P off" "user_rest P off rt" user_page user_final
  for X bi P off tb rt pool
proof
  fix s fs page fl
  assume A: "mem_inv X bi P off tb rt pool s fs" "user_page page" "alook P off s page = None" "4 \<le> length fs"
  note m = mem_invD [OF A(1)]
  obtain f s' n where s': "map_ram_user X bi P page fl s = Inr (f, s')" "f \<in> set (take n fs)" "n \<le> 4"
      "mem_inv X bi P off tb rt pool s' (drop n fs)"
      "remaps P off rt s s' page (Some (Small f (fl \<union> {USER_ACCESSIBLE} \<union> {PRESENT})))"
    using map_ram_user_ok [OF A(1,2,4,3)] by blast
  have "user_rest P off rt s' = user_rest P off rt s" by (rule remaps_user_rest [OF A(1,2) s'(5)])
  then show "\<exists>f s' n. map_ram_user X bi P page fl s = Inr (f, s') \<and> f \<in> set (take n fs) \<and> n \<le> 4 \<and>
      mem_inv X bi P off tb rt pool s' (drop n fs) \<and> user_rest P off rt s' = user_rest P off rt s \<and>
      (\<forall>p. alook P off s' p = (if p = page then Some (Small f (user_final fl)) else alook P off s p))"
    using s' remaps_alook [OF s'(5) m(3)] unfolding user_final_def by blast
qed (rule mem_invD)

lemma kernel_rest_look:
  assumes "kernel_rest P rt s' = kernel_rest P rt s" "r \<in> rt (page_tables s)" "\<not> kernel_page p"
  shows "pg_look P (page_tables s') r p = pg_look P (page_tables s) r p"
proof -
  have "rt (page_tables s') = rt (page_tables s)"
    "(\<lambda>r p. if r \<in> rt (page_tables s') \<and> \<not> kernel_page p then pg_look P (page_tables s') r p else None) =
     (\<lambda>r p. if r \<in> rt (page_tables s) \<and> \<not> kernel_page p then pg_look P (page_tables s) r p else None)"
    using assms(1) unfolding kernel_rest_def prod.inject by blast+
  with fun_cong [OF fun_cong [OF this(2), of r], of p] assms(2,3) show ?thesis by simp
qed

lemma user_rest_look:
  assumes "user_rest P off rt s' = user_rest P off rt s" "r \<in> rt (page_tables s)" "r \<noteq> active off s"
  shows "pg_look P (page_tables s') r p = pg_look P (page_tables s) r p"
proof -
  have "cr3 s' = cr3 s" "rt (page_tables s') = rt (page_tables s)"
    "(\<lambda>r. if r \<in> rt (page_tables s') \<and> r \<noteq> active off s' then Some (pg_look P (page_tables s') r) else None) =
     (\<lambda>r. if r \<in> rt (page_tables s) \<and> r \<noteq> active off s then Some (pg_look P (page_tables s) r) else None)"
    using assms(1) unfolding user_rest_def prod.inject by blast+
  with fun_cong [OF this(3), of r] assms(2,3) show ?thesis by simp
qed

lemma rest_registers:
  "kernel_rest P rt s' = kernel_rest P rt s \<Longrightarrow>
     cr3 s' = cr3 s \<and> kernel_page_table s' = kernel_page_table s \<and> rt (page_tables s') = rt (page_tables s)"
  "user_rest P off rt s' = user_rest P off rt s \<Longrightarrow>
     cr3 s' = cr3 s \<and> kernel_page_table s' = kernel_page_table s \<and> rt (page_tables s') = rt (page_tables s)"
  unfolding kernel_rest_def user_rest_def prod.inject by blast+

end
