(* ===== verification/User_Memory.thy ===== *)
theory User_Memory
  imports Ram_Mapper
begin

text \<open>
  Access to memory through the active address space.  \<open>space\<close> adds the bytes of physical memory
  to the machine.  A store finds its frame by the translation of the active table, as the
  processor does; a page that is not mapped or not writable is a page fault, whose handler
  (interrupts.rs) panics.  Huge pages occur only in the area that the bootloader fills; a store
  through one is outside the model.

  The nodes of the free list live in free frames and are part of the frame allocator's state.  A
  frame that is mapped at a managed page is never free, so the two views do not overlap.
\<close>

record 'pt space =
  mach :: "'pt machine"
  ram :: "nat \<Rightarrow> u8"

definition page_of :: "nat \<Rightarrow> nat" where
  "page_of v = v div 4096 * 4096"

definition store_byte ::
  "x86 \<Rightarrow> BootInfo \<Rightarrow> ('pt, 'e) paging \<Rightarrow> nat \<Rightarrow> u8 \<Rightarrow> 'pt space \<Rightarrow> 'pt space res"
where
  "store_byte X bi P v b s =
     bnd (get_active_l4_page_table X bi (mach s)) (\<lambda>l4.
     case pg_look P (page_tables (mach s)) l4 (page_of v) of
       Some (Small f fl) \<Rightarrow>
         if PRESENT \<in> fl \<and> WRITABLE \<in> fl then Inr (s\<lparr>ram := (ram s)(f + v mod 4096 := b)\<rparr>)
         else Inl (Explicit ''EXCEPTION: PAGE FAULT'')
     | Some Huge \<Rightarrow> Inl UndefinedBehaviour
     | None \<Rightarrow> Inl (Explicit ''EXCEPTION: PAGE FAULT''))"

fun store_bytes ::
  "x86 \<Rightarrow> BootInfo \<Rightarrow> ('pt, 'e) paging \<Rightarrow> nat \<Rightarrow> u8 list \<Rightarrow> 'pt space \<Rightarrow> 'pt space res"
where
  "store_bytes X bi P v [] s = Inr s"
| "store_bytes X bi P v (b # bs) s = bnd (store_byte X bi P v b s) (store_bytes X bi P (v + 1) bs)"

text \<open>A load needs a page that is present.\<close>

definition load_byte ::
  "x86 \<Rightarrow> BootInfo \<Rightarrow> ('pt, 'e) paging \<Rightarrow> nat \<Rightarrow> 'pt space \<Rightarrow> u8 res"
where
  "load_byte X bi P v s =
     bnd (get_active_l4_page_table X bi (mach s)) (\<lambda>l4.
     case pg_look P (page_tables (mach s)) l4 (page_of v) of
       Some (Small f fl) \<Rightarrow>
         if PRESENT \<in> fl then Inr (ram s (f + v mod 4096)) else Inl (Explicit ''EXCEPTION: PAGE FAULT'')
     | Some Huge \<Rightarrow> Inl UndefinedBehaviour
     | None \<Rightarrow> Inl (Explicit ''EXCEPTION: PAGE FAULT''))"

fun load_bytes :: "x86 \<Rightarrow> BootInfo \<Rightarrow> ('pt, 'e) paging \<Rightarrow> nat \<Rightarrow> nat \<Rightarrow> 'pt space \<Rightarrow> u8 list res" where
  "load_bytes X bi P v 0 s = Inr []"
| "load_bytes X bi P v (Suc n) s =
     bnd (load_byte X bi P v s) (\<lambda>b. bnd (load_bytes X bi P (v + 1) n s) (\<lambda>bs. Inr (b # bs)))"

subsection \<open>The physical address behind a virtual one\<close>

definition paddr :: "(nat \<Rightarrow> leaf option) \<Rightarrow> nat \<Rightarrow> nat" where
  "paddr look v = (case look (page_of v) of Some (Small f _) \<Rightarrow> f + v mod 4096 | _ \<Rightarrow> 0)"

definition writable_at :: "(nat \<Rightarrow> leaf option) \<Rightarrow> nat \<Rightarrow> bool" where
  "writable_at look v \<longleftrightarrow> (\<exists>f fl. look (page_of v) = Some (Small f fl) \<and> PRESENT \<in> fl \<and> WRITABLE \<in> fl)"

text \<open>What physical memory holds after the bytes \<open>bs\<close> were stored at \<open>v\<close>.\<close>

fun poke :: "(nat \<Rightarrow> leaf option) \<Rightarrow> nat \<Rightarrow> u8 list \<Rightarrow> (nat \<Rightarrow> u8) \<Rightarrow> nat \<Rightarrow> u8" where
  "poke look v [] m = m"
| "poke look v (b # bs) m = poke look (v + 1) bs (m(paddr look v := b))"

lemma store_bytes_ok:
  assumes "mem_inv X bi P off tb rt pool (mach s) fs"
    and "\<And>i. i < length bs \<Longrightarrow> writable_at (alook P off (mach s)) (v + i)"
  shows "store_bytes X bi P v bs s = Inr (s\<lparr>ram := poke (alook P off (mach s)) v bs (ram s)\<rparr>)"
  using assms
proof (induction bs arbitrary: v s)
  case (Cons b bs)
  let ?L = "alook P off (mach s)"
  have "writable_at ?L v" using Cons.prems(2) [of 0] by simp
  then have "store_byte X bi P v b s = Inr (s\<lparr>ram := (ram s)(paddr ?L v := b)\<rparr>)"
    by (auto simp: writable_at_def store_byte_def active_ok [OF Cons.prems(1)] paddr_def)
  moreover have "writable_at ?L (v + 1 + i)" if "i < length bs" for i
    using Cons.prems(2) [of "Suc i"] that by simp
  ultimately show ?case using Cons.IH [of "s\<lparr>ram := (ram s)(paddr ?L v := b)\<rparr>" "v + 1"] Cons.prems(1)
    by (simp add: fun_upd_def)
qed simp

lemma load_bytes_ok:
  assumes "mem_inv X bi P off tb rt pool (mach s) fs" "\<forall>i<n. writable_at (alook P off (mach s)) (v + i)"
  shows "load_bytes X bi P v n s = Inr (map (\<lambda>i. ram s (paddr (alook P off (mach s)) (v + i))) [0..<n])"
  using assms(2)
proof (induction n arbitrary: v)
  case (Suc n)
  have b: "load_byte X bi P v s = Inr (ram s (paddr (alook P off (mach s)) v))"
    using Suc.prems [rule_format, of 0] by (auto simp: load_byte_def active_ok [OF assms(1)] writable_at_def paddr_def)
  have "\<forall>i<n. writable_at (alook P off (mach s)) (v + 1 + i)"
    using Suc.prems [rule_format, of "Suc _"] by simp
  from Suc.IH [OF this] b show ?case
    by (simp add: upt_conv_Cons map_Suc_upt [symmetric] del: upt_Suc)
qed simp

lemma pool_aligned: "mem_inv X bi P off tb rt pool s fs \<Longrightarrow> f \<in> pool \<Longrightarrow> 4096 dvd f"
  by (auto simp: mem_inv_def fa_inv_def frame_ok_def)

lemma poke_other: "a \<notin> paddr look ` {v..<v + length bs} \<Longrightarrow> poke look v bs m a = m a"
proof (induction bs arbitrary: v m)
  case (Cons b bs)
  have "{v..<v + length (b # bs)} = insert v {v + 1..<v + 1 + length bs}" by auto
  with Cons show ?case by simp
qed simp

lemma poke_nth:
  "inj_on (paddr look) {v..<v + length bs} \<Longrightarrow> i < length bs \<Longrightarrow> poke look v bs m (paddr look (v + i)) = bs ! i"
proof (induction bs arbitrary: v m i)
  case (Cons b bs)
  have eq: "{v..<v + length (b # bs)} = insert v {v + 1..<v + 1 + length bs}" by auto
  then have inj: "inj_on (paddr look) {v + 1..<v + 1 + length bs}" "paddr look v \<notin> paddr look ` {v + 1..<v + 1 + length bs}"
    using Cons.prems(1) by (auto simp: inj_on_insert)
  show ?case
  proof (cases i)
    case 0
    then show ?thesis using poke_other [OF inj(2)] by simp
  next
    case (Suc j)
    then show ?thesis using Cons.IH [OF inj(1), of j] Cons.prems(2) by simp
  qed
qed simp

text \<open>Two addresses in pages with frames of their own have different physical addresses.\<close>

lemma page_split: "v = page_of v + v mod 4096"
  by (simp add: page_of_def)

lemma paddr_inj:
  assumes "\<And>v. v \<in> A \<Longrightarrow> \<exists>fl. look (page_of v) = Some (Small (fr (page_of v)) fl)"
    and "inj_on fr (page_of ` A)" "\<And>v. v \<in> A \<Longrightarrow> 4096 dvd fr (page_of v)"
  shows "inj_on (paddr look) A"
proof (rule inj_onI)
  fix v w assume A: "v \<in> A" "w \<in> A" "paddr look v = paddr look w"
  let ?f = "fr (page_of v)" and ?g = "fr (page_of w)"
  have eq: "?f + v mod 4096 = ?g + w mod 4096"
    using A(3) assms(1) [OF A(1)] assms(1) [OF A(2)] by (auto simp: paddr_def)
  have m: "(f + x mod 4096) mod 4096 = x mod 4096" if "4096 dvd f" for f x :: nat
    using that by (auto elim!: dvdE)
  have "v mod 4096 = w mod 4096" using eq m [OF assms(3) [OF A(1)]] m [OF assms(3) [OF A(2)]] by metis
  moreover from this eq have "?f = ?g" by simp
  then have "page_of v = page_of w" using assms(2) A by (simp add: inj_on_eq_iff)
  ultimately show "v = w" using page_split [of v] page_split [of w] by metis
qed

lemma paddr_page:
  assumes "look (page_of v) = Some (Small f fl)" "4096 dvd f"
  shows "page_of (paddr look v) = f" "paddr look v = f + v mod 4096"
  using assms by (auto simp: paddr_def page_of_def elim!: dvdE)

end
