(* ===== verification/Heap.thy ===== *)
theory Heap
  imports Ram_Mapper "HOL-Library.Log_Nat"
begin

text \<open>
  Growth of the kernel's and the user program's heap, kernel/src/allocator.rs: the two closures
  that \<open>LockedHeapWithRescue\<close> calls when an allocation fails.  The buddy allocator itself is the
  crate buddy_system_allocator; what the closures use of it, the size of the heap and adding a
  range of addresses to it, is the record \<open>heap_lib\<close>.
\<close>

record Layout =
  l_size :: nat
  l_align :: nat

record 'h heap_lib =
  h_new :: 'h
  h_total :: "'h \<Rightarrow> nat"
  h_add :: "nat \<Rightarrow> nat \<Rightarrow> 'h \<Rightarrow> 'h"

text \<open>Documented: a new heap is empty, and a range of whole words that is added counts in full.\<close>

definition heap_lib_ok :: "'h heap_lib \<Rightarrow> bool" where
  "heap_lib_ok H \<longleftrightarrow> h_total H (h_new H) = 0 \<and>
     (\<forall>h a b. 8 dvd a \<longrightarrow> 8 dvd b \<longrightarrow> a \<le> b \<longrightarrow> h_total H (h_add H a b h) = h_total H h + (b - a))"

text \<open>\<open>u64::next_power_of_two\<close>, which panics when the result does not fit.\<close>

definition npot :: "nat \<Rightarrow> nat" where
  "npot n = 2 ^ floorlog 2 (n - 1)"

definition next_power_of_two :: "nat \<Rightarrow> nat res" where
  "next_power_of_two n = (if npot n < 2 ^ 64 then Inr (npot n) else Inl ArithOverflow)"

text \<open>The number of bytes the heap grows by.\<close>

definition new_added_size :: "x86 \<Rightarrow> Layout \<Rightarrow> nat \<Rightarrow> nat res" where
  "new_added_size X layout old_size =
     bnd (x_align_up X old_size (l_align layout)) (\<lambda>a.
     bnd (csub a old_size) (\<lambda>b.
     bnd (cadd b (l_size layout)) (\<lambda>c.
     bnd (next_power_of_two c) (\<lambda>min_size_to_add.
     bnd (cadd min_size_to_add old_size) (\<lambda>d.
     bnd (next_power_of_two d) (\<lambda>e.
     bnd (cmul min_size_to_add 2) (\<lambda>f.
     csub (max e f) old_size)))))))"

text \<open>The pages of the range that is added.\<close>

definition heap_pages :: "x86 \<Rightarrow> nat \<Rightarrow> nat \<Rightarrow> (nat \<times> nat \<times> nat list) res" where
  "heap_pages X start added =
     bnd (x_virt_new X start) (\<lambda>mapping_start.
     bnd (x_virt_add X mapping_start added) (\<lambda>e.
     bnd (x_virt_sub X e 1) (\<lambda>mapping_end.
     let a = x_page_containing X mapping_start; b = x_page_containing X mapping_end in
     Inr (a, b, x_page_range_inclusive X a b))))"

definition rescue ::
  "x86 \<Rightarrow> 'h heap_lib \<Rightarrow> nat \<Rightarrow> (nat \<Rightarrow> PageTableFlags \<Rightarrow> 'pt machine \<Rightarrow> (nat \<times> 'pt machine) res) \<Rightarrow>
   Layout \<Rightarrow> 'h \<times> 'pt machine \<Rightarrow> ('h \<times> 'pt machine) res"
where
  "rescue X H heap_start map_ram layout = (\<lambda>(heap, s).
     let old_size = h_total H heap in
     bnd (new_added_size X layout old_size) (\<lambda>added.
     bnd (cadd heap_start (h_total H heap)) (\<lambda>start.
     bnd (heap_pages X start added) (\<lambda>(start_page, end_page, page_range).
     bnd (cmul (length page_range) 4096) (\<lambda>_.
     bnd (map_pages map_ram {PRESENT, WRITABLE, NO_EXECUTE} page_range s) (\<lambda>s.
     bnd (log_memory_utilization s) (\<lambda>_.
     bnd (cadd end_page 4096) (\<lambda>end_addr.
     Inr (h_add H start_page end_addr heap, s)))))))))"

definition kernel_heap_rescue where
  "kernel_heap_rescue X bi P H = rescue X H KERNEL_HEAP_START (map_ram_kernel X bi P)"

definition user_heap_rescue where
  "user_heap_rescue X bi P H = rescue X H USER_HEAP_START (map_ram_user X bi P)"

text \<open>\<open>create_user_heap\<close>: an empty heap whose rescue function is \<open>user_heap_rescue\<close>.\<close>

definition create_user_heap :: "'h heap_lib \<Rightarrow> 'h" where
  "create_user_heap H = h_new H"

subsection \<open>Powers of two\<close>

lemma floorlog_2_0: "floorlog 2 0 = 0"
  by (simp add: floorlog_def)

lemma npot_small: "n \<le> 1 \<Longrightarrow> npot n = 1"
  by (simp add: npot_def floorlog_2_0)

lemma npot_ge: "n \<le> npot n"
proof (cases "n \<le> 1")
  case False
  then have "n - 1 < 2 ^ floorlog 2 (n - 1)" using floorlog_bounds [of "n - 1" 2] by simp
  then show ?thesis by (simp add: npot_def)
qed (simp add: npot_small)

lemma npot_pos: "0 < npot n"
  by (simp add: npot_def)

lemma npot_eqI:
  assumes "n \<le> 2 ^ k" "2 ^ k < 2 * n"
  shows "npot n = 2 ^ k"
proof (cases k)
  case 0
  with assms have "n = 1" by simp
  with 0 show ?thesis by (simp add: npot_small)
next
  case (Suc j)
  have n: "2 ^ j < n" using assms(2) Suc by simp
  have "n - 1 < 2 ^ k" using assms(1) n by linarith
  then have "floorlog 2 (n - 1) \<le> k" by (intro floorlog_leI) simp_all
  moreover have "2 ^ (k - 1) \<le> n - 1" using n Suc by simp
  then have "k \<le> floorlog 2 (n - 1)" by (intro floorlog_geI) simp_all
  ultimately show ?thesis by (simp add: npot_def)
qed

lemma npot_less:
  assumes "0 < n"
  shows "npot n < 2 * n"
proof (cases "n = 1")
  case True
  then show ?thesis by (simp add: npot_small)
next
  case False
  let ?k = "floorlog 2 (n - 1)"
  have b: "2 ^ (?k - 1) \<le> n - 1" "n - 1 < 2 ^ ?k" using floorlog_bounds [of "n - 1" 2] False assms by simp_all
  have "?k \<noteq> 0" using b(2) False assms by (intro notI) simp
  then have "(2 :: nat) ^ ?k = 2 * 2 ^ (?k - 1)" by (cases ?k) simp_all
  with b(1) assms show ?thesis unfolding npot_def by linarith
qed

lemma npot_power: "\<exists>k. npot n = 2 ^ k"
  by (auto simp: npot_def)

lemma npot_mono: "m \<le> n \<Longrightarrow> npot m \<le> npot n"
  unfolding npot_def by (intro power_increasing floorlog_mono) simp_all

lemma npot_of_power [simp]: "npot (2 ^ k) = 2 ^ k"
  by (rule npot_eqI) simp_all

lemma npot_idem: "npot (npot n) = npot n"
  using npot_power [of n] by auto

lemma npot_le_power: "n \<le> 2 ^ k \<Longrightarrow> npot n \<le> 2 ^ k"
  using npot_mono [of n "2 ^ k"] by simp

lemma power_cmp: "(2 :: nat) ^ a < 2 ^ b \<Longrightarrow> 2 * 2 ^ a \<le> (2 :: nat) ^ b"
proof -
  assume "(2 :: nat) ^ a < 2 ^ b"
  then have "Suc a \<le> b" by (simp add: Suc_le_eq)
  then have "(2 :: nat) ^ Suc a \<le> 2 ^ b" by (rule power_increasing) simp
  then show ?thesis by simp
qed

text \<open>The new total is twice the larger of the old total and the rounded request.\<close>

lemma npot_sum:
  assumes "old = 2 ^ k" "m = 2 ^ j"
  shows "max (npot (m + old)) (m * 2) = 2 * max old m"
proof (cases "m \<le> old")
  case True
  have "npot (m + old) = 2 ^ Suc k" using assms True by (intro npot_eqI) simp_all
  with assms True show ?thesis by simp
next
  case False
  then have "npot (m + old) = 2 ^ Suc j" using assms by (intro npot_eqI) simp_all
  with assms False show ?thesis by simp
qed

subsection \<open>How far the heap grows\<close>

text \<open>The rounded request, for a heap of \<open>old\<close> bytes.\<close>

definition request :: "Layout \<Rightarrow> nat \<Rightarrow> nat" where
  "request layout old =
     npot ((old + l_align layout - 1) div l_align layout * l_align layout - old + l_size layout)"

lemma round_up_mult: "0 < d \<Longrightarrow> (q * d + d - 1) div d = (q :: nat)"
proof -
  assume "0 < d"
  then have "q * d + d - 1 = d - 1 + q * d" by simp
  moreover have "(d - 1 + q * d) div d = q + (d - 1) div d" using \<open>0 < d\<close> by (intro div_mult_self1) simp
  ultimately show ?thesis using \<open>0 < d\<close> by (simp only: div_less add_0_right)
qed

lemma round_up_power:
  fixes old :: nat
  assumes "old = 0 \<or> old = 2 ^ k"
  shows "(old + 2 ^ j - 1) div 2 ^ j * 2 ^ j = (if old = 0 then 0 else max old (2 ^ j))"
proof (cases "old = 0 \<or> k < j")
  case True
  then have "old < 2 ^ j" using assms by auto
  show ?thesis
  proof (cases "old = 0")
    case False
    then have "(old + 2 ^ j - 1) div 2 ^ j = 1"
      using \<open>old < 2 ^ j\<close> by (intro div_nat_eqI) simp_all
    with False \<open>old < 2 ^ j\<close> show ?thesis by simp
  qed simp
next
  case False
  then have "old = 2 ^ (k - j) * 2 ^ j" using assms by (simp flip: power_add)
  moreover have "(2 ^ (k - j) * 2 ^ j + 2 ^ j - 1) div 2 ^ j = (2 :: nat) ^ (k - j)"
    by (rule round_up_mult) simp
  ultimately show ?thesis using False by simp
qed

lemma request_covers:
  assumes "old = 2 ^ k" "l_align layout = 2 ^ j" "0 < l_size layout"
  shows "npot (l_size layout) \<le> max old (request layout old)" "l_align layout \<le> max old (request layout old)"
    and "\<exists>i. request layout old = 2 ^ i"
proof -
  let ?d = "max old (2 ^ j) - old"
  have r: "request layout old = npot (?d + l_size layout)"
    using round_up_power [of old k j] assms by (simp add: request_def)
  show "npot (l_size layout) \<le> max old (request layout old)"
    unfolding r by (rule le_max_iff_disj [THEN iffD2, OF disjI2]) (rule npot_mono, rule le_add2)
  show "\<exists>i. request layout old = 2 ^ i" unfolding r by (rule npot_power)
  show "l_align layout \<le> max old (request layout old)"
  proof (cases "2 ^ j \<le> old")
    case False
    then have "2 * old \<le> 2 ^ j" using assms(1) power_cmp [of k j] by simp
    then have "2 ^ j < 2 * (?d + l_size layout)" using False assms(3) by simp
    then have "2 ^ j \<le> npot (?d + l_size layout)"
    proof (cases "?d + l_size layout \<le> 2 ^ j")
      case True
      with \<open>2 ^ j < 2 * (?d + l_size layout)\<close> show ?thesis by (simp add: npot_eqI)
    next
      case False
      then show ?thesis using npot_ge [of "?d + l_size layout"] by linarith
    qed
    then show ?thesis by (simp add: r assms(2))
  qed (simp add: assms(2))
qed

lemma new_added_size_eq:
  assumes "x86_ok X" "l_align layout = 2 ^ j" "old = 0 \<or> old = 2 ^ k"
    and "old < 2 ^ 60" "l_size layout < 2 ^ 60" "l_align layout < 2 ^ 60"
  shows "new_added_size X layout old =
    Inr (if old = 0 then 2 * npot (l_size layout) else 2 * max old (request layout old) - old)"
proof -
  define u where "u = (old + 2 ^ j - 1) div 2 ^ j * 2 ^ j"
  define c where "c = u - old + l_size layout"
  define m where "m = npot c"
  have "u = (if old = 0 then 0 else max old (2 ^ j))" unfolding u_def by (rule round_up_power [OF assms(3)])
  then have ub: "old \<le> u" "u < 2 ^ 60" "old = 0 \<Longrightarrow> u = 0" using assms(2,4,6) by auto
  have al: "x_align_up X old (l_align layout) = Inr u"
    using ub(2) unfolding u_def assms(2) by (intro x86_align(2) [OF assms(1)]) simp
  have c: "c \<le> 2 ^ 61" using ub assms(5) unfolding c_def by simp
  then have mb: "m \<le> 2 ^ 61" unfolding m_def by (rule npot_le_power)
  then have "m + old \<le> 2 ^ 62" using assms(4) by simp
  then have e: "npot (m + old) \<le> 2 ^ 62" by (rule npot_le_power)
  have total: "max (npot (m + old)) (m * 2) = (if old = 0 then 2 * npot (l_size layout) else 2 * max old (request layout old))"
  proof (cases "old = 0")
    case True
    then have "m = npot (l_size layout)" using ub(3) by (simp add: m_def c_def)
    then show ?thesis using True by (simp add: npot_idem max_def)
  next
    case False
    obtain i where i: "m = 2 ^ i" unfolding m_def using npot_power by blast
    have "request layout old = m" by (simp add: request_def m_def c_def u_def assms(2))
    with False npot_sum [OF _ i, of old k] assms(3) show ?thesis by simp
  qed
  have le: "old \<le> max (npot (m + old)) (m * 2)" using npot_ge [of "m + old"] by simp
  have "csub u old = Inr (u - old)" "cadd (u - old) (l_size layout) = Inr c"
    "next_power_of_two c = Inr m" "cadd m old = Inr (m + old)"
    "next_power_of_two (m + old) = Inr (npot (m + old))" "cmul m 2 = Inr (m * 2)"
    using ub(1) c mb e assms(4) unfolding c_def [symmetric]
    by (simp_all add: next_power_of_two_def m_def [symmetric]) (simp add: c_def [symmetric])?
  then have "new_added_size X layout old = Inr (max (npot (m + old)) (m * 2) - old)"
    using al le by (simp add: new_added_size_def)
  then show ?thesis unfolding total by simp
qed

subsection \<open>The pages of the new range\<close>

definition page_up :: "nat \<Rightarrow> nat" where
  "page_up n = (n + 4095) div 4096 * 4096"

lemma page_up_power: "12 \<le> k \<Longrightarrow> page_up (2 ^ k) = 2 ^ k"
proof -
  assume "12 \<le> k"
  then have "(2 :: nat) ^ k = 2 ^ (k - 12) * 4096" using power_add [of "2 :: nat" "k - 12" 12] by simp
  then show ?thesis using round_up_mult [of 4096 "2 ^ (k - 12)"] by (simp add: page_up_def)
qed

lemma page_up_mult: "page_up (q * 4096) = q * 4096"
  using round_up_mult [of 4096 q] by (simp add: page_up_def)

lemma last_page:
  assumes "4096 dvd a" "0 < n"
  shows "(a + n - 1) div 4096 * 4096 + 4096 = a + page_up n"
proof -
  obtain q where q: "a = 4096 * q" using assms(1) by (auto elim: dvdE)
  have "(a + n - 1) div 4096 = q + (n - 1) div 4096"
    using assms(2) div_mult_self3 [of 4096 q "n - 1"] by (simp add: q add.commute mult.commute)
  moreover have "(n + 4095) div 4096 = (n - 1) div 4096 + 1"
  proof -
    have "n + 4095 = (n - 1) + 4096" using assms(2) by simp
    then show ?thesis by simp
  qed
  ultimately show ?thesis by (simp add: page_up_def q algebra_simps)
qed

lemma heap_pages_ok:
  assumes "x86_ok X" "4096 dvd start" "0 < added" "start + page_up added < 2 ^ 47"
  shows "\<exists>e. heap_pages X start added = Inr (start, e, map (\<lambda>i. start + i * 4096) [0..<page_up added div 4096]) \<and>
    e + 4096 = start + page_up added"
proof -
  let ?e = "(start + added - 1) div 4096 * 4096"
  have up: "added \<le> page_up added" unfolding page_up_def by (rule le_page_up)
  have e: "?e + 4096 = start + page_up added" by (rule last_page [OF assms(2,3)])
  have b: "start + added < 2 ^ 47" using up assms(4) by linarith
  have "x_virt_new X start = Inr start" "x_virt_add X start added = Inr (start + added)"
    "x_virt_sub X (start + added) 1 = Inr (start + added - 1)"
    using b assms(3) by (simp_all add: x86_addr_simps [OF assms(1)])
  moreover have "x_page_containing X start = start" using assms(2) by (simp add: x86_page_simps(1) [OF assms(1)])
  moreover have "x_page_containing X (start + added - 1) = ?e" by (rule x86_page_simps(1) [OF assms(1)])
  moreover have "x_page_range_inclusive X start ?e = step_by 4096 start (?e + 1)"
    by (rule x86_page_simps(4) [OF assms(1,2)]) simp
  moreover have "step_by 4096 start (?e + 1) = map (\<lambda>i. start + i * 4096) [0..<page_up added div 4096]"
  proof -
    have "0 < page_up added" using up assms(3) by linarith
    then have "4096 \<le> page_up added" by (simp add: page_up_def)
    then have "?e + 1 - start + (4096 - 1) = page_up added" using e by linarith
    then show ?thesis by (simp only: step_by_def)
  qed
  ultimately show ?thesis using e by (simp add: heap_pages_def Let_def)
qed

subsection \<open>The size after growth\<close>

text \<open>The total size after growth.\<close>

definition grown :: "Layout \<Rightarrow> nat \<Rightarrow> nat" where
  "grown layout old =
     (if old = 0 then max 4096 (2 * npot (l_size layout)) else 2 * max old (request layout old))"

definition heap_size_ok :: "nat \<Rightarrow> bool" where
  "heap_size_ok n \<longleftrightarrow> n = 0 \<or> (\<exists>k. 12 \<le> k \<and> n = 2 ^ k)"

definition layout_ok :: "Layout \<Rightarrow> bool" where
  "layout_ok layout \<longleftrightarrow> (\<exists>j. l_align layout = 2 ^ j) \<and> 0 < l_size layout \<and>
     l_size layout < 2 ^ 60 \<and> l_align layout < 2 ^ 60"

lemma heap_size_dvd: "heap_size_ok n \<Longrightarrow> 4096 dvd n"
proof -
  assume "heap_size_ok n"
  then consider "n = 0" | k where "12 \<le> k" "n = 2 ^ k" by (auto simp: heap_size_ok_def)
  then show ?thesis
  proof cases
    case (2 k)
    have "(2 :: nat) ^ 12 dvd 2 ^ k" using 2(1) by (rule le_imp_power_dvd)
    then show ?thesis using 2(2) by simp
  qed simp
qed

lemma growth:
  assumes "x86_ok X" "layout_ok layout" "heap_size_ok old" "old < 2 ^ 60"
  shows "\<exists>added. new_added_size X layout old = Inr added \<and> 0 < added \<and> old + page_up added = grown layout old"
    and "heap_size_ok (grown layout old)" "old < grown layout old"
proof -
  obtain j where j: "l_align layout = 2 ^ j" "0 < l_size layout" "l_size layout < 2 ^ 60" "l_align layout < 2 ^ 60"
    using assms(2) by (auto simp: layout_ok_def)
  obtain q where q: "npot (l_size layout) = 2 ^ q" using npot_power by blast
  have first: "page_up (2 * npot (l_size layout)) = max 4096 (2 * npot (l_size layout)) \<and>
      heap_size_ok (max 4096 (2 * npot (l_size layout)))"
  proof (cases "12 \<le> Suc q")
    case True
    then have "(2 :: nat) ^ 12 \<le> 2 ^ Suc q" by (rule power_increasing) simp
    then have "max 4096 (2 ^ Suc q) = (2 :: nat) ^ Suc q" by simp
    moreover have "heap_size_ok (2 ^ Suc q)" unfolding heap_size_ok_def using True by blast
    ultimately show ?thesis using page_up_power [OF True] q by simp
  next
    case False
    then have "Suc q \<le> 11" by simp
    then have "(2 :: nat) ^ Suc q \<le> 2 ^ 11" by (rule power_increasing) simp
    then have "2 ^ Suc q + 4095 < 2 * (4096 :: nat)" "4096 \<le> 2 ^ Suc q + (4095 :: nat)" by simp_all
    then have "(2 ^ Suc q + 4095) div 4096 = (1 :: nat)" by (intro div_nat_eqI) simp_all
    moreover have "heap_size_ok 4096" unfolding heap_size_ok_def by (intro disjI2 exI [of _ 12]) simp
    ultimately show ?thesis using q \<open>2 ^ Suc q \<le> 2 ^ 11\<close> by (simp add: page_up_def max_def)
  qed
  have "(\<exists>added. new_added_size X layout old = Inr added \<and> 0 < added \<and> old + page_up added = grown layout old) \<and>
    heap_size_ok (grown layout old) \<and> old < grown layout old"
  proof (cases "old = 0")
    case True
    then show ?thesis using new_added_size_eq [OF assms(1) j(1), of old 0] assms(4) j first npot_pos
      by (simp add: grown_def)
  next
    case False
    then obtain k where k: "12 \<le> k" "old = 2 ^ k" using assms(3) by (auto simp: heap_size_ok_def)
    obtain i where i: "request layout old = 2 ^ i" using request_covers(3) [OF k(2) j(1,2)] by blast
    have M: "max old (request layout old) = 2 ^ max k i" using k i by (simp add: max_def)
    have "new_added_size X layout old = Inr (2 * max old (request layout old) - old)"
      using new_added_size_eq [OF assms(1) j(1), of old k] False k assms(4) j by simp
    moreover have "page_up (2 * max old (request layout old) - old) = 2 * max old (request layout old) - old"
    proof -
      have "heap_size_ok (2 ^ Suc (max k i))" unfolding heap_size_ok_def using k by (intro disjI2 exI [of _ "Suc (max k i)"]) simp
      from heap_size_dvd [OF this] have "4096 dvd 2 * max old (request layout old)" unfolding M power_Suc .
      moreover have "4096 dvd old" by (rule heap_size_dvd [OF assms(3)])
      ultimately have "4096 dvd 2 * max old (request layout old) - old" by (rule dvd_diff_nat)
      then obtain r where r: "2 * max old (request layout old) - old = r * 4096"
        by (auto elim!: dvdE simp: mult.commute)
      show ?thesis unfolding r by (rule page_up_mult)
    qed
    moreover have "0 < old" using False by simp
    moreover have "heap_size_ok (2 * max old (request layout old))"
      unfolding M heap_size_ok_def using k by (intro disjI2 exI [of _ "Suc (max k i)"]) simp
    ultimately show ?thesis using False by (simp add: grown_def)
  qed
  then show "\<exists>added. new_added_size X layout old = Inr added \<and> 0 < added \<and> old + page_up added = grown layout old"
    and "heap_size_ok (grown layout old)" "old < grown layout old" by blast+
qed

subsection \<open>Growing the heap through a memory mapper\<close>

text \<open>
  What a mapper must promise to serve a heap whose area starts at \<open>heap_start\<close> and has \<open>room\<close>
  bytes: it may map every page of the area, and the log line after the mapping does not panic.
\<close>

locale heap_area = ram_mapper map_ram inv look rest allowed final
  for map_ram :: "nat \<Rightarrow> PageTableFlags \<Rightarrow> 'pt machine \<Rightarrow> (nat \<times> 'pt machine) res"
    and inv :: "'pt machine \<Rightarrow> nat list \<Rightarrow> bool"
    and look :: "'pt machine \<Rightarrow> nat \<Rightarrow> leaf option"
    and rest :: "'pt machine \<Rightarrow> 'c"
    and allowed :: "nat \<Rightarrow> bool"
    and final :: "PageTableFlags \<Rightarrow> PageTableFlags" +
  fixes X :: x86 and heap_start room :: nat
  assumes log_ok: "inv s fs \<Longrightarrow> \<exists>u. log_memory_utilization s = Inr u"
    and lib_ok: "inv s fs \<Longrightarrow> x86_ok X"
    and area: "4096 dvd p \<Longrightarrow> heap_start \<le> p \<Longrightarrow> p < heap_start + room \<Longrightarrow> allowed p"
    and area_aligned: "4096 dvd heap_start"
    and area_bound: "heap_start + room < 2 ^ 47"
begin

lemma rescue_ok:
  assumes "inv s fs" "heap_lib_ok H" "4096 dvd h_total H h"
    and added: "new_added_size X layout (h_total H h) = Inr added" "0 < added"
    and room: "h_total H h + page_up added \<le> room"
    and free: "\<And>p. 4096 dvd p \<Longrightarrow> heap_start + h_total H h \<le> p \<Longrightarrow>
                 p < heap_start + h_total H h + page_up added \<Longrightarrow> look s p = None"
    and frames: "4 * (page_up added div 4096) \<le> length fs"
  shows "\<exists>h' s' n. rescue X H heap_start map_ram layout (h, s) = Inr (h', s') \<and>
    h' = h_add H (heap_start + h_total H h) (heap_start + h_total H h + page_up added) h \<and>
    h_total H h' = h_total H h + page_up added \<and>
    n \<le> 4 * (page_up added div 4096) \<and> inv s' (drop n fs) \<and> rest s' = rest s \<and>
    backed s s' {PRESENT, WRITABLE, NO_EXECUTE}
      (map (\<lambda>i. heap_start + h_total H h + i * 4096) [0..<page_up added div 4096]) (set (take n fs))"
proof -
  define start where "start = heap_start + h_total H h"
  let ?ps = "map (\<lambda>i. start + i * 4096) [0..<page_up added div 4096]"
  have st: "4096 dvd start" using area_aligned assms(3) by (simp add: start_def)
  have bound: "start + page_up added < 2 ^ 47" using room area_bound by (simp add: start_def)
  have up: "page_up added div 4096 * 4096 = page_up added" by (simp add: page_up_def)
  obtain e where e: "heap_pages X start added = Inr (start, e, ?ps)" "e + 4096 = start + page_up added"
    using heap_pages_ok [OF lib_ok [OF assms(1)] st added(2) bound] by blast
  have ps: "4096 dvd p \<and> start \<le> p \<and> p < start + page_up added" if "p \<in> set ?ps" for p
  proof -
    from that obtain i where i: "p = start + i * 4096" "i < page_up added div 4096" by auto
    then have "i * 4096 < page_up added div 4096 * 4096" by simp
    with i st up show ?thesis by simp
  qed
  then have "\<forall>p\<in>set ?ps. allowed p \<and> look s p = None"
    using area free room by (auto simp: start_def)
  moreover have "distinct ?ps" by (simp add: distinct_map inj_on_def)
  ultimately obtain s' n where s': "map_pages map_ram {PRESENT, WRITABLE, NO_EXECUTE} ?ps s = Inr s'"
      "n \<le> 4 * length ?ps" "inv s' (drop n fs)" "rest s' = rest s"
      "backed s s' {PRESENT, WRITABLE, NO_EXECUTE} ?ps (set (take n fs))"
    using map_all [OF assms(1), of ?ps "{PRESENT, WRITABLE, NO_EXECUTE}"] frames by auto
  obtain u where u: "log_memory_utilization s' = Inr u" using log_ok [OF s'(3)] by blast
  let ?h = "h_add H start (start + page_up added) h"
  have "(8 :: nat) dvd 4096" by simp
  then have "8 dvd start" "8 dvd page_up added" using st by (auto simp: page_up_def intro: dvd_trans)
  then have total: "h_total H ?h = h_total H h + page_up added"
    using assms(2) unfolding heap_lib_ok_def by simp
  have "length ?ps * 4096 < 2 ^ 64" "heap_start + h_total H h < 2 ^ 64" "e + 4096 < 2 ^ 64"
    using up bound e(2) by (simp_all add: start_def)
  then have "rescue X H heap_start map_ram layout (h, s) = Inr (?h, s')"
    using added(1) e s'(1) u by (simp add: rescue_def flip: start_def)
  with total s'(2-5) show ?thesis by (auto simp: start_def)
qed

text \<open>The block of the new range that serves the request, when the heap was not empty.\<close>

lemma grow_ok:
  assumes inv: "inv s fs" and H: "heap_lib_ok H" and L: "layout_ok layout" and sz: "heap_size_ok (h_total H h)"
    and room: "grown layout (h_total H h) \<le> room"
    and free: "\<forall>p. 4096 dvd p \<longrightarrow> heap_start + h_total H h \<le> p \<longrightarrow>
                 p < heap_start + grown layout (h_total H h) \<longrightarrow> look s p = None"
    and frames: "4 * ((grown layout (h_total H h) - h_total H h) div 4096) \<le> length fs"
  shows "\<exists>h' s' n fr. rescue X H heap_start map_ram layout (h, s) = Inr (h', s') \<and>
    h' = h_add H (heap_start + h_total H h) (heap_start + grown layout (h_total H h)) h \<and>
    h_total H h' = grown layout (h_total H h) \<and> heap_size_ok (h_total H h') \<and>
    inv s' (drop n fs) \<and> rest s' = rest s \<and>
    inj_on fr {0..<(grown layout (h_total H h) - h_total H h) div 4096} \<and>
    (\<forall>i<(grown layout (h_total H h) - h_total H h) div 4096. fr i \<in> set fs \<and>
       look s' (heap_start + h_total H h + i * 4096) =
         Some (Small (fr i) (final {PRESENT, WRITABLE, NO_EXECUTE}))) \<and>
    (\<forall>p. p < heap_start + h_total H h \<or> heap_start + grown layout (h_total H h) \<le> p \<longrightarrow> look s' p = look s p)"
proof -
  define old where "old = h_total H h"
  let ?g = "grown layout old"
  let ?n = "(?g - old) div 4096" and ?page = "\<lambda>i. heap_start + old + i * 4096"
  have X: "x86_ok X" by (rule lib_ok [OF inv])
  have g47: "?g < 2 ^ 47" using room area_bound by (simp add: old_def)
  have old60: "old < 2 ^ 60"
  proof (cases "old = 0")
    case False
    then have "2 * old \<le> ?g" by (simp add: grown_def)
    then show ?thesis using g47 by simp
  qed simp
  note gr = growth [OF X L sz [folded old_def] old60]
  obtain added where ad: "new_added_size X layout old = Inr added" "0 < added" "old + page_up added = ?g"
    using gr(1) by blast
  have pu: "page_up added = ?g - old" using ad(3) by simp
  note old = old_def [symmetric]
  have fr: "look s p = None"
    if "4096 dvd p" "heap_start + old \<le> p" "p < heap_start + old + page_up added" for p
    using free that ad(3) by (simp add: old add.assoc)
  have "4096 dvd h_total H h" by (rule heap_size_dvd [OF sz])
  from rescue_ok [OF inv H this, unfolded old, OF ad(1,2)] obtain h' s' n where
    r: "rescue X H heap_start map_ram layout (h, s) = Inr (h', s')"
      "h' = h_add H (heap_start + old) (heap_start + old + page_up added) h"
      "h_total H h' = old + page_up added" "inv s' (drop n fs)" "rest s' = rest s"
    and b: "backed s s' {PRESENT, WRITABLE, NO_EXECUTE} (map ?page [0..<page_up added div 4096]) (set (take n fs))"
    using fr room frames ad(3) by (auto simp: old pu)
  from b obtain f where f: "inj_on f (?page ` {0..<?n})" and taken: "f ` (?page ` {0..<?n}) \<subseteq> set (take n fs)"
     and f': "\<And>p. look s' p = (if p \<in> ?page ` {0..<?n}
          then Some (Small (f p) (final {PRESENT, WRITABLE, NO_EXECUTE})) else look s p)"
    unfolding backed_def pu set_map set_upt by blast
  have "inj_on ?page {0..<?n}" by (simp add: inj_on_def)
  from comp_inj_on [OF this f] have "inj_on (\<lambda>i. f (?page i)) {0..<?n}" by (simp add: comp_def)
  moreover have "f (?page i) \<in> set fs" if "i < ?n" for i
  proof -
    have "f (?page i) \<in> f ` (?page ` {0..<?n})" using that by (intro imageI) simp
    with taken set_take_subset [of n fs] show ?thesis by blast
  qed
  moreover have "look s' (?page i) = Some (Small (f (?page i)) (final {PRESENT, WRITABLE, NO_EXECUTE}))" if "i < ?n" for i
    using f' [of "?page i"] that by simp
  moreover have "look s' p = look s p" if "p < heap_start + old \<or> heap_start + ?g \<le> p" for p
  proof -
    have "p \<notin> ?page ` {0..<?n}"
    proof
      assume "p \<in> ?page ` {0..<?n}"
      then obtain i where i: "p = ?page i" "i < ?n" by auto
      then have "(i + 1) * 4096 \<le> ?n * 4096" by (intro mult_le_mono1) simp
      also have "\<dots> \<le> ?g - old" by (rule div_times_less_eq_dividend)
      finally show False using i(1) that ad(3) by simp
    qed
    then show ?thesis using f' [of p] by simp
  qed
  moreover have "h' = h_add H (heap_start + old) (heap_start + ?g) h" using r(2) ad(3) by (simp add: add.assoc)
  ultimately show ?thesis unfolding old
    using r(1,3-5) gr(2) ad(3) by (intro exI [of _ h'] exI [of _ s'] exI [of _ n] exI [of _ "\<lambda>i. f (?page i)"]) simp
qed

end

subsection \<open>The two heaps\<close>

interpretation kernel_heap: heap_area "map_ram_kernel X bi P" "mem_inv X bi P off tb rt pool"
  "alook P off" "kernel_rest P rt" kernel_page kernel_final X KERNEL_HEAP_START "KERNEL_AP_STACKS - KERNEL_HEAP_START"
  for X bi P off tb rt pool
proof
  show "\<exists>u. log_memory_utilization s = Inr u" if "mem_inv X bi P off tb rt pool s fs" for s fs
    using log_memory_utilization_ok [OF mem_invD(1) [OF that]] by blast
  show "x86_ok X" if "mem_inv X bi P off tb rt pool s fs" for s :: "_ machine" and fs
    using mem_invD(8) [OF that] by (simp add: dm_ok_def)
qed (auto simp: kernel_page_def layout_values)

interpretation user_heap: heap_area "map_ram_user X bi P" "mem_inv X bi P off tb rt pool"
  "alook P off" "user_rest P off rt" user_page user_final X USER_HEAP_START "USER_END - USER_HEAP_START"
  for X bi P off tb rt pool
proof
  show "\<exists>u. log_memory_utilization s = Inr u" if "mem_inv X bi P off tb rt pool s fs" for s fs
    using log_memory_utilization_ok [OF mem_invD(1) [OF that]] by blast
  show "x86_ok X" if "mem_inv X bi P off tb rt pool s fs" for s :: "_ machine" and fs
    using mem_invD(8) [OF that] by (simp add: dm_ok_def)
qed (auto simp: user_page_def layout_values)

text \<open>The block of the new range that serves the request.\<close>

lemma block_served:
  assumes "layout_ok layout" "heap_size_ok old" "0 < old" "max old (request layout old) dvd start"
  shows "\<exists>b. start + old \<le> b \<and> max (npot (l_size layout)) (l_align layout) dvd b \<and>
    b + max (npot (l_size layout)) (l_align layout) \<le> start + grown layout old"
proof -
  obtain j where j: "l_align layout = 2 ^ j" "0 < l_size layout" using assms(1) by (auto simp: layout_ok_def)
  obtain k where k: "old = 2 ^ k" using assms(2,3) by (auto simp: heap_size_ok_def)
  obtain i where i: "request layout old = 2 ^ i" using request_covers(3) [OF k j] by blast
  obtain q where q: "npot (l_size layout) = 2 ^ q" using npot_power by blast
  let ?M = "max old (request layout old)" and ?N = "max (npot (l_size layout)) (l_align layout)"
  have M: "?M = 2 ^ max k i" using k i by (simp add: max_def)
  have N: "?N = 2 ^ max q j" using q j by (simp add: max_def)
  have "?N \<le> ?M" using request_covers(1,2) [OF k j] by simp
  then have "?N dvd ?M" unfolding M N by (intro le_imp_power_dvd) simp
  then have "?N dvd start + ?M" using assms(4) by (metis dvd_add dvd_refl dvd_trans)
  with \<open>?N \<le> ?M\<close> assms(3) show ?thesis
    by (intro exI [of _ "start + ?M"]) (simp add: grown_def)
qed

lemma power_dvd_heap_start: "2 ^ k \<le> (2 :: nat) ^ 39 \<Longrightarrow> 2 ^ k dvd KERNEL_HEAP_START"
  unfolding layout_values by (intro dvd_mult le_imp_power_dvd power_le_imp_le_exp [of 2 k 39]) simp_all

subsection \<open>Properties\<close>


text \<open>
  The heap of a user program grows in the active address space only: its new pages are
  mapped writable, user accessible and not executable to frames of their own, and no other
  address space changes.
\<close>

lemma user_heap_grows:
  assumes "mem_inv X bi P off tb rt pool s fs" "heap_lib_ok H" "layout_ok layout" "heap_size_ok (h_total H h)"
    and "USER_HEAP_START + grown layout (h_total H h) \<le> USER_END"
    and "\<forall>p. 4096 dvd p \<longrightarrow> USER_HEAP_START + h_total H h \<le> p \<longrightarrow>
           p < USER_HEAP_START + grown layout (h_total H h) \<longrightarrow> pg_look P (page_tables s) (active off s) p = None"
    and "4 * ((grown layout (h_total H h) - h_total H h) div 4096) \<le> length fs"
  shows "\<exists>h' s' n fr. user_heap_rescue X bi P H layout (h, s) = Inr (h', s') \<and>
    h_total H h' = grown layout (h_total H h) \<and> heap_size_ok (h_total H h') \<and>
    mem_inv X bi P off tb rt pool s' (drop n fs) \<and> cr3 s' = cr3 s \<and>
    inj_on fr {0..<(grown layout (h_total H h) - h_total H h) div 4096} \<and>
    (\<forall>i<(grown layout (h_total H h) - h_total H h) div 4096.
       pg_look P (page_tables s') (active off s') (USER_HEAP_START + h_total H h + i * 4096) =
         Some (Small (fr i) {PRESENT, WRITABLE, NO_EXECUTE, USER_ACCESSIBLE})) \<and>
    (\<forall>r\<in>rt (page_tables s). \<forall>p. r \<noteq> active off s \<longrightarrow> pg_look P (page_tables s') r p = pg_look P (page_tables s) r p)"
proof -
  let ?old = "h_total H h"
  let ?g = "grown layout ?old"
  have room: "?g \<le> USER_END - USER_HEAP_START" using assms(5) by simp
  from user_heap.grow_ok [OF assms(1-4) room assms(6,7)] obtain h' s' n fr where r:
    "rescue X H USER_HEAP_START (map_ram_user X bi P) layout (h, s) = Inr (h', s')"
    "h_total H h' = ?g" "heap_size_ok (h_total H h')" "mem_inv X bi P off tb rt pool s' (drop n fs)"
    "user_rest P off rt s' = user_rest P off rt s" "inj_on fr {0..<(?g - ?old) div 4096}"
    "\<forall>i<(?g - ?old) div 4096. alook P off s' (USER_HEAP_START + ?old + i * 4096) =
         Some (Small (fr i) (user_final {PRESENT, WRITABLE, NO_EXECUTE}))" by blast
  have "\<forall>q\<in>rt (page_tables s). \<forall>p. q \<noteq> active off s \<longrightarrow> pg_look P (page_tables s') q p = pg_look P (page_tables s) q p"
    using user_rest_look [OF r(5)] by blast
  moreover have "user_final {PRESENT, WRITABLE, NO_EXECUTE} = {PRESENT, WRITABLE, NO_EXECUTE, USER_ACCESSIBLE}"
    by (auto simp: user_final_def)
  ultimately show ?thesis using r(1-4,6,7) rest_registers(2) [OF r(5)] unfolding user_heap_rescue_def
    by (intro exI [of _ h'] exI [of _ s'] exI [of _ n] exI [of _ fr]) simp
qed

text \<open>
  The first growth of a heap ignores the alignment of the request: the heap gets twice the
  rounded size, at least a page.  A request whose alignment is larger than that cannot be served
  from the new range, which is shorter than any block of that alignment.
\<close>

lemma first_growth_ignores_alignment:
  assumes "x86_ok X" "layout_ok layout" "2 * npot (l_size layout) < l_align layout" "4096 < l_align layout"
  shows "\<exists>added. new_added_size X layout 0 = Inr added \<and> page_up added < l_align layout"
proof -
  have "heap_size_ok 0" by (simp add: heap_size_ok_def)
  from growth(1) [OF assms(1,2) this] assms(3,4) show ?thesis by (auto simp: grown_def)
qed

subsection \<open>Concrete heaps\<close>

text \<open>A heap that only counts its bytes.\<close>

definition heap_ref :: "nat heap_lib" where
  "heap_ref = \<lparr>h_new = 0, h_total = (\<lambda>h. h), h_add = (\<lambda>a b h. h + (b - a))\<rparr>"

lemma heap_ref_ok: "heap_lib_ok heap_ref"
  by (simp add: heap_lib_ok_def heap_ref_def)

lemma h_total_ref [simp]: "h_total heap_ref h = h"
  by (simp add: heap_ref_def)

definition layout_ex :: Layout where
  "layout_ex = \<lparr>l_size = 100, l_align = 8\<rparr>"

lemma layout_ex_ok: "layout_ok layout_ex"
  unfolding layout_ok_def layout_ex_def by (auto intro: exI [of _ 3])

lemma npot_100: "npot 100 = 128"
  using npot_eqI [of 100 7] by simp

lemma grown_ex: "grown layout_ex 4096 = 8192"
proof -
  have "npot 100 = 128" by (rule npot_100)
  then show ?thesis by (simp add: grown_def request_def layout_ex_def)
qed

lemma heap_size_ex: "heap_size_ok 4096"
  unfolding heap_size_ok_def by (intro disjI2 exI [of _ 12]) simp


lemma user_heap_grows_witness:
  "\<exists>s h' s'. new_memory x86_ref bi_mem translate_mem Map.empty 4096 pt_mem = Inr s \<and>
     user_heap_rescue x86_ref bi_mem paging_ref heap_ref layout_ex (4096, s) = Inr (h', s') \<and> h' = 8192"
proof -
  obtain s fs where s: "new_memory x86_ref bi_mem translate_mem Map.empty 4096 pt_mem = Inr s"
    "inv_mem s fs" "length fs = 30" "page_tables s = pt_mem" "cr3 s = 4096" by (rule new_memory_mem)
  from user_heap_grows [OF s(2) heap_ref_ok layout_ex_ok, of 4096] s
  show ?thesis by (auto simp: grown_ex heap_size_ex layout_values)
qed

lemma first_growth_ignores_alignment_witness:
  "\<exists>added. new_added_size x86_ref \<lparr>l_size = 100, l_align = 8192\<rparr> 0 = Inr added \<and> page_up added < 8192"
proof -
  have "layout_ok \<lparr>l_size = 100, l_align = 8192\<rparr>"
    unfolding layout_ok_def by (auto intro: exI [of _ 13])
  from first_growth_ignores_alignment [OF x86_ref_ok this] show ?thesis by (simp add: npot_100)
qed

end
