(* ===== verification/Loader.thy ===== *)
theory Loader
  imports User_Memory Heap
begin

text \<open>
  Loading of user programs, kernel/src/loader.rs: \<open>map_segment\<close>, \<open>allocate_stack\<close>, \<open>load\<close>,
  \<open>prepare_application\<close>.  The ELF parser is the crate elf; what the loader uses of it is the record
  \<open>elf_lib\<close>, and the program header constants have the values of the ELF specification.
\<close>

record Segment =
  p_type :: u32
  p_vaddr :: nat
  p_memsz :: nat
  p_flags :: u32

record 'f elf_lib =
  minimal_parse :: "u8 list \<Rightarrow> 'f option"
  e_entry :: "'f \<Rightarrow> nat"
  segments :: "'f \<Rightarrow> Segment list option"
  segment_data :: "'f \<Rightarrow> Segment \<Rightarrow> u8 list option"

definition PT_LOAD :: u32 where "PT_LOAD = 1"
definition PF_X :: u32 where "PF_X = 1"
definition PF_W :: u32 where "PF_W = 2"
definition PF_R :: u32 where "PF_R = 4"

definition segment_pages :: "x86 \<Rightarrow> nat \<Rightarrow> nat \<Rightarrow> nat list res" where
  "segment_pages X virt_addr len =
     bnd (x_virt_new X virt_addr) (\<lambda>region_start.
     bnd (x_virt_add X region_start len) (\<lambda>e.
     bnd (x_virt_sub X e 1) (\<lambda>region_end.
     Inr (x_page_range_inclusive X (x_page_containing X region_start) (x_page_containing X region_end)))))"

definition map_segment ::
  "x86 \<Rightarrow> BootInfo \<Rightarrow> ('pt, 'e) paging \<Rightarrow> nat \<Rightarrow> nat \<Rightarrow> PageTableFlags \<Rightarrow> u8 list \<Rightarrow> 'pt space \<Rightarrow> 'pt space res"
where
  "map_segment X bi P virt_addr len flags data s =
     bnd (segment_pages X virt_addr len) (\<lambda>page_range.
     bnd (map_pages (map_ram_user X bi P) (flags \<union> {WRITABLE}) page_range (mach s)) (\<lambda>m.
     bnd (store_bytes X bi P virt_addr (replicate len 0) (s\<lparr>mach := m\<rparr>)) (\<lambda>s.
     bnd (if length data \<le> len then Inr () else Inl IndexOut) (\<lambda>_.
     bnd (store_bytes X bi P virt_addr data s) (\<lambda>s.
     bnd (foldm (\<lambda>page. change_flags X bi P page (flags \<union> {USER_ACCESSIBLE} \<union> {PRESENT})) page_range (mach s)) (\<lambda>m.
     Inr (s\<lparr>mach := m\<rparr>)))))))"

definition allocate_stack ::
  "x86 \<Rightarrow> BootInfo \<Rightarrow> ('pt, 'e) paging \<Rightarrow> 'pt machine \<Rightarrow> 'pt machine res"
where
  "allocate_stack X bi P s =
     (let base_virt_addr = USER_STACK_START + 4096; page_count = USER_STACK_SIZE div 4096 - 1 in
      foldm (\<lambda>i s.
        bnd (x_virt_new X (base_virt_addr + i * 4096)) (\<lambda>v.
        bnd (unwrap (x_page_from_start X v)) (\<lambda>page.
        bnd (map_ram_user X bi P page {WRITABLE, NO_EXECUTE} s) (\<lambda>(_, s). Inr s)))) [0..<page_count] s)"

text \<open>The page flags of a loadable segment.\<close>

definition segment_flags :: "u32 \<Rightarrow> PageTableFlags res" where
  "segment_flags raw_flags =
     (let raw_flag_exec = raw_flags AND PF_X \<noteq> 0;
          raw_flag_write = raw_flags AND PF_W \<noteq> 0;
          raw_flag_read = raw_flags AND PF_R \<noteq> 0
      in bnd (ass (raw_flag_read \<or> raw_flag_exec)) (\<lambda>_.
         Inr ((if \<not> raw_flag_exec \<or> raw_flag_write then {NO_EXECUTE} else {}) \<union>
              (if raw_flag_write then {WRITABLE} else {}))))"

definition load_segment where
  "load_segment X bi P E file segment s =
     (if p_type segment \<noteq> PT_LOAD then Inr s
      else
        bnd (segment_flags (p_flags segment)) (\<lambda>flags.
        bnd (unwrap (segment_data E file segment)) (\<lambda>data.
        map_segment X bi P (p_vaddr segment) (p_memsz segment) flags data s)))"

definition load ::
  "x86 \<Rightarrow> BootInfo \<Rightarrow> ('pt, 'e) paging \<Rightarrow> 'f elf_lib \<Rightarrow> u8 list \<Rightarrow> 'pt space \<Rightarrow> (nat \<times> 'pt space) res"
where
  "load X bi P E file s =
     bnd (unwrap (minimal_parse E file)) (\<lambda>file.
     let entry_point = e_entry E file in
     bnd (unwrap (segments E file)) (\<lambda>segs.
     bnd (foldm (load_segment X bi P E file) segs s) (\<lambda>s.
     Inr (entry_point, s))))"

record 'h ApplicationResources =
  l4_page_table :: nat
  entry_point_virt_addr :: nat
  heap :: 'h

definition prepare_application ::
  "x86 \<Rightarrow> BootInfo \<Rightarrow> ('pt, 'e) paging \<Rightarrow> 'f elf_lib \<Rightarrow> 'h heap_lib \<Rightarrow> u8 list \<Rightarrow> 'pt space \<Rightarrow>
   ('h ApplicationResources \<times> 'pt space) res"
where
  "prepare_application X bi P E H file s =
     bnd (create_user_page_table X bi P (mach s)) (\<lambda>(table, m).
     bnd (switch_to_user_page_table X bi table m) (\<lambda>m.
     bnd (load X bi P E file (s\<lparr>mach := m\<rparr>)) (\<lambda>(entry_point, s).
     let h = create_user_heap H in
     bnd (allocate_stack X bi P (mach s)) (\<lambda>m.
     bnd (switch_to_kernel_page_table X bi m) (\<lambda>m.
     Inr (\<lparr>l4_page_table = table, entry_point_virt_addr = entry_point, heap = h\<rparr>, s\<lparr>mach := m\<rparr>))))))"

text \<open>Dropping the resources frees nothing yet: it switches to the program's table and back.\<close>

definition drop_resources ::
  "x86 \<Rightarrow> BootInfo \<Rightarrow> 'h ApplicationResources \<Rightarrow> 'pt machine \<Rightarrow> 'pt machine res"
where
  "drop_resources X bi r m =
     bnd (switch_to_user_page_table X bi (l4_page_table r) m) (\<lambda>m. switch_to_kernel_page_table X bi m)"

definition free_application ::
  "x86 \<Rightarrow> BootInfo \<Rightarrow> 'h ApplicationResources \<Rightarrow> 'pt machine \<Rightarrow> 'pt machine res"
where
  "free_application X bi resources m = drop_resources X bi resources m"

subsection \<open>The pages of a segment\<close>

definition seg_pages :: "nat \<Rightarrow> nat \<Rightarrow> nat set" where
  "seg_pages v len = page_of ` {v..<v + len}"

definition page_count :: "nat \<Rightarrow> nat \<Rightarrow> nat" where
  "page_count v len = (v mod 4096 + len + 4095) div 4096"

lemma page_of_le: "page_of v \<le> v" "v < page_of v + 4096"
  by (simp_all add: page_of_def dividend_less_div_times)

lemma page_of_mono: "v \<le> w \<Longrightarrow> page_of v \<le> page_of w"
  unfolding page_of_def by (intro mult_le_mono1 div_le_mono)

lemma segment_pages_ok:
  assumes "x86_ok X" "0 < len" "v + len < 2 ^ 47"
  shows "\<exists>ps. segment_pages X v len = Inr ps \<and> distinct ps \<and> set ps = seg_pages v len \<and> length ps = page_count v len"
proof -
  let ?a = "page_of v" and ?b = "page_of (v + len - 1)"
  let ?ps = "step_by 4096 ?a (?b + 1)"
  have dv: "4096 dvd ?a" "4096 dvd ?b" by (simp_all add: page_of_def)
  have "segment_pages X v len = Inr ?ps"
    using assms x86_page_simps(4) [OF assms(1) dv]
    by (simp add: segment_pages_def x86_addr_simps [OF assms(1)] x86_page_simps(1) [OF assms(1)] page_of_def)
  moreover have "set ?ps = seg_pages v len"
  proof (intro set_eqI iffI)
    fix p assume "p \<in> set ?ps"
    then obtain k where k: "p = ?a + k * 4096" "p \<le> ?b" by (auto simp: set_step_by)
    have "page_of (max v p) = p"
    proof (cases k)
      case 0
      with k(1) show ?thesis using page_of_le(1) [of v] by (simp add: max_def)
    next
      case (Suc j)
      then have "v < p" using k(1) page_of_le(2) [of v] by simp
      then show ?thesis using k(1) dv(1) by (auto simp: page_of_def elim!: dvdE)
    qed
    moreover have "max v p \<in> {v..<v + len}" using k(2) page_of_le(1) [of "v + len - 1"] assms(2) by auto
    ultimately show "p \<in> seg_pages v len" unfolding seg_pages_def by (metis image_eqI)
  next
    fix p assume "p \<in> seg_pages v len"
    then obtain w where w: "p = page_of w" "v \<le> w" "w < v + len" by (auto simp: seg_pages_def)
    then have "?a \<le> p" "p \<le> ?b" by (auto intro: page_of_mono)
    moreover have "\<exists>k. p = ?a + k * 4096"
    proof (intro exI)
      have "v div 4096 \<le> w div 4096" using w(2) by (rule div_le_mono)
      then show "p = ?a + (w div 4096 - v div 4096) * 4096" by (simp add: w(1) page_of_def algebra_simps)
    qed
    ultimately show "p \<in> set ?ps" by (auto simp: set_step_by)
  qed
  moreover have "length ?ps = page_count v len"
  proof -
    have "(v + len - 1) div 4096 = v div 4096 + (v mod 4096 + len - 1) div 4096"
    proof -
      have "v + len - 1 = v div 4096 * 4096 + (v mod 4096 + len - 1)" using assms(2) by simp
      then show ?thesis by (metis add.commute div_mult_self3 zero_neq_numeral)
    qed
    moreover have "(v mod 4096 + len - 1 + 4096) div 4096 = (v mod 4096 + len - 1) div 4096 + 1" by simp
    moreover have "v mod 4096 + len - 1 + 4096 = v mod 4096 + len + 4095" using assms(2) by simp
    ultimately have "(v + len - 1) div 4096 + 1 = v div 4096 + page_count v len"
      by (simp add: page_count_def add.commute [of "v mod 4096 + len" 4095])
    then show ?thesis by (simp add: step_by_def page_of_def)
  qed
  ultimately show ?thesis using distinct_step_by [of 4096 ?a "?b + 1"] by auto
qed

subsection \<open>Protecting a list of pages\<close>

lemma change_flags_pages_ok:
  assumes "mem_inv X bi P off tb rt pool s fs" "distinct ps" "\<forall>p\<in>set ps. user_page p"
    and "\<forall>p\<in>set ps. \<exists>fl. alook P off s p = Some (Small (fr p) fl)"
  shows "\<exists>s'. foldm (\<lambda>page. change_flags X bi P page fl) ps s = Inr s' \<and> mem_inv X bi P off tb rt pool s' fs \<and>
    user_rest P off rt s' = user_rest P off rt s \<and>
    (\<forall>p. alook P off s' p = (if p \<in> set ps then Some (Small (fr p) fl) else alook P off s p))"
  using assms
proof (induction ps arbitrary: s)
  case (Cons page ps)
  obtain fl0 where "alook P off s page = Some (Small (fr page) fl0)" using Cons.prems(4) by auto
  from change_flags_ok [OF Cons.prems(1) this, of fl] obtain s1 where s1:
    "change_flags X bi P page fl s = Inr s1" "mem_inv X bi P off tb rt pool s1 fs"
    "remaps P off rt s s1 page (Some (Small (fr page) fl))" by blast
  have l1: "alook P off s1 p = (if p = page then Some (Small (fr page) fl) else alook P off s p)" for p
    by (rule remaps_alook [OF s1(3) mem_invD(3) [OF Cons.prems(1)]])
  have r1: "user_rest P off rt s1 = user_rest P off rt s"
    using remaps_user_rest [OF Cons.prems(1) _ s1(3)] Cons.prems(3) by simp
  have "\<forall>p\<in>set ps. \<exists>fl. alook P off s1 p = Some (Small (fr p) fl)" using Cons.prems(2,4) l1 by auto
  then obtain s' where s': "foldm (\<lambda>page. change_flags X bi P page fl) ps s1 = Inr s'"
      "mem_inv X bi P off tb rt pool s' fs" "user_rest P off rt s' = user_rest P off rt s1"
      "\<forall>p. alook P off s' p = (if p \<in> set ps then Some (Small (fr p) fl) else alook P off s1 p)"
    using Cons.IH [OF s1(2)] Cons.prems(2,3) by auto
  then show ?case using s1(1) r1 l1 by auto
qed simp

subsection \<open>Mapping a segment\<close>

text \<open>
  \<open>loaded L mem v len data fl pool\<close>: in the address space \<open>L\<close> over the memory \<open>mem\<close>, the bytes from
  \<open>v\<close> are the data followed by zeros up to \<open>len\<close>, in pages with exactly the flags \<open>fl\<close> and frames
  of the pool.
\<close>

definition loaded :: "(nat \<Rightarrow> leaf option) \<Rightarrow> (nat \<Rightarrow> u8) \<Rightarrow> nat \<Rightarrow> nat \<Rightarrow> u8 list \<Rightarrow> PageTableFlags \<Rightarrow> nat set \<Rightarrow> bool" where
  "loaded L mem v len data fl pool \<longleftrightarrow>
     (\<forall>i<len. \<exists>f. L (page_of (v + i)) = Some (Small f fl) \<and> f \<in> pool \<and>
        mem (f + (v + i) mod 4096) = (if i < length data then data ! i else 0))"

lemma seg_pages_user:
  assumes "v + len \<le> USER_END" "p \<in> seg_pages v len"
  shows "user_page p"
proof -
  obtain w where w: "p = page_of w" "w < v + len" using assms(2) by (auto simp: seg_pages_def)
  then have "p < USER_END" using page_of_le(1) [of w] assms(1) by simp
  moreover have "4096 dvd p" by (simp add: w(1) page_of_def)
  ultimately show ?thesis by (simp add: user_page_def layout_values)
qed

lemma map_segment_ok:
  assumes inv: "mem_inv X bi P off tb rt pool (mach s) fs"
    and len: "0 < len" "v + len \<le> USER_END" "length data \<le> len"
    and free: "\<forall>p\<in>seg_pages v len. alook P off (mach s) p = None"
    and frames: "4 * page_count v len \<le> length fs"
  shows "\<exists>s' n fr. map_segment X bi P v len flags data s = Inr s' \<and> n \<le> 4 * page_count v len \<and>
    mem_inv X bi P off tb rt pool (mach s') (drop n fs) \<and>
    user_rest P off rt (mach s') = user_rest P off rt (mach s) \<and>
    fr ` seg_pages v len \<subseteq> set (take n fs) \<and>
    (\<forall>p. alook P off (mach s') p = (if p \<in> seg_pages v len
       then Some (Small (fr p) (flags \<union> {USER_ACCESSIBLE, PRESENT})) else alook P off (mach s) p)) \<and>
    loaded (alook P off (mach s')) (ram s') v len data (flags \<union> {USER_ACCESSIBLE, PRESENT}) pool \<and>
    (\<forall>a. page_of a \<notin> set (take n fs) \<longrightarrow> ram s' a = ram s a)"
proof -
  note m = mem_invD [OF inv]
  have X: "x86_ok X" using m(8) by (simp add: dm_ok_def)
  have "v + len < 2 ^ 47" using len(2) by (simp add: layout_values)
  then obtain ps where ps: "segment_pages X v len = Inr ps" "distinct ps" "set ps = seg_pages v len"
      "length ps = page_count v len"
    using segment_pages_ok [OF X len(1), of v] by blast
  have user: "\<forall>p\<in>set ps. user_page p" using seg_pages_user [OF len(2)] ps(3) by blast
  obtain m1 n fr where m1: "map_pages (map_ram_user X bi P) (flags \<union> {WRITABLE}) ps (mach s) = Inr m1"
      "n \<le> 4 * length ps" "mem_inv X bi P off tb rt pool m1 (drop n fs)"
      "user_rest P off rt m1 = user_rest P off rt (mach s)"
    and fr: "inj_on fr (set ps)" "fr ` set ps \<subseteq> set (take n fs)"
      "\<And>p. alook P off m1 p = (if p \<in> set ps
         then Some (Small (fr p) (user_final (flags \<union> {WRITABLE}))) else alook P off (mach s) p)"
    using user_ram.map_all [OF inv ps(2), of "flags \<union> {WRITABLE}", unfolded user_ram.backed_def]
      user free frames ps(3,4) by auto
  let ?L = "alook P off m1" and ?s1 = "s\<lparr>mach := m1\<rparr>"
  have L: "?L (page_of w) = Some (Small (fr (page_of w)) (user_final (flags \<union> {WRITABLE})))"
    if "w \<in> {v..<v + len}" for w
    using fr(3) [of "page_of w"] that ps(3) by (simp add: seg_pages_def)
  have al: "4096 dvd fr p" "fr p \<in> pool" if "p \<in> set ps" for p
  proof -
    have "fr p \<in> set fs" using fr(2) that set_take_subset [of n fs] by blast
    then show "4096 dvd fr p" "fr p \<in> pool" using m(10,12) by (auto simp: frame_ok_def)
  qed
  have pg: "page_of w \<in> set ps" if "w \<in> {v..<v + len}" for w using that ps(3) by (auto simp: seg_pages_def)
  have inj: "inj_on (paddr ?L) {v..<v + len}"
    using fr(1) L al(1) pg ps(3) unfolding seg_pages_def by (intro paddr_inj [of _ _ fr]) auto
  have wr: "writable_at ?L (v + i)" if "i < len" for i
    using L [of "v + i"] that by (simp add: writable_at_def user_final_def)
  define r1 where "r1 = poke ?L v (replicate len 0) (ram s)"
  define r2 where "r2 = poke ?L v data r1"
  have st1: "store_bytes X bi P v (replicate len 0) ?s1 = Inr (?s1\<lparr>ram := r1\<rparr>)"
    using store_bytes_ok [of X bi P off tb rt pool ?s1 "drop n fs" "replicate len 0" v] m1(3) wr by (simp add: r1_def)
  have st2: "store_bytes X bi P v data (?s1\<lparr>ram := r1\<rparr>) = Inr (?s1\<lparr>ram := r2\<rparr>)"
    using store_bytes_ok [of X bi P off tb rt pool "?s1\<lparr>ram := r1\<rparr>" "drop n fs" data v] m1(3) wr len(3) by (simp add: r2_def)
  have mapped: "\<forall>p\<in>set ps. \<exists>fl. alook P off m1 p = Some (Small (fr p) fl)" using fr(3) by simp
  obtain m2 where m2: "foldm (\<lambda>page. change_flags X bi P page (flags \<union> {USER_ACCESSIBLE} \<union> {PRESENT})) ps m1 = Inr m2"
      "mem_inv X bi P off tb rt pool m2 (drop n fs)" "user_rest P off rt m2 = user_rest P off rt m1"
      "\<forall>p. alook P off m2 p = (if p \<in> set ps
         then Some (Small (fr p) (flags \<union> {USER_ACCESSIBLE} \<union> {PRESENT})) else alook P off m1 p)"
    using change_flags_pages_ok [OF m1(3) ps(2) user mapped, of "flags \<union> {USER_ACCESSIBLE} \<union> {PRESENT}"] by blast
  let ?s' = "?s1\<lparr>ram := r2, mach := m2\<rparr>"
  have run: "map_segment X bi P v len flags data s = Inr ?s'"
    using ps(1) m1(1) st1 st2 len(3) m2(1) by (simp add: map_segment_def)
  have look: "\<forall>p. alook P off m2 p = (if p \<in> seg_pages v len
      then Some (Small (fr p) (flags \<union> {USER_ACCESSIBLE, PRESENT})) else alook P off (mach s) p)"
    using m2(4) fr(3) ps(3) by (simp add: insert_commute)
  have bytes: "r2 (paddr ?L (v + i)) = (if i < length data then data ! i else 0)" if "i < len" for i
  proof (cases "i < length data")
    case True
    have "inj_on (paddr ?L) {v..<v + length data}" by (rule inj_on_subset [OF inj]) (use len(3) in auto)
    with True show ?thesis by (simp add: r2_def poke_nth)
  next
    case False
    have "paddr ?L (v + i) \<notin> paddr ?L ` {v..<v + length data}"
      using inj_onD [OF inj] False that len(3) by fastforce
    then show ?thesis using False poke_nth [of ?L v "replicate len 0" i "ram s"] inj that
      by (simp add: r2_def r1_def poke_other)
  qed
  have ld: "loaded (alook P off m2) r2 v len data (flags \<union> {USER_ACCESSIBLE, PRESENT}) pool"
    unfolding loaded_def
  proof (intro allI impI)
    fix i assume i: "i < len"
    then have w: "v + i \<in> {v..<v + len}" by simp
    have "paddr ?L (v + i) = fr (page_of (v + i)) + (v + i) mod 4096"
      by (rule paddr_page(2) [of ?L, OF L [OF w] al(1) [OF pg [OF w]]])
    with bytes [OF i] look pg [OF w] al(2) [OF pg [OF w]] ps(3)
    show "\<exists>f. alook P off m2 (page_of (v + i)) = Some (Small f (flags \<union> {USER_ACCESSIBLE, PRESENT})) \<and> f \<in> pool \<and>
        r2 (f + (v + i) mod 4096) = (if i < length data then data ! i else 0)" by auto
  qed
  have other: "r2 a = ram s a" if a: "page_of a \<notin> set (take n fs)" for a
  proof -
    have "a \<notin> paddr ?L ` {v..<v + len}"
    proof
      assume "a \<in> paddr ?L ` {v..<v + len}"
      then obtain w where w: "w \<in> {v..<v + len}" "a = paddr ?L w" by blast
      then have "page_of a = fr (page_of w)" using paddr_page(1) [of ?L, OF L [OF w(1)] al(1) [OF pg [OF w(1)]]] by simp
      with a fr(2) pg [OF w(1)] show False by auto
    qed
    moreover have "paddr ?L ` {v..<v + length data} \<subseteq> paddr ?L ` {v..<v + len}" using len(3) by auto
    ultimately have "a \<notin> paddr ?L ` {v..<v + length data}" "a \<notin> paddr ?L ` {v..<v + length (replicate len (0 :: u8))}"
      by auto
    then show ?thesis unfolding r2_def r1_def by (simp only: poke_other not_False_eq_True)
  qed
  show ?thesis using run m1(2,4) m2(2,3) fr(2) ps(3,4) look ld other
    by (intro exI [of _ ?s'] exI [of _ n] exI [of _ fr]) simp
qed

lemma loaded_keeps:
  assumes "loaded L mem v len data fl pool" "\<And>p. p \<in> seg_pages v len \<Longrightarrow> L' p = L p"
    and "\<And>p f w. p \<in> seg_pages v len \<Longrightarrow> L p = Some (Small f fl) \<Longrightarrow> mem' (f + w mod 4096) = mem (f + w mod 4096)"
  shows "loaded L' mem' v len data fl pool"
  unfolding loaded_def
proof (intro allI impI)
  fix i assume i: "i < len"
  then obtain f where f: "L (page_of (v + i)) = Some (Small f fl)" "f \<in> pool"
      "mem (f + (v + i) mod 4096) = (if i < length data then data ! i else 0)"
    using assms(1) by (auto simp: loaded_def)
  have "page_of (v + i) \<in> seg_pages v len" using i by (simp add: seg_pages_def)
  with f assms(2,3) show "\<exists>f. L' (page_of (v + i)) = Some (Small f fl) \<and> f \<in> pool \<and>
      mem' (f + (v + i) mod 4096) = (if i < length data then data ! i else 0)" by auto
qed

subsection \<open>Loading all segments\<close>

definition exec_flag :: "Segment \<Rightarrow> bool" where
  "exec_flag seg \<longleftrightarrow> p_flags seg AND PF_X \<noteq> 0"

definition write_flag :: "Segment \<Rightarrow> bool" where
  "write_flag seg \<longleftrightarrow> p_flags seg AND PF_W \<noteq> 0"

definition read_flag :: "Segment \<Rightarrow> bool" where
  "read_flag seg \<longleftrightarrow> p_flags seg AND PF_R \<noteq> 0"

definition final_flags :: "Segment \<Rightarrow> PageTableFlags" where
  "final_flags seg = {USER_ACCESSIBLE, PRESENT} \<union>
     (if exec_flag seg \<and> \<not> write_flag seg then {} else {NO_EXECUTE}) \<union> (if write_flag seg then {WRITABLE} else {})"

text \<open>
  A segment the loader accepts: readable or executable, not empty, within the user's range, with
  at most as many bytes in the file as in memory.
\<close>

definition loadable :: "'f elf_lib \<Rightarrow> 'f \<Rightarrow> Segment \<Rightarrow> bool" where
  "loadable E f seg \<longleftrightarrow> (read_flag seg \<or> exec_flag seg) \<and> 0 < p_memsz seg \<and>
     p_vaddr seg + p_memsz seg \<le> USER_END \<and>
     (\<exists>data. segment_data E f seg = Some data \<and> length data \<le> p_memsz seg)"

definition pages :: "Segment \<Rightarrow> nat set" where
  "pages seg = (if p_type seg = PT_LOAD then seg_pages (p_vaddr seg) (p_memsz seg) else {})"

definition needs :: "Segment \<Rightarrow> nat" where
  "needs seg = (if p_type seg = PT_LOAD then page_count (p_vaddr seg) (p_memsz seg) else 0)"

text \<open>The segment is in memory, with its contents and its protection.\<close>

definition in_memory where
  "in_memory E f L mem pool seg \<longleftrightarrow>
     loaded L mem (p_vaddr seg) (p_memsz seg) (the (segment_data E f seg)) (final_flags seg) pool"

lemma load_segment_ok:
  assumes "mem_inv X bi P off tb rt pool (mach s) fs" "p_type seg = PT_LOAD \<longrightarrow> loadable E f seg"
    and "\<forall>p\<in>pages seg. alook P off (mach s) p = None" "4 * needs seg \<le> length fs"
  shows "\<exists>s' n fr. load_segment X bi P E f seg s = Inr s' \<and> n \<le> 4 * needs seg \<and>
    mem_inv X bi P off tb rt pool (mach s') (drop n fs) \<and>
    user_rest P off rt (mach s') = user_rest P off rt (mach s) \<and>
    fr ` pages seg \<subseteq> set (take n fs) \<and>
    (\<forall>p. alook P off (mach s') p =
       (if p \<in> pages seg then Some (Small (fr p) (final_flags seg)) else alook P off (mach s) p)) \<and>
    (p_type seg = PT_LOAD \<longrightarrow> in_memory E f (alook P off (mach s')) (ram s') pool seg) \<and>
    (\<forall>a. page_of a \<notin> set (take n fs) \<longrightarrow> ram s' a = ram s a)"
proof (cases "p_type seg = PT_LOAD")
  case False
  with assms(1) show ?thesis
    by (intro exI [of _ s] exI [of _ 0] exI [of _ "\<lambda>_. 0"]) (simp add: load_segment_def pages_def)
next
  case True
  let ?v = "p_vaddr seg" and ?len = "p_memsz seg"
  obtain data where d: "read_flag seg \<or> exec_flag seg" "0 < ?len" "?v + ?len \<le> USER_END"
      "segment_data E f seg = Some data" "length data \<le> ?len"
    using assms(2) True by (auto simp: loadable_def)
  define fl where "fl = (if \<not> exec_flag seg \<or> write_flag seg then {NO_EXECUTE} else {}) \<union>
      (if write_flag seg then {WRITABLE} else {})"
  have fl: "segment_flags (p_flags seg) = Inr fl" "fl \<union> {USER_ACCESSIBLE, PRESENT} = final_flags seg"
    using d(1) by (auto simp: segment_flags_def fl_def final_flags_def read_flag_def exec_flag_def write_flag_def)
  have eq: "load_segment X bi P E f seg s = map_segment X bi P ?v ?len fl data s"
    using True d(4) fl(1) by (simp add: load_segment_def)
  have p: "pages seg = seg_pages ?v ?len" "needs seg = page_count ?v ?len" using True by (simp_all add: pages_def needs_def)
  show ?thesis
    using map_segment_ok [OF assms(1) d(2,3,5) assms(3) [unfolded p] assms(4) [unfolded p], of fl]
    unfolding eq p fl(2) in_memory_def d(4) option.sel by blast
qed

lemma load_segments_ok:
  assumes "mem_inv X bi P off tb rt pool (mach s) fs" "\<forall>seg\<in>set segs. p_type seg = PT_LOAD \<longrightarrow> loadable E f seg"
    and "sorted_wrt (\<lambda>a b. pages a \<inter> pages b = {}) segs"
    and "\<forall>seg\<in>set segs. \<forall>p\<in>pages seg. alook P off (mach s) p = None"
    and "4 * sum_list (map needs segs) \<le> length fs"
  shows "\<exists>s' n. foldm (load_segment X bi P E f) segs s = Inr s' \<and> n \<le> 4 * sum_list (map needs segs) \<and>
    mem_inv X bi P off tb rt pool (mach s') (drop n fs) \<and>
    user_rest P off rt (mach s') = user_rest P off rt (mach s) \<and>
    (\<forall>p. p \<notin> (\<Union>seg\<in>set segs. pages seg) \<longrightarrow> alook P off (mach s') p = alook P off (mach s) p) \<and>
    (\<forall>seg\<in>set segs. p_type seg = PT_LOAD \<longrightarrow> in_memory E f (alook P off (mach s')) (ram s') pool seg) \<and>
    (\<forall>a. page_of a \<notin> set (take n fs) \<longrightarrow> ram s' a = ram s a)"
  using assms
proof (induction segs arbitrary: s fs)
  case Nil
  then show ?case by (intro exI [of _ s] exI [of _ 0]) simp
next
  case (Cons seg segs)
  note m = mem_invD [OF Cons.prems(1)]
  obtain s1 n fr where s1: "load_segment X bi P E f seg s = Inr s1" "n \<le> 4 * needs seg"
      "mem_inv X bi P off tb rt pool (mach s1) (drop n fs)"
      "user_rest P off rt (mach s1) = user_rest P off rt (mach s)" "fr ` pages seg \<subseteq> set (take n fs)"
      "\<forall>p. alook P off (mach s1) p =
         (if p \<in> pages seg then Some (Small (fr p) (final_flags seg)) else alook P off (mach s) p)"
      "p_type seg = PT_LOAD \<longrightarrow> in_memory E f (alook P off (mach s1)) (ram s1) pool seg"
      "\<forall>a. page_of a \<notin> set (take n fs) \<longrightarrow> ram s1 a = ram s a"
    using load_segment_ok [OF Cons.prems(1), of seg E f] Cons.prems(2,4,5) by auto
  have disj: "pages seg \<inter> pages b = {}" if "b \<in> set segs" for b using Cons.prems(3) that by auto
  have "\<forall>b\<in>set segs. \<forall>p\<in>pages b. alook P off (mach s1) p = None" using s1(6) disj Cons.prems(4) by auto
  moreover have "4 * sum_list (map needs segs) \<le> length (drop n fs)" using Cons.prems(5) s1(2) by simp
  ultimately obtain s' k where s': "foldm (load_segment X bi P E f) segs s1 = Inr s'"
      "k \<le> 4 * sum_list (map needs segs)" "mem_inv X bi P off tb rt pool (mach s') (drop k (drop n fs))"
      "user_rest P off rt (mach s') = user_rest P off rt (mach s1)"
      "\<forall>p. p \<notin> (\<Union>seg\<in>set segs. pages seg) \<longrightarrow> alook P off (mach s') p = alook P off (mach s1) p"
      "\<forall>seg\<in>set segs. p_type seg = PT_LOAD \<longrightarrow> in_memory E f (alook P off (mach s')) (ram s') pool seg"
      "\<forall>a. page_of a \<notin> set (take k (drop n fs)) \<longrightarrow> ram s' a = ram s1 a"
    using Cons.IH [OF s1(3)] Cons.prems(2,3) by auto
  have split: "take (n + k) fs = take n fs @ take k (drop n fs)" by (simp add: take_add)
  have "in_memory E f (alook P off (mach s')) (ram s') pool seg" if L: "p_type seg = PT_LOAD"
  proof -
    have "in_memory E f (alook P off (mach s1)) (ram s1) pool seg" using s1(7) L by blast
    then show ?thesis
      unfolding in_memory_def
    proof (rule loaded_keeps)
      fix p assume "p \<in> seg_pages (p_vaddr seg) (p_memsz seg)"
      then have p: "p \<in> pages seg" using L by (simp add: pages_def)
      then show "alook P off (mach s') p = alook P off (mach s1) p" using s'(5) disj by blast
      fix g w assume "alook P off (mach s1) p = Some (Small g (final_flags seg))"
      then have "g \<in> set (take n fs)" using s1(5,6) p by auto
      then have "g \<notin> set (take k (drop n fs))" "4096 dvd g"
        using m(9,12) set_take_disj_set_drop_if_distinct [of fs n n] set_take_subset [of k "drop n fs"]
          set_take_subset [of n fs] by (auto simp: frame_ok_def)
      moreover from this(2) have "page_of (g + w mod 4096) = g" by (auto simp: page_of_def elim!: dvdE)
      ultimately show "ram s' (g + w mod 4096) = ram s1 (g + w mod 4096)" using s'(7) by simp
    qed
  qed
  moreover have "\<forall>a. page_of a \<notin> set (take (n + k) fs) \<longrightarrow> ram s' a = ram s a"
    using s'(7) s1(8) unfolding split by simp
  moreover have "n + k \<le> 4 * sum_list (map needs (seg # segs))" using s1(2) s'(2) by simp
  moreover have "\<forall>p. p \<notin> (\<Union>b\<in>set (seg # segs). pages b) \<longrightarrow> alook P off (mach s') p = alook P off (mach s) p"
    using s'(5) s1(6) by simp
  ultimately show ?case using s1(1,4) s'(1,3,4,6)
    by (intro exI [of _ s'] exI [of _ "n + k"]) (simp add: add.commute)
qed

subsection \<open>The stack\<close>

definition stack_page :: "nat \<Rightarrow> nat" where
  "stack_page i = USER_STACK_START + 4096 + i * 4096"

definition stack_count :: nat where
  "stack_count = USER_STACK_SIZE div 4096 - 1"

abbreviation stack_pages :: "nat list" where
  "stack_pages \<equiv> map stack_page [0..<stack_count]"

lemma stack_count_eq: "stack_count = 4095"
  by (simp add: stack_count_def USER_STACK_SIZE_def)

lemma stack_page_user: "p \<in> set stack_pages \<Longrightarrow> user_page p"
proof -
  assume "p \<in> set stack_pages"
  then obtain i where i: "p = USER_STACK_START + 4096 + i * 4096" "i < 4095"
    by (auto simp: stack_page_def stack_count_eq)
  have "(4096 :: nat) dvd 4 * 2 ^ 30 + 4096" by (simp add: dvd_eq_mod_eq_0)
  with i show ?thesis by (simp add: user_page_def layout_values)
qed

lemma allocate_stack_eq:
  assumes "x86_ok X"
  shows "allocate_stack X bi P s = map_pages (map_ram_user X bi P) {WRITABLE, NO_EXECUTE} stack_pages s"
proof -
  have "foldm (\<lambda>i s. bnd (x_virt_new X (USER_STACK_START + 4096 + i * 4096)) (\<lambda>v.
        bnd (unwrap (x_page_from_start X v)) (\<lambda>page.
        bnd (map_ram_user X bi P page {WRITABLE, NO_EXECUTE} s) (\<lambda>(_, s). Inr s)))) [0..<stack_count] s =
      foldm (\<lambda>i s. bnd (map_ram_user X bi P (stack_page i) {WRITABLE, NO_EXECUTE} s) (\<lambda>(_, s). Inr s)) [0..<stack_count] s"
  proof (intro foldm_cong refl)
    fix i s assume "i \<in> set [0..<stack_count]"
    then have u: "user_page (stack_page i)" by (intro stack_page_user) simp
    then have "x_virt_new X (stack_page i) = Inr (stack_page i)" "x_page_from_start X (stack_page i) = Some (stack_page i)"
      using page_bounds(2) [OF u] x86_addr_simps(2) [OF assms] x86_page_simps(2) [OF assms]
      by (simp_all add: user_page_def)
    then show "bnd (x_virt_new X (USER_STACK_START + 4096 + i * 4096)) (\<lambda>v.
        bnd (unwrap (x_page_from_start X v)) (\<lambda>page.
        bnd (map_ram_user X bi P page {WRITABLE, NO_EXECUTE} s) (\<lambda>(_, s). Inr s))) =
      bnd (map_ram_user X bi P (stack_page i) {WRITABLE, NO_EXECUTE} s) (\<lambda>(_, s). Inr s)"
      by (simp add: stack_page_def)
  qed
  then show ?thesis unfolding allocate_stack_def map_pages_def foldm_map Let_def stack_count_def [symmetric] .
qed

lemma allocate_stack_ok:
  assumes "mem_inv X bi P off tb rt pool s fs" "\<forall>p\<in>set stack_pages. alook P off s p = None"
    and "4 * stack_count \<le> length fs"
  shows "\<exists>s' n fr. allocate_stack X bi P s = Inr s' \<and> n \<le> 4 * stack_count \<and>
    mem_inv X bi P off tb rt pool s' (drop n fs) \<and> user_rest P off rt s' = user_rest P off rt s \<and>
    inj_on fr (set stack_pages) \<and>
    (\<forall>p. alook P off s' p = (if p \<in> set stack_pages
       then Some (Small (fr p) {WRITABLE, NO_EXECUTE, USER_ACCESSIBLE, PRESENT}) else alook P off s p))"
proof -
  have X: "x86_ok X" using mem_invD(8) [OF assms(1)] by (simp add: dm_ok_def)
  have d: "distinct stack_pages" by (simp add: distinct_map inj_on_def stack_page_def)
  have fl: "user_final {WRITABLE, NO_EXECUTE} = {WRITABLE, NO_EXECUTE, USER_ACCESSIBLE, PRESENT}"
    by (auto simp: user_final_def)
  have pre: "\<forall>p\<in>set stack_pages. user_page p \<and> alook P off s p = None" using assms(2) stack_page_user by blast
  have len: "4 * length stack_pages \<le> length fs" using assms(3) by simp
  obtain s' n fr where "map_pages (map_ram_user X bi P) {WRITABLE, NO_EXECUTE} stack_pages s = Inr s'"
      "n \<le> 4 * length stack_pages" "mem_inv X bi P off tb rt pool s' (drop n fs)"
      "user_rest P off rt s' = user_rest P off rt s" "inj_on fr (set stack_pages)"
      "\<forall>p. alook P off s' p = (if p \<in> set stack_pages
         then Some (Small (fr p) (user_final {WRITABLE, NO_EXECUTE})) else alook P off s p)"
    using user_ram.map_all [OF assms(1) d pre len, of "{WRITABLE, NO_EXECUTE}", unfolded user_ram.backed_def]
    by blast
  then show ?thesis unfolding allocate_stack_eq [OF X] fl by auto
qed

subsection \<open>Preparing a program\<close>

text \<open>
  A program file the kernel can run: it parses, every loadable segment is accepted, no two
  loadable segments share a page, and none reaches into the stack area.
\<close>

definition program_ok :: "'f elf_lib \<Rightarrow> u8 list \<Rightarrow> 'f \<Rightarrow> Segment list \<Rightarrow> bool" where
  "program_ok E file f segs \<longleftrightarrow>
     minimal_parse E file = Some f \<and> segments E f = Some segs \<and>
     (\<forall>seg\<in>set segs. p_type seg = PT_LOAD \<longrightarrow> loadable E f seg) \<and>
     sorted_wrt (\<lambda>a b. pages a \<inter> pages b = {}) segs \<and>
     (\<forall>seg\<in>set segs. \<forall>p\<in>pages seg. p < USER_STACK_START \<or> USER_STACK_START + USER_STACK_SIZE \<le> p)"

lemma pages_user: "p_type seg = PT_LOAD \<longrightarrow> loadable E f seg \<Longrightarrow> p \<in> pages seg \<Longrightarrow> user_page p"
  by (auto simp: pages_def loadable_def intro: seg_pages_user split: if_splits)

lemma program_pages_user:
  assumes "program_ok E file f segs" "p \<in> (\<Union>seg\<in>set segs. pages seg)"
  shows "user_page p"
proof -
  obtain seg where seg: "seg \<in> set segs" "p \<in> pages seg" using assms(2) by blast
  have "p_type seg = PT_LOAD \<longrightarrow> loadable E f seg" using assms(1) seg(1) by (simp add: program_ok_def)
  from pages_user [OF this seg(2)] show ?thesis .
qed

lemma stack_page_range:
  "p \<in> set stack_pages \<Longrightarrow> USER_STACK_START < p \<and> p < USER_STACK_START + USER_STACK_SIZE"
  by (auto simp: stack_page_def stack_count_eq USER_STACK_SIZE_def)

lemma user_rest_active_look:
  assumes "user_rest P off rt s' = user_rest P off rt s" "r \<in> rt (page_tables s)"
    and "r = active off s \<Longrightarrow> alook P off s' p = alook P off s p"
  shows "pg_look P (page_tables s') r p = pg_look P (page_tables s) r p"
  using user_rest_look [OF assms(1,2)] rest_registers(2) [OF assms(1)] assms(3) by (cases "r = active off s") auto

lemma prepare_application_ok:
  assumes inv: "mem_inv X bi P off tb rt pool (mach s) fs" and prog: "program_ok E file f segs"
    and frames: "1 + 4 * (sum_list (map needs segs) + stack_count) \<le> length fs"
  shows "\<exists>new s' n fr. prepare_application X bi P E H file s =
      Inr (\<lparr>l4_page_table = new, entry_point_virt_addr = e_entry E f, heap = h_new H\<rparr>, s') \<and>
    new \<notin> rt (page_tables (mach s)) \<and> rt (page_tables (mach s')) = insert new (rt (page_tables (mach s))) \<and>
    n \<le> 1 + 4 * (sum_list (map needs segs) + stack_count) \<and>
    mem_inv X bi P off tb rt pool (mach s') (drop n fs) \<and> kernel_page_table (mach s') = kernel_page_table (mach s) \<and>
    active off (mach s') = kernel_page_table (mach s) \<and>
    (\<forall>r\<in>rt (page_tables (mach s)). \<forall>p.
       pg_look P (page_tables (mach s')) r p = pg_look P (page_tables (mach s)) r p) \<and>
    inj_on fr (set stack_pages) \<and>
    (\<forall>p. p \<notin> (\<Union>seg\<in>set segs. pages seg) \<longrightarrow> pg_look P (page_tables (mach s')) new p =
       (if p \<in> set stack_pages then Some (Small (fr p) {WRITABLE, NO_EXECUTE, USER_ACCESSIBLE, PRESENT})
        else if l4_index p \<in> set KERNEL_L4_PAGE_TABLE_RANGE then alook P off (mach s) p else None)) \<and>
    (\<forall>seg\<in>set segs. p_type seg = PT_LOAD \<longrightarrow>
       in_memory E f (pg_look P (page_tables (mach s')) new) (ram s') pool seg) \<and>
    (\<forall>a. page_of a \<notin> set fs \<longrightarrow> ram s' a = ram s a)"
proof -
  note m = mem_invD [OF inv]
  have pr: "minimal_parse E file = Some f" "segments E f = Some segs"
      "\<forall>seg\<in>set segs. p_type seg = PT_LOAD \<longrightarrow> loadable E f seg" "sorted_wrt (\<lambda>a b. pages a \<inter> pages b = {}) segs"
      "\<forall>seg\<in>set segs. \<forall>p\<in>pages seg. p < USER_STACK_START \<or> USER_STACK_START + USER_STACK_SIZE \<le> p"
    using prog by (simp_all add: program_ok_def)
  obtain g fs' where fs: "fs = g # fs'" using frames by (cases fs) auto
  let ?new = "off + g" and ?ps = "\<Union>seg\<in>set segs. pages seg"
  obtain m1 where m1: "create_user_page_table X bi P (mach s) = Inr (?new, m1)"
      "mem_inv X bi P off tb rt pool m1 fs'" and ft: "fresh_table P off rt (mach s) m1 ?new"
    using create_user_page_table_ok [of X bi P off tb rt pool "mach s" g fs'] inv unfolding fs by blast
  have rt1: "rt (page_tables m1) = insert ?new (rt (page_tables (mach s)))" "?new \<notin> rt (page_tables (mach s))"
    using ft by (simp_all add: fresh_table_def)
  obtain m2 where m2: "switch_to_user_page_table X bi ?new m1 = Inr m2" "mem_inv X bi P off tb rt pool m2 fs'"
      "active off m2 = ?new" "m2 = m1\<lparr>cr3 := ?new - off\<rparr>"
    using switch_ok [OF m1(2), of ?new] rt1 unfolding switch_to_user_page_table_def by blast
  have new2: "alook P off m2 p = (if l4_index p \<in> set KERNEL_L4_PAGE_TABLE_RANGE then alook P off (mach s) p else None)" for p
    using fresh_table_look(1) [OF m(2) ft m(3), of p] m2(3,4) by simp
  have none: "alook P off m2 p = None" if "user_page p" for p
    unfolding new2 user_page_l4 [OF that] by (simp add: kernel_range_set)
  have free: "\<forall>seg\<in>set segs. \<forall>p\<in>pages seg. alook P off (mach (s\<lparr>mach := m2\<rparr>)) p = None"
    using none program_pages_user [OF prog] by auto
  have f3: "4 * sum_list (map needs segs) \<le> length fs'" using frames fs by simp
  have i2: "mem_inv X bi P off tb rt pool (mach (s\<lparr>mach := m2\<rparr>)) fs'" using m2(2) by simp
  obtain s3 n where s3: "foldm (load_segment X bi P E f) segs (s\<lparr>mach := m2\<rparr>) = Inr s3"
      "n \<le> 4 * sum_list (map needs segs)" "mem_inv X bi P off tb rt pool (mach s3) (drop n fs')"
      "user_rest P off rt (mach s3) = user_rest P off rt m2"
      "\<forall>p. p \<notin> ?ps \<longrightarrow> alook P off (mach s3) p = alook P off m2 p"
      "\<forall>seg\<in>set segs. p_type seg = PT_LOAD \<longrightarrow> in_memory E f (alook P off (mach s3)) (ram s3) pool seg"
      "\<forall>a. page_of a \<notin> set (take n fs') \<longrightarrow> ram s3 a = ram s a"
    using load_segments_ok [OF i2 pr(3,4) free f3] by auto
  have sep: "p \<notin> ?ps" if "p \<in> set stack_pages" for p using pr(5) stack_page_range [OF that] by fastforce
  have st: "\<forall>p\<in>set stack_pages. alook P off (mach s3) p = None" using s3(5) sep none stack_page_user by metis
  have f4: "4 * stack_count \<le> length (drop n fs')" using frames fs s3(2) by simp
  obtain m4 k fr where k: "k \<le> 4 * stack_count" and m4: "allocate_stack X bi P (mach s3) = Inr m4"
      "mem_inv X bi P off tb rt pool m4 (drop k (drop n fs'))" "user_rest P off rt m4 = user_rest P off rt (mach s3)"
      "inj_on fr (set stack_pages)"
      "\<forall>p. alook P off m4 p = (if p \<in> set stack_pages
         then Some (Small (fr p) {WRITABLE, NO_EXECUTE, USER_ACCESSIBLE, PRESENT}) else alook P off (mach s3) p)"
    using allocate_stack_ok [OF s3(3) st f4] by blast
  have u: "user_rest P off rt m4 = user_rest P off rt m2" using m4(3) s3(4) by simp
  note reg = rest_registers(2) [OF u]
  have k4: "kernel_page_table m4 = kernel_page_table (mach s)" "rt (page_tables m4) = rt (page_tables m1)"
    "active off m4 = ?new"
    using reg m2(3,4) ft by (simp_all add: fresh_table_def)
  obtain m5 where m5: "switch_to_kernel_page_table X bi m4 = Inr m5"
      "mem_inv X bi P off tb rt pool m5 (drop k (drop n fs'))" "active off m5 = kernel_page_table m4"
      "m5 = m4\<lparr>cr3 := kernel_page_table m4 - off\<rparr>"
    using switch_ok [OF m4(2) mem_invD(4) [OF m4(2)]] unfolding switch_to_kernel_page_table_def by blast
  have pt5: "page_tables m5 = page_tables m4" "kernel_page_table m5 = kernel_page_table m4" using m5(4) by simp_all
  let ?s' = "s3\<lparr>mach := m5\<rparr>"
  have run: "prepare_application X bi P E H file s =
      Inr (\<lparr>l4_page_table = ?new, entry_point_virt_addr = e_entry E f, heap = h_new H\<rparr>, ?s')"
    using m1(1) m2(1) pr(1,2) s3(1) m4(1) m5(1) by (simp add: prepare_application_def load_def create_user_heap_def Let_def)
  have look: "pg_look P (page_tables m5) ?new p = (if p \<in> set stack_pages
      then Some (Small (fr p) {WRITABLE, NO_EXECUTE, USER_ACCESSIBLE, PRESENT})
      else if l4_index p \<in> set KERNEL_L4_PAGE_TABLE_RANGE then alook P off (mach s) p else None)" if "p \<notin> ?ps" for p
    using m4(5) s3(5) new2 [of p] that unfolding pt5 k4(3) by simp
  have old: "pg_look P (page_tables m5) r p = pg_look P (page_tables (mach s)) r p"
    if "r \<in> rt (page_tables (mach s))" for r p
  proof -
    have "r \<noteq> active off m2" "r \<in> rt (page_tables m2)" using that rt1 m2(3,4) by auto
    then have "pg_look P (page_tables m5) r p = pg_look P (page_tables m2) r p"
      using user_rest_look [OF u] unfolding pt5 by blast
    with that ft m2(4) show ?thesis by (simp add: fresh_table_def)
  qed
  have mem: "in_memory E f (pg_look P (page_tables m5) ?new) (ram s3) pool seg"
    if seg: "seg \<in> set segs" "p_type seg = PT_LOAD" for seg
    unfolding in_memory_def
  proof (rule loaded_keeps [OF s3(6) [rule_format, OF seg, unfolded in_memory_def]])
    fix p assume "p \<in> seg_pages (p_vaddr seg) (p_memsz seg)"
    then have "p \<notin> set stack_pages" using seg sep by (auto simp: pages_def)
    then show "pg_look P (page_tables m5) ?new p = alook P off (mach s3) p"
      using m4(5) k4(3) unfolding pt5 by simp
  qed simp
  have ram: "ram s3 a = ram s a" if "page_of a \<notin> set fs" for a
    using s3(7) that fs set_take_subset [of n fs'] by auto
  have drop: "drop k (drop n fs') = drop (Suc (k + n)) fs" using fs by simp
  have len: "Suc (k + n) \<le> 1 + 4 * (sum_list (map needs segs) + stack_count)" using k s3(2) by simp
  show ?thesis
    using run len rt1 k4 pt5 m5(2,3) look old mem ram m4(4) unfolding drop
    by (intro exI [of _ ?new] exI [of _ ?s'] exI [of _ "Suc (k + n)"] exI [of _ fr]) auto
qed

subsection \<open>Properties\<close>

text \<open>
  C9: preparing a well-formed program succeeds when the memory suffices.  In the new address
  space every loadable segment is at its address, its file contents followed by zeros, in pages
  that are user accessible, writable exactly if the segment is, and executable exactly if the
  segment is executable and not writable.  The stack area has 4095 writable pages with frames of
  their own and an unmapped guard page below; the entry point is that of the file and the heap
  is empty; afterwards the kernel's page table is active.
\<close>

theorem prepare_application_loads:
  assumes "mem_inv X bi P off tb rt pool (mach s) fs" "program_ok E file f segs"
    and "1 + 4 * (sum_list (map needs segs) + stack_count) \<le> length fs"
  shows "\<exists>res s' fr. prepare_application X bi P E H file s = Inr (res, s') \<and>
    entry_point_virt_addr res = e_entry E f \<and> heap res = h_new H \<and>
    active off (mach s') = kernel_page_table (mach s) \<and>
    (\<forall>seg\<in>set segs. p_type seg = PT_LOAD \<longrightarrow> (\<forall>i<p_memsz seg. \<exists>g.
       pg_look P (page_tables (mach s')) (l4_page_table res) (page_of (p_vaddr seg + i)) = Some (Small g (final_flags seg)) \<and>
       ram s' (g + (p_vaddr seg + i) mod 4096) =
         (let data = the (segment_data E f seg) in if i < length data then data ! i else 0))) \<and>
    inj_on fr {0..<4095} \<and>
    (\<forall>i<4095. pg_look P (page_tables (mach s')) (l4_page_table res) (USER_STACK_START + 4096 + i * 4096) =
       Some (Small (fr i) {WRITABLE, NO_EXECUTE, USER_ACCESSIBLE, PRESENT})) \<and>
    pg_look P (page_tables (mach s')) (l4_page_table res) USER_STACK_START = None"
proof -
  obtain new s' n fr where r: "prepare_application X bi P E H file s =
      Inr (\<lparr>l4_page_table = new, entry_point_virt_addr = e_entry E f, heap = h_new H\<rparr>, s')"
    "active off (mach s') = kernel_page_table (mach s)" and fr: "inj_on fr (set stack_pages)"
    and L: "\<forall>p. p \<notin> (\<Union>seg\<in>set segs. pages seg) \<longrightarrow> pg_look P (page_tables (mach s')) new p =
       (if p \<in> set stack_pages then Some (Small (fr p) {WRITABLE, NO_EXECUTE, USER_ACCESSIBLE, PRESENT})
        else if l4_index p \<in> set KERNEL_L4_PAGE_TABLE_RANGE then alook P off (mach s) p else None)"
    and im: "\<forall>seg\<in>set segs. p_type seg = PT_LOAD \<longrightarrow>
       in_memory E f (pg_look P (page_tables (mach s')) new) (ram s') pool seg"
    using prepare_application_ok [OF assms, of H] by blast
  have out: "p \<notin> (\<Union>seg\<in>set segs. pages seg)"
    if "USER_STACK_START \<le> p" "p < USER_STACK_START + USER_STACK_SIZE" for p
    using assms(2) that unfolding program_ok_def by fastforce
  have st: "stack_page i \<in> set stack_pages" if "i < 4095" for i using that by (simp add: stack_count_eq)
  have "pg_look P (page_tables (mach s')) new (stack_page i) =
      Some (Small (fr (stack_page i)) {WRITABLE, NO_EXECUTE, USER_ACCESSIBLE, PRESENT})" if "i < 4095" for i
    using L out [of "stack_page i"] stack_page_range [OF st [OF that]] st [OF that] by simp
  moreover have "inj_on (\<lambda>i. fr (stack_page i)) {0..<4095}"
    using fr st by (auto simp: inj_on_def stack_page_def stack_count_eq)
  moreover have "USER_STACK_START \<notin> set stack_pages" using stack_page_range by blast
  then have "pg_look P (page_tables (mach s')) new USER_STACK_START = None"
    using L out [of USER_STACK_START] by (simp add: layout_values l4_index_def kernel_range_set USER_STACK_SIZE_def)
  ultimately show ?thesis using r im unfolding in_memory_def loaded_def stack_page_def
    by (intro exI [of _ "\<lparr>l4_page_table = new, entry_point_virt_addr = e_entry E f, heap = h_new H\<rparr>"] exI [of _ s']
        exI [of _ "\<lambda>i. fr (stack_page i)"]) (fastforce simp: Let_def stack_page_def)
qed

text \<open>
  C8: preparing a program changes nothing outside its own address space: the translations of all
  other address spaces, the kernel's included, and all bytes outside frames that were free stay
  the same; the new space translates every kernel page as the kernel does.
\<close>

theorem prepare_application_isolated:
  assumes "mem_inv X bi P off tb rt pool (mach s) fs" "program_ok E file f segs"
    and "1 + 4 * (sum_list (map needs segs) + stack_count) \<le> length fs"
  shows "\<exists>res s' n. prepare_application X bi P E H file s = Inr (res, s') \<and>
    mem_inv X bi P off tb rt pool (mach s') (drop n fs) \<and> l4_page_table res \<notin> rt (page_tables (mach s)) \<and>
    (\<forall>r\<in>rt (page_tables (mach s)). \<forall>p.
       pg_look P (page_tables (mach s')) r p = pg_look P (page_tables (mach s)) r p) \<and>
    (\<forall>p. KERNEL_START \<le> p \<longrightarrow> p < KERNEL_END \<longrightarrow>
       pg_look P (page_tables (mach s')) (l4_page_table res) p = pg_look P (page_tables (mach s)) (active off (mach s)) p) \<and>
    (\<forall>a. a div 4096 * 4096 \<notin> set fs \<longrightarrow> ram s' a = ram s a)"
proof -
  obtain new s' n fr where r: "prepare_application X bi P E H file s =
      Inr (\<lparr>l4_page_table = new, entry_point_virt_addr = e_entry E f, heap = h_new H\<rparr>, s')"
    "new \<notin> rt (page_tables (mach s))" "mem_inv X bi P off tb rt pool (mach s') (drop n fs)"
    "\<forall>r\<in>rt (page_tables (mach s)). \<forall>p.
       pg_look P (page_tables (mach s')) r p = pg_look P (page_tables (mach s)) r p"
    "\<forall>a. page_of a \<notin> set fs \<longrightarrow> ram s' a = ram s a"
    and L: "\<forall>p. p \<notin> (\<Union>seg\<in>set segs. pages seg) \<longrightarrow> pg_look P (page_tables (mach s')) new p =
       (if p \<in> set stack_pages then Some (Small (fr p) {WRITABLE, NO_EXECUTE, USER_ACCESSIBLE, PRESENT})
        else if l4_index p \<in> set KERNEL_L4_PAGE_TABLE_RANGE then alook P off (mach s) p else None)"
    using prepare_application_ok [OF assms, of H] by blast
  have "pg_look P (page_tables (mach s')) new p = alook P off (mach s) p" if p: "KERNEL_START \<le> p" "p < KERNEL_END" for p
  proof -
    have "\<not> user_page p" using p by (simp add: user_page_def layout_values)
    then have "p \<notin> (\<Union>seg\<in>set segs. pages seg)" "p \<notin> set stack_pages"
      using program_pages_user [OF assms(2)] stack_page_user by blast+
    moreover have "p < 2 ^ 48" using p by (simp add: layout_values)
    ultimately show ?thesis using L kernel_l4 [of p] p by simp
  qed
  with r show ?thesis unfolding page_of_def
    by (intro exI [of _ "\<lparr>l4_page_table = new, entry_point_virt_addr = e_entry E f, heap = h_new H\<rparr>"] exI [of _ s']
        exI [of _ n]) simp
qed

text \<open>
  C25: no page of a prepared program's address space below the user's end is both writable and
  executable, and all its mapped pages are accessible to the program.
\<close>

theorem prepare_application_write_xor_execute:
  assumes "mem_inv X bi P off tb rt pool (mach s) fs" "program_ok E file f segs"
    and "1 + 4 * (sum_list (map needs segs) + stack_count) \<le> length fs"
  shows "\<exists>res s'. prepare_application X bi P E H file s = Inr (res, s') \<and>
    (\<forall>p<USER_END. \<forall>l. pg_look P (page_tables (mach s')) (l4_page_table res) p = Some l \<longrightarrow>
       (\<exists>g fl. l = Small g fl \<and> USER_ACCESSIBLE \<in> fl \<and> (WRITABLE \<in> fl \<longrightarrow> NO_EXECUTE \<in> fl)))"
proof -
  obtain new s' n fr where r: "prepare_application X bi P E H file s =
      Inr (\<lparr>l4_page_table = new, entry_point_virt_addr = e_entry E f, heap = h_new H\<rparr>, s')"
    and L: "\<forall>p. p \<notin> (\<Union>seg\<in>set segs. pages seg) \<longrightarrow> pg_look P (page_tables (mach s')) new p =
       (if p \<in> set stack_pages then Some (Small (fr p) {WRITABLE, NO_EXECUTE, USER_ACCESSIBLE, PRESENT})
        else if l4_index p \<in> set KERNEL_L4_PAGE_TABLE_RANGE then alook P off (mach s) p else None)"
    and im: "\<forall>seg\<in>set segs. p_type seg = PT_LOAD \<longrightarrow>
       in_memory E f (pg_look P (page_tables (mach s')) new) (ram s') pool seg"
    using prepare_application_ok [OF assms, of H] by blast
  have "\<exists>g fl. l = Small g fl \<and> USER_ACCESSIBLE \<in> fl \<and> (WRITABLE \<in> fl \<longrightarrow> NO_EXECUTE \<in> fl)"
    if p: "p < USER_END" and l: "pg_look P (page_tables (mach s')) new p = Some l" for p l
  proof (cases "p \<in> (\<Union>seg\<in>set segs. pages seg)")
    case True
    then obtain seg i where seg: "seg \<in> set segs" "p_type seg = PT_LOAD" "i < p_memsz seg" "p = page_of (p_vaddr seg + i)"
      by (auto simp: pages_def seg_pages_def le_iff_add split: if_splits)
    then obtain g where "pg_look P (page_tables (mach s')) new p = Some (Small g (final_flags seg))"
      using im unfolding in_memory_def loaded_def by blast
    with l show ?thesis by (auto simp: final_flags_def)
  next
    case False
    have "l4_index p \<notin> set KERNEL_L4_PAGE_TABLE_RANGE"
      using p by (simp add: layout_values l4_index_def kernel_range_set)
    with False L l show ?thesis by (auto split: if_splits)
  qed
  with r show ?thesis by auto
qed

subsection \<open>A concrete program\<close>

text \<open>A code segment of three bytes and a data segment of one byte and nineteen zeros.\<close>

definition text_seg :: Segment where
  "text_seg = \<lparr>p_type = 1, p_vaddr = 2097152, p_memsz = 3, p_flags = 5\<rparr>"

definition data_seg :: Segment where
  "data_seg = \<lparr>p_type = 1, p_vaddr = 2101256, p_memsz = 20, p_flags = 6\<rparr>"

definition elf_ex :: "unit elf_lib" where
  "elf_ex = \<lparr>minimal_parse = (\<lambda>_. Some ()), e_entry = (\<lambda>_. 2097152), segments = (\<lambda>_. Some [text_seg, data_seg]),
     segment_data = (\<lambda>_ seg. Some (if p_flags seg = 5 then [1, 2, 3] else [9]))\<rparr>"

lemma seg_pages_one:
  assumes "v = q * 4096 + o1" "o1 + len \<le> 4096" "0 < len"
  shows "seg_pages v len = {q * 4096}" "page_count v len = 1"
proof -
  have "page_of w = q * 4096" if "w \<in> {v..<v + len}" for w
  proof -
    have "w div 4096 = q" using that assms by (intro div_nat_eqI) auto
    then show ?thesis by (simp add: page_of_def)
  qed
  moreover have "v \<in> {v..<v + len}" using assms(3) by simp
  ultimately show "seg_pages v len = {q * 4096}" unfolding seg_pages_def by force
  have "v mod 4096 = o1" using assms by (simp add: mod_nat_eqI)
  then show "page_count v len = 1" using assms unfolding page_count_def by (intro div_nat_eqI) auto
qed

lemma flags_ex: "(5 :: u32) AND 1 = 1" "(5 :: u32) AND 2 = 0" "(6 :: u32) AND 2 = 2" "(6 :: u32) AND 4 = 4" "(6 :: u32) AND 1 = 0"
  by simp_all

lemma pages_ex: "pages text_seg = {2097152}" "pages data_seg = {2101248}" "needs text_seg = 1" "needs data_seg = 1"
  using seg_pages_one [of 2097152 512 0 3] seg_pages_one [of 2101256 513 8 20]
  by (simp_all add: pages_def needs_def text_seg_def data_seg_def PT_LOAD_def)

lemma program_ex: "program_ok elf_ex file () [text_seg, data_seg]"
proof -
  have "loadable elf_ex () text_seg" "loadable elf_ex () data_seg"
    by (simp_all add: loadable_def elf_ex_def text_seg_def data_seg_def read_flag_def exec_flag_def
        PF_R_def PF_X_def layout_values)
  then show ?thesis by (simp add: program_ok_def pages_ex elf_ex_def layout_values)
qed

lemma program_ex_needs: "1 + 4 * (sum_list (map needs [text_seg, data_seg]) + stack_count) \<le> 20000"
  by (simp add: pages_ex stack_count_eq)

lemma machine_ex:
  obtains s fs where "new_memory x86_ref (bi_frames 20000) (translate_frames 20000) Map.empty 4096 pt_mem = Inr s"
    "inv_frames 20000 s fs" "length fs = 20000" "kernel_page_table s = off_mem + 4096"
  by (rule new_memory_frames [of 20000]) simp_all

theorem prepare_application_loads_witness:
  "\<exists>s res s' g. new_memory x86_ref (bi_frames 20000) (translate_frames 20000) Map.empty 4096 pt_mem = Inr s \<and>
     prepare_application x86_ref (bi_frames 20000) paging_ref elf_ex heap_ref [] \<lparr>mach = s, ram = (\<lambda>_. 7)\<rparr> = Inr (res, s') \<and>
     ram s' (g + 1) = 2"
proof -
  obtain s fs where s: "new_memory x86_ref (bi_frames 20000) (translate_frames 20000) Map.empty 4096 pt_mem = Inr s"
    "inv_frames 20000 s fs" "length fs = 20000" by (rule machine_ex)
  let ?s = "\<lparr>mach = s, ram = (\<lambda>_. 7)\<rparr>"
  have i: "inv_frames 20000 (mach ?s) fs" using s(2) by simp
  have n: "1 + 4 * (sum_list (map needs [text_seg, data_seg]) + stack_count) \<le> length fs"
    unfolding s(3) by (rule program_ex_needs)
  obtain res s' where r: "prepare_application x86_ref (bi_frames 20000) paging_ref elf_ex heap_ref [] ?s = Inr (res, s')"
    and "\<forall>seg\<in>set [text_seg, data_seg]. p_type seg = PT_LOAD \<longrightarrow> (\<forall>i<p_memsz seg. \<exists>g.
       pg_look paging_ref (page_tables (mach s')) (l4_page_table res) (page_of (p_vaddr seg + i)) = Some (Small g (final_flags seg)) \<and>
       ram s' (g + (p_vaddr seg + i) mod 4096) =
         (let data = the (segment_data elf_ex () seg) in if i < length data then data ! i else 0))"
    using prepare_application_loads [OF i program_ex n, of heap_ref] by blast
  then have "\<forall>i<3. \<exists>g. ram s' (g + (2097152 + i) mod 4096) =
      (let data = the (segment_data elf_ex () text_seg) in if i < length data then data ! i else 0)"
    by (fastforce simp: text_seg_def PT_LOAD_def)
  then have "\<exists>g. ram s' (g + (2097152 + 1) mod 4096) =
      (let data = the (segment_data elf_ex () text_seg) in if 1 < length data then data ! 1 else 0)" by (meson one_less_numeral_iff semiring_norm)
  then obtain g where "ram s' (g + 1) = 2" by (auto simp: elf_ex_def text_seg_def)
  with s(1) r show ?thesis by blast
qed

theorem prepare_application_isolated_witness:
  "\<exists>s res s'. new_memory x86_ref (bi_frames 20000) (translate_frames 20000) Map.empty 4096 pt_mem = Inr s \<and>
     prepare_application x86_ref (bi_frames 20000) paging_ref elf_ex heap_ref [] \<lparr>mach = s, ram = (\<lambda>_. 7)\<rparr> = Inr (res, s') \<and>
     l4_page_table res \<notin> rt_ref off_mem (page_tables s)"
proof -
  obtain s fs where s: "new_memory x86_ref (bi_frames 20000) (translate_frames 20000) Map.empty 4096 pt_mem = Inr s"
    "inv_frames 20000 s fs" "length fs = 20000" by (rule machine_ex)
  have i: "inv_frames 20000 (mach \<lparr>mach = s, ram = (\<lambda>_. 7)\<rparr>) fs" using s(2) by simp
  have n: "1 + 4 * (sum_list (map needs [text_seg, data_seg]) + stack_count) \<le> length fs"
    unfolding s(3) by (rule program_ex_needs)
  from prepare_application_isolated [OF i program_ex [of "[]"] n, of heap_ref] s(1) show ?thesis by auto
qed

theorem prepare_application_write_xor_execute_witness:
  "\<exists>s res s'. new_memory x86_ref (bi_frames 20000) (translate_frames 20000) Map.empty 4096 pt_mem = Inr s \<and>
     prepare_application x86_ref (bi_frames 20000) paging_ref elf_ex heap_ref [] \<lparr>mach = s, ram = (\<lambda>_. 7)\<rparr> = Inr (res, s')"
proof -
  obtain s fs where s: "new_memory x86_ref (bi_frames 20000) (translate_frames 20000) Map.empty 4096 pt_mem = Inr s"
    "inv_frames 20000 s fs" "length fs = 20000" by (rule machine_ex)
  have i: "inv_frames 20000 (mach \<lparr>mach = s, ram = (\<lambda>_. 7)\<rparr>) fs" using s(2) by simp
  have n: "1 + 4 * (sum_list (map needs [text_seg, data_seg]) + stack_count) \<le> length fs"
    unfolding s(3) by (rule program_ex_needs)
  from prepare_application_write_xor_execute [OF i program_ex [of "[]"] n, of heap_ref] s(1) show ?thesis by auto
qed

end
