(* ===== verification/Smp_Stacks.thy ===== *)
theory Smp_Stacks
  imports Ram_Mapper
begin

text \<open>
  The stacks of the application processors: \<open>allocate_stacks\<close> and \<open>calc_stack_stride\<close> of
  kernel/src/smp.rs, and the stack pointer that the trampoline smp_trampoline/ap.asm computes from
  the stride, the base and the core's index.
\<close>

definition stack_pages_per_core :: "x86 \<Rightarrow> nat res" where
  "stack_pages_per_core X = bnd (x_align_up X KERNEL_STACK_SIZE 4096) (\<lambda>a. Inr (a div 4096))"

text \<open>One page of a stack: the loop carries the next address.\<close>

definition allocate_stack_page ::
  "x86 \<Rightarrow> BootInfo \<Rightarrow> ('pt, 'e) paging \<Rightarrow> nat \<times> 'pt machine \<Rightarrow> (nat \<times> 'pt machine) res"
where
  "allocate_stack_page X bi P = (\<lambda>(virt_addr, m).
     bnd (x_virt_new X virt_addr) (\<lambda>v.
     bnd (unwrap (x_page_from_start X v)) (\<lambda>page.
     bnd (map_ram_kernel X bi P page {WRITABLE, NO_EXECUTE} m) (\<lambda>(_, m).
     bnd (cadd virt_addr 4096) (\<lambda>virt_addr. Inr (virt_addr, m))))))"

definition allocate_core_stack ::
  "x86 \<Rightarrow> BootInfo \<Rightarrow> ('pt, 'e) paging \<Rightarrow> nat \<Rightarrow> nat \<times> 'pt machine \<Rightarrow> (nat \<times> 'pt machine) res"
where
  "allocate_core_stack X bi P pages_per_core = (\<lambda>(virt_addr, m).
     bnd (cadd virt_addr 4096) (\<lambda>virt_addr.
     foldm (\<lambda>_. allocate_stack_page X bi P) [0..<pages_per_core] (virt_addr, m)))"

definition allocate_stacks ::
  "x86 \<Rightarrow> BootInfo \<Rightarrow> ('pt, 'e) paging \<Rightarrow> nat \<Rightarrow> 'pt machine \<Rightarrow> 'pt machine res"
where
  "allocate_stacks X bi P ap_core_count m =
     bnd (stack_pages_per_core X) (\<lambda>pages_per_core.
     bnd (foldm (\<lambda>_. allocate_core_stack X bi P pages_per_core) [0..<ap_core_count] (KERNEL_AP_STACKS, m)) (\<lambda>(_, m).
     Inr m))"

definition calc_stack_stride :: "x86 \<Rightarrow> nat res" where
  "calc_stack_stride X =
     bnd (stack_pages_per_core X) (\<lambda>pages_per_core.
     bnd (cadd pages_per_core 1) (\<lambda>n. cmul n 4096))"

text \<open>\<open>v::KERNEL_AP_STACKS + stack_stride - 1\<close> of \<open>init_smp\<close>.\<close>

definition ap_stack_base :: "nat \<Rightarrow> nat res" where
  "ap_stack_base stack_stride = bnd (cadd KERNEL_AP_STACKS stack_stride) (\<lambda>a. csub a 1)"

text \<open>The trampoline: \<open>imul rbp, [STACK_STRIDE]\<close>, \<open>add rbp, [STACK_BASE_ADDR]\<close>, \<open>mov rsp, rbp\<close>.\<close>

definition ap_stack_pointer :: "u64 \<Rightarrow> u64 \<Rightarrow> u64 \<Rightarrow> u64" where
  "ap_stack_pointer stride base index = index * stride + base"

subsection \<open>The pages of the stacks\<close>

definition core_page :: "nat \<Rightarrow> nat \<Rightarrow> nat" where
  "core_page i j = KERNEL_AP_STACKS + i * (1025 * 4096) + 4096 + j * 4096"

definition guard_page :: "nat \<Rightarrow> nat" where
  "guard_page i = KERNEL_AP_STACKS + i * (1025 * 4096)"

text \<open>The number of pages of a stack, kept folded so that ranges of pages are not unrolled.\<close>

definition ppc :: nat where
  "ppc = 1024"

definition core_pages :: "nat \<Rightarrow> nat list" where
  "core_pages i = map (core_page i) [0..<ppc]"

definition stack_list :: "nat \<Rightarrow> nat list" where
  "stack_list n = concat (map core_pages [0..<n])"

lemma stack_pages_per_core_eq: "x86_ok X \<Longrightarrow> stack_pages_per_core X = Inr ppc"
  by (simp add: stack_pages_per_core_def x86_align_page(2) KERNEL_STACK_SIZE_def ppc_def)

lemma calc_stack_stride_eq: "x86_ok X \<Longrightarrow> calc_stack_stride X = Inr (1025 * 4096)"
  by (simp add: calc_stack_stride_def stack_pages_per_core_eq ppc_def)

lemma core_page_inj: "j < ppc \<Longrightarrow> j' < ppc \<Longrightarrow> core_page i j = core_page i' j' \<longleftrightarrow> i = i' \<and> j = j'"
proof
  assume j: "j < ppc" "j' < ppc" and eq: "core_page i j = core_page i' j'"
  then have "i * 1025 + j = i' * 1025 + j'" by (simp add: core_page_def)
  then show "i = i' \<and> j = j'" using j by (intro digit_unique) (simp_all add: ppc_def)
qed simp

lemma stack_list_product: "stack_list n = map (\<lambda>(i, j). core_page i j) (List.product [0..<n] [0..<ppc])"
  unfolding stack_list_def product_concat_map by (simp add: map_concat comp_def core_pages_def fun_eq_iff cong: map_cong)

lemma distinct_stack_list: "distinct (stack_list n)"
  unfolding stack_list_product by (auto simp: distinct_map distinct_product inj_on_def core_page_inj)

lemma length_stack_list: "length (stack_list n) = n * ppc"
  by (simp add: stack_list_product)

lemma set_stack_list: "p \<in> set (stack_list n) \<longleftrightarrow> (\<exists>i<n. \<exists>j<ppc. p = core_page i j)"
  unfolding stack_list_def core_pages_def by fastforce

lemma core_page_kernel: "i < 255 \<Longrightarrow> j < ppc \<Longrightarrow> kernel_page (core_page i j)"
proof -
  assume "i < 255" "j < ppc"
  then have "i * (1025 * 4096) + 4096 + j * 4096 < 2 ^ 39" by (simp add: ppc_def)
  moreover have "4096 dvd KERNEL_AP_STACKS" by (simp add: layout_values dvd_eq_mod_eq_0)
  then have "4096 dvd core_page i j" by (simp add: core_page_def)
  ultimately show ?thesis by (simp add: kernel_page_def core_page_def layout_values)
qed

lemma guard_page_dvd: "4096 dvd guard_page i"
proof -
  have "4096 dvd KERNEL_AP_STACKS" by (simp add: layout_values dvd_eq_mod_eq_0)
  then show ?thesis by (simp add: guard_page_def)
qed

lemma guard_not_stack: "guard_page i \<notin> set (stack_list n)"
proof
  assume "guard_page i \<in> set (stack_list n)"
  then obtain k j where "j < ppc" "guard_page i = core_page k j" by (auto simp: set_stack_list)
  then have "i * 1025 + 0 = k * 1025 + (j + 1)" "j + 1 < 1025" by (simp_all add: guard_page_def core_page_def ppc_def)
  with digit_unique [of i 1025 0 k "j + 1"] show False by simp
qed

subsection \<open>The loops map the list of pages\<close>

lemma map_pages_append: "map_pages f fl (xs @ ys) s = bnd (map_pages f fl xs s) (map_pages f fl ys)"
  by (simp add: map_pages_def foldm_append)

lemma core_stack_loop:
  assumes "x86_ok X" "4096 dvd v" "v + length xs * 4096 < 2 ^ 47"
  shows "foldm (\<lambda>_. allocate_stack_page X bi P) xs (v, m) =
    bnd (map_pages (map_ram_kernel X bi P) {WRITABLE, NO_EXECUTE} (map (\<lambda>j. v + j * 4096) [0..<length xs]) m)
      (\<lambda>m. Inr (v + length xs * 4096, m))"
  using assms(2,3)
proof (induction xs arbitrary: v m)
  case Nil
  then show ?case by (simp add: map_pages_def)
next
  case (Cons x xs)
  have v: "x_virt_new X v = Inr v" "x_page_from_start X v = Some v"
    using Cons.prems by (simp_all add: x86_addr_simps [OF assms(1)] x86_page_simps [OF assms(1)])
  have "map (\<lambda>j. v + j * 4096) [0..<length (x # xs)] = v # map (\<lambda>j. v + 4096 + j * 4096) [0..<length xs]"
    by (simp add: map_upt_Suc add.assoc del: upt_Suc)
  with v Cons.prems Cons.IH [of "v + 4096"] show ?case
    by (simp add: allocate_stack_page_def map_pages_def bnd_assoc case_prod_beta add.assoc del: upt_Suc cong: bnd_cong)
qed

lemma stacks_loop:
  assumes "x86_ok X" "a + length xs \<le> 255"
  shows "foldm (\<lambda>_. allocate_core_stack X bi P ppc) xs (guard_page a, m) =
    bnd (map_pages (map_ram_kernel X bi P) {WRITABLE, NO_EXECUTE} (concat (map core_pages [a..<a + length xs])) m)
      (\<lambda>m. Inr (guard_page (a + length xs), m))"
  using assms(2)
proof (induction xs arbitrary: a m)
  case Nil
  then show ?case by (simp add: map_pages_def)
next
  case (Cons x xs)
  let ?v = "guard_page a + 4096"
  have b: "guard_page a + 4096 + length [0..<ppc] * 4096 < 2 ^ 47" "4096 dvd ?v"
    using Cons.prems guard_page_dvd [of a] by (simp_all add: guard_page_def layout_values ppc_def)
  have g: "?v + ppc * 4096 = guard_page (Suc a)" by (simp add: guard_page_def ppc_def)
  have c: "map (\<lambda>j. ?v + j * 4096) [0..<ppc] = core_pages a" by (simp add: core_pages_def core_page_def guard_page_def)
  have "allocate_core_stack X bi P ppc (guard_page a, m) =
      bnd (map_pages (map_ram_kernel X bi P) {WRITABLE, NO_EXECUTE} (core_pages a) m) (\<lambda>m. Inr (guard_page (Suc a), m))" for m
    using core_stack_loop [OF assms(1) b(2,1)] b(1) c g by (simp add: allocate_core_stack_def)
  moreover have "[a..<a + length (x # xs)] = a # [Suc a..<Suc a + length xs]"
    by (simp add: upt_conv_Cons del: upt_Suc)
  ultimately show ?case using Cons.IH [of "Suc a"] Cons.prems
    by (simp add: map_pages_append bnd_assoc del: upt_Suc cong: bnd_cong)
qed

lemma allocate_stacks_eq:
  assumes "x86_ok X" "n \<le> 255"
  shows "allocate_stacks X bi P n m = map_pages (map_ram_kernel X bi P) {WRITABLE, NO_EXECUTE} (stack_list n) m"
proof -
  have g: "KERNEL_AP_STACKS = guard_page 0" by (simp add: guard_page_def)
  have len: "0 + length [0..<n] \<le> 255" using assms(2) by simp
  let ?r = "map_pages (map_ram_kernel X bi P) {WRITABLE, NO_EXECUTE} (stack_list n) m"
  have "allocate_stacks X bi P n m = bnd (bnd ?r (\<lambda>m. Inr (guard_page n, m))) (\<lambda>(_, m). Inr m)"
    unfolding allocate_stacks_def stack_pages_per_core_eq [OF assms(1)] bnd_Inr g
    using stacks_loop [OF assms(1) len, of bi P m] by (simp add: stack_list_def)
  also have "\<dots> = ?r" by (cases ?r) simp_all
  finally show ?thesis .
qed

subsection \<open>The stack pointer\<close>

lemma ap_stack_base_eq: "ap_stack_base (1025 * 4096) = Inr (KERNEL_AP_STACKS + 1025 * 4096 - 1)"
  by (simp add: ap_stack_base_def layout_values)

lemma ap_stack_pointer_eq:
  assumes "i < 255"
  shows "unat (ap_stack_pointer (of_nat (1025 * 4096)) (of_nat (KERNEL_AP_STACKS + 1025 * 4096 - 1)) (of_nat i)) =
    guard_page (Suc i) - 1"
proof -
  have "ap_stack_pointer (of_nat (1025 * 4096)) (of_nat (KERNEL_AP_STACKS + 1025 * 4096 - 1)) (of_nat i) =
      of_nat (guard_page (Suc i) - 1)"
    by (simp add: ap_stack_pointer_def guard_page_def layout_values)
  moreover have "guard_page (Suc i) - 1 < 2 ^ 64" using assms by (simp add: guard_page_def layout_values)
  ultimately show ?thesis by (simp add: unsigned_of_nat take_bit_nat_eq_self)
qed

lemma stack_byte_page:
  assumes "k < ppc * 4096"
  shows "(guard_page (Suc i) - 1 - k) div 4096 * 4096 = core_page i (ppc - 1 - k div 4096)"
proof -
  obtain q where q: "guard_page i = q * 4096" using guard_page_dvd [of i] by (auto elim: dvdE simp: mult.commute)
  have g: "guard_page (Suc i) = (q + 1025) * 4096" using q by (simp add: guard_page_def)
  have d: "k div 4096 < 1024" using assms by (simp add: ppc_def less_mult_imp_div_less)
  have "k = k div 4096 * 4096 + k mod 4096" by simp
  then have eq: "guard_page (Suc i) - 1 - k = (q + 1024 - k div 4096) * 4096 + (4095 - k mod 4096)"
    using g d mod_less_divisor [of 4096 k] by (simp add: algebra_simps)
  have "(guard_page (Suc i) - 1 - k) div 4096 = q + 1024 - k div 4096"
    unfolding eq by (rule div_nat_eqI) simp_all
  moreover have "core_page i (ppc - 1 - k div 4096) = q * 4096 + 4096 + (1023 - k div 4096) * 4096"
    using q by (simp add: core_page_def guard_page_def ppc_def)
  moreover have "(q + 1024 - k div 4096) * 4096 = q * 4096 + 4096 + (1023 - k div 4096) * 4096"
  proof -
    have "q + 1024 - k div 4096 = q + 1 + (1023 - k div 4096)" using d by simp
    then show ?thesis by (simp only: distrib_right mult_1)
  qed
  ultimately show ?thesis by (simp only:)
qed

text \<open>The area of the stacks of \<open>n\<close> cores.\<close>

definition stack_area :: "nat \<Rightarrow> nat set" where
  "stack_area n = {KERNEL_AP_STACKS..<KERNEL_AP_STACKS + n * (1025 * 4096)}"

lemma in_stack_area: "p \<in> set (stack_list n) \<or> (\<exists>i<n. p = guard_page i) \<Longrightarrow> p \<in> stack_area n"
proof -
  assume "p \<in> set (stack_list n) \<or> (\<exists>i<n. p = guard_page i)"
  then obtain i d where d: "i < n" "p = KERNEL_AP_STACKS + i * (1025 * 4096) + d" "d < 1025 * 4096"
    by (force simp: set_stack_list core_page_def guard_page_def ppc_def)
  have "Suc i * (1025 * 4096) \<le> n * (1025 * 4096)" using d(1) by (intro mult_le_mono1) simp
  with d(2,3) show ?thesis by (simp add: stack_area_def)
qed

lemma allocate_stacks_ok:
  assumes "mem_inv X bi P off tb rt pool s fs" "n \<le> 255" "4 * (n * 1024) \<le> length fs"
    and "\<forall>p\<in>stack_area n. alook P off s p = None"
  obtains s' k fr where "allocate_stacks X bi P n s = Inr s'" "k \<le> 4 * (n * 1024)"
    "mem_inv X bi P off tb rt pool s' (drop k fs)" "kernel_rest P rt s' = kernel_rest P rt s"
    "inj_on fr (set (stack_list n))"
    "\<And>p. alook P off s' p = (if p \<in> set (stack_list n)
       then Some (Small (fr p) {WRITABLE, NO_EXECUTE, PRESENT}) else alook P off s p)"
proof -
  have X: "x86_ok X" using mem_invD(8) [OF assms(1)] by (simp add: dm_ok_def)
  have pre: "\<forall>p\<in>set (stack_list n). kernel_page p \<and> alook P off s p = None"
    using assms(2,4) in_stack_area [of _ n] core_page_kernel by (auto simp: set_stack_list)
  have len: "4 * length (stack_list n) \<le> length fs" using assms(3) by (simp add: length_stack_list ppc_def)
  have fl: "kernel_final {WRITABLE, NO_EXECUTE} = {WRITABLE, NO_EXECUTE, PRESENT}" by (auto simp: kernel_final_def)
  show ?thesis
    using kernel_ram.map_all [OF assms(1) distinct_stack_list pre len, of "{WRITABLE, NO_EXECUTE}",
        unfolded kernel_ram.backed_def fl length_stack_list] that
    unfolding allocate_stacks_eq [OF X assms(2)] ppc_def by blast
qed

subsection \<open>Properties\<close>

text \<open>
  With at most 255 application processors, enough memory and an unmapped stack area, every
  core gets 1024 writable, not executable pages, each page of each core in a frame of its own;
  the page below each stack stays unmapped and no user page of any address space changes.
\<close>

lemma allocate_stacks_maps:
  assumes "mem_inv X bi P off tb rt pool s fs" "n \<le> 255" "4 * (n * 1024) \<le> length fs"
    and "\<forall>p\<in>stack_area n. pg_look P (page_tables s) (active off s) p = None"
  shows "\<exists>s' k fr. allocate_stacks X bi P n s = Inr s' \<and> mem_inv X bi P off tb rt pool s' (drop k fs) \<and>
    (\<forall>i<n. \<forall>j<1024. pg_look P (page_tables s') (active off s') (core_page i j) =
       Some (Small (fr (core_page i j)) {WRITABLE, NO_EXECUTE, PRESENT})) \<and>
    inj_on fr {core_page i j |i j. i < n \<and> j < 1024} \<and>
    (\<forall>i<n. pg_look P (page_tables s') (active off s') (guard_page i) = None) \<and>
    (\<forall>r\<in>rt (page_tables s). \<forall>p. \<not> kernel_page p \<longrightarrow> pg_look P (page_tables s') r p = pg_look P (page_tables s) r p)"
proof -
  obtain s' k fr where s': "allocate_stacks X bi P n s = Inr s'" "k \<le> 4 * (n * 1024)"
      "mem_inv X bi P off tb rt pool s' (drop k fs)" "kernel_rest P rt s' = kernel_rest P rt s" "inj_on fr (set (stack_list n))"
      "\<And>p. alook P off s' p = (if p \<in> set (stack_list n)
         then Some (Small (fr p) {WRITABLE, NO_EXECUTE, PRESENT}) else alook P off s p)"
    using allocate_stacks_ok [OF assms] by blast
  have mem: "core_page i j \<in> set (stack_list n)" if "i < n" "j < 1024" for i j
    using that by (auto simp: set_stack_list ppc_def)
  have "{core_page i j |i j. i < n \<and> j < 1024} \<subseteq> set (stack_list n)" using mem by auto
  then have "inj_on fr {core_page i j |i j. i < n \<and> j < 1024}" by (rule inj_on_subset [OF s'(5)])
  moreover have "alook P off s' (guard_page i) = None" if "i < n" for i
    using s'(6) guard_not_stack [of i n] assms(4) in_stack_area [of "guard_page i" n] that by auto
  moreover have "\<forall>r\<in>rt (page_tables s). \<forall>p. \<not> kernel_page p \<longrightarrow> pg_look P (page_tables s') r p = pg_look P (page_tables s) r p"
    using kernel_rest_look [OF s'(4)] by blast
  ultimately show ?thesis using s'(1,3,6) mem
    by (intro exI [of _ s'] exI [of _ k] exI [of _ fr]) simp
qed

text \<open>
  C27: the stack pointer that the trampoline gives core \<open>i\<close> is the last byte of that core's stack;
  the 4 MiB below it are exactly the core's own pages and the byte below them is in the core's
  guard page.  The pointer is odd, where the calling convention of the entry function asks for
  an address of the form \<open>16 * k + 8\<close>.
\<close>

theorem ap_stack_pointer_in_own_stack:
  assumes "x86_ok X" "i < 255"
  shows "\<exists>stride base. calc_stack_stride X = Inr stride \<and> ap_stack_base stride = Inr base \<and>
    (let sp = unat (ap_stack_pointer (of_nat stride) (of_nat base) (of_nat i)) in
     (\<forall>k<1024 * 4096. (sp - k) div 4096 * 4096 = core_page i (1023 - k div 4096)) \<and>
     (sp - 1024 * 4096) div 4096 * 4096 = guard_page i \<and> sp mod 16 = 15)"
proof -
  obtain q where q: "guard_page i = q * 4096" using guard_page_dvd [of i] by (auto elim: dvdE simp: mult.commute)
  have g: "guard_page (Suc i) - 1 = (q + 1024) * 4096 + 4095" using q by (simp add: guard_page_def)
  have "guard_page (Suc i) - 1 = ((q + 1024) * 256 + 255) * 16 + 15" unfolding g by simp
  moreover have "(a * 16 + 15) mod 16 = (15 :: nat)" for a by simp
  ultimately have m: "(guard_page (Suc i) - 1) mod 16 = 15" by (simp only:)
  have "guard_page (Suc i) - 1 - 1024 * 4096 = q * 4096 + 4095" unfolding g by simp
  then have "(guard_page (Suc i) - 1 - 1024 * 4096) div 4096 * 4096 = guard_page i" unfolding q by simp
  with m stack_byte_page [of _ i, unfolded ppc_def] show ?thesis
    using calc_stack_stride_eq [OF assms(1)] ap_stack_base_eq ap_stack_pointer_eq [OF assms(2)]
    by (intro exI [of _ "1025 * 4096"] exI [of _ "KERNEL_AP_STACKS + 1025 * 4096 - 1"]) (simp add: Let_def)
qed

lemma allocate_stacks_maps_witness:
  "\<exists>s s' f. new_memory x86_ref (bi_frames 20000) (translate_frames 20000) Map.empty 4096 pt_mem = Inr s \<and>
     allocate_stacks x86_ref (bi_frames 20000) paging_ref 3 s = Inr s' \<and>
     pg_look paging_ref (page_tables s') (off_mem + cr3 s') (core_page 2 7) = Some (Small f {WRITABLE, NO_EXECUTE, PRESENT})"
proof -
  obtain s fs where s: "new_memory x86_ref (bi_frames 20000) (translate_frames 20000) Map.empty 4096 pt_mem = Inr s"
    "inv_frames 20000 s fs" "length fs = 20000" "page_tables s = pt_mem" by (rule new_memory_frames [of 20000]) simp_all
  from allocate_stacks_maps [OF s(2), of 3] s(1,3,4) show ?thesis by auto
qed

theorem ap_stack_pointer_in_own_stack_witness:
  "\<exists>stride base. calc_stack_stride x86_ref = Inr stride \<and> ap_stack_base stride = Inr base \<and>
     unat (ap_stack_pointer (of_nat stride) (of_nat base) 2) mod 16 = 15"
  using ap_stack_pointer_in_own_stack [OF x86_ref_ok, of 2] by (auto simp: Let_def)

end
