(* ===== verification/Smp.thy ===== *)
theory Smp
  imports Smp_Stacks User_Memory Apic_Timer Ram_Disk
begin

text \<open>
  Starting the application processors, kernel/src/smp.rs: \<open>init_smp\<close>, \<open>startup_aps\<close> and
  \<open>ap_entry_fn\<close>, and what the trampoline smp_trampoline/ap.asm reads from the first page.  The
  addresses of the counter and of the entry function are chosen by the linker and are parameters.
  The counter of started cores is written by the other cores; \<open>readings k\<close> is its value when the
  bootstrap processor reads it for the \<open>k\<close>-th time.  The interleaving of the cores is the subject
  of \<open>Smp_Protocol\<close>.
\<close>

text \<open>The assembled trampoline smp_trampoline/ap.bin.\<close>

definition CODE :: "u8 list" where
  "CODE = [
     0xfa, 0xfc, 0xb8, 0x0, 0x0, 0x8e, 0xd0, 0x8e, 0xd8, 0x8e, 0xc0, 0x66, 0x8b, 0xe, 0x0, 0xa, 0xf, 0x22, 0xd9, 0xf,
     0x20, 0xe0, 0x66, 0x83, 0xc8, 0x20, 0xf, 0x22, 0xe0, 0x66, 0xb9, 0x80, 0x0, 0x0, 0xc0, 0xf, 0x32, 0x66, 0xd, 0x0,
     0x1, 0x0, 0x0, 0x66, 0xd, 0x0, 0x8, 0x0, 0x0, 0xf, 0x30, 0xf, 0x1, 0x16, 0x66, 0x0, 0xf, 0x20, 0xc0, 0x66,
     0xd, 0x1, 0x0, 0x0, 0x80, 0xf, 0x22, 0xc0, 0x66, 0xea, 0x6c, 0x0, 0x0, 0x0, 0x8, 0x0, 0x0, 0x0, 0x0, 0x0,
     0x0, 0x0, 0x0, 0x0, 0x0, 0x0, 0x0, 0x0, 0x0, 0x9a, 0x20, 0x0, 0x0, 0x0, 0x0, 0x0, 0x0, 0x92, 0x0, 0x0,
     0x0, 0x0, 0x19, 0x0, 0x4c, 0x0, 0x0, 0x0, 0x66, 0xb8, 0x10, 0x0, 0x8e, 0xd8, 0x8e, 0xc0, 0x8e, 0xe0, 0x8e, 0xe8,
     0x8e, 0xd0, 0xf, 0x20, 0xc0, 0x48, 0x83, 0xe0, 0xfb, 0x48, 0x83, 0xc8, 0x2, 0xf, 0x22, 0xc0, 0x48, 0x8b, 0x4, 0x25,
     0x0, 0xb, 0x0, 0x0, 0xbd, 0x1, 0x0, 0x0, 0x0, 0xf0, 0x48, 0xf, 0xc1, 0x28, 0x48, 0x89, 0xef, 0x48, 0xf, 0xaf,
     0x2c, 0x25, 0x10, 0xb, 0x0, 0x0, 0x48, 0x3, 0x2c, 0x25, 0x20, 0xb, 0x0, 0x0, 0x48, 0x89, 0xec, 0xff, 0x24, 0x25,
     0x30, 0xb, 0x0, 0x0, 0xeb, 0xfe]"

definition startup_aps ::
  "u8 bitfield \<Rightarrow> u64 bitfield \<Rightarrow> 'd hw \<Rightarrow> 'd kernel \<Rightarrow> 'd kernel res option"
where
  "startup_aps BF8 BF64 H k =
     (case get_apic k of
        Inl e \<Rightarrow> Some (Inl e)
      | Inr apic \<Rightarrow>
          let init_cmd = create_send_init_cmd BF64;
              startup_cmd = create_startup_cmd BF64 0;
              d = write_interrupt_command BF64 H apic init_cmd (device k)
          in case delay BF8 (hw_ports H) 10000 d of
               None \<Rightarrow> None
             | Some (Inl _, _) \<Rightarrow> Some (Inl UnwrapNone)
             | Some (Inr _, d) \<Rightarrow>
                 let d = write_interrupt_command BF64 H apic startup_cmd d
                 in case delay BF8 (hw_ports H) 200 d of
                      None \<Rightarrow> None
                    | Some (Inl _, _) \<Rightarrow> Some (Inl UnwrapNone)
                    | Some (Inr _, d) \<Rightarrow>
                        Some (Inr (k\<lparr>device := write_interrupt_command BF64 H apic startup_cmd d\<rparr>)))"

text \<open>\<open>while AP_STARTUP_DONE_COUNTER < ap_core_count && time_out > 0 { time_out -= 1 }\<close>; the result is the time left.\<close>

function wait_aps :: "(nat \<Rightarrow> nat) \<Rightarrow> nat \<Rightarrow> nat \<Rightarrow> nat \<Rightarrow> nat" where
  "wait_aps readings n k time_out =
     (if readings k < n \<and> time_out > 0 then wait_aps readings n (k + 1) (time_out - 1) else time_out)"
  by pat_completeness auto
termination by (relation "measure (\<lambda>(_, _, _, t). t)") auto

definition page_0 :: "x86 \<Rightarrow> nat res" where
  "page_0 X = bnd (x_virt_new X 0) (\<lambda>v. unwrap (x_page_from_start X v))"

definition frame_0 :: "x86 \<Rightarrow> nat res" where
  "frame_0 X = bnd (x_phys_new X 0) (\<lambda>p. unwrap (x_frame_from_start X p))"

definition store_u64 ::
  "x86 \<Rightarrow> BootInfo \<Rightarrow> ('pt, 'e) paging \<Rightarrow> nat \<Rightarrow> u64 \<Rightarrow> 'pt space \<Rightarrow> 'pt space res"
where
  "store_u64 X bi P a w s = store_bytes X bi P a (to_le_bytes w) s"

text \<open>The part of \<open>init_smp\<close> before the other cores are woken.\<close>

definition prepare_trampoline ::
  "x86 \<Rightarrow> BootInfo \<Rightarrow> ('pt, 'e) paging \<Rightarrow> nat \<Rightarrow> u64 \<Rightarrow> u64 \<Rightarrow> 'pt space \<Rightarrow> 'pt space res"
where
  "prepare_trampoline X bi P ap_count counter_addr entry_addr s =
     bnd (allocate_stacks X bi P ap_count (mach s)) (\<lambda>m.
     let l4 = active_level_4_table_phys_addr m in
     bnd (ass (l4 < 0xffffffff)) (\<lambda>_.
     bnd (calc_stack_stride X) (\<lambda>stack_stride.
     bnd (ap_stack_base stack_stride) (\<lambda>stack_base.
     bnd (page_0 X) (\<lambda>page.
     bnd (frame_0 X) (\<lambda>frame.
     bnd (map_frame X bi P page {PRESENT, WRITABLE} frame m) (\<lambda>m.
     bnd (store_bytes X bi P 0 CODE (s\<lparr>mach := m\<rparr>)) (\<lambda>s.
     bnd (store_u64 X bi P 0xA00 (of_nat l4) s) (\<lambda>s.
     bnd (store_u64 X bi P 0xB00 counter_addr s) (\<lambda>s.
     bnd (store_u64 X bi P 0xB10 (of_nat stack_stride) s) (\<lambda>s.
     bnd (store_u64 X bi P 0xB20 (of_nat stack_base) s) (\<lambda>s.
     store_u64 X bi P 0xB30 entry_addr s))))))))))))"

definition init_smp ::
  "x86 \<Rightarrow> BootInfo \<Rightarrow> ('pt, 'e) paging \<Rightarrow> u8 bitfield \<Rightarrow> u64 bitfield \<Rightarrow> 'd hw \<Rightarrow> nat \<Rightarrow> u64 \<Rightarrow> u64 \<Rightarrow>
   (nat \<Rightarrow> nat) \<Rightarrow> 'pt space \<times> 'd kernel \<Rightarrow> ('pt space \<times> 'd kernel) res option"
where
  "init_smp X bi P BF8 BF64 H ap_count counter_addr entry_addr readings = (\<lambda>(s, k).
     case prepare_trampoline X bi P ap_count counter_addr entry_addr s of
       Inl e \<Rightarrow> Some (Inl e)
     | Inr s \<Rightarrow>
         (case startup_aps BF8 BF64 H k of
            None \<Rightarrow> None
          | Some (Inl e) \<Rightarrow> Some (Inl e)
          | Some (Inr k) \<Rightarrow>
              let time_out = wait_aps readings ap_count 0 1000000 in
              Some (bnd (page_0 X) (\<lambda>page.
                    bnd (unmap X bi P page (mach s)) (\<lambda>(_, m).
                    if time_out = 0 then Inl (Explicit ''AP startup timed out'')
                    else Inr (s\<lparr>mach := m\<rparr>, k))))))"

text \<open>\<open>AP_GDT\<close> of interrupts.rs has one entry less than the number of cores.\<close>

definition init_gdt_and_exceptions_ap :: "nat \<Rightarrow> unit res" where
  "init_gdt_and_exceptions_ap ap_index = (if ap_index < MAX_CORES - 1 then Inr () else Inl IndexOut)"

text \<open>
  \<open>ap_entry_fn\<close> after it has counted itself, up to the enabling of interrupts.  Every log line
  reads the core's APIC identification.
\<close>

definition ap_entry_fn :: "u8 bitfield \<Rightarrow> 'd hw \<Rightarrow> nat \<Rightarrow> 'd kernel \<Rightarrow> 'd kernel res option" where
  "ap_entry_fn BF8 H ap_index k =
     (case bnd (own_id H k) (\<lambda>(_, k).
           bnd (init_gdt_and_exceptions_ap ap_index) (\<lambda>_.
           bnd (own_id H k) (\<lambda>(_, k).
           bnd (initialize_own_core_local_data H (default_cld\<lparr>cpu_index_field := ap_index + 1\<rparr>) k) (\<lambda>k.
           bnd (own_id H k) (\<lambda>(_, k). Inr k))))) of
        Inl e \<Rightarrow> Some (Inl e)
      | Inr k \<Rightarrow>
          (case apic_init BF8 H k of
             None \<Rightarrow> None
           | Some r \<Rightarrow> Some (bnd r (\<lambda>k. bnd (own_id H k) (\<lambda>(_, k). Inr k)))))"

subsection \<open>The trampoline\<close>

text \<open>Eight bytes of physical memory.\<close>

definition qword :: "(nat \<Rightarrow> u8) \<Rightarrow> nat \<Rightarrow> u64" where
  "qword m a = from_le_bytes (map (\<lambda>i. m (a + i)) [0..<8])"

text \<open>
  The registers with which a core leaves the trampoline, when the atomic increment of the counter
  returned \<open>index\<close>: the table register, the argument, the stack pointer and the jump target.
\<close>

record ap_regs =
  ap_cr3 :: u64
  ap_rdi :: u64
  ap_rsp :: u64
  ap_rip :: u64

definition trampoline :: "(nat \<Rightarrow> u8) \<Rightarrow> u64 \<Rightarrow> ap_regs" where
  "trampoline m index =
     \<lparr>ap_cr3 = take_bit 32 (qword m 0xA00), ap_rdi = index,
      ap_rsp = ap_stack_pointer (qword m 0xB10) (qword m 0xB20) index, ap_rip = qword m 0xB30\<rparr>"

subsection \<open>Waiting\<close>

declare wait_aps.simps [simp del]

lemma wait_aps_eq:
  "wait_aps readings n k t = (if \<exists>j<t. n \<le> readings (k + j) then t - (LEAST j. n \<le> readings (k + j)) else 0)"
proof (induction t arbitrary: k)
  case 0
  then show ?case by (simp add: wait_aps.simps)
next
  case (Suc t)
  show ?case
  proof (cases "n \<le> readings k")
    case True
    then have "(LEAST j. n \<le> readings (k + j)) = 0" by (intro Least_eq_0) simp
    with True show ?thesis by (auto simp: wait_aps.simps)
  next
    case False
    have ex: "(\<exists>j<Suc t. n \<le> readings (k + j)) \<longleftrightarrow> (\<exists>j<t. n \<le> readings (Suc k + j))"
      using False by (auto simp: less_Suc_eq_0_disj)
    have "(LEAST j. n \<le> readings (k + j)) = Suc (LEAST j. n \<le> readings (Suc k + j))" if "n \<le> readings (Suc k + j)" for j
      using Least_Suc [of "\<lambda>j. n \<le> readings (k + j)" "Suc j"] that False by simp
    with False ex Suc.IH [of "Suc k"] show ?thesis by (auto simp: wait_aps.simps [of _ _ _ "Suc t"])
  qed
qed

text \<open>The wait ends with time left exactly if one of the first million readings shows all cores.\<close>

lemma wait_aps_pos: "wait_aps readings n 0 t > 0 \<longleftrightarrow> (\<exists>j<t. n \<le> readings j)"
proof -
  have "(LEAST j. n \<le> readings j) < t" if "j < t" "n \<le> readings j" for j
    using Least_le [of "\<lambda>j. n \<le> readings j" j] that by simp
  then show ?thesis by (auto simp: wait_aps_eq)
qed

subsection \<open>Writing the first page\<close>

definition overlay :: "nat \<Rightarrow> u8 list \<Rightarrow> (nat \<Rightarrow> u8) \<Rightarrow> nat \<Rightarrow> u8" where
  "overlay v bs m a = (if v \<le> a \<and> a < v + length bs then bs ! (a - v) else m a)"

lemma poke_low:
  assumes "L 0 = Some (Small 0 fl)" "v + length bs \<le> 4096"
  shows "poke L v bs m = overlay v bs m"
proof -
  have pa: "paddr L w = w" if "w < 4096" for w using assms(1) that by (simp add: paddr_def page_of_def)
  have inj: "inj_on (paddr L) {v..<v + length bs}" using pa assms(2) by (auto simp: inj_on_def)
  show ?thesis
  proof
    fix a
    show "poke L v bs m a = overlay v bs m a"
    proof (cases "v \<le> a \<and> a < v + length bs")
      case True
      then have "poke L v bs m (paddr L (v + (a - v))) = bs ! (a - v)" by (intro poke_nth [OF inj]) auto
      with True pa [of a] assms(2) show ?thesis by (simp add: overlay_def)
    next
      case False
      then have "a \<notin> paddr L ` {v..<v + length bs}" using pa assms(2) by force
      then have "poke L v bs m a = m a" by (rule poke_other)
      moreover have "overlay v bs m a = m a" using False by (auto simp: overlay_def)
      ultimately show ?thesis by simp
    qed
  qed
qed

lemma store_low:
  assumes "mem_inv X bi P off tb rt pool (mach s) fs" "alook P off (mach s) 0 = Some (Small 0 {PRESENT, WRITABLE})"
    and "v + length bs \<le> 4096"
  shows "store_bytes X bi P v bs s = Inr (s\<lparr>ram := overlay v bs (ram s)\<rparr>)"
proof -
  have "writable_at (alook P off (mach s)) (v + i)" if "i < length bs" for i
    using that assms(2,3) by (simp add: writable_at_def page_of_def)
  with store_bytes_ok [OF assms(1)] have "store_bytes X bi P v bs s = Inr (s\<lparr>ram := poke (alook P off (mach s)) v bs (ram s)\<rparr>)" by blast
  with poke_low [where L = "alook P off (mach s)", OF assms(2,3)] show ?thesis by simp
qed

lemma qword_overlay_same: "qword (overlay a (to_le_bytes w) m) a = w"
proof -
  have "map (\<lambda>i. overlay a (to_le_bytes w) m (a + i)) [0..<8] = to_le_bytes w"
    by (rule nth_equalityI) (simp_all add: overlay_def del: upt_rec_numeral)
  then show ?thesis by (simp add: qword_def)
qed

lemma qword_overlay_other:
  "a + 8 \<le> v \<or> v + length bs \<le> a \<Longrightarrow> qword (overlay v bs m) a = qword m a"
  by (auto simp: qword_def overlay_def simp del: upt_rec_numeral intro!: arg_cong [where f = from_le_bytes])

lemma length_CODE: "length CODE = 186"
  by (simp add: CODE_def)

text \<open>The first page after \<open>prepare_trampoline\<close>.\<close>

definition first_page :: "u64 \<Rightarrow> u64 \<Rightarrow> u64 \<Rightarrow> u64 \<Rightarrow> u64 \<Rightarrow> (nat \<Rightarrow> u8) \<Rightarrow> nat \<Rightarrow> u8" where
  "first_page l4 counter stride base entry m =
     overlay 0xB30 (to_le_bytes entry) (overlay 0xB20 (to_le_bytes base) (overlay 0xB10 (to_le_bytes stride)
       (overlay 0xB00 (to_le_bytes counter) (overlay 0xA00 (to_le_bytes l4) (overlay 0 CODE m)))))"

lemma first_page_qwords:
  "qword (first_page l4 counter stride base entry m) 0xA00 = l4"
  "qword (first_page l4 counter stride base entry m) 0xB00 = counter"
  "qword (first_page l4 counter stride base entry m) 0xB10 = stride"
  "qword (first_page l4 counter stride base entry m) 0xB20 = base"
  "qword (first_page l4 counter stride base entry m) 0xB30 = entry"
  by (simp_all add: first_page_def qword_overlay_same qword_overlay_other)

lemma first_page_code: "i < 186 \<Longrightarrow> first_page l4 counter stride base entry m i = CODE ! i"
  by (simp add: first_page_def overlay_def length_CODE)

lemma first_page_other: "4096 \<le> a \<Longrightarrow> first_page l4 counter stride base entry m a = m a"
  by (simp add: first_page_def overlay_def length_CODE)

lemma page_frame_0: "x86_ok X \<Longrightarrow> page_0 X = Inr 0" "x86_ok X \<Longrightarrow> frame_0 X = Inr 0"
  by (simp_all add: page_0_def frame_0_def x86_addr_simps x86_page_simps)


text \<open>
  The trampoline page is in place: the stacks are mapped, page 0 is frame 0, writable, and holds
  the code and the five parameters.
\<close>

lemma prepare_trampoline_ok:
  assumes "mem_inv X bi P off tb rt pool (mach s) fs" "n \<le> 255" "4 * (n * 1024) + 3 \<le> length fs"
    and "\<forall>p\<in>insert 0 (stack_area n). alook P off (mach s) p = None" "cr3 (mach s) < 0xffffffff" "0 \<notin> pool"
  obtains s' fs' where "prepare_trampoline X bi P n counter entry s = Inr s'"
    "mem_inv X bi P off tb rt pool (mach s') fs'" "cr3 (mach s') = cr3 (mach s)"
    "\<And>p. p \<in> set (stack_list n) \<Longrightarrow> \<exists>f. alook P off (mach s') p = Some (Small f {WRITABLE, NO_EXECUTE, PRESENT})"
    "\<And>p. p \<notin> set (stack_list n) \<Longrightarrow> alook P off (mach s') p =
       (if p = 0 then Some (Small 0 {PRESENT, WRITABLE}) else alook P off (mach s) p)"
    "ram s' = first_page (of_nat (cr3 (mach s))) counter (of_nat (1025 * 4096))
       (of_nat (KERNEL_AP_STACKS + 1025 * 4096 - 1)) entry (ram s)"
proof -
  have X: "x86_ok X" using mem_invD(8) [OF assms(1)] by (simp add: dm_ok_def)
  have fs: "4 * (n * 1024) \<le> length fs" and area: "\<forall>p\<in>stack_area n. alook P off (mach s) p = None"
    using assms(3,4) by simp_all
  obtain m k fr where m: "allocate_stacks X bi P n (mach s) = Inr m" "k \<le> 4 * (n * 1024)"
      "mem_inv X bi P off tb rt pool m (drop k fs)" "kernel_rest P rt m = kernel_rest P rt (mach s)"
      "inj_on fr (set (stack_list n))"
      "\<And>p. alook P off m p = (if p \<in> set (stack_list n)
       then Some (Small (fr p) {WRITABLE, NO_EXECUTE, PRESENT}) else alook P off (mach s) p)"
    using allocate_stacks_ok [OF assms(1,2) fs area] by blast
  have cr3: "cr3 m = cr3 (mach s)" using rest_registers(1) [OF m(4)] by simp
  have "0 \<notin> stack_area n" by (simp add: stack_area_def layout_values)
  then have zero: "0 \<notin> set (stack_list n)" using in_stack_area [of 0 n] by auto
  have "alook P off m 0 = None" using m(6) [of 0] zero assms(4) by simp
  moreover have "unmapped P tb rt pool (page_tables m) (drop k fs) 0" using assms(6) by (simp add: unmapped_def)
  moreover have "3 \<le> length (drop k fs)" using assms(3) m(2) by simp
  ultimately obtain m' k' where m': "map_frame X bi P 0 {PRESENT, WRITABLE} 0 m = Inr m'"
      "mem_inv X bi P off tb rt pool m' (drop k' (drop k fs))" "remaps P off rt m m' 0 (Some (Small 0 {PRESENT, WRITABLE}))"
    using map_frame_ok [OF m(3) dvd_0_right _ _ _ _, of 0 "{PRESENT, WRITABLE}"] by (metis zero_less_numeral zero_less_power)
  have look: "alook P off m' p = (if p = 0 then Some (Small 0 {PRESENT, WRITABLE}) else alook P off m p)" for p
    by (rule remaps_alook [OF m'(3) mem_invD(3) [OF m(3)]])
  have store: "store_bytes X bi P v bs (s\<lparr>mach := m', ram := r\<rparr>) = Inr (s\<lparr>mach := m', ram := overlay v bs r\<rparr>)"
    if "v + length bs \<le> 4096" for v bs r
    using store_low [where s = "s\<lparr>mach := m', ram := r\<rparr>", OF _ _ that] m'(2) look [of 0] by simp
  have ass: "ass (active_level_4_table_phys_addr m < 0xffffffff) = Inr ()" "active_level_4_table_phys_addr m = cr3 (mach s)"
    using assms(5) cr3 by (simp_all add: active_level_4_table_phys_addr_def)
  let ?r = "first_page (of_nat (cr3 (mach s))) counter (of_nat (1025 * 4096))
       (of_nat (KERNEL_AP_STACKS + 1025 * 4096 - 1)) entry (ram s)"
  have run: "prepare_trampoline X bi P n counter entry s = Inr (s\<lparr>mach := m', ram := ?r\<rparr>)"
    unfolding prepare_trampoline_def m(1) bnd_Inr Let_def ass calc_stack_stride_eq [OF X] ap_stack_base_eq
      page_frame_0 [OF X] m'(1)
    using assms(5) store [of 0 CODE "ram s"] by (simp add: store_u64_def store first_page_def length_CODE)
  have cr3': "cr3 m' = cr3 (mach s)" using m'(3) cr3 by (simp add: remaps_def)
  show ?thesis
  proof (rule that [OF run])
    show "mem_inv X bi P off tb rt pool (mach (s\<lparr>mach := m', ram := ?r\<rparr>)) (drop k' (drop k fs))" using m'(2) by simp
    show "cr3 (mach (s\<lparr>mach := m', ram := ?r\<rparr>)) = cr3 (mach s)" using cr3' by simp
    show "ram (s\<lparr>mach := m', ram := ?r\<rparr>) = ?r" by simp
    fix p
    have l: "alook P off (mach (s\<lparr>mach := m', ram := ?r\<rparr>)) p = alook P off m' p" by simp
    show "\<exists>f. alook P off (mach (s\<lparr>mach := m', ram := ?r\<rparr>)) p = Some (Small f {WRITABLE, NO_EXECUTE, PRESENT})"
      if "p \<in> set (stack_list n)" unfolding l look m(6) using that zero by auto
    show "alook P off (mach (s\<lparr>mach := m', ram := ?r\<rparr>)) p =
       (if p = 0 then Some (Small 0 {PRESENT, WRITABLE}) else alook P off (mach s) p)"
      if "p \<notin> set (stack_list n)" unfolding l look m(6) using that by simp
  qed
qed

text \<open>Waking the other cores: an INIT, and after the delays two STARTUP commands for page 0.\<close>

lemma startup_aps_ok:
  assumes "bitfield_ok BF8" "bitfield_ok BF64" "pit_ok (hw_ports H) run left" "kernel_ok p k"
  obtains d1 d2 where
    "delay BF8 (hw_ports H) 10000 (reg_writes H p [(0x310, 0), (0x300, 0xC4500)] (device k)) = Some (Inr (), d1)"
    "delay BF8 (hw_ports H) 200 (reg_writes H p [(0x310, 0), (0x300, 0xC4600)] d1) = Some (Inr (), d2)"
    "startup_aps BF8 BF64 H k = Some (Inr (k\<lparr>device := reg_writes H p [(0x310, 0), (0x300, 0xC4600)] d2\<rparr>))"
proof -
  let ?d = "reg_writes H p [(0x310, 0), (0x300, 0xC4500)] (device k)"
  obtain d1 where d1: "delay BF8 (hw_ports H) 10000 ?d = Some (Inr (), d1)"
    using delay_returns [OF assms(1,3), of 10000 ?d] by auto
  let ?e = "reg_writes H p [(0x310, 0), (0x300, 0xC4600)] d1"
  obtain d2 where d2: "delay BF8 (hw_ports H) 200 ?e = Some (Inr (), d2)"
    using delay_returns [OF assms(1,3), of 200 ?e] by auto
  show ?thesis
    by (rule that [OF d1 d2]) (simp add: startup_aps_def get_apic_ok [OF assms(4)] ipi_writes [OF assms(2)] d1 d2)
qed


lemma trampoline_first_page:
  assumes "i < 255" "c < 0xffffffff"
  shows "trampoline (first_page (of_nat c) counter (of_nat (1025 * 4096))
      (of_nat (KERNEL_AP_STACKS + 1025 * 4096 - 1)) entry m) (of_nat i) =
    \<lparr>ap_cr3 = of_nat c, ap_rdi = of_nat i, ap_rsp = of_nat (guard_page (Suc i) - 1), ap_rip = entry\<rparr>"
proof -
  have "take_bit 32 (of_nat c :: u64) = of_nat c"
    using assms(2) by (simp add: word_unat_eq_iff unsigned_take_bit_eq unsigned_of_nat take_bit_nat_eq_self)
  moreover have "ap_stack_pointer (of_nat (1025 * 4096)) (of_nat (KERNEL_AP_STACKS + 1025 * 4096 - 1)) (of_nat i) =
      of_nat (guard_page (Suc i) - 1)"
    using arg_cong [OF ap_stack_pointer_eq [OF assms(1)], of "of_nat :: nat \<Rightarrow> u64"] by simp
  ultimately show ?thesis unfolding trampoline_def first_page_qwords by simp
qed

lemma init_smp_run:
  assumes "mem_inv X bi P off tb rt pool (mach s) fs" "n \<le> 255" "4 * (n * 1024) + 3 \<le> length fs"
    and "\<forall>p\<in>insert 0 (stack_area n). pg_look P (page_tables (mach s)) (active off (mach s)) p = None"
    and "cr3 (mach s) < 0xffffffff" "0 \<notin> pool"
    and "bitfield_ok BF8" "bitfield_ok BF64" "pit_ok (hw_ports H) run left" "kernel_ok p k"
  shows "\<exists>s1 k1. prepare_trampoline X bi P n counter entry s = Inr s1 \<and> startup_aps BF8 BF64 H k = Some (Inr k1) \<and>
    (\<forall>i<186. ram s1 i = CODE ! i) \<and> qword (ram s1) 0xB00 = counter \<and>
    (\<forall>i<n. trampoline (ram s1) (of_nat i) =
        \<lparr>ap_cr3 = of_nat (cr3 (mach s)), ap_rdi = of_nat i, ap_rsp = of_nat (guard_page (Suc i) - 1), ap_rip = entry\<rparr> \<and>
      (\<exists>f. pg_look P (page_tables (mach s1)) (active off (mach s)) (page_of (guard_page (Suc i) - 1)) =
        Some (Small f {WRITABLE, NO_EXECUTE, PRESENT}))) \<and>
    (if \<exists>j<1000000. n \<le> readings j
     then \<exists>s2. init_smp X bi P BF8 BF64 H n counter entry readings (s, k) = Some (Inr (s2, k1)) \<and>
       (\<exists>fs'. mem_inv X bi P off tb rt pool (mach s2) fs') \<and>
       pg_look P (page_tables (mach s2)) (active off (mach s2)) 0 = None \<and> ram s2 = ram s1
     else init_smp X bi P BF8 BF64 H n counter entry readings (s, k) = Some (Inl (Explicit ''AP startup timed out'')))"
proof -
  have X: "x86_ok X" using mem_invD(8) [OF assms(1)] by (simp add: dm_ok_def)
  obtain s1 fs1 where s1: "prepare_trampoline X bi P n counter entry s = Inr s1"
    "mem_inv X bi P off tb rt pool (mach s1) fs1" "cr3 (mach s1) = cr3 (mach s)"
    "\<And>p. p \<in> set (stack_list n) \<Longrightarrow> \<exists>f. alook P off (mach s1) p = Some (Small f {WRITABLE, NO_EXECUTE, PRESENT})"
    "\<And>p. p \<notin> set (stack_list n) \<Longrightarrow> alook P off (mach s1) p =
       (if p = 0 then Some (Small 0 {PRESENT, WRITABLE}) else alook P off (mach s) p)"
    "ram s1 = first_page (of_nat (cr3 (mach s))) counter (of_nat (1025 * 4096))
       (of_nat (KERNEL_AP_STACKS + 1025 * 4096 - 1)) entry (ram s)"
    using prepare_trampoline_ok [OF assms(1-6), of counter entry] by blast
  obtain k1 where k1: "startup_aps BF8 BF64 H k = Some (Inr k1)"
    using startup_aps_ok [OF assms(7-10)] by metis
  have "0 \<notin> stack_area n" by (simp add: stack_area_def layout_values)
  then have "0 \<notin> set (stack_list n)" using in_stack_area [of 0 n] by auto
  then have "alook P off (mach s1) 0 = Some (Small 0 {PRESENT, WRITABLE})" using s1(5) [of 0] by simp
  from unmap_ok [OF s1(2) this] obtain m2 where m2: "unmap X bi P 0 (mach s1) = Inr (0, m2)"
      "mem_inv X bi P off tb rt pool m2 fs1" "remaps P off rt (mach s1) m2 0 None" by blast
  have none: "alook P off m2 0 = None" using remaps_alook [OF m2(3) mem_invD(3) [OF s1(2)], of 0] by simp
  have run: "init_smp X bi P BF8 BF64 H n counter entry readings (s, k) =
      Some (if wait_aps readings n 0 1000000 = 0 then Inl (Explicit ''AP startup timed out'') else Inr (s1\<lparr>mach := m2\<rparr>, k1))"
    by (simp add: init_smp_def s1(1) k1 page_frame_0 [OF X] m2(1))
  have stack: "\<exists>f. alook P off (mach s1) (page_of (guard_page (Suc i) - 1)) = Some (Small f {WRITABLE, NO_EXECUTE, PRESENT})"
    if "i < n" for i
  proof -
    have "core_page i (ppc - 1) \<in> set (stack_list n)" using that by (force simp: set_stack_list ppc_def)
    with stack_byte_page [of 0 i] s1(4) show ?thesis by (simp add: page_of_def ppc_def)
  qed
  have tr: "trampoline (ram s1) (of_nat i) =
      \<lparr>ap_cr3 = of_nat (cr3 (mach s)), ap_rdi = of_nat i, ap_rsp = of_nat (guard_page (Suc i) - 1), ap_rip = entry\<rparr>"
    if "i < n" for i unfolding s1(6) using that assms(2,5) by (intro trampoline_first_page) simp_all
  have w: "(\<exists>j<1000000. n \<le> readings j) \<longleftrightarrow> wait_aps readings n 0 1000000 \<noteq> 0"
    using wait_aps_pos [of readings n 1000000] by auto
  have act: "active off (mach s1) = active off (mach s)" using s1(3) by simp
  show ?thesis
    unfolding run w
    using s1(1) k1 tr stack none m2(2) act first_page_code first_page_qwords(2) s1(6)
    by (intro exI [of _ s1] exI [of _ k1]) auto
qed

subsection \<open>Properties\<close>


text \<open>
  A core whose local data are not yet initialised and whose index is below 255 runs its entry
  code to the end unless its timer stands still, which is a panic.  Afterwards its local data hold
  its processor number, one more than the index, and a positive number of timer ticks per second;
  the local data of all other cores are as before.
\<close>

lemma ap_entry_initialises:
  assumes "bitfield_ok BF" "pit_ok (hw_ports H) run left" "runs_on H p a" "kernel_ok p k"
    and "CORE_LOCAL k ! unat a = None" "ap_index < 255"
  shows "ap_entry_fn BF H ap_index k = Some (Inl (Explicit ''apic timer initialization failed'')) \<and>
      (\<exists>d. fst (mmio_read H (p + 0x390) d) = 0xFFFFFFFF) \<or>
    (\<exists>k' t. ap_entry_fn BF H ap_index k = Some (Inr k') \<and> 0 < t \<and>
       CORE_LOCAL k' ! unat a = Some (default_cld\<lparr>cpu_index_field := ap_index + 1, apic_timer_ticks_per_second := Some t\<rparr>) \<and>
       (\<forall>b. b \<noteq> a \<longrightarrow> CORE_LOCAL k' ! unat b = CORE_LOCAL k ! unat b))"
proof -
  let ?c = "default_cld\<lparr>cpu_index_field := ap_index + 1\<rparr>"
  let ?k = "k\<lparr>CORE_LOCAL := (CORE_LOCAL k)[unat a := Some ?c]\<rparr>"
  let ?w = "reg_writes H p [(0x80, 0), (0xf0, 0x11FF)] (device k)"
  let ?k2 = "?k\<lparr>device := ?w\<rparr>"
  have ok: "kernel_ok p ?k" "kernel_ok p ?k2" "CORE_LOCAL ?k2 ! unat a = Some ?c"
    using assms(4) id_in_range [OF assms(4), of a] by (simp_all add: kernel_ok_def)
  have i: "initialize_own_core_local_data H ?c k = Inr ?k"
    using own_id_ok [OF assms(3,4)] id_in_range [OF assms(4), of a] assms(5)
    by (simp add: initialize_own_core_local_data_def)
  have init: "apic_init BF H ?k = init_timer BF H \<lparr>local_apic_ptr = p\<rparr> ?k2"
    using get_apic_ok [OF ok(1)]
    by (simp add: apic_init_def apic_init_self_def reg_writes_def apic_write_def apic_offset_def)
  have run: "ap_entry_fn BF H ap_index k = (case init_timer BF H \<lparr>local_apic_ptr = p\<rparr> ?k2 of
      None \<Rightarrow> None | Some r \<Rightarrow> Some (bnd r (\<lambda>k. bnd (own_id H k) (\<lambda>(_, k). Inr k))))"
    using assms(6) i own_id_ok [OF assms(3,4)] own_id_ok [OF assms(3) ok(1)] init
    by (simp add: ap_entry_fn_def init_gdt_and_exceptions_ap_def MAX_CORES_def)
  obtain d current d' where c: "mmio_read H (p + 0x390) d = (current, d')" "if current = 0xFFFFFFFF
     then init_timer BF H \<lparr>local_apic_ptr = p\<rparr> ?k2 = Some (Inl (Explicit ''apic timer initialization failed''))
     else \<exists>k' t. init_timer BF H \<lparr>local_apic_ptr = p\<rparr> ?k2 = Some (Inr k') \<and>
       t = 20 * (2 ^ 32 - 1 - unat current) \<and> 0 < t \<and> t < 2 ^ 37 \<and> device k' = d' \<and> kernel_ok p k' \<and>
       CORE_LOCAL k' ! unat a = Some (?c\<lparr>apic_timer_ticks_per_second := Some t\<rparr>) \<and>
       (\<forall>b. b \<noteq> a \<longrightarrow> CORE_LOCAL k' ! unat b = CORE_LOCAL ?k2 ! unat b)"
    using init_timer_run [OF assms(1-3) ok(2,3)] by blast
  show ?thesis
  proof (cases "current = 0xFFFFFFFF")
    case True
    with c show ?thesis unfolding run by (intro disjI1 conjI exI [of _ d]) simp_all
  next
    case False
    from c(2) [unfolded if_not_P [OF False]] obtain k' t where k': "init_timer BF H \<lparr>local_apic_ptr = p\<rparr> ?k2 = Some (Inr k')" "0 < t" "kernel_ok p k'"
       "CORE_LOCAL k' ! unat a = Some (?c\<lparr>apic_timer_ticks_per_second := Some t\<rparr>)"
       "\<forall>b. b \<noteq> a \<longrightarrow> CORE_LOCAL k' ! unat b = CORE_LOCAL ?k2 ! unat b" by blast
    have "ap_entry_fn BF H ap_index k = Some (Inr k')"
      unfolding run k'(1) using own_id_ok [OF assms(3) k'(3)] by simp
    moreover have "\<forall>b. b \<noteq> a \<longrightarrow> CORE_LOCAL k' ! unat b = CORE_LOCAL k ! unat b"
      using k'(5) by (simp add: nth_list_update word_unat_eq_iff)
    ultimately show ?thesis using k'(2,4) by (intro disjI2 exI [of _ k'] exI [of _ t]) simp
  qed
qed


lemma ap_entry_initialises_witness:
  "\<exists>k' t. ap_entry_fn bitfield_ref hw_timer 2 ((kernel_timer None)\<lparr>CORE_LOCAL := core_local_init\<rparr>) = Some (Inr k') \<and>
     CORE_LOCAL k' ! 3 = Some (default_cld\<lparr>cpu_index_field := 3, apic_timer_ticks_per_second := Some t\<rparr>)"
proof -
  have pit: "pit_ok (hw_ports hw_timer) (\<lambda>_. True) (\<lambda>n. n)" using pit_ref_ok by (simp add: hw_timer_def)
  have k: "kernel_ok 0xFEE00000 ((kernel_timer None)\<lparr>CORE_LOCAL := core_local_init\<rparr>)"
    "core_local_init ! unat (3 :: u8) = None"
    by (simp_all add: kernel_ok_def kernel_timer_def core_local_init_def MAX_CORES_def CORE_LOCAL_ENTRY_INIT_def)
  from ap_entry_initialises [OF bitfield_ref_ok pit kernel_timer_ok(1) k(1), of 2] k(2)
  show ?thesis by (auto simp: hw_timer_def split: if_splits)
qed

end
