(* ===== verification/Smp_Protocol.thy ===== *)
theory Smp_Protocol
  imports Smp "HOL-Library.Multiset"
begin

text \<open>
  The start of the application processors as an interleaving of all cores.  The bootstrap
  processor runs the end of \<open>init_smp\<close> (kernel/src/smp.rs): it sends the startup commands, polls
  \<open>AP_STARTUP_DONE_COUNTER\<close>, unmaps page 0 and goes on or panics.  Every other core runs the
  trampoline (smp_trampoline/ap.asm) and the first statement of \<open>ap_entry_fn\<close>.  One step is one
  access to the shared counters or to page 0.  A core that is in the trampoline when page 0 is
  unmapped faults; it has no interrupt table yet.
\<close>

datatype ap_pc =
    Halted
  | Trampoline
  | Indexed nat
  | Entered nat
  | Counted nat
  | Faulted "nat option"

datatype bsp_pc = Prepared | Polling nat | Unmapping nat | Unmapped nat | Running | Panicked

record smp =
  aps :: "ap_pc list"
  bsp :: bsp_pc
  AP_CORE_COUNTER :: nat
  AP_STARTUP_DONE_COUNTER :: nat
  page_0_mapped :: bool

definition smp_init :: "nat \<Rightarrow> smp" where
  "smp_init n = \<lparr>aps = replicate n Halted, bsp = Prepared, AP_CORE_COUNTER = 0, AP_STARTUP_DONE_COUNTER = 0,
     page_0_mapped = True\<rparr>"

text \<open>The index that a core has drawn from the counter.\<close>

fun ap_index :: "ap_pc \<Rightarrow> nat option" where
  "ap_index (Indexed k) = Some k"
| "ap_index (Entered k) = Some k"
| "ap_index (Counted k) = Some k"
| "ap_index (Faulted i) = i"
| "ap_index _ = None"

inductive smp_step :: "nat \<Rightarrow> smp \<Rightarrow> smp \<Rightarrow> bool" for ap_count where
  send_startup: "bsp s = Prepared \<Longrightarrow> smp_step ap_count s (s\<lparr>bsp := Polling 1000000\<rparr>)"
| wake: "bsp s \<noteq> Prepared \<Longrightarrow> a < length (aps s) \<Longrightarrow> aps s ! a = Halted \<Longrightarrow>
    smp_step ap_count s (s\<lparr>aps := (aps s)[a := Trampoline]\<rparr>)"
| draw_index: "a < length (aps s) \<Longrightarrow> aps s ! a = Trampoline \<Longrightarrow> page_0_mapped s \<Longrightarrow>
    smp_step ap_count s
      (s\<lparr>aps := (aps s)[a := Indexed (AP_CORE_COUNTER s)], AP_CORE_COUNTER := AP_CORE_COUNTER s + 1\<rparr>)"
| enter: "a < length (aps s) \<Longrightarrow> aps s ! a = Indexed k \<Longrightarrow> page_0_mapped s \<Longrightarrow>
    smp_step ap_count s (s\<lparr>aps := (aps s)[a := Entered k]\<rparr>)"
| fault: "a < length (aps s) \<Longrightarrow> aps s ! a = Trampoline \<or> aps s ! a = Indexed k \<Longrightarrow> \<not> page_0_mapped s \<Longrightarrow>
    smp_step ap_count s (s\<lparr>aps := (aps s)[a := Faulted (ap_index (aps s ! a))]\<rparr>)"
| count_self: "a < length (aps s) \<Longrightarrow> aps s ! a = Entered k \<Longrightarrow>
    smp_step ap_count s
      (s\<lparr>aps := (aps s)[a := Counted k], AP_STARTUP_DONE_COUNTER := AP_STARTUP_DONE_COUNTER s + 1\<rparr>)"
| poll: "bsp s = Polling (Suc t) \<Longrightarrow> AP_STARTUP_DONE_COUNTER s < ap_count \<Longrightarrow>
    smp_step ap_count s (s\<lparr>bsp := Polling t\<rparr>)"
| stop_polling: "bsp s = Polling t \<Longrightarrow> \<not> (AP_STARTUP_DONE_COUNTER s < ap_count \<and> t > 0) \<Longrightarrow>
    smp_step ap_count s (s\<lparr>bsp := Unmapping t\<rparr>)"
| unmap_page_0: "bsp s = Unmapping t \<Longrightarrow> smp_step ap_count s (s\<lparr>bsp := Unmapped t, page_0_mapped := False\<rparr>)"
| timed_out: "bsp s = Unmapped t \<Longrightarrow> t = 0 \<Longrightarrow> smp_step ap_count s (s\<lparr>bsp := Panicked\<rparr>)"
| all_started: "bsp s = Unmapped t \<Longrightarrow> t \<noteq> 0 \<Longrightarrow> smp_step ap_count s (s\<lparr>bsp := Running\<rparr>)"

abbreviation smp_reaches :: "nat \<Rightarrow> smp \<Rightarrow> smp \<Rightarrow> bool" where
  "smp_reaches ap_count \<equiv> (smp_step ap_count)\<^sup>*\<^sup>*"

subsection \<open>The invariant\<close>

definition counted :: "ap_pc \<Rightarrow> bool" where
  "counted pc \<longleftrightarrow> (\<exists>k. pc = Counted k)"

text \<open>The indices that were drawn, one for each core that has drawn one.\<close>

definition drawn :: "ap_pc list \<Rightarrow> nat option multiset" where
  "drawn xs = filter_mset (\<lambda>i. i \<noteq> None) (mset (map ap_index xs))"

text \<open>What the bootstrap processor knows about the counter when it has left the loop.\<close>

fun bsp_knows :: "nat \<Rightarrow> smp \<Rightarrow> bsp_pc \<Rightarrow> bool" where
  "bsp_knows ap_count s (Unmapping t) = (t = 0 \<or> ap_count \<le> AP_STARTUP_DONE_COUNTER s)"
| "bsp_knows ap_count s (Unmapped t) = (t = 0 \<or> ap_count \<le> AP_STARTUP_DONE_COUNTER s)"
| "bsp_knows ap_count s Running = (ap_count \<le> AP_STARTUP_DONE_COUNTER s)"
| "bsp_knows ap_count s _ = True"

definition smp_inv :: "nat \<Rightarrow> smp \<Rightarrow> bool" where
  "smp_inv ap_count s \<longleftrightarrow>
     drawn (aps s) = mset (map Some [0..<AP_CORE_COUNTER s]) \<and>
     AP_STARTUP_DONE_COUNTER s = length (filter counted (aps s)) \<and>
     bsp_knows ap_count s (bsp s)"

lemma length_filter_update:
  "a < length xs \<Longrightarrow> length (filter P (xs[a := y])) + of_bool (P (xs ! a)) = length (filter P xs) + of_bool (P y)"
proof (induction xs arbitrary: a)
  case (Cons x xs)
  then show ?case by (cases a) auto
qed simp

lemma drawn_same:
  assumes "a < length xs" "ap_index pc = ap_index (xs ! a)"
  shows "drawn (xs[a := pc]) = drawn xs"
proof -
  have "map ap_index (xs[a := pc]) = (map ap_index xs)[a := map ap_index xs ! a]"
    using assms by (simp add: map_update)
  then show ?thesis by (simp only: drawn_def list_update_id)
qed

lemma drawn_new:
  assumes "a < length xs" "ap_index (xs ! a) = None" "ap_index pc = Some k"
  shows "drawn (xs[a := pc]) = add_mset (Some k) (drawn xs)"
  using assms unfolding drawn_def by (simp add: map_update mset_update)

lemma bsp_knows_mono:
  "bsp_knows ap_count s pc \<Longrightarrow> AP_STARTUP_DONE_COUNTER s \<le> AP_STARTUP_DONE_COUNTER s' \<Longrightarrow> bsp_knows ap_count s' pc"
  by (cases pc) auto

text \<open>A core moves without drawing an index and without counting itself.\<close>

lemma smp_inv_move:
  assumes "smp_inv ap_count s" "a < length (aps s)" "ap_index pc = ap_index (aps s ! a)"
    and "\<not> counted pc" "\<not> counted (aps s ! a)"
  shows "smp_inv ap_count (s\<lparr>aps := (aps s)[a := pc]\<rparr>)"
  using assms length_filter_update [OF assms(2), of counted pc] drawn_same [OF assms(2,3)]
    bsp_knows_mono [of ap_count s "bsp s" "s\<lparr>aps := (aps s)[a := pc]\<rparr>"]
  by (simp add: smp_inv_def)

lemma smp_inv_step:
  assumes "smp_step ap_count s s'" "smp_inv ap_count s"
  shows "smp_inv ap_count s'"
  using assms
proof (induction rule: smp_step.induct)
  case (wake s a)
  then show ?case by (intro smp_inv_move) (auto simp: counted_def)
next
  case (draw_index a s)
  let ?pc = "Indexed (AP_CORE_COUNTER s)"
  have "length (filter counted ((aps s)[a := ?pc])) = length (filter counted (aps s))"
    using length_filter_update [OF draw_index(1), of counted ?pc] draw_index(2) by (simp add: counted_def)
  moreover have "drawn ((aps s)[a := ?pc]) = add_mset (Some (AP_CORE_COUNTER s)) (drawn (aps s))"
    using draw_index by (intro drawn_new) simp_all
  ultimately show ?case
    using draw_index bsp_knows_mono [of ap_count s "bsp s"
      "s\<lparr>aps := (aps s)[a := ?pc], AP_CORE_COUNTER := AP_CORE_COUNTER s + 1\<rparr>"] by (simp add: smp_inv_def)
next
  case (enter a s k)
  then show ?case by (intro smp_inv_move) (auto simp: counted_def)
next
  case (fault a s k)
  then show ?case by (intro smp_inv_move) (auto simp: counted_def)
next
  case (count_self a s k)
  have "length (filter counted ((aps s)[a := Counted k])) = Suc (length (filter counted (aps s)))"
    using length_filter_update [OF count_self(1), of counted "Counted k"] count_self(2) by (simp add: counted_def)
  moreover have "drawn ((aps s)[a := Counted k]) = drawn (aps s)"
    using count_self by (intro drawn_same) simp_all
  ultimately show ?case
    using count_self bsp_knows_mono [of ap_count s "bsp s" "s\<lparr>aps := (aps s)[a := Counted k],
      AP_STARTUP_DONE_COUNTER := AP_STARTUP_DONE_COUNTER s + 1\<rparr>"] by (simp add: smp_inv_def)
qed (auto simp: smp_inv_def)

lemma smp_inv_init: "smp_inv ap_count (smp_init n)"
  by (simp add: smp_inv_def smp_init_def drawn_def counted_def)

lemma smp_reaches_inv: "smp_reaches ap_count (smp_init n) s \<Longrightarrow> smp_inv ap_count s \<and> length (aps s) = n"
proof (induction rule: rtranclp_induct)
  case base
  then show ?case using smp_inv_init by (simp add: smp_init_def)
next
  case (step s s')
  then have "length (aps s') = length (aps s)" by (auto elim: smp_step.cases)
  with step smp_inv_step show ?case by blast
qed

subsection \<open>Runs\<close>

declare rtranclp.rtrancl_into_rtrancl [trans]

lemma poll_down:
  assumes "AP_STARTUP_DONE_COUNTER s < ap_count" "bsp s = Polling t"
  shows "smp_reaches ap_count s (s\<lparr>bsp := Polling 0\<rparr>)"
  using assms
proof (induction t arbitrary: s)
  case 0
  then have "s\<lparr>bsp := Polling 0\<rparr> = s" by simp
  then show ?case by simp
next
  case (Suc t)
  from Suc.IH [of "s\<lparr>bsp := Polling t\<rparr>"] Suc.prems(1)
  have "smp_reaches ap_count (s\<lparr>bsp := Polling t\<rparr>) (s\<lparr>bsp := Polling 0\<rparr>)" by simp
  with poll [OF Suc.prems(2,1)] show ?case by (rule converse_rtranclp_into_rtranclp)
qed

text \<open>One core, up to the point where it is about to count itself.\<close>

definition one_entered :: smp where
  "one_entered = \<lparr>aps = [Entered 0], bsp = Polling 1000000, AP_CORE_COUNTER = 1, AP_STARTUP_DONE_COUNTER = 0,
     page_0_mapped = True\<rparr>"

lemma reaches_one_entered: "smp_reaches 1 (smp_init 1) one_entered"
proof -
  define s where "s xs c = \<lparr>aps = xs, bsp = Polling 1000000, AP_CORE_COUNTER = c, AP_STARTUP_DONE_COUNTER = 0,
     page_0_mapped = True\<rparr>" for xs c
  have "smp_reaches 1 (smp_init 1) (s [Halted] 0)"
    using send_startup [of "smp_init 1" 1] by (intro r_into_rtranclp) (simp add: s_def smp_init_def)
  also have "smp_step 1 (s [Halted] 0) (s [Trampoline] 0)"
    using wake [of "s [Halted] 0" 0 1] by (simp add: s_def)
  also have "smp_step 1 (s [Trampoline] 0) (s [Indexed 0] 1)"
    using draw_index [of 0 "s [Trampoline] 0" 1] by (simp add: s_def)
  also have "smp_step 1 (s [Indexed 0] 1) (s [Entered 0] 1)"
    using enter [of 0 "s [Indexed 0] 1" 0 1] by (simp add: s_def)
  finally show ?thesis by (simp add: s_def one_entered_def)
qed

definition one_counted :: "bsp_pc \<Rightarrow> bool \<Rightarrow> smp" where
  "one_counted pc mapped = \<lparr>aps = [Counted 0], bsp = pc, AP_CORE_COUNTER = 1, AP_STARTUP_DONE_COUNTER = 1,
     page_0_mapped = mapped\<rparr>"

lemma one_counted_leaves:
  "smp_reaches 1 (one_counted (Polling t) True) (one_counted (if t = 0 then Panicked else Running) False)"
proof -
  have "smp_reaches 1 (one_counted (Polling t) True) (one_counted (Unmapping t) True)"
    using stop_polling [of "one_counted (Polling t) True" t 1] by (intro r_into_rtranclp) (simp add: one_counted_def)
  also have "smp_step 1 (one_counted (Unmapping t) True) (one_counted (Unmapped t) False)"
    using unmap_page_0 [of "one_counted (Unmapping t) True" t 1] by (simp add: one_counted_def)
  also have "smp_step 1 (one_counted (Unmapped t) False) (one_counted (if t = 0 then Panicked else Running) False)"
    using timed_out [of "one_counted (Unmapped t) False" t 1] all_started [of "one_counted (Unmapped t) False" t 1]
    by (simp add: one_counted_def)
  finally show ?thesis .
qed

lemma one_counts:
  "smp_step 1 (one_entered\<lparr>bsp := Polling t\<rparr>) (one_counted (Polling t) True)"
  using count_self [of 0 "one_entered\<lparr>bsp := Polling t\<rparr>" 0 1] by (simp add: one_entered_def one_counted_def)

subsection \<open>Properties\<close>

text \<open>
  C10: in every interleaving of the cores in which the bootstrap processor leaves \<open>init_smp\<close>
  normally, each of the \<open>n\<close> other cores has left the trampoline and counted itself, none has
  faulted, and together they hold each index from 0 to \<open>n - 1\<close> exactly once.
\<close>

theorem smp_start_complete:
  assumes "smp_reaches n (smp_init n) s" "bsp s = Running"
  shows "(\<forall>pc\<in>set (aps s). \<exists>k<n. pc = Counted k) \<and> mset (map ap_index (aps s)) = mset (map Some [0..<n])"
proof -
  have inv: "smp_inv n s" "length (aps s) = n" using smp_reaches_inv [OF assms(1)] by simp_all
  then have "n \<le> length (filter counted (aps s))" using assms(2) by (simp add: smp_inv_def)
  then have "filter counted (aps s) = aps s"
    using inv(2) length_filter_less [of _ "aps s" counted] by (metis filter_True leD)
  then have all: "\<forall>pc\<in>set (aps s). counted pc" by (simp add: filter_id_conv)
  then have "\<forall>i\<in>#mset (map ap_index (aps s)). i \<noteq> None" by (auto simp: counted_def)
  then have "drawn (aps s) = mset (map ap_index (aps s))" by (simp add: drawn_def filter_mset_eq_conv)
  with inv(1) have eq: "mset (map ap_index (aps s)) = mset (map Some [0..<AP_CORE_COUNTER s])" by (simp add: smp_inv_def)
  then have "AP_CORE_COUNTER s = n" using inv(2) by (metis length_map length_upt minus_nat.diff_0 size_mset)
  with eq have eq: "mset (map ap_index (aps s)) = mset (map Some [0..<n])" by simp
  have "k < n" if "Counted k \<in> set (aps s)" for k
    using mset_eq_setD [OF eq] that by (force simp: image_iff)
  with all eq show ?thesis by (auto simp: counted_def)
qed

text \<open>
  C26: the bootstrap processor can panic with "AP startup timed out" although every other core has
  started: when the last core counts itself after the last unsuccessful reading, the loop ends
  because of the counter, but with no time left.
\<close>

theorem smp_timeout_although_started:
  "\<exists>s. smp_reaches 1 (smp_init 1) s \<and> bsp s = Panicked \<and> AP_STARTUP_DONE_COUNTER s = 1 \<and> aps s = [Counted 0]"
proof -
  note reaches_one_entered
  also have "smp_reaches 1 one_entered (one_entered\<lparr>bsp := Polling 0\<rparr>)"
    by (rule poll_down) (simp_all add: one_entered_def)
  also note one_counts
  also note one_counted_leaves
  finally show ?thesis by (auto simp: one_counted_def)
qed

theorem smp_start_complete_witness:
  "\<exists>s. smp_reaches 1 (smp_init 1) s \<and> bsp s = Running \<and> (\<forall>pc\<in>set (aps s). \<exists>k<1. pc = Counted k)"
proof -
  note reaches_one_entered
  also have "smp_step 1 one_entered (one_counted (Polling 1000000) True)"
    using one_counts [of 1000000] by (simp add: one_entered_def)
  also note one_counted_leaves
  finally have r: "smp_reaches 1 (smp_init 1) (one_counted Running False)" by simp
  moreover have "bsp (one_counted Running False) = Running" by (simp add: one_counted_def)
  ultimately show ?thesis using smp_start_complete [OF r] by blast
qed

end
