(* ===== verification/App_Switch.thy ===== *)
theory App_Switch
  imports Loader Core_Local
begin

text \<open>
  Running a loaded program, kernel/src/loader.rs: \<open>run\<close>, \<open>switch_stack_and_execute\<close>,
  \<open>save_instruction_pointer\<close> and \<open>abort\<close>.  The assembly is given instruction by instruction over the
  registers and the 64-bit words of memory.  The program itself is a parameter: called at its entry
  point it returns, calls \<open>abort\<close> with an exit code, or raises an exception, which is a panic of the
  kernel.  So are the addresses that the
  compiler and the linker choose: the return addresses of the two calls, the table of function
  pointers, and for each core the addresses of the fields \<open>saved_stack_pointer\<close> and \<open>abort_addr\<close>
  of its \<open>RunningApplicationCLD\<close>; the assembly accesses these fields as words of memory.
\<close>

datatype reg = RAX | RBX | RCX | RDX | RSI | RDI | RBP | RSP | R8 | R9 | R10 | R11 | R12 | R13 | R14 | R15

record cpu =
  regs :: "reg \<Rightarrow> u64"
  words :: "u64 \<Rightarrow> u64"

text \<open>\<open>push r\<close>, \<open>pop r\<close>, \<open>mov d, s\<close>, \<open>mov d, [s]\<close>, \<open>mov [d], s\<close>\<close>

datatype instr = Push reg | Pop reg | Mov reg reg | Load reg reg | Store reg reg

definition push_word :: "u64 \<Rightarrow> cpu \<Rightarrow> cpu" where
  "push_word v c = c\<lparr>regs := (regs c)(RSP := regs c RSP - 8), words := (words c)(regs c RSP - 8 := v)\<rparr>"

fun exec :: "instr \<Rightarrow> cpu \<Rightarrow> cpu" where
  "exec (Push r) c = push_word (regs c r) c"
| "exec (Pop r) c = c\<lparr>regs := (regs c)(RSP := regs c RSP + 8, r := words c (regs c RSP))\<rparr>"
| "exec (Mov d s) c = c\<lparr>regs := (regs c)(d := regs c s)\<rparr>"
| "exec (Load d s) c = c\<lparr>regs := (regs c)(d := words c (regs c s))\<rparr>"
| "exec (Store d s) c = c\<lparr>words := (words c)(regs c d := regs c s)\<rparr>"

definition exec_all :: "instr list \<Rightarrow> cpu \<Rightarrow> cpu" where
  "exec_all is c = fold exec is c"

text \<open>The state of the kernel that the running program can change through the functions it is given.\<close>

type_synonym ('pt, 'd) world = "'pt space \<times> 'd kernel"

datatype 'w outcome = Returned cpu 'w | Aborted u64 cpu 'w | Faulted panic

record link_addrs =
  fp_table :: u64
  after_sip :: u64
  after_entry :: u64
  saved_ptr :: "nat \<Rightarrow> u64"
  abort_ptr :: "nat \<Rightarrow> u64"

text \<open>
  \<open>abort\<close>, called by the program: it loads the registers and jumps to the address in \<open>abort_addr\<close>.
  The result is the address at which execution continues.
\<close>

definition abort_app ::
  "link_addrs \<Rightarrow> 'd hw \<Rightarrow> u64 \<Rightarrow> cpu \<times> ('pt, 'd) world \<Rightarrow> (u64 \<times> cpu \<times> ('pt, 'd) world) res"
where
  "abort_app A H exit_code = (\<lambda>(c, s, k).
     bnd (get_cld H k) (\<lambda>(i, k).
     case running_application_data (cld i k) of
       None \<Rightarrow> Inl (Explicit ''The abort instruction pointer is not set'')
     | Some _ \<Rightarrow>
         let c = c\<lparr>regs := (regs c)(RAX := exit_code, RDX := saved_ptr A i, R8 := abort_ptr A i)\<rparr>
         in Inr (words c (regs c R8), c, s, k)))"

text \<open>\<open>save_instruction_pointer\<close> up to the call of the entry point and behind it; the final \<open>ret\<close>.\<close>

definition sip_enter :: "instr list" where
  "sip_enter = [Load RAX RSP, Store RDI RAX, Mov R15 RDX, Mov RDI RCX]"

definition sip_leave :: "instr list" where
  "sip_leave = [Mov RDX R15]"

definition ret_to :: "cpu \<Rightarrow> u64 \<times> cpu" where
  "ret_to c = (words c (regs c RSP), c\<lparr>regs := (regs c)(RSP := regs c RSP + 8)\<rparr>)"

definition save_instruction_pointer ::
  "link_addrs \<Rightarrow> 'd hw \<Rightarrow> (u64 \<Rightarrow> cpu \<times> ('pt, 'd) world \<Rightarrow> ('pt, 'd) world outcome) \<Rightarrow>
   cpu \<times> ('pt, 'd) world \<Rightarrow> (u64 \<times> cpu \<times> ('pt, 'd) world) res"
where
  "save_instruction_pointer A H app = (\<lambda>(c, w).
     let c = exec_all sip_enter c;
         entry = regs c RSI
     in case app entry (push_word (after_entry A) c, w) of
          Returned c w \<Rightarrow>
            let (target, c) = ret_to (exec_all sip_leave c) in Inr (target, c, w)
        | Aborted exit_code c w \<Rightarrow> abort_app A H exit_code (c, w)
        | Faulted e \<Rightarrow> Inl e)"

text \<open>The assembly of \<open>switch_stack_and_execute\<close> before and after the call.\<close>

definition switch_enter :: "instr list" where
  "switch_enter = [Push RBX, Push RBP, Push R14, Push R15, Store R8 RSP, Mov RSP R9, Mov RBP RSP,
     Mov RDI R10, Mov RSI R11, Mov RDX R8, Mov RCX R12]"

definition switch_leave :: "instr list" where
  "switch_leave = [Mov R13 RAX, Load RSP RDX, Pop R15, Pop R14, Pop RBP, Pop RBX]"

definition switch_stack_and_execute ::
  "link_addrs \<Rightarrow> 'd hw \<Rightarrow> (u64 \<Rightarrow> cpu \<times> ('pt, 'd) world \<Rightarrow> ('pt, 'd) world outcome) \<Rightarrow> nat \<Rightarrow> 'h ApplicationResources \<Rightarrow>
   cpu \<times> ('pt, 'd) world \<Rightarrow> (u64 \<times> cpu \<times> ('pt, 'd) world) res"
where
  "switch_stack_and_execute A H app resources_ptr resources = (\<lambda>(c, s, k).
     bnd (cadd USER_STACK_START USER_STACK_SIZE) (\<lambda>stack_end.
     bnd (csub stack_end 1024) (\<lambda>new_rsp.
     bnd (get_cld H k) (\<lambda>(i, k).
     let k = cld_update i (\<lambda>d. d\<lparr>running_application_data :=
               Some \<lparr>application_resources = resources_ptr, abort_addr = 0, saved_stack_pointer = 0\<rparr>\<rparr>) k;
         c = c\<lparr>words := (words c)(abort_ptr A i := 0, saved_ptr A i := 0)\<rparr>;
         c = c\<lparr>regs := (regs c)(R8 := saved_ptr A i, R9 := of_nat new_rsp, R10 := abort_ptr A i,
               R11 := of_nat (entry_point_virt_addr resources), R12 := fp_table A)\<rparr>
     in bnd (save_instruction_pointer A H app (push_word (after_sip A) (exec_all switch_enter c), s, k))
          (\<lambda>(target, c, w).
        if target = after_sip A then let c = exec_all switch_leave c in Inr (regs c R13, c, w)
        else Inl UndefinedBehaviour)))))"

definition run ::
  "x86 \<Rightarrow> BootInfo \<Rightarrow> link_addrs \<Rightarrow> 'd hw \<Rightarrow> (u64 \<Rightarrow> cpu \<times> ('pt, 'd) world \<Rightarrow> ('pt, 'd) world outcome) \<Rightarrow> nat \<Rightarrow>
   'h ApplicationResources \<Rightarrow> cpu \<times> ('pt, 'd) world \<Rightarrow> (u64 \<times> cpu \<times> ('pt, 'd) world) res"
where
  "run X bi A H app resources_ptr resources = (\<lambda>(c, s, k).
     bnd (switch_to_user_page_table X bi (l4_page_table resources) (mach s)) (\<lambda>m.
     bnd (switch_stack_and_execute A H app resources_ptr resources (c, s\<lparr>mach := m\<rparr>, k)) (\<lambda>(ret, c, s, k).
     bnd (get_cld H k) (\<lambda>(i, k).
     let k = cld_update i (\<lambda>d. d\<lparr>running_application_data := None\<rparr>) k in
     bnd (switch_to_kernel_page_table X bi (mach s)) (\<lambda>m.
     Inr (ret, c, s\<lparr>mach := m\<rparr>, k))))))"


subsection \<open>The assembly\<close>

text \<open>The words that the switch uses are apart: four on the kernel's stack, two fields, two on the new stack.\<close>

definition frame_words :: "u64 \<Rightarrow> u64 list" where
  "frame_words sp = [sp - 8, sp - 16, sp - 24, sp - 32]"

definition words_apart :: "link_addrs \<Rightarrow> nat \<Rightarrow> u64 \<Rightarrow> u64 \<Rightarrow> bool" where
  "words_apart A i sp n \<longleftrightarrow>
     distinct (frame_words sp @ [saved_ptr A i, abort_ptr A i, n - 8, n - 16]) \<and>
     (\<forall>a\<in>set (frame_words sp @ [saved_ptr A i, abort_ptr A i, n - 8, n - 16]). unat a mod 8 = 0)"

text \<open>The registers and words with which the program starts.\<close>

definition load_regs :: "link_addrs \<Rightarrow> nat \<Rightarrow> u64 \<Rightarrow> u64 \<Rightarrow> cpu \<Rightarrow> cpu" where
  "load_regs A i new_rsp entry c =
     c\<lparr>words := (words c)(abort_ptr A i := 0, saved_ptr A i := 0),
       regs := (regs c)(R8 := saved_ptr A i, R9 := new_rsp, R10 := abort_ptr A i, R11 := entry, R12 := fp_table A)\<rparr>"

definition at_entry :: "link_addrs \<Rightarrow> nat \<Rightarrow> u64 \<Rightarrow> u64 \<Rightarrow> cpu \<Rightarrow> cpu" where
  "at_entry A i new_rsp entry c =
     push_word (after_entry A) (exec_all sip_enter (push_word (after_sip A)
       (exec_all switch_enter (load_regs A i new_rsp entry c))))"

lemmas asm_defs = exec_all_def push_word_def switch_enter_def switch_leave_def sip_enter_def sip_leave_def
  load_regs_def ret_to_def

lemma at_entry_regs:
  assumes "words_apart A i (regs c RSP) n"
  shows "regs (at_entry A i n entry c) RSP = n - 16" "regs (at_entry A i n entry c) RDI = fp_table A"
    and "regs (at_entry A i n entry c) R15 = saved_ptr A i" "regs (at_entry A i n entry c) R12 = fp_table A"
    and "regs (exec_all sip_enter (push_word (after_sip A) (exec_all switch_enter (load_regs A i n entry c)))) RSI = entry"
  by (simp_all add: at_entry_def asm_defs)

lemma at_entry_words:
  assumes "words_apart A i (regs c RSP) n"
  shows "words (at_entry A i n entry c) (n - 8) = after_sip A"
    and "words (at_entry A i n entry c) (saved_ptr A i) = regs c RSP - 32"
    and "words (at_entry A i n entry c) (abort_ptr A i) = after_sip A"
    and "words (at_entry A i n entry c) (regs c RSP - 8) = regs c RBX"
    and "words (at_entry A i n entry c) (regs c RSP - 16) = regs c RBP"
    and "words (at_entry A i n entry c) (regs c RSP - 24) = regs c R14"
    and "words (at_entry A i n entry c) (regs c RSP - 32) = regs c R15"
  using assms by (simp_all add: at_entry_def asm_defs words_apart_def frame_words_def)

text \<open>Leaving the block: the saved registers come back from the kernel's stack.\<close>

lemma switch_leave_regs:
  assumes "regs c RDX = q" "words c q = sp - 32" "words c (sp - 32) = v15" "words c (sp - 24) = v14"
    and "words c (sp - 16) = vbp" "words c (sp - 8) = vbx"
  shows "regs (exec_all switch_leave c) RSP = sp" "regs (exec_all switch_leave c) RBX = vbx"
    and "regs (exec_all switch_leave c) RBP = vbp" "regs (exec_all switch_leave c) R14 = v14"
    and "regs (exec_all switch_leave c) R15 = v15" "regs (exec_all switch_leave c) R13 = regs c RAX"
    and "regs (exec_all switch_leave c) R12 = regs c R12"
  using assms by (simp_all add: asm_defs)

subsection \<open>Programs\<close>

text \<open>
  A program that follows the C calling convention: when it returns, the stack pointer is behind the
  return address, the registers that a callee saves are as before, and so are its caller's frame and
  the words \<open>kept\<close>; when it aborts, the words \<open>kept\<close> are as before.  In both cases its effect on the
  kernel's state is within \<open>keeps\<close>.
\<close>

definition conforms_at :: "u64 set \<Rightarrow> ('w \<Rightarrow> 'w \<Rightarrow> bool) \<Rightarrow> cpu \<Rightarrow> 'w \<Rightarrow> 'w outcome \<Rightarrow> bool" where
  "conforms_at kept keeps c w out \<longleftrightarrow> (case out of
     Returned c' w' \<Rightarrow> regs c' RSP = regs c RSP + 8 \<and> (\<forall>r\<in>{RBX, RBP, R12, R13, R14, R15}. regs c' r = regs c r) \<and>
       (\<forall>a\<in>insert (regs c RSP + 8) kept. words c' a = words c a) \<and> keeps w w'
   | Aborted code c' w' \<Rightarrow> (\<forall>a\<in>kept. words c' a = words c a) \<and> keeps w w'
   | Faulted _ \<Rightarrow> False)"

definition conforming :: "(u64 \<Rightarrow> cpu \<times> 'w \<Rightarrow> 'w outcome) \<Rightarrow> u64 set \<Rightarrow> ('w \<Rightarrow> 'w \<Rightarrow> bool) \<Rightarrow> bool" where
  "conforming app kept keeps \<longleftrightarrow> (\<forall>e c w. conforms_at kept keeps c w (app e (c, w)))"

text \<open>The kernel functions that a program calls keep the kernel's state well formed.\<close>

definition app_keeps where
  "app_keeps X bi P off tb rt pool p a = (\<lambda>(s, k) (s', k').
     (\<forall>fs. mem_inv X bi P off tb rt pool (mach s) fs \<longrightarrow> (\<exists>fs'. mem_inv X bi P off tb rt pool (mach s') fs')) \<and>
     cr3 (mach s') = cr3 (mach s) \<and> kernel_page_table (mach s') = kernel_page_table (mach s) \<and>
     (kernel_ok p k \<longrightarrow> kernel_ok p k') \<and>
     (\<forall>d. has_cld a k d \<longrightarrow> (\<exists>d'. has_cld a k' d' \<and> running_application_data d' = running_application_data d)))"

text \<open>The words that must survive the program.\<close>

definition kept_words :: "link_addrs \<Rightarrow> nat \<Rightarrow> u64 \<Rightarrow> u64 set" where
  "kept_words A i sp = set (frame_words sp) \<union> {saved_ptr A i, abort_ptr A i}"

definition restored :: "cpu \<Rightarrow> cpu \<Rightarrow> bool" where
  "restored c c' \<longleftrightarrow> (\<forall>r\<in>{RSP, RBX, RBP, R14, R15}. regs c' r = regs c r)"

lemma leave_restores:
  assumes apart: "words_apart A i (regs c RSP) n"
    and kept: "\<forall>a\<in>kept_words A i (regs c RSP). words c2 a = words (at_entry A i n entry c) a"
    and "regs c2 RDX = saved_ptr A i"
  shows "restored c (exec_all switch_leave c2)" "regs (exec_all switch_leave c2) R13 = regs c2 RAX"
    and "regs (exec_all switch_leave c2) R12 = regs c2 R12"
proof -
  note w = at_entry_words [OF apart, of entry]
  have "words c2 (saved_ptr A i) = regs c RSP - 32" "words c2 (regs c RSP - 32) = regs c R15"
    "words c2 (regs c RSP - 24) = regs c R14" "words c2 (regs c RSP - 16) = regs c RBP"
    "words c2 (regs c RSP - 8) = regs c RBX"
    using kept w by (auto simp: kept_words_def frame_words_def)
  note r = switch_leave_regs [OF assms(3) this]
  show "restored c (exec_all switch_leave c2)" using r by (simp add: restored_def)
  show "regs (exec_all switch_leave c2) R13 = regs c2 RAX" "regs (exec_all switch_leave c2) R12 = regs c2 R12"
    using r by simp_all
qed


definition user_rsp :: u64 where
  "user_rsp = of_nat (USER_STACK_START + USER_STACK_SIZE - 1024)"

definition started_cld :: "nat \<Rightarrow> CoreLocalData \<Rightarrow> CoreLocalData" where
  "started_cld rp d = d\<lparr>running_application_data :=
     Some \<lparr>application_resources = rp, abort_addr = 0, saved_stack_pointer = 0\<rparr>\<rparr>"

text \<open>What the caller of a program sees, given how the program ended.\<close>

fun exit_seen :: "link_addrs \<Rightarrow> 'w outcome \<Rightarrow> u64 \<Rightarrow> cpu \<Rightarrow> 'w \<Rightarrow> bool" where
  "exit_seen A (Returned c2 w2) ret c' w' \<longleftrightarrow> ret = regs c2 RAX \<and> regs c' R12 = fp_table A \<and> w' = w2"
| "exit_seen A (Aborted code c2 w2) ret c' w' \<longleftrightarrow> ret = code \<and> regs c' R12 = regs c2 R12 \<and> w' = w2"
| "exit_seen A (Faulted e) ret c' w' \<longleftrightarrow> False"

lemma abort_app_ok:
  assumes "runs_on H p a" "kernel_ok p k" "has_cld a k d" "running_application_data d = Some r"
  shows "abort_app A H code (c, s, k) = Inr (words c (abort_ptr A (unat a)),
    c\<lparr>regs := (regs c)(RAX := code, RDX := saved_ptr A (unat a), R8 := abort_ptr A (unat a))\<rparr>, s, k)"
  using get_cld_ok [OF assms(1-3)] assms(4) by (simp add: abort_app_def Let_def)

lemma switch_ok_app:
  fixes app :: "u64 \<Rightarrow> cpu \<times> ('pt, 'd) world \<Rightarrow> ('pt, 'd) world outcome"
    and r :: "'h ApplicationResources" and rp :: nat
  assumes core: "runs_on H p a" "kernel_ok p k" "has_cld a k d"
    and apart: "words_apart A (unat a) (regs c RSP) user_rsp"
  defines "k1 \<equiv> cld_update (unat a) (started_cld rp) k" and "e \<equiv> of_nat (entry_point_virt_addr r)"
  defines "ce \<equiv> at_entry A (unat a) user_rsp e c"
  assumes app: "conforms_at (kept_words A (unat a) (regs c RSP)) (app_keeps X bi P off tb rt pool p a) ce (s, k1) (app e (ce, s, k1))"
  shows "\<exists>ret c' w'. switch_stack_and_execute A H app rp r (c, s, k) = Inr (ret, c', w') \<and> restored c c' \<and>
    exit_seen A (app e (ce, s, k1)) ret c' w' \<and> app_keeps X bi P off tb rt pool p a (s, k1) w'"
proof -
  have rsp: "cadd USER_STACK_START USER_STACK_SIZE = Inr (USER_STACK_START + USER_STACK_SIZE)"
    "csub (USER_STACK_START + USER_STACK_SIZE) 1024 = Inr (USER_STACK_START + USER_STACK_SIZE - 1024)"
    by (simp_all add: layout_values USER_STACK_SIZE_def)
  note u = cld_update_ok [OF core(2,3), where f = "started_cld rp"]
  let ?sip = "save_instruction_pointer A H app
      (push_word (after_sip A) (exec_all switch_enter (load_regs A (unat a) user_rsp e c)), s, k1)"
  have run: "switch_stack_and_execute A H app rp r (c, s, k) = bnd ?sip (\<lambda>(target, c, w).
        if target = after_sip A then let c = exec_all switch_leave c in Inr (regs c R13, c, w)
        else Inl UndefinedBehaviour)"
    unfolding switch_stack_and_execute_def k1_def e_def started_cld_def load_regs_def user_rsp_def
    by (simp add: rsp get_cld_ok [OF core] Let_def)
  have sip: "?sip = (case app e (ce, s, k1) of
       Returned c w \<Rightarrow> let (target, c) = ret_to (exec_all sip_leave c) in Inr (target, c, w)
     | Aborted code c w \<Rightarrow> abort_app A H code (c, w)
     | Faulted e \<Rightarrow> Inl e)"
    by (simp add: save_instruction_pointer_def at_entry_regs(5) [OF apart] ce_def at_entry_def Let_def)
  show ?thesis
  proof (cases "app e (ce, s, k1)")
    case (Returned c2 w2)
    have c2: "regs c2 RSP = user_rsp - 8" "regs c2 R15 = saved_ptr A (unat a)" "regs c2 R12 = fp_table A"
      "words c2 (user_rsp - 8) = after_sip A" "app_keeps X bi P off tb rt pool p a (s, k1) w2"
      and kept: "\<forall>b\<in>kept_words A (unat a) (regs c RSP). words c2 b = words ce b"
      using app [unfolded Returned conforms_at_def] at_entry_regs [OF apart] at_entry_words(1) [OF apart] by (simp_all add: ce_def)
    define c3 where "c3 = c2\<lparr>regs := (regs c2)(RDX := saved_ptr A (unat a), RSP := user_rsp)\<rparr>"
    have "?sip = Inr (after_sip A, c3, w2)" unfolding sip Returned using c2(1,2,4) by (simp add: asm_defs c3_def)
    moreover have "\<forall>b\<in>kept_words A (unat a) (regs c RSP). words c3 b = words (at_entry A (unat a) user_rsp e c) b"
      using kept by (simp add: c3_def ce_def)
    note l = leave_restores [OF apart this]
    ultimately show ?thesis unfolding run Returned using l c2(3,5) by (simp add: c3_def Let_def)
  next
    case (Aborted code c2 w2)
    have keeps: "app_keeps X bi P off tb rt pool p a (s, k1) w2"
      and kept: "\<forall>b\<in>kept_words A (unat a) (regs c RSP). words c2 b = words ce b"
      using app [unfolded Aborted conforms_at_def] by simp_all
    obtain s2 k2 where w2: "w2 = (s2, k2)" by fastforce
    obtain d2 x where d2: "kernel_ok p k2" "has_cld a k2 d2" "running_application_data d2 = Some x"
      using keeps u(1,2) unfolding w2 k1_def app_keeps_def started_cld_def by fastforce
    define c3 where "c3 = c2\<lparr>regs := (regs c2)(RAX := code, RDX := saved_ptr A (unat a), R8 := abort_ptr A (unat a))\<rparr>"
    have "words c2 (abort_ptr A (unat a)) = after_sip A"
      using kept at_entry_words(3) [OF apart] by (simp add: kept_words_def ce_def)
    then have "?sip = Inr (after_sip A, c3, w2)"
      unfolding sip Aborted by (simp add: w2 c3_def abort_app_ok [OF core(1) d2])
    moreover have "\<forall>b\<in>kept_words A (unat a) (regs c RSP). words c3 b = words (at_entry A (unat a) user_rsp e c) b"
      using kept by (simp add: c3_def ce_def)
    note l = leave_restores [OF apart this]
    ultimately show ?thesis unfolding run Aborted using l keeps by (simp add: c3_def Let_def)
  next
    case (Faulted e)
    with app show ?thesis by (simp add: conforms_at_def)
  qed
qed

subsection \<open>Properties\<close>

lemma user_rsp_value: "user_rsp = 0x100FFFC00"
  by (simp add: user_rsp_def layout_values USER_STACK_SIZE_def)

text \<open>Running a program that conforms from the state in which it starts.\<close>

lemma run_ok:
  assumes "mem_inv X bi P off tb rt pool (mach s) fs" "l4_page_table r \<in> rt (page_tables (mach s))"
    and "runs_on H p a" "kernel_ok p k" "CORE_LOCAL k ! unat a = Some d"
    and "words_apart A (unat a) (regs c RSP) user_rsp"
    and ce: "ce = at_entry A (unat a) user_rsp (of_nat (entry_point_virt_addr r)) c"
    and s1: "s1 = s\<lparr>mach := (mach s)\<lparr>cr3 := l4_page_table r - off\<rparr>\<rparr>" and k1: "k1 = cld_update (unat a) (started_cld rp) k"
    and app: "conforms_at (kept_words A (unat a) (regs c RSP)) (app_keeps X bi P off tb rt pool p a) ce (s1, k1)
      (app (of_nat (entry_point_virt_addr r)) (ce, s1, k1))"
  shows "unat (regs ce RSP) = USER_STACK_START + USER_STACK_SIZE - 1040 \<and> unat (regs ce RSP) mod 16 = 0 \<and>
    regs ce RDI = fp_table A \<and>
    (\<exists>ret c' s2 k2 d2. run X bi A H app rp r (c, s, k) =
        Inr (ret, c', s2\<lparr>mach := (mach s2)\<lparr>cr3 := kernel_page_table (mach s) - off\<rparr>\<rparr>,
          cld_update (unat a) (\<lambda>d. d\<lparr>running_application_data := None\<rparr>) k2) \<and>
      (\<forall>q\<in>{RSP, RBX, RBP, R14, R15}. regs c' q = regs c q) \<and>
      exit_seen A (app (of_nat (entry_point_virt_addr r)) (ce, s1, k1)) ret c' (s2, k2) \<and>
      kernel_page_table (mach s2) = kernel_page_table (mach s) \<and>
      (\<exists>fs'. mem_inv X bi P off tb rt pool ((mach s2)\<lparr>cr3 := kernel_page_table (mach s) - off\<rparr>) fs') \<and>
      kernel_ok p k2 \<and> CORE_LOCAL k2 ! unat a = Some d2)"
proof -
  have core: "has_cld a k d" using assms(5) by (simp add: has_cld_def)
  let ?m1 = "(mach s)\<lparr>cr3 := l4_page_table r - off\<rparr>" and ?f = "\<lambda>d. d\<lparr>running_application_data := None\<rparr>"
  have m1: "switch_to_user_page_table X bi (l4_page_table r) (mach s) = Inr ?m1" "mem_inv X bi P off tb rt pool ?m1 fs"
    using switch_ok [OF assms(1,2)] unfolding switch_to_user_page_table_def by auto
  obtain ret c' s2 k2 where sw: "switch_stack_and_execute A H app rp r (c, s1, k) = Inr (ret, c', s2, k2)"
      "restored c c'" "exit_seen A (app (of_nat (entry_point_virt_addr r)) (ce, s1, k1)) ret c' (s2, k2)"
      "app_keeps X bi P off tb rt pool p a (s1, k1) (s2, k2)"
    using switch_ok_app [where app = app and r = r and rp = rp and s = s1, OF assms(3,4) core assms(6) app [unfolded ce k1]]
    unfolding k1 ce by auto
  note u = cld_update_ok [OF assms(4) core, where f = "started_cld rp", folded k1]
  obtain d2 fs2 where k2: "kernel_ok p k2" "has_cld a k2 d2" "mem_inv X bi P off tb rt pool (mach s2) fs2"
      "kernel_page_table (mach s2) = kernel_page_table (mach s)"
    using sw(4) u(1,2) m1(2) unfolding app_keeps_def s1 by auto
  let ?m3 = "(mach s2)\<lparr>cr3 := kernel_page_table (mach s) - off\<rparr>"
  have m3: "switch_to_kernel_page_table X bi (mach s2) = Inr ?m3" "mem_inv X bi P off tb rt pool ?m3 fs2"
    using switch_ok [OF k2(3) mem_invD(4) [OF k2(3)]] k2(4) unfolding switch_to_kernel_page_table_def by auto
  have "run X bi A H app rp r (c, s, k) = Inr (ret, c', s2\<lparr>mach := ?m3\<rparr>, cld_update (unat a) ?f k2)"
    by (simp add: run_def m1(1) sw(1) [unfolded s1] get_cld_ok [OF assms(3) k2(1,2)] m3(1))
  moreover have "CORE_LOCAL k2 ! unat a = Some d2" using k2(2) by (simp add: has_cld_def)
  moreover note sw(2) [unfolded restored_def] sw(3) k2(1,4) m3(2)
  moreover have "unat (regs ce RSP) = USER_STACK_START + USER_STACK_SIZE - 1040" "regs ce RDI = fp_table A"
    using at_entry_regs(1,2) [OF assms(6)] by (simp_all add: ce user_rsp_value layout_values USER_STACK_SIZE_def)
  moreover have "(USER_STACK_START + USER_STACK_SIZE - 1040) mod 16 = 0" by (simp add: layout_values USER_STACK_SIZE_def)
  ultimately show ?thesis by metis
qed

text \<open>
  C6: running a program that follows the C calling convention always comes back, whether the program
  returns or calls \<open>abort\<close> from any depth of its stack: the kernel's stack pointer and the saved
  registers are restored, the exit code is the program's return value or the code given to \<open>abort\<close>,
  the kernel's page table is active again and the core no longer has a running application.  The
  program starts with its own page table, on its own stack and with the function table as argument.
  Its stack pointer is then a multiple of 16, where the calling convention asks for an address of the
  form \<open>16 * k + 8\<close>; and after an abort \<open>r12\<close>, an input of the assembly block that the block does not
  declare as changed, holds what the program left there.
\<close>

theorem run_comes_back:
  assumes "mem_inv X bi P off tb rt pool (mach s) fs" "l4_page_table r \<in> rt (page_tables (mach s))"
    and "runs_on H p a" "kernel_ok p k" "CORE_LOCAL k ! unat a = Some d"
    and "words_apart A (unat a) (regs c RSP) user_rsp"
    and "conforming app (kept_words A (unat a) (regs c RSP)) (app_keeps X bi P off tb rt pool p a)"
  shows "let ce = at_entry A (unat a) user_rsp (of_nat (entry_point_virt_addr r)) c;
      s1 = s\<lparr>mach := (mach s)\<lparr>cr3 := l4_page_table r - off\<rparr>\<rparr>; k1 = cld_update (unat a) (started_cld rp) k in
    unat (regs ce RSP) = USER_STACK_START + USER_STACK_SIZE - 1040 \<and> unat (regs ce RSP) mod 16 = 0 \<and>
    regs ce RDI = fp_table A \<and>
    (\<exists>ret c' s2 k2 d2. run X bi A H app rp r (c, s, k) =
        Inr (ret, c', s2\<lparr>mach := (mach s2)\<lparr>cr3 := kernel_page_table (mach s) - off\<rparr>\<rparr>,
          cld_update (unat a) (\<lambda>d. d\<lparr>running_application_data := None\<rparr>) k2) \<and>
      (\<forall>q\<in>{RSP, RBX, RBP, R14, R15}. regs c' q = regs c q) \<and>
      exit_seen A (app (of_nat (entry_point_virt_addr r)) (ce, s1, k1)) ret c' (s2, k2) \<and>
      kernel_page_table (mach s2) = kernel_page_table (mach s) \<and>
      (\<exists>fs'. mem_inv X bi P off tb rt pool ((mach s2)\<lparr>cr3 := kernel_page_table (mach s) - off\<rparr>) fs') \<and>
      kernel_ok p k2 \<and> CORE_LOCAL k2 ! unat a = Some d2)"
proof -
  have app: "conforms_at (kept_words A (unat a) (regs c RSP)) (app_keeps X bi P off tb rt pool p a) ce w
      (app (of_nat (entry_point_virt_addr r)) (ce, w))" for ce w
    using assms(7) unfolding conforming_def by blast
  from run_ok [where app = app and rp = rp, OF assms(1-6) refl refl refl app] show ?thesis unfolding Let_def .
qed

subsection \<open>A concrete program\<close>

text \<open>A program that overwrites \<open>r12\<close> and aborts with code 42.\<close>

definition aborting_app :: "u64 \<Rightarrow> cpu \<times> 'w \<Rightarrow> 'w outcome" where
  "aborting_app e = (\<lambda>(c, w). Aborted 42 (c\<lparr>regs := (regs c)(R12 := 7, RSP := 0)\<rparr>) w)"

definition addrs_ex :: link_addrs where
  "addrs_ex = \<lparr>fp_table = 0x1000, after_sip = 0x2000, after_entry = 0x3000, saved_ptr = (\<lambda>i. 0x5000 + of_nat i * 64),
     abort_ptr = (\<lambda>i. 0x5008 + of_nat i * 64)\<rparr>"

definition cpu_ex :: cpu where
  "cpu_ex = \<lparr>regs = (\<lambda>r. 0x9000), words = (\<lambda>_. 0)\<rparr>"

lemma aborting_app_conforming: "conforming aborting_app kept (app_keeps X bi P off tb rt pool p a)"
  by (auto simp: conforming_def conforms_at_def aborting_app_def app_keeps_def)

lemma words_apart_ex: "words_apart addrs_ex 3 (regs cpu_ex RSP) user_rsp"
  by (simp add: words_apart_def addrs_ex_def cpu_ex_def frame_words_def user_rsp_value)

theorem run_comes_back_witness:
  "\<exists>m c' s' k'. new_memory x86_ref (bi_frames 100) (translate_frames 100) Map.empty 4096 pt_mem = Inr m \<and>
     run x86_ref (bi_frames 100) addrs_ex hw_core aborting_app 0
       \<lparr>l4_page_table = off_mem + 4096, entry_point_virt_addr = 0x200000, heap = ()\<rparr>
       (cpu_ex, \<lparr>mach = m, ram = \<lambda>_. 0\<rparr>, kernel_core\<lparr>CORE_LOCAL := core_local_init[3 := Some default_cld]\<rparr>) =
       Inr (42, c', s', k') \<and>
     regs c' RSP = 0x9000 \<and> regs c' R12 = 7"
proof -
  obtain m fs where m: "new_memory x86_ref (bi_frames 100) (translate_frames 100) Map.empty 4096 pt_mem = Inr m"
    "inv_frames 100 m fs" "page_tables m = pt_mem" by (rule new_memory_frames [of 100]) simp_all
  let ?s = "\<lparr>mach = m, ram = \<lambda>_. 0\<rparr>" and ?k = "kernel_core\<lparr>CORE_LOCAL := core_local_init[3 := Some default_cld]\<rparr>"
  let ?r = "\<lparr>l4_page_table = off_mem + 4096, entry_point_virt_addr = 0x200000, heap = ()\<rparr>"
  have s: "inv_frames 100 (mach ?s) fs" "l4_page_table ?r \<in> rt_ref off_mem (page_tables (mach ?s))"
    using m(2,3) by (simp_all add: rt_mem)
  have k: "kernel_ok 0xFEE00000 ?k" "CORE_LOCAL ?k ! unat (3 :: u8) = Some default_cld"
    by (simp_all add: kernel_ok_def kernel_core_def core_local_init_def MAX_CORES_def)
  have w: "words_apart addrs_ex (unat (3 :: u8)) (regs cpu_ex RSP) user_rsp" using words_apart_ex by simp
  from run_comes_back [OF s runs_on_core k w aborting_app_conforming, of 0] m(1) show ?thesis
    by (auto simp: Let_def aborting_app_def cpu_ex_def)
qed

end
