(* ===== verification/App_Test.thy ===== *)
theory App_Test
  imports App_Switch Ram_Disk
begin

text \<open>
  The application test of the kernel, \<open>app_test\<close> of kernel/src/common_main.rs (the same steps are the
  test \<open>simple_user_application\<close>), together with the program it runs, user_app/src/test.rs.  The test
  prepares two instances of the program and runs the first, the second and the first again.

  The program counts its runs in a static variable at the address \<open>c\<close> of its own address space.  Its
  output, with the heap allocations behind it, goes through the functions that the kernel provides;
  \<open>out text\<close> is the effect of printing a text on the state of the kernel.
\<close>

subsection \<open>The test program\<close>

definition load_u64 :: "x86 \<Rightarrow> BootInfo \<Rightarrow> ('pt, 'e) paging \<Rightarrow> nat \<Rightarrow> 'pt space \<Rightarrow> u64 res" where
  "load_u64 X bi P v s = bnd (load_bytes X bi P v 8 s) (\<lambda>bs. Inr (from_le_bytes bs))"

definition store_word :: "x86 \<Rightarrow> BootInfo \<Rightarrow> ('pt, 'e) paging \<Rightarrow> nat \<Rightarrow> u64 \<Rightarrow> 'pt space \<Rightarrow> 'pt space res" where
  "store_word X bi P v w s = store_bytes X bi P v (to_le_bytes w) s"

definition fetch_add :: "x86 \<Rightarrow> BootInfo \<Rightarrow> ('pt, 'e) paging \<Rightarrow> nat \<Rightarrow> u64 \<Rightarrow> 'pt space \<Rightarrow> (u64 \<times> 'pt space) res" where
  "fetch_add X bi P v n s =
     bnd (load_u64 X bi P v s) (\<lambda>w. bnd (store_word X bi P v (w + n) s) (\<lambda>s. Inr (w, s)))"

text \<open>
  The primes that \<open>rec\<close> collects: the numbers from 2 below \<open>u64::MAX\<close> that no smaller number from 2 divides.
\<close>

definition no_divisor :: "nat \<Rightarrow> bool" where
  "no_divisor n \<longleftrightarrow> \<not> list_ex (\<lambda>i. n mod i = 0) [2..<n]"

function next_prime :: "nat \<Rightarrow> nat option" where
  "next_prime n = (if n < 2 ^ 64 - 1 then if no_divisor n then Some n else next_prime (n + 1) else None)"
  by pat_completeness auto
termination by (relation "measure (\<lambda>n. 2 ^ 64 - 1 - n)") auto

declare next_prime.simps [simp del]

fun take_primes :: "nat \<Rightarrow> nat \<Rightarrow> nat list" where
  "take_primes 0 n = []"
| "take_primes (Suc k) n = (case next_prime n of None \<Rightarrow> [] | Some p \<Rightarrow> p # take_primes k (p + 1))"

definition print_vec :: "(nat \<times> nat) list \<Rightarrow> string list" where
  "print_vec v = map (\<lambda>(i, p). ''('' @ dec i @ '', '' @ dec p @ '')\<newline>'') v"

fun rec_lines :: "nat \<Rightarrow> string list" where
  "rec_lines 0 = (''Count: '' @ dec 0 @ ''\<newline>'') # print_vec (enumerate 0 (take_primes 10 2))"
| "rec_lines (Suc n) = (''Count: '' @ dec (Suc n) @ ''\<newline>'') # rec_lines n"

text \<open>
  The entry point: a return value goes to \<open>rax\<close> and the return pops the stack; the panic handler of
  the program (os_functions.rs) prints and calls \<open>abort(42)\<close>. \<open>info\<close> is the text of the panic.
\<close>

definition user_panic :: "(string \<Rightarrow> 'w \<Rightarrow> 'w) \<Rightarrow> string \<Rightarrow> cpu \<Rightarrow> 'w \<Rightarrow> 'w outcome" where
  "user_panic out info cpu w = Aborted 42 cpu (out (''User PANIC: '' @ info @ ''\<newline>'') w)"

definition test_app ::
  "x86 \<Rightarrow> BootInfo \<Rightarrow> ('pt, 'e) paging \<Rightarrow> nat \<Rightarrow> string \<Rightarrow> (string \<Rightarrow> ('pt, 'd) world \<Rightarrow> ('pt, 'd) world) \<Rightarrow>
   u64 \<Rightarrow> cpu \<times> ('pt, 'd) world \<Rightarrow> ('pt, 'd) world outcome"
where
  "test_app X bi P c info out e = (\<lambda>(cpu, w).
     let (s, k) = out ''Fmt Hello from Steelmind OS Program!\<newline>\<newline>'' w in
     case fetch_add X bi P c 1 s of
       Inl e \<Rightarrow> Faulted e
     | Inr (ret, s) \<Rightarrow>
         if ret = 0
         then Returned (cpu\<lparr>regs := (regs cpu)(RAX := ret, RSP := regs cpu RSP + 8)\<rparr>) (fold out (rec_lines 10) (s, k))
         else user_panic out info cpu (s, k))"

text \<open>The other program on the ram disk, user_app/src/main.rs, prints and returns.\<close>

definition main_app :: "(string \<Rightarrow> 'w \<Rightarrow> 'w) \<Rightarrow> u64 \<Rightarrow> cpu \<times> 'w \<Rightarrow> 'w outcome" where
  "main_app out e = (\<lambda>(cpu, w).
     Returned (cpu\<lparr>regs := (regs cpu)(RAX := 666, RSP := regs cpu RSP + 8)\<rparr>) (out ''Fmt Hello from Steelmind OS Program!\<newline>\<newline>'' w))"

subsection \<open>The test\<close>

definition app_test ::
  "x86 \<Rightarrow> BootInfo \<Rightarrow> ('pt, 'e) paging \<Rightarrow> 'f elf_lib \<Rightarrow> 'h heap_lib \<Rightarrow> link_addrs \<Rightarrow> 'd hw \<Rightarrow>
   (u64 \<Rightarrow> cpu \<times> ('pt, 'd) world \<Rightarrow> ('pt, 'd) world outcome) \<Rightarrow> (nat \<Rightarrow> u8) \<Rightarrow> nat \<Rightarrow> nat \<Rightarrow>
   cpu \<times> ('pt, 'd) world \<Rightarrow> (cpu \<times> ('pt, 'd) world) res"
where
  "app_test X bi P E L A H app mem ptr_a ptr_b = (\<lambda>(c, s, k).
     bnd (get_file_slice mem bi 1) (\<lambda>user_app.
     bnd (prepare_application X bi P E L user_app s) (\<lambda>(resources_a, s).
     bnd (prepare_application X bi P E L user_app s) (\<lambda>(resources_b, s).
     bnd (run X bi A H app ptr_a resources_a (c, s, k)) (\<lambda>(ret, c, s, k).
     bnd (ass (ret = 0)) (\<lambda>_.
     bnd (run X bi A H app ptr_b resources_b (c, s, k)) (\<lambda>(ret, c, s, k).
     bnd (ass (ret = 0)) (\<lambda>_.
     bnd (run X bi A H app ptr_a resources_a (c, s, k)) (\<lambda>(ret, c, s, k).
     bnd (ass (ret = 42)) (\<lambda>_.
     bnd (drop_resources X bi resources_b (mach s)) (\<lambda>m.
     bnd (drop_resources X bi resources_a m) (\<lambda>m.
     Inr (c, s\<lparr>mach := m\<rparr>, k)))))))))))))"

subsection \<open>The counter of an address space\<close>

text \<open>\<open>cell P pool c s r v\<close>: in the space of table \<open>r\<close> the word at \<open>c\<close> is in a writable page and holds \<open>v\<close>.\<close>

definition cell_in where
  "cell_in P pool c s r f v \<longleftrightarrow> (\<exists>fl. pg_look P (page_tables (mach s)) r (page_of c) = Some (Small f fl) \<and>
     PRESENT \<in> fl \<and> WRITABLE \<in> fl) \<and> f \<in> pool \<and> (\<forall>i<8. ram s (f + (c mod 4096 + i)) = to_le_bytes v ! i)"

definition cell where
  "cell P pool c s r v \<longleftrightarrow> (\<exists>f. cell_in P pool c s r f v)"

lemma word_in_page:
  assumes "8 dvd (c :: nat)" "i < 8"
  shows "page_of (c + i) = page_of c" "(c + i) mod 4096 = c mod 4096 + i"
proof -
  have m: "c mod 4096 + i < 4096"
  proof -
    have "8 dvd c mod 4096" using assms(1) by (simp add: dvd_mod_iff)
    then obtain q where q: "c mod 4096 = 8 * q" by (elim dvdE)
    have "8 * q < 4096" using q by (metis mod_less_divisor zero_less_numeral)
    then have "q < 512" by simp
    then show ?thesis using q assms(2) by simp
  qed
  have "(c div 4096 * 4096 + (c mod 4096 + i)) div 4096 = c div 4096" "(c div 4096 * 4096 + (c mod 4096 + i)) mod 4096 = c mod 4096 + i"
    using m by (simp_all only: div_mult_self3 mod_mult_self3 div_less mod_less add_0_right)
  moreover have "c div 4096 * 4096 + (c mod 4096 + i) = c + i" by simp
  ultimately show "page_of (c + i) = page_of c" "(c + i) mod 4096 = c mod 4096 + i" by (simp_all only: page_of_def)
qed

lemma cell_paddr:
  assumes "cell_in P pool c s (active off (mach s)) f v" "8 dvd c" "i < 8"
  shows "paddr (alook P off (mach s)) (c + i) = f + (c mod 4096 + i)" "writable_at (alook P off (mach s)) (c + i)"
  using assms word_in_page [OF assms(2,3)] by (auto simp: cell_in_def paddr_def writable_at_def)

lemma cell_load:
  assumes "mem_inv X bi P off tb rt pool (mach s) fs" "cell_in P pool c s (active off (mach s)) f v" "8 dvd c"
  shows "load_u64 X bi P c s = Inr v"
proof -
  have "load_bytes X bi P c 8 s = Inr (map (\<lambda>i. ram s (paddr (alook P off (mach s)) (c + i))) [0..<8])"
    using cell_paddr(2) [OF assms(2,3)] by (intro load_bytes_ok [OF assms(1)]) blast
  moreover have "map (\<lambda>i. ram s (paddr (alook P off (mach s)) (c + i))) [0..<8] = to_le_bytes v"
    using cell_paddr(1) [OF assms(2,3)] assms(2) by (intro nth_equalityI) (simp_all add: cell_in_def del: upt_rec_numeral)
  ultimately show ?thesis by (simp add: load_u64_def)
qed

lemma cell_store:
  assumes "mem_inv X bi P off tb rt pool (mach s) fs" "cell_in P pool c s (active off (mach s)) f v" "8 dvd c"
  shows "\<exists>m. store_word X bi P c w s = Inr (s\<lparr>ram := m\<rparr>) \<and> (\<forall>i<8. m (f + (c mod 4096 + i)) = to_le_bytes w ! i) \<and>
    (\<forall>a. a \<notin> {f + c mod 4096..<f + c mod 4096 + 8} \<longrightarrow> m a = ram s a)"
proof -
  let ?L = "alook P off (mach s)" and ?bs = "to_le_bytes w"
  have pa: "paddr ?L (c + i) = f + (c mod 4096 + i)" if "i < 8" for i by (rule cell_paddr(1) [OF assms(2,3) that])
  have st: "store_bytes X bi P c ?bs s = Inr (s\<lparr>ram := poke ?L c ?bs (ram s)\<rparr>)"
    using cell_paddr(2) [OF assms(2,3)] by (intro store_bytes_ok [OF assms(1)]) simp
  have inj: "inj_on (paddr ?L) {c..<c + length ?bs}"
  proof (rule inj_onI)
    fix x y assume xy: "x \<in> {c..<c + length ?bs}" "y \<in> {c..<c + length ?bs}" "paddr ?L x = paddr ?L y"
    then obtain i j where ij: "x = c + i" "i < 8" "y = c + j" "j < 8"
      by (metis add_less_cancel_left atLeastLessThan_iff le_Suc_ex length_to_le_bytes)
    then show "x = y" using pa [of i] pa [of j] xy(3) by simp
  qed
  have "poke ?L c ?bs (ram s) (f + (c mod 4096 + i)) = ?bs ! i" if "i < 8" for i
    using poke_nth [OF inj, of i "ram s"] pa [OF that] that by simp
  moreover have "poke ?L c ?bs (ram s) a = ram s a" if "a \<notin> {f + c mod 4096..<f + c mod 4096 + 8}" for a
  proof (rule poke_other)
    show "a \<notin> paddr ?L ` {c..<c + length ?bs}"
    proof
      assume "a \<in> paddr ?L ` {c..<c + length ?bs}"
      then obtain x where "c \<le> x" "x < c + 8" "a = paddr ?L x" by auto
      then have "a = f + (c mod 4096 + (x - c))" "x - c < 8" using pa [of "x - c"] by simp_all
      with that show False by simp
    qed
  qed
  ultimately show ?thesis using st by (auto simp: store_word_def)
qed

text \<open>Adding one to the word of the active space changes no other space's word.\<close>

lemma cells_apart:
  assumes "mem_inv X bi P off tb rt pool (mach s) fs" "r \<in> rt (page_tables (mach s))" "r' \<in> rt (page_tables (mach s))" "r' \<noteq> r"
    and "user_page (page_of c)" "cell_in P pool c s r f v" "cell_in P pool c s r' f' v'"
  shows "f' \<noteq> f"
  using user_frame_private [OF assms(1,2,3,5,5), of f] assms(4,6,7) by (auto simp: cell_in_def)

lemma frames_disjoint:
  assumes "4096 dvd (f :: nat)" "4096 dvd g" "f \<noteq> g" "i < 4096" "j < 4096"
  shows "f + i \<noteq> g + j"
proof
  assume "f + i = g + j"
  then have "(f + i) div 4096 = (g + j) div 4096" by simp
  with assms show False by (auto elim!: dvdE)
qed

lemma fetch_add_cell:
  assumes "mem_inv X bi P off tb rt pool (mach s) fs" "cell P pool c s (active off (mach s)) v" "8 dvd c" "user_page (page_of c)"
  shows "\<exists>m. fetch_add X bi P c 1 s = Inr (v, s\<lparr>ram := m\<rparr>) \<and> cell P pool c (s\<lparr>ram := m\<rparr>) (active off (mach s)) (v + 1) \<and>
    (\<forall>r\<in>rt (page_tables (mach s)). r \<noteq> active off (mach s) \<longrightarrow> (\<forall>v'. cell P pool c s r v' \<longrightarrow> cell P pool c (s\<lparr>ram := m\<rparr>) r v'))"
proof -
  obtain f where f: "cell_in P pool c s (active off (mach s)) f v" using assms(2) by (auto simp: cell_def)
  obtain m where m: "store_word X bi P c (v + 1) s = Inr (s\<lparr>ram := m\<rparr>)" "\<forall>i<8. m (f + (c mod 4096 + i)) = to_le_bytes (v + 1) ! i"
    "\<forall>a. a \<notin> {f + c mod 4096..<f + c mod 4096 + 8} \<longrightarrow> m a = ram s a"
    using cell_store [OF assms(1) f assms(3)] by blast
  have "fetch_add X bi P c 1 s = Inr (v, s\<lparr>ram := m\<rparr>)"
    using cell_load [OF assms(1) f assms(3)] m(1) by (simp add: fetch_add_def)
  moreover have "cell P pool c (s\<lparr>ram := m\<rparr>) (active off (mach s)) (v + 1)"
    using f m(2) by (auto simp: cell_def cell_in_def)
  moreover have "cell P pool c (s\<lparr>ram := m\<rparr>) r v'"
    if r: "r \<in> rt (page_tables (mach s))" "r \<noteq> active off (mach s)" and c: "cell P pool c s r v'" for r v'
  proof -
    obtain f' where f': "cell_in P pool c s r f' v'" using c by (auto simp: cell_def)
    have ne: "f' \<noteq> f" by (rule cells_apart [OF assms(1) mem_invD(3) [OF assms(1)] r assms(4) f f'])
    have al: "4096 dvd f" "4096 dvd f'" using f f' pool_aligned [OF assms(1)] by (simp_all add: cell_in_def)
    have off: "c mod 4096 + i < 4096" if "i < 8" for i using word_in_page(2) [OF assms(3) that] by (metis mod_less_divisor zero_less_numeral)
    have "m (f' + (c mod 4096 + i)) = ram s (f' + (c mod 4096 + i))" if "i < 8" for i
    proof -
      have "f' + (c mod 4096 + i) \<notin> {f + c mod 4096..<f + c mod 4096 + 8}"
      proof
        assume "f' + (c mod 4096 + i) \<in> {f + c mod 4096..<f + c mod 4096 + 8}"
        then have ge: "f + c mod 4096 \<le> f' + (c mod 4096 + i)" "f' + (c mod 4096 + i) < f + c mod 4096 + 8" by simp_all
        define j where "j = f' + (c mod 4096 + i) - (f + c mod 4096)"
        have j: "j < 8" "f' + (c mod 4096 + i) = f + (c mod 4096 + j)" using ge unfolding j_def by simp_all
        with frames_disjoint [OF al(2,1) ne off [OF that] off [OF j(1)]] show False by simp
      qed
      with m(3) show ?thesis by blast
    qed
    with f' show ?thesis by (auto simp: cell_def cell_in_def)
  qed
  ultimately show ?thesis by blast
qed

subsection \<open>Output\<close>

text \<open>
  What the test relies on when the program prints and allocates: the kernel's state stays well
  formed, and no address space's translation or contents of the page of the counter change.
\<close>

definition quiet where
  "quiet P rt c = (\<lambda>(s, _) (s', _). rt (page_tables (mach s)) \<subseteq> rt (page_tables (mach s')) \<and>
     (\<forall>r\<in>rt (page_tables (mach s)).
        pg_look P (page_tables (mach s')) r (page_of c) = pg_look P (page_tables (mach s)) r (page_of c) \<and>
        (\<forall>f fl. pg_look P (page_tables (mach s)) r (page_of c) = Some (Small f fl) \<longrightarrow>
           (\<forall>i<4096. ram s' (f + i) = ram s (f + i)))))"

lemma quiet_trans: "quiet P rt c w w' \<Longrightarrow> quiet P rt c w' w'' \<Longrightarrow> quiet P rt c w w''"
  unfolding quiet_def by (cases w; cases w'; cases w'') auto

lemma quiet_cell:
  assumes "quiet P rt c (s, k) (s', k')" "r \<in> rt (page_tables (mach s))" "cell P pool c s r v" "8 dvd c"
  shows "cell P pool c s' r v"
proof -
  have off: "c mod 4096 + i < 4096" if "i < 8" for i using word_in_page(2) [OF assms(4) that] by (metis mod_less_divisor zero_less_numeral)
  from assms(3) obtain f fl where "pg_look P (page_tables (mach s)) r (page_of c) = Some (Small f fl)" "PRESENT \<in> fl" "WRITABLE \<in> fl"
    "f \<in> pool" "\<forall>i<8. ram s (f + (c mod 4096 + i)) = to_le_bytes v ! i" by (auto simp: cell_def cell_in_def)
  with assms(1,2) off show ?thesis unfolding cell_def cell_in_def quiet_def by (intro exI [of _ f]) auto
qed

lemma app_keeps_trans:
  "app_keeps X bi P off tb rt pool p a w w' \<Longrightarrow> app_keeps X bi P off tb rt pool p a w' w'' \<Longrightarrow>
    app_keeps X bi P off tb rt pool p a w w''"
  unfolding app_keeps_def by (cases w; cases w'; cases w'') (simp, metis)

definition calm where
  "calm X bi P off tb rt pool p a c w w' \<longleftrightarrow> app_keeps X bi P off tb rt pool p a w w' \<and> quiet P rt c w w'"

lemma calm_fold:
  assumes "\<And>t w. calm X bi P off tb rt pool p a c w (out t w)"
  shows "calm X bi P off tb rt pool p a c w (fold out ts w)"
proof (induction ts arbitrary: w)
  case Nil
  then show ?case by (cases w) (auto simp: calm_def app_keeps_def quiet_def)
next
  case (Cons t ts)
  from Cons [of "out t w"] assms [of w t] show ?case
    unfolding calm_def by (auto intro: app_keeps_trans quiet_trans)
qed

subsection \<open>One run of the test program\<close>

lemma test_app_step:
  assumes inv: "mem_inv X bi P off tb rt pool (mach s) fs" and cell: "cell P pool c s (active off (mach s)) v"
    and c: "8 dvd c" "user_page (page_of c)" and out: "\<And>t w. calm X bi P off tb rt pool p a c w (out t w)"
  obtains s' k' where "test_app X bi P c info out e (cpu, s, k) =
      (if v = 0 then Returned (cpu\<lparr>regs := (regs cpu)(RAX := 0, RSP := regs cpu RSP + 8)\<rparr>) (s', k') else Aborted 42 cpu (s', k'))"
    "app_keeps X bi P off tb rt pool p a (s, k) (s', k')" "rt (page_tables (mach s)) \<subseteq> rt (page_tables (mach s'))"
    "cell P pool c s' (active off (mach s)) (v + 1)"
    "\<forall>r\<in>rt (page_tables (mach s)). r \<noteq> active off (mach s) \<longrightarrow> (\<forall>v'. cell P pool c s r v' \<longrightarrow> cell P pool c s' r v')"
proof -
  let ?r = "active off (mach s)"
  obtain s1 k1 where o1: "out ''Fmt Hello from Steelmind OS Program!\<newline>\<newline>'' (s, k) = (s1, k1)" by fastforce
  have a1: "app_keeps X bi P off tb rt pool p a (s, k) (s1, k1)" and q1: "quiet P rt c (s, k) (s1, k1)"
    using out [of "(s, k)" "''Fmt Hello from Steelmind OS Program!\<newline>\<newline>''"] by (simp_all add: o1 calm_def)
  obtain fs1 where inv1: "mem_inv X bi P off tb rt pool (mach s1) fs1" and act: "active off (mach s1) = ?r"
    using a1 inv unfolding app_keeps_def by auto
  have rt1: "rt (page_tables (mach s)) \<subseteq> rt (page_tables (mach s1))" "?r \<in> rt (page_tables (mach s))"
    using q1 mem_invD(3) [OF inv] by (simp_all add: quiet_def)
  have c1: "cell P pool c s1 r v'" if "r \<in> rt (page_tables (mach s))" "cell P pool c s r v'" for r v'
    by (rule quiet_cell [OF q1 that c(1)])
  obtain m where m: "fetch_add X bi P c 1 s1 = Inr (v, s1\<lparr>ram := m\<rparr>)" "cell P pool c (s1\<lparr>ram := m\<rparr>) ?r (v + 1)"
    "\<forall>r\<in>rt (page_tables (mach s1)). r \<noteq> ?r \<longrightarrow> (\<forall>v'. cell P pool c s1 r v' \<longrightarrow> cell P pool c (s1\<lparr>ram := m\<rparr>) r v')"
    using fetch_add_cell [OF inv1 _ c, of v] c1 [OF rt1(2) cell] act by auto
  let ?s2 = "s1\<lparr>ram := m\<rparr>"
  obtain s3 k3 where o3: "(if v = 0 then fold out (rec_lines 10) (?s2, k1) else out (''User PANIC: '' @ info @ ''\<newline>'') (?s2, k1)) = (s3, k3)"
    by fastforce
  have "calm X bi P off tb rt pool p a c (?s2, k1) (s3, k3)"
    using calm_fold [of X bi P off tb rt pool p a c out "(?s2, k1)" "rec_lines 10"] out o3
      out [of "(?s2, k1)" "''User PANIC: '' @ info @ ''\<newline>''"] by (cases "v = 0") simp_all
  then have a3: "app_keeps X bi P off tb rt pool p a (?s2, k1) (s3, k3)" and q3: "quiet P rt c (?s2, k1) (s3, k3)"
    by (simp_all add: calm_def)
  have a2: "app_keeps X bi P off tb rt pool p a (s1, k1) (?s2, k1)" by (auto simp: app_keeps_def)
  show ?thesis
  proof (rule that)
    show "test_app X bi P c info out e (cpu, s, k) = (if v = 0 then Returned (cpu\<lparr>regs := (regs cpu)(RAX := 0, RSP := regs cpu RSP + 8)\<rparr>) (s3, k3)
        else Aborted 42 cpu (s3, k3))"
      using o1 m(1) o3 by (cases "v = 0") (simp_all add: test_app_def user_panic_def Let_def del: rec_lines.simps)
    show "app_keeps X bi P off tb rt pool p a (s, k) (s3, k3)" by (rule app_keeps_trans [OF app_keeps_trans [OF a1 a2] a3])
    show "rt (page_tables (mach s)) \<subseteq> rt (page_tables (mach s3))" using rt1(1) q3 by (auto simp: quiet_def)
    show "cell P pool c s3 ?r (v + 1)" using quiet_cell [OF q3 _ m(2) c(1)] rt1 by auto
    show "\<forall>r\<in>rt (page_tables (mach s)). r \<noteq> ?r \<longrightarrow> (\<forall>v'. cell P pool c s r v' \<longrightarrow> cell P pool c s3 r v')"
    proof (intro ballI impI allI)
      fix r v' assume r: "r \<in> rt (page_tables (mach s))" "r \<noteq> ?r" "cell P pool c s r v'"
      then have "cell P pool c ?s2 r v'" using m(3) c1 rt1(1) by blast
      then show "cell P pool c s3 r v'" using quiet_cell [OF q3 _ _ c(1)] r(1) rt1(1) by auto
    qed
  qed
qed

lemma cell_cr3 [simp]: "cell P pool c (s\<lparr>mach := (mach s)\<lparr>cr3 := x\<rparr>\<rparr>) r v = cell P pool c s r v"
  by (simp add: cell_def cell_in_def)

text \<open>What a run needs of the core and the stack of the caller.\<close>

definition core_ready where
  "core_ready H A p a cpu k \<longleftrightarrow> runs_on H p a \<and> kernel_ok p k \<and> (\<exists>d. CORE_LOCAL k ! unat a = Some d) \<and>
     words_apart A (unat a) (regs cpu RSP) user_rsp"

lemma run_test_app:
  assumes inv: "mem_inv X bi P off tb rt pool (mach s) fs" and r: "l4_page_table r \<in> rt (page_tables (mach s))"
    and core: "core_ready H A p a cpu k" and cell: "cell P pool c s (l4_page_table r) v"
    and c: "8 dvd c" "user_page (page_of c)" and out: "\<And>t w. calm X bi P off tb rt pool p a c w (out t w)"
  obtains cpu' s' k' fs' where "run X bi A H (test_app X bi P c info out) rp r (cpu, s, k) = Inr (if v = 0 then 0 else 42, cpu', s', k')"
    "regs cpu' RSP = regs cpu RSP" "mem_inv X bi P off tb rt pool (mach s') fs'" "core_ready H A p a cpu' k'"
    "rt (page_tables (mach s)) \<subseteq> rt (page_tables (mach s'))" "cell P pool c s' (l4_page_table r) (v + 1)"
    "\<forall>q\<in>rt (page_tables (mach s)). q \<noteq> l4_page_table r \<longrightarrow> (\<forall>v'. cell P pool c s q v' \<longrightarrow> cell P pool c s' q v')"
proof -
  obtain d where k: "runs_on H p a" "kernel_ok p k" "CORE_LOCAL k ! unat a = Some d" "words_apart A (unat a) (regs cpu RSP) user_rsp"
    using core by (auto simp: core_ready_def)
  let ?e = "of_nat (entry_point_virt_addr r)" and ?t = "l4_page_table r"
  define ce where "ce = at_entry A (unat a) user_rsp ?e cpu"
  define s1 where "s1 = s\<lparr>mach := (mach s)\<lparr>cr3 := ?t - off\<rparr>\<rparr>"
  define k1 where "k1 = cld_update (unat a) (started_cld rp) k"
  have act: "active off (mach s1) = ?t" using mem_invD(13) [OF inv r] by (simp add: s1_def)
  have inv1: "mem_inv X bi P off tb rt pool (mach s1) fs" using switch_ok [OF inv r] by (auto simp: s1_def)
  have cell1: "cell P pool c s1 (active off (mach s1)) v" unfolding act using cell by (simp add: s1_def)
  obtain s2 k2 where st: "test_app X bi P c info out ?e (ce, s1, k1) =
      (if v = 0 then Returned (ce\<lparr>regs := (regs ce)(RAX := 0, RSP := regs ce RSP + 8)\<rparr>) (s2, k2) else Aborted 42 ce (s2, k2))"
    "app_keeps X bi P off tb rt pool p a (s1, k1) (s2, k2)" "rt (page_tables (mach s1)) \<subseteq> rt (page_tables (mach s2))"
    "cell P pool c s2 (active off (mach s1)) (v + 1)"
    "\<forall>q\<in>rt (page_tables (mach s1)). q \<noteq> active off (mach s1) \<longrightarrow> (\<forall>v'. cell P pool c s1 q v' \<longrightarrow> cell P pool c s2 q v')"
    by (rule test_app_step [OF inv1 cell1 c out])
  have conf: "conforms_at (kept_words A (unat a) (regs cpu RSP)) (app_keeps X bi P off tb rt pool p a) ce (s1, k1)
      (test_app X bi P c info out ?e (ce, s1, k1))"
    using st(2) unfolding st(1) by (simp add: conforms_at_def)
  obtain ret cpu' s3 k3 d3 fs3 where run: "run X bi A H (test_app X bi P c info out) rp r (cpu, s, k) =
        Inr (ret, cpu', s3\<lparr>mach := (mach s3)\<lparr>cr3 := kernel_page_table (mach s) - off\<rparr>\<rparr>,
          cld_update (unat a) (\<lambda>d. d\<lparr>running_application_data := None\<rparr>) k3)"
      "regs cpu' RSP = regs cpu RSP" "exit_seen A (test_app X bi P c info out ?e (ce, s1, k1)) ret cpu' (s3, k3)"
      "mem_inv X bi P off tb rt pool ((mach s3)\<lparr>cr3 := kernel_page_table (mach s) - off\<rparr>) fs3"
      "kernel_ok p k3" "CORE_LOCAL k3 ! unat a = Some d3"
    using run_ok [where app = "test_app X bi P c info out" and rp = rp, OF inv r k ce_def s1_def k1_def conf] by blast
  have ret: "ret = (if v = 0 then 0 else 42)" "s3 = s2" "k3 = k2" using run(3) unfolding st(1) by (auto split: if_splits)
  have "has_cld a k3 d3" using run(6) by (simp add: has_cld_def)
  from cld_update_ok(1,2) [OF run(5) this, of "\<lambda>d. d\<lparr>running_application_data := None\<rparr>"]
  have "core_ready H A p a cpu' (cld_update (unat a) (\<lambda>d. d\<lparr>running_application_data := None\<rparr>) k3)"
    using k(1,4) run(2) by (auto simp: core_ready_def has_cld_def)
  with run(1,2,4) ret st(3-5) show ?thesis
    by (intro that [of cpu' "s3\<lparr>mach := (mach s3)\<lparr>cr3 := kernel_page_table (mach s) - off\<rparr>\<rparr>"
        "cld_update (unat a) (\<lambda>d. d\<lparr>running_application_data := None\<rparr>) k3" fs3]) (simp_all add: act, simp_all add: s1_def)
qed

text \<open>The program main returns 666 to the kernel, on every run.\<close>

lemma run_main_app:
  assumes inv: "mem_inv X bi P off tb rt pool (mach s) fs" and r: "l4_page_table r \<in> rt (page_tables (mach s))"
    and core: "core_ready H A p a cpu k" and out: "\<And>t w. app_keeps X bi P off tb rt pool p a w (out t w)"
  shows "\<exists>cpu' s' k' fs'. run X bi A H (main_app out) rp r (cpu, s, k) = Inr (666, cpu', s', k') \<and>
    regs cpu' RSP = regs cpu RSP \<and> mem_inv X bi P off tb rt pool (mach s') fs'"
proof -
  obtain d where k: "runs_on H p a" "kernel_ok p k" "CORE_LOCAL k ! unat a = Some d" "words_apart A (unat a) (regs cpu RSP) user_rsp"
    using core by (auto simp: core_ready_def)
  let ?e = "of_nat (entry_point_virt_addr r)"
  define ce where "ce = at_entry A (unat a) user_rsp ?e cpu"
  define s1 where "s1 = s\<lparr>mach := (mach s)\<lparr>cr3 := l4_page_table r - off\<rparr>\<rparr>"
  define k1 where "k1 = cld_update (unat a) (started_cld rp) k"
  obtain w where w: "main_app out ?e (ce, s1, k1) = Returned (ce\<lparr>regs := (regs ce)(RAX := 666, RSP := regs ce RSP + 8)\<rparr>) w"
    "app_keeps X bi P off tb rt pool p a (s1, k1) w" using out by (simp add: main_app_def)
  have conf: "conforms_at (kept_words A (unat a) (regs cpu RSP)) (app_keeps X bi P off tb rt pool p a) ce (s1, k1) (main_app out ?e (ce, s1, k1))"
    using w(2) unfolding w(1) by (simp add: conforms_at_def)
  obtain ret cpu' s2 k2 fs2 where run: "run X bi A H (main_app out) rp r (cpu, s, k) =
        Inr (ret, cpu', s2\<lparr>mach := (mach s2)\<lparr>cr3 := kernel_page_table (mach s) - off\<rparr>\<rparr>,
          cld_update (unat a) (\<lambda>d. d\<lparr>running_application_data := None\<rparr>) k2)"
      "regs cpu' RSP = regs cpu RSP" "exit_seen A (main_app out ?e (ce, s1, k1)) ret cpu' (s2, k2)"
      "mem_inv X bi P off tb rt pool ((mach s2)\<lparr>cr3 := kernel_page_table (mach s) - off\<rparr>) fs2"
    using run_ok [where app = "main_app out" and rp = rp, OF inv r k ce_def s1_def k1_def conf] by blast
  have "ret = 666" using run(3) unfolding w(1) by simp
  with run show ?thesis
    by (intro exI [of _ cpu'] exI [of _ "s2\<lparr>mach := (mach s2)\<lparr>cr3 := kernel_page_table (mach s) - off\<rparr>\<rparr>"]
        exI [of _ "cld_update (unat a) (\<lambda>d. d\<lparr>running_application_data := None\<rparr>) k2"] exI [of _ fs2]) simp
qed

subsection \<open>The counter of a fresh instance\<close>

text \<open>The segment that holds the counter: writable, and zero at the counter.\<close>

definition counter_seg :: "'f elf_lib \<Rightarrow> 'f \<Rightarrow> Segment list \<Rightarrow> nat \<Rightarrow> bool" where
  "counter_seg E f segs c \<longleftrightarrow> (\<exists>seg\<in>set segs. p_type seg = PT_LOAD \<and> write_flag seg \<and> p_vaddr seg \<le> c \<and>
     c + 8 \<le> p_vaddr seg + p_memsz seg \<and>
     (\<forall>i<8. let data = the (segment_data E f seg); j = c - p_vaddr seg + i in j < length data \<longrightarrow> data ! j = 0))"

lemma loaded_cell:
  assumes "in_memory E f (pg_look P (page_tables (mach s)) r) (ram s) pool seg" "write_flag seg" "8 dvd c"
    and "p_vaddr seg \<le> c" "c + 8 \<le> p_vaddr seg + p_memsz seg"
    and "\<forall>i<8. let data = the (segment_data E f seg); j = c - p_vaddr seg + i in j < length data \<longrightarrow> data ! j = 0"
  shows "cell P pool c s r 0"
proof -
  let ?d = "the (segment_data E f seg)" and ?L = "pg_look P (page_tables (mach s)) r"
  have L: "\<exists>g. ?L (page_of (c + i)) = Some (Small g (final_flags seg)) \<and> g \<in> pool \<and> ram s (g + (c + i) mod 4096) = 0" if "i < 8" for i
  proof -
    have "c - p_vaddr seg + i < p_memsz seg" "p_vaddr seg + (c - p_vaddr seg + i) = c + i" using assms(4,5) that by simp_all
    with assms(1) assms(6) [rule_format, OF that] show ?thesis
      unfolding in_memory_def Loader.loaded_def Let_def by (metis (no_types, lifting))
  qed
  from L [of 0] obtain g where g: "?L (page_of c) = Some (Small g (final_flags seg))" "g \<in> pool" by auto
  have "ram s (g + (c mod 4096 + i)) = 0" if "i < 8" for i
    using L [OF that] g(1) word_in_page [OF assms(3) that] by auto
  moreover have "to_le_bytes 0 ! i = 0" if "i < 8" for i using that by (simp add: to_le_bytes_def del: upt_rec_numeral)
  moreover have "PRESENT \<in> final_flags seg" "WRITABLE \<in> final_flags seg" using assms(2) by (simp_all add: final_flags_def)
  ultimately show ?thesis using g unfolding cell_def cell_in_def by auto
qed

lemma cell_keeps:
  assumes inv: "mem_inv X bi P off tb rt pool (mach s) fs" and rv: "r \<in> rt (page_tables (mach s))" "cell P pool c s r v"
    and c: "8 dvd c" "user_page (page_of c)"
    and look: "pg_look P (page_tables (mach s')) r (page_of c) = pg_look P (page_tables (mach s)) r (page_of c)"
    and ram: "\<forall>a. page_of a \<notin> set fs \<longrightarrow> ram s' a = ram s a"
  shows "cell P pool c s' r v"
proof -
  obtain g fl where g: "pg_look P (page_tables (mach s)) r (page_of c) = Some (Small g fl)" "PRESENT \<in> fl" "WRITABLE \<in> fl" "g \<in> pool"
    "\<forall>i<8. ram s (g + (c mod 4096 + i)) = to_le_bytes v ! i" using rv(2) by (auto simp: cell_def cell_in_def)
  have "g \<notin> set fs" using mem_invD(6) [OF inv] rv(1) g(1,4) user_page_managed [OF c(2)] unfolding frames_apart_def by blast
  moreover have "page_of (g + (c mod 4096 + i)) = g" if "i < 8" for i
    using pool_aligned [OF inv g(4)] word_in_page(2) [OF c(1) that] mod_less_divisor [of 4096 "c + i"]
    by (auto simp: page_of_def elim!: dvdE)
  ultimately have "\<forall>i<8. ram s' (g + (c mod 4096 + i)) = to_le_bytes v ! i" using ram g(5) by simp
  with g look show ?thesis by (auto simp: cell_def cell_in_def)
qed

lemma prepare_cell:
  assumes inv: "mem_inv X bi P off tb rt pool (mach s) fs" and prog: "program_ok E file f segs"
    and frames: "1 + 4 * (sum_list (map needs segs) + stack_count) \<le> length fs"
    and seg: "counter_seg E f segs c" and c: "8 dvd c" "user_page (page_of c)"
  obtains res s' n where "prepare_application X bi P E L file s = Inr (res, s')"
    "n \<le> 1 + 4 * (sum_list (map needs segs) + stack_count)" "mem_inv X bi P off tb rt pool (mach s') (drop n fs)"
    "l4_page_table res \<notin> rt (page_tables (mach s))"
    "rt (page_tables (mach s')) = insert (l4_page_table res) (rt (page_tables (mach s)))"
    "cell P pool c s' (l4_page_table res) 0"
    "\<forall>r\<in>rt (page_tables (mach s)). \<forall>v. cell P pool c s r v \<longrightarrow> cell P pool c s' r v"
proof -
  obtain new s' n where r: "prepare_application X bi P E L file s =
      Inr (\<lparr>l4_page_table = new, entry_point_virt_addr = e_entry E f, heap = h_new L\<rparr>, s')"
    "new \<notin> rt (page_tables (mach s))" "rt (page_tables (mach s')) = insert new (rt (page_tables (mach s)))"
    "n \<le> 1 + 4 * (sum_list (map needs segs) + stack_count)" "mem_inv X bi P off tb rt pool (mach s') (drop n fs)"
    "\<forall>r\<in>rt (page_tables (mach s)). \<forall>p. pg_look P (page_tables (mach s')) r p = pg_look P (page_tables (mach s)) r p"
    and im: "\<forall>seg\<in>set segs. p_type seg = PT_LOAD \<longrightarrow>
       in_memory E f (pg_look P (page_tables (mach s')) new) (ram s') pool seg"
    and ram: "\<forall>a. page_of a \<notin> set fs \<longrightarrow> ram s' a = ram s a"
    using prepare_application_ok [OF inv prog frames, of L] by blast
  obtain sg where sg: "sg \<in> set segs" "p_type sg = PT_LOAD" "write_flag sg" "p_vaddr sg \<le> c" "c + 8 \<le> p_vaddr sg + p_memsz sg"
    "\<forall>i<8. let data = the (segment_data E f sg); j = c - p_vaddr sg + i in j < length data \<longrightarrow> data ! j = 0"
    using seg unfolding counter_seg_def by blast
  have new: "cell P pool c s' new 0" by (rule loaded_cell [OF im [rule_format, OF sg(1,2)] sg(3) c(1) sg(4-6)])
  have old: "cell P pool c s' r v" if "r \<in> rt (page_tables (mach s))" "cell P pool c s r v" for r v
    using cell_keeps [OF inv that c _ ram] r(6) that(1) by simp
  show ?thesis
    by (rule that [of "\<lparr>l4_page_table = new, entry_point_virt_addr = e_entry E f, heap = h_new L\<rparr>" s' n])
      (use r new old in simp_all)
qed

lemma drop_resources_ok:
  assumes "mem_inv X bi P off tb rt pool m fs" "l4_page_table r \<in> rt (page_tables m)"
  shows "\<exists>m'. drop_resources X bi r m = Inr m' \<and> mem_inv X bi P off tb rt pool m' fs \<and> page_tables m' = page_tables m"
proof -
  obtain m1 where m1: "switch_to_user_page_table X bi (l4_page_table r) m = Inr m1" "mem_inv X bi P off tb rt pool m1 fs"
    "m1 = m\<lparr>cr3 := l4_page_table r - off\<rparr>" using switch_ok [OF assms] unfolding switch_to_user_page_table_def by blast
  obtain m2 where m2: "switch_to_kernel_page_table X bi m1 = Inr m2" "mem_inv X bi P off tb rt pool m2 fs"
    "m2 = m1\<lparr>cr3 := kernel_page_table m1 - off\<rparr>"
    using switch_ok [OF m1(2) mem_invD(4) [OF m1(2)]] unfolding switch_to_kernel_page_table_def by blast
  have "page_tables m2 = page_tables m" using m1(3) m2(3) by simp
  with m1(1) m2(1,2) show ?thesis by (simp add: drop_resources_def)
qed

subsection \<open>Properties\<close>

text \<open>
  C3: the application test passes.  The ram disk holds the test program as file 1, with its counter
  in a writable segment that is zero there; memory suffices for two instances; output and heap growth
  of the program leave the counters alone.  Then both first runs return 0, because each instance has
  its own counter, and the second run of the first instance aborts with 42, because its counter has
  survived; the test ends without a panic, with the caller's stack pointer restored and the memory
  manager well formed.
\<close>

theorem app_test_passes:
  assumes "mem_inv X bi P off tb rt pool (mach s) fs" "get_file_slice mem bi 1 = Inr file" "program_ok E file f segs"
    and "2 * (1 + 4 * (sum_list (map needs segs) + stack_count)) \<le> length fs"
    and "counter_seg E f segs c" "8 dvd c" "user_page (page_of c)"
    and "core_ready H A p a cpu k" "\<And>t w. calm X bi P off tb rt pool p a c w (out t w)"
  shows "\<exists>cpu' s' k' fs'. app_test X bi P E L A H (test_app X bi P c info out) mem ptr_a ptr_b (cpu, s, k) = Inr (cpu', s', k') \<and>
    regs cpu' RSP = regs cpu RSP \<and> mem_inv X bi P off tb rt pool (mach s') fs'"
proof -
  let ?n = "1 + 4 * (sum_list (map needs segs) + stack_count)" and ?app = "test_app X bi P c info out"
  have n1: "?n \<le> length fs" using assms(4) by simp
  obtain ra s1 n where a: "prepare_application X bi P E L file s = Inr (ra, s1)" "n \<le> ?n"
    "mem_inv X bi P off tb rt pool (mach s1) (drop n fs)" "l4_page_table ra \<notin> rt (page_tables (mach s))"
    "rt (page_tables (mach s1)) = insert (l4_page_table ra) (rt (page_tables (mach s)))" "cell P pool c s1 (l4_page_table ra) 0"
    by (rule prepare_cell [OF assms(1,3) n1 assms(5-7)])
  let ?a = "l4_page_table ra"
  have n2: "?n \<le> length (drop n fs)" using assms(4) a(2) by simp
  obtain rb s2 n' where b: "prepare_application X bi P E L file s1 = Inr (rb, s2)"
    "mem_inv X bi P off tb rt pool (mach s2) (drop n' (drop n fs))" "l4_page_table rb \<notin> rt (page_tables (mach s1))"
    "rt (page_tables (mach s2)) = insert (l4_page_table rb) (rt (page_tables (mach s1)))" "cell P pool c s2 (l4_page_table rb) 0"
    "\<forall>r\<in>rt (page_tables (mach s1)). \<forall>v. cell P pool c s1 r v \<longrightarrow> cell P pool c s2 r v"
    by (rule prepare_cell [OF a(3) assms(3) n2 assms(5-7)])
  let ?b = "l4_page_table rb"
  have ab: "?a \<in> rt (page_tables (mach s2))" "?b \<in> rt (page_tables (mach s2))" "?b \<noteq> ?a" "cell P pool c s2 ?a 0"
    using a(5,6) b(3,4,6) by auto
  obtain c3 s3 k3 fs3 where r3: "run X bi A H ?app ptr_a ra (cpu, s2, k) = Inr (if (0 :: u64) = 0 then 0 else 42, c3, s3, k3)"
    "regs c3 RSP = regs cpu RSP" "mem_inv X bi P off tb rt pool (mach s3) fs3" "core_ready H A p a c3 k3"
    "rt (page_tables (mach s2)) \<subseteq> rt (page_tables (mach s3))" "cell P pool c s3 ?a (0 + 1)"
    "\<forall>q\<in>rt (page_tables (mach s2)). q \<noteq> ?a \<longrightarrow> (\<forall>v'. cell P pool c s2 q v' \<longrightarrow> cell P pool c s3 q v')"
    by (rule run_test_app [OF b(2) ab(1) assms(8) ab(4) assms(6,7,9)])
  have b3: "?b \<in> rt (page_tables (mach s3))" "cell P pool c s3 ?b 0" using r3(5,7) ab(2,3) b(5) by auto
  obtain c4 s4 k4 fs4 where r4: "run X bi A H ?app ptr_b rb (c3, s3, k3) = Inr (if (0 :: u64) = 0 then 0 else 42, c4, s4, k4)"
    "regs c4 RSP = regs c3 RSP" "mem_inv X bi P off tb rt pool (mach s4) fs4" "core_ready H A p a c4 k4"
    "rt (page_tables (mach s3)) \<subseteq> rt (page_tables (mach s4))" "cell P pool c s4 ?b (0 + 1)"
    "\<forall>q\<in>rt (page_tables (mach s3)). q \<noteq> ?b \<longrightarrow> (\<forall>v'. cell P pool c s3 q v' \<longrightarrow> cell P pool c s4 q v')"
    by (rule run_test_app [OF r3(3) b3(1) r3(4) b3(2) assms(6,7,9)])
  have a4: "?a \<in> rt (page_tables (mach s4))" "cell P pool c s4 ?a 1" using r3(5,6) r4(5,7) ab(1,3) by auto
  obtain c5 s5 k5 fs5 where r5: "run X bi A H ?app ptr_a ra (c4, s4, k4) = Inr (if (1 :: u64) = 0 then 0 else 42, c5, s5, k5)"
    "regs c5 RSP = regs c4 RSP" "mem_inv X bi P off tb rt pool (mach s5) fs5" "rt (page_tables (mach s4)) \<subseteq> rt (page_tables (mach s5))"
    by (rule run_test_app [OF r4(3) a4(1) r4(4) a4(2) assms(6,7,9)])
  have t5: "?a \<in> rt (page_tables (mach s5))" "?b \<in> rt (page_tables (mach s5))" using a4(1) b3(1) r4(5) r5(4) by auto
  obtain m6 where m6: "drop_resources X bi rb (mach s5) = Inr m6" "mem_inv X bi P off tb rt pool m6 fs5" "page_tables m6 = page_tables (mach s5)"
    using drop_resources_ok [OF r5(3) t5(2)] by blast
  obtain m7 where m7: "drop_resources X bi ra m6 = Inr m7" "mem_inv X bi P off tb rt pool m7 fs5"
    using drop_resources_ok [OF m6(2), of ra] t5(1) m6(3) by auto
  have "app_test X bi P E L A H ?app mem ptr_a ptr_b (cpu, s, k) = Inr (c5, s5\<lparr>mach := m7\<rparr>, k5)"
    using assms(2) a(1) b(1) r3(1) r4(1) r5(1) m6(1) m7(1) by (simp add: app_test_def)
  with r3(2) r4(2) r5(2) m7(2) show ?thesis
    by (intro exI [of _ c5] exI [of _ "s5\<lparr>mach := m7\<rparr>"] exI [of _ k5] exI [of _ fs5]) simp
qed

subsection \<open>A concrete run\<close>

definition bi_apps :: BootInfo where
  "bi_apps = (bi_frames 40000)\<lparr>ramdisk_addr := Some 4096, ramdisk_len := length (build sum_hasher img_ex)\<rparr>"

definition mem_apps :: "nat \<Rightarrow> u8" where
  "mem_apps a = build sum_hasher img_ex ! (a - 4096)"

lemma file_apps: "get_file_slice mem_apps bi_apps 1 = Inr [3]"
proof -
  have h: "holds img_ex [[1, 2], [3]]" by (simp add: holds_def img_ex_def add_string_def new_image_def Let_def)
  have "Ram_Disk.loaded mem_apps bi_apps (build sum_hasher img_ex)"
    by (simp add: Ram_Disk.loaded_def bi_apps_def ramdisk_u8_slice_def mem_apps_def map_nth)
  from get_file_slice_loaded [OF h this, of 1] show ?thesis by (simp add: img_ex_length)
qed

theorem app_test_passes_witness:
  "\<exists>m cpu' s' k'. app_test x86_ref bi_apps paging_ref elf_ex heap_ref addrs_ex hw_core
      (test_app x86_ref bi_apps paging_ref 2101264 ''PANIC'' (\<lambda>t w. w)) mem_apps 0 64
      (cpu_ex, \<lparr>mach = m, ram = \<lambda>_. 7\<rparr>, kernel_core\<lparr>CORE_LOCAL := core_local_init[3 := Some default_cld]\<rparr>) = Inr (cpu', s', k') \<and>
    regs cpu' RSP = 0x9000"
proof -
  obtain m fs where m: "inv_frames 40000 m fs" "length fs = 40000" by (rule new_memory_frames [of 40000]) simp_all
  let ?s = "\<lparr>mach = m, ram = \<lambda>_. 7\<rparr>" and ?k = "kernel_core\<lparr>CORE_LOCAL := core_local_init[3 := Some default_cld]\<rparr>"
  have eq: "boot_physical_memory_offset bi_apps = boot_physical_memory_offset (bi_frames 40000)" by (simp add: bi_apps_def)
  have inv: "mem_inv x86_ref bi_apps paging_ref off_mem (tb_ref off_mem) (rt_ref off_mem) (pool_frames 40000) (mach ?s) fs"
    using m(1) unfolding mem_inv_boot_info [OF eq] by simp
  have n: "2 * (1 + 4 * (sum_list (map needs [text_seg, data_seg]) + stack_count)) \<le> length fs"
    using m(2) by (simp add: pages_ex stack_count_eq)
  have seg: "counter_seg elf_ex () [text_seg, data_seg] 2101264"
    unfolding counter_seg_def by (intro bexI [of _ data_seg]) (simp_all add: data_seg_def elf_ex_def PT_LOAD_def write_flag_def PF_W_def)
  have c: "8 dvd (2101264 :: nat)" "user_page (page_of 2101264)" by (simp_all add: page_of_def user_page_def layout_values)
  have "kernel_ok 0xFEE00000 ?k" "CORE_LOCAL ?k ! unat (3 :: u8) = Some default_cld"
    by (simp_all add: kernel_ok_def kernel_core_def core_local_init_def MAX_CORES_def)
  then have core: "core_ready hw_core addrs_ex 0xFEE00000 3 cpu_ex ?k"
    using words_apart_ex runs_on_core by (simp add: core_ready_def)
  have out: "calm x86_ref bi_apps paging_ref off_mem (tb_ref off_mem) (rt_ref off_mem) (pool_frames 40000) 0xFEE00000 3 2101264 w
      ((\<lambda>t w. w) t w)" for t :: string and w :: "(pt_ref, (u64 \<times> u32) list) world"
    by (cases w) (auto simp: calm_def app_keeps_def quiet_def)
  from app_test_passes [where mem = mem_apps and E = elf_ex and out = "\<lambda>t w. w" and info = "''PANIC''" and L = heap_ref and ptr_a = 0 and ptr_b = 64,
      OF inv file_apps program_ex n seg c core out]
  show ?thesis by (auto simp: cpu_ex_def)
qed

end
