(* ===== verification/Screen.thy ===== *)
theory Screen
  imports Terminal_Text
begin

text \<open>
  The screen as a whole, second half of kernel/src/terminal_out.rs: the main terminal \<open>TERM\<close> (here \<open>MAIN_TERM\<close>) behind
  \<open>Stdout\<close>, the double buffer, copying it to the frame buffer, and printing a panic message.

  \<open>screen\<close> holds the statics of the module and the memory.  The two terminals are created on first
  use (\<open>lazy_static\<close>).  The operations are modelled as run under the locks they take; a lock that is
  only tried is a parameter.  The memory of the back buffer comes from the heap, at the address
  \<open>heap_addr\<close>.
\<close>

record DoubleBuffer =
  back_buffer :: nat
  front_buffer :: nat
  db_length :: nat

record screen =
  vm :: vmem
  MAIN_TERM :: "TerminalWriter option"
  EMERGENCY_PANIC_TERM :: "TerminalWriter option"
  PANICKED_STOP_PRINTING :: bool
  DOUBLE_BUFFER :: "DoubleBuffer option"

definition screen_init :: "vmem \<Rightarrow> screen" where
  "screen_init m = \<lparr>vm = m, MAIN_TERM = None, EMERGENCY_PANIC_TERM = None, PANICKED_STOP_PRINTING = False,
     DOUBLE_BUFFER = None\<rparr>"

definition lazy_term :: "BootInfo \<Rightarrow> TerminalWriter option \<Rightarrow> TerminalWriter res" where
  "lazy_term bi t = (case t of
     Some t \<Rightarrow> Inr t
   | None \<Rightarrow> bnd (from_placement bi FULL_SCREEN_PLACEMENT) (new_terminal bi))"

subsection \<open>The double buffer\<close>

text \<open>\<open>DOUBLE_BUFFER.get()\<close> in a loop; \<open>readings k\<close> is what the \<open>k\<close>-th call returns.\<close>

partial_function (option) wait_double_buffer :: "(nat \<Rightarrow> DoubleBuffer option) \<Rightarrow> nat \<Rightarrow> DoubleBuffer option" where
  "wait_double_buffer readings k = (case readings k of
     Some db \<Rightarrow> Some db | None \<Rightarrow> wait_double_buffer readings (k + 1))"

definition set_to_double_buffer :: "(nat \<Rightarrow> DoubleBuffer option) \<Rightarrow> TerminalWriter \<Rightarrow> TerminalWriter res option" where
  "set_to_double_buffer readings self =
     (case wait_double_buffer readings 0 of
        None \<Rightarrow> None
      | Some db \<Rightarrow>
          let self = self\<lparr>buffer_base_ptr := back_buffer db\<rparr> in
          Some (bnd (construct_buffer (buffer_base_ptr self) (tw_info self)) (\<lambda>buf.
                Inr (self\<lparr>tw_buffer := buf\<rparr>))))"

definition window_info :: "TerminalWriter \<Rightarrow> WindowInfo" where
  "window_info self = tw_info self"

text \<open>The address of the first byte of a slice: an empty slice has none.\<close>

definition first_byte :: "nat \<times> nat \<Rightarrow> nat res" where
  "first_byte buf = (if 0 < snd buf then Inr (fst buf) else Inl IndexOut)"

definition switch_to_double_buffer :: "BootInfo \<Rightarrow> nat \<Rightarrow> screen \<Rightarrow> screen res" where
  "switch_to_double_buffer bi heap_addr s =
     (case DOUBLE_BUFFER s of
        Some _ \<Rightarrow> Inr s
      | None \<Rightarrow>
          bnd (unwrap (framebuffer bi)) (\<lambda>frame_buffer.
          let info = fb_info frame_buffer in
          bnd (cmul (fb_stride info) (fb_bytes_per_pixel info)) (\<lambda>a.
          bnd (cmul a (fb_height info)) (\<lambda>b.
          let frame_buffer_size = min (fb_byte_len info) b;
              m = store heap_addr (replicate frame_buffer_size 0) (vm s)
          in bnd (lazy_term bi (MAIN_TERM s)) (\<lambda>term.
             let term = term\<lparr>buffer_base_ptr := heap_addr\<rparr> in
             bnd (construct_buffer (buffer_base_ptr term) (tw_info term)) (\<lambda>buf.
             let term = term\<lparr>tw_buffer := buf\<rparr> in
             bnd (first_byte (tw_buffer term)) (\<lambda>back.
             bnd (first_byte (fb_buffer_start frame_buffer, fb_byte_len info)) (\<lambda>front.
             Inr (s\<lparr>vm := m, MAIN_TERM := Some term,
                    DOUBLE_BUFFER := Some \<lparr>back_buffer = back, front_buffer = front,
                      db_length = frame_buffer_size\<rparr>\<rparr>)))))))))"

text \<open>\<open>ptr::copy_nonoverlapping\<close> on bytes; overlapping ranges are undefined behaviour.\<close>

definition copy_nonoverlapping :: "nat \<Rightarrow> nat \<Rightarrow> nat \<Rightarrow> vmem \<Rightarrow> vmem res" where
  "copy_nonoverlapping src dst n m =
     (if src + n \<le> dst \<or> dst + n \<le> src then Inr (\<lambda>a. if dst \<le> a \<and> a < dst + n then m (src + (a - dst)) else m a)
      else Inl UndefinedBehaviour)"

definition push_row :: "FrameBufferInfo \<Rightarrow> DoubleBuffer \<Rightarrow> nat \<Rightarrow> vmem \<Rightarrow> vmem res" where
  "push_row info db y m =
     bnd (cmul y (fb_stride info)) (\<lambda>a.
     bnd (cmul a (fb_bytes_per_pixel info)) (\<lambda>offset.
     bnd (cmul (fb_width info) (fb_bytes_per_pixel info)) (\<lambda>n.
     copy_nonoverlapping (back_buffer db + offset) (front_buffer db + offset) n m)))"

text \<open>
  \<open>push_to_frame_buffer\<close> reads the flag once and then waits for its locks; \<open>push_copy\<close> is what it
  does after that.
\<close>

definition push_copy :: "BootInfo \<Rightarrow> screen \<Rightarrow> screen res" where
  "push_copy bi s =
     bnd (unwrap (framebuffer bi)) (\<lambda>fb.
     bnd (unwrap (DOUBLE_BUFFER s)) (\<lambda>db.
     bnd (lazy_term bi (MAIN_TERM s)) (\<lambda>term.
     bnd (foldm (push_row (fb_info fb) db) [0..<fb_height (fb_info fb)] (vm s)) (\<lambda>m.
     Inr (s\<lparr>vm := m, MAIN_TERM := Some term\<rparr>)))))"

definition push_to_frame_buffer :: "BootInfo \<Rightarrow> screen \<Rightarrow> screen res" where
  "push_to_frame_buffer bi s = (if PANICKED_STOP_PRINTING s then Inr s else push_copy bi s)"

subsection \<open>Panics\<close>

text \<open>
  The loop that tries to get \<open>SWAP_LOCK\<close>; \<open>tries k\<close> says whether the \<open>k\<close>-th try succeeds.  The
  result says whether the lock is held.
\<close>

function try_swap_lock :: "(nat \<Rightarrow> bool) \<Rightarrow> nat \<Rightarrow> nat \<Rightarrow> bool" where
  "try_swap_lock tries k time_out =
     (if tries k then True else if time_out = 0 then False else try_swap_lock tries (k + 1) (time_out - 1))"
  by pat_completeness auto
termination by (relation "measure (\<lambda>(_, _, t). t)") auto

definition panic_print :: "BootInfo \<Rightarrow> (nat \<Rightarrow> bool) \<Rightarrow> bool \<Rightarrow> (tstate \<Rightarrow> tstate res) \<Rightarrow> screen \<Rightarrow> screen res" where
  "panic_print bi swap_tries term_free callback s =
     (let s = s\<lparr>PANICKED_STOP_PRINTING := True\<rparr> in
      case DOUBLE_BUFFER s of
        Some db \<Rightarrow>
          let swap = try_swap_lock swap_tries 0 1000000 in
          bnd (lazy_term bi (EMERGENCY_PANIC_TERM s)) (\<lambda>term.
          let term = term\<lparr>tw_buffer := (front_buffer db, db_length db)\<rparr> in
          bnd (callback (term, vm s)) (\<lambda>(term, m).
          Inr (s\<lparr>vm := m, EMERGENCY_PANIC_TERM := Some term\<rparr>)))
      | None \<Rightarrow>
          if term_free
          then bnd (lazy_term bi (MAIN_TERM s)) (\<lambda>term.
               bnd (callback (term, vm s)) (\<lambda>(term, m).
               Inr (s\<lparr>vm := m, MAIN_TERM := Some term\<rparr>)))
          else bnd (lazy_term bi (EMERGENCY_PANIC_TERM s)) (\<lambda>term.
               bnd (callback (term, vm s)) (\<lambda>(term, m).
               Inr (s\<lparr>vm := m, EMERGENCY_PANIC_TERM := Some term\<rparr>))))"

subsection \<open>Standard output\<close>

definition stdout_write :: "BootInfo \<Rightarrow> (tstate \<Rightarrow> tstate res) \<Rightarrow> screen \<Rightarrow> screen res" where
  "stdout_write bi f s =
     bnd (lazy_term bi (MAIN_TERM s)) (\<lambda>term.
     if PANICKED_STOP_PRINTING s then Inr (s\<lparr>MAIN_TERM := Some term\<rparr>)
     else bnd (f (term, vm s)) (\<lambda>(term, m). Inr (s\<lparr>vm := m, MAIN_TERM := Some term\<rparr>)))"

definition stdout_print :: "BootInfo \<Rightarrow> font \<Rightarrow> nat list \<Rightarrow> screen \<Rightarrow> screen res" where
  "stdout_print bi F text = stdout_write bi (write_str F text)"

definition stdout_clear :: "BootInfo \<Rightarrow> font \<Rightarrow> FontSize option \<Rightarrow> screen \<Rightarrow> screen res" where
  "stdout_clear bi F new_size = stdout_write bi (clear F new_size)"

definition stdout_print_pixels :: "BootInfo \<Rightarrow> nat \<Rightarrow> Color list \<Rightarrow> screen \<Rightarrow> screen res option" where
  "stdout_print_pixels bi w colors s =
     (case lazy_term bi (MAIN_TERM s) of
        Inl e \<Rightarrow> Some (Inl e)
      | Inr term \<Rightarrow>
          if PANICKED_STOP_PRINTING s then Some (Inr (s\<lparr>MAIN_TERM := Some term\<rparr>))
          else (case print_pixels w colors (term, vm s) of
                  None \<Rightarrow> None
                | Some r \<Rightarrow> Some (bnd r (\<lambda>(term, m). Inr (s\<lparr>vm := m, MAIN_TERM := Some term\<rparr>)))))"

definition stdout_update :: "BootInfo \<Rightarrow> (TerminalWriter \<Rightarrow> TerminalWriter) \<Rightarrow> screen \<Rightarrow> screen res" where
  "stdout_update bi g s = bnd (lazy_term bi (MAIN_TERM s)) (\<lambda>term. Inr (s\<lparr>MAIN_TERM := Some (g term)\<rparr>))"

definition stdout_get :: "BootInfo \<Rightarrow> (TerminalWriter \<Rightarrow> 'a) \<Rightarrow> screen \<Rightarrow> ('a \<times> screen) res" where
  "stdout_get bi g s = bnd (lazy_term bi (MAIN_TERM s)) (\<lambda>term. Inr (g term, s\<lparr>MAIN_TERM := Some term\<rparr>))"

definition set_font_weight :: "BootInfo \<Rightarrow> FontWeight \<Rightarrow> screen \<Rightarrow> screen res" where
  "set_font_weight bi wt = stdout_update bi (\<lambda>t. t\<lparr>font_weight := wt\<rparr>)"

definition set_foreground :: "BootInfo \<Rightarrow> Color \<Rightarrow> screen \<Rightarrow> screen res" where
  "set_foreground bi c = stdout_update bi (\<lambda>t. t\<lparr>foreground := c\<rparr>)"

definition set_background :: "BootInfo \<Rightarrow> Color \<Rightarrow> screen \<Rightarrow> screen res" where
  "set_background bi c = stdout_update bi (\<lambda>t. t\<lparr>background := c\<rparr>)"

definition set_clear_color :: "BootInfo \<Rightarrow> Color \<Rightarrow> screen \<Rightarrow> screen res" where
  "set_clear_color bi c = stdout_update bi (\<lambda>t. t\<lparr>clear_color := c\<rparr>)"

definition get_font_weight :: "BootInfo \<Rightarrow> screen \<Rightarrow> (FontWeight \<times> screen) res" where
  "get_font_weight bi = stdout_get bi font_weight"

definition get_foreground :: "BootInfo \<Rightarrow> screen \<Rightarrow> (Color \<times> screen) res" where
  "get_foreground bi = stdout_get bi foreground"

definition get_background :: "BootInfo \<Rightarrow> screen \<Rightarrow> (Color \<times> screen) res" where
  "get_background bi = stdout_get bi background"

definition get_clear_color :: "BootInfo \<Rightarrow> screen \<Rightarrow> (Color \<times> screen) res" where
  "get_clear_color bi = stdout_get bi clear_color"


declare try_swap_lock.simps [simp del]

subsection \<open>Copying the back buffer\<close>

text \<open>The same copy, one pixel after the other and one byte after the other.\<close>

definition push_byte :: "FrameBufferInfo \<Rightarrow> DoubleBuffer \<Rightarrow> nat \<times> nat \<times> nat \<Rightarrow> vmem \<Rightarrow> vmem" where
  "push_byte info db = (\<lambda>(y, x, k) m.
     let d = pixel_byte (fb_stride info) (fb_bytes_per_pixel info) x y k
     in m(front_buffer db + d := m (back_buffer db + d)))"

definition push_pixels :: "FrameBufferInfo \<Rightarrow> DoubleBuffer \<Rightarrow> vmem \<Rightarrow> vmem" where
  "push_pixels info db =
     fold (push_byte info db)
       (List.product [0..<fb_height info] (List.product [0..<fb_width info] [0..<fb_bytes_per_pixel info]))"

text \<open>The back and the front buffer do not overlap.\<close>

definition buffers_apart :: "FrameBufferInfo \<Rightarrow> DoubleBuffer \<Rightarrow> bool" where
  "buffers_apart info db \<longleftrightarrow>
     (let n = fb_stride info * fb_height info * fb_bytes_per_pixel info in
      back_buffer db + n \<le> front_buffer db \<or> front_buffer db + n \<le> back_buffer db)"

text \<open>The distances from the start of the buffer that belong to visible pixels.\<close>

definition visible :: "FrameBufferInfo \<Rightarrow> nat set" where
  "visible info = {pixel_byte (fb_stride info) (fb_bytes_per_pixel info) x y k |x y k.
     x < fb_width info \<and> y < fb_height info \<and> k < fb_bytes_per_pixel info}"

text \<open>Bytes at the distances \<open>D\<close> are copied, all others stay.\<close>

definition blit :: "DoubleBuffer \<Rightarrow> nat set \<Rightarrow> vmem \<Rightarrow> vmem" where
  "blit db D m = (\<lambda>a. if front_buffer db \<le> a \<and> a - front_buffer db \<in> D
     then m (back_buffer db + (a - front_buffer db)) else m a)"

lemma blit_apply:
  "blit db D m (front_buffer db + d) = (if d \<in> D then m (back_buffer db + d) else m (front_buffer db + d))"
  by (simp add: blit_def)

lemma blit_empty [simp]: "blit db {} m = m"
  by (simp add: blit_def)

lemma blit_source:
  assumes "buffers_apart info db" "d < fb_stride info * fb_height info * fb_bytes_per_pixel info"
    and "\<forall>d'\<in>D. d' < fb_stride info * fb_height info * fb_bytes_per_pixel info"
  shows "blit db D m (back_buffer db + d) = m (back_buffer db + d)"
  using assms by (fastforce simp: blit_def buffers_apart_def Let_def)

lemma blit_blit:
  assumes "buffers_apart info db" "\<forall>d\<in>D \<union> E. d < fb_stride info * fb_height info * fb_bytes_per_pixel info"
  shows "blit db E (blit db D m) = blit db (D \<union> E) m"
proof
  fix a
  show "blit db E (blit db D m) a = blit db (D \<union> E) m a"
  proof (cases "front_buffer db \<le> a \<and> a - front_buffer db \<in> E")
    case True
    have "blit db E (blit db D m) a = blit db D m (back_buffer db + (a - front_buffer db))"
      using True by (simp add: blit_def)
    also have "\<dots> = m (back_buffer db + (a - front_buffer db))"
      using True assms by (intro blit_source) auto
    finally show ?thesis using True by (simp add: blit_def)
  next
    case False
    then have "blit db E (blit db D m) a = blit db D m a" by (auto simp: blit_def)
    with False show ?thesis by (auto simp: blit_def)
  qed
qed


definition row_bytes :: "FrameBufferInfo \<Rightarrow> nat \<Rightarrow> nat set" where
  "row_bytes info y = {y * fb_stride info * fb_bytes_per_pixel info..<
     y * fb_stride info * fb_bytes_per_pixel info + fb_width info * fb_bytes_per_pixel info}"

lemma visible_less:
  "fb_width info \<le> fb_stride info \<Longrightarrow> d \<in> visible info \<Longrightarrow> d < fb_stride info * fb_height info * fb_bytes_per_pixel info"
  by (auto simp: visible_def intro!: pixel_byte_less)

lemma row_bytes_visible: "(\<Union>y<fb_height info. row_bytes info y) = visible info"
proof (intro set_eqI iffI)
  fix d assume "d \<in> (\<Union>y<fb_height info. row_bytes info y)"
  then obtain y where y: "y < fb_height info" "d \<in> row_bytes info y" by blast
  let ?b = "fb_bytes_per_pixel info"
  define r where "r = d - y * fb_stride info * ?b"
  have d: "d = y * fb_stride info * ?b + r" "r < fb_width info * ?b" using y(2) by (auto simp: row_bytes_def r_def)
  then have b: "0 < ?b" by (cases ?b) simp_all
  have "d = pixel_byte (fb_stride info) ?b (r div ?b) y (r mod ?b)"
    using d(1) by (simp add: pixel_byte_def distrib_right)
  moreover have "r div ?b < fb_width info" using d(2) by (simp add: less_mult_imp_div_less)
  moreover have "r mod ?b < ?b" using b by simp
  ultimately show "d \<in> visible info" using y(1) unfolding visible_def by blast
next
  fix d assume "d \<in> visible info"
  then obtain x y k where d: "d = pixel_byte (fb_stride info) (fb_bytes_per_pixel info) x y k"
    "x < fb_width info" "y < fb_height info" "k < fb_bytes_per_pixel info" by (auto simp: visible_def)
  have "x * fb_bytes_per_pixel info + k < Suc x * fb_bytes_per_pixel info" using d(4) by simp
  also have "\<dots> \<le> fb_width info * fb_bytes_per_pixel info" using d(2) by (intro mult_le_mono1) simp
  finally have "d \<in> row_bytes info y" by (simp add: d(1) row_bytes_def pixel_byte_def distrib_right)
  with d(3) show "d \<in> (\<Union>y<fb_height info. row_bytes info y)" by blast
qed

lemma row_bytes_less:
  assumes "fb_width info \<le> fb_stride info" "y < fb_height info" "d \<in> row_bytes info y"
  shows "d < fb_stride info * fb_height info * fb_bytes_per_pixel info"
  using assms row_bytes_visible [of info] visible_less [OF assms(1)] by blast

lemma fb_sane_bounds:
  assumes "fb_sane info" "y < fb_height info"
  shows "y * fb_stride info < 2 ^ 64" "y * fb_stride info * fb_bytes_per_pixel info < 2 ^ 64"
    "fb_width info * fb_bytes_per_pixel info < 2 ^ 64"
proof -
  let ?s = "fb_stride info" and ?h = "fb_height info" and ?b = "fb_bytes_per_pixel info"
  have sane: "(?s * (?h + 1) + ?s) * (?b + 1) < 2 ^ 64" "fb_width info \<le> ?s" using assms(1) by (simp_all add: fb_sane_def)
  have "y * ?s \<le> ?h * ?s" using assms(2) by (intro mult_le_mono1) simp
  also have "\<dots> \<le> ?s * (?h + 1) + ?s" by (simp add: algebra_simps)
  finally have "y * ?s \<le> ?s * (?h + 1) + ?s" .
  then have "y * ?s * (?b + 1) \<le> (?s * (?h + 1) + ?s) * (?b + 1)" by (rule mult_le_mono1)
  with sane(1) have "y * ?s * (?b + 1) < 2 ^ 64" by simp
  then show "y * ?s < 2 ^ 64" "y * ?s * ?b < 2 ^ 64" by (simp_all add: distrib_left)
  have "fb_width info * ?b \<le> (?s * (?h + 1) + ?s) * (?b + 1)" using sane(2) by (intro mult_le_mono) simp_all
  with sane(1) show "fb_width info * ?b < 2 ^ 64" by simp
qed

lemma push_row_eq:
  assumes "fb_sane info" "buffers_apart info db" "y < fb_height info"
  shows "push_row info db y m = Inr (blit db (row_bytes info y) m)"
proof -
  let ?off = "y * fb_stride info * fb_bytes_per_pixel info" and ?n = "fb_width info * fb_bytes_per_pixel info"
  have w: "fb_width info \<le> fb_stride info" using assms(1) by (simp add: fb_sane_def)
  have "Suc y * (fb_stride info * fb_bytes_per_pixel info) \<le> fb_height info * (fb_stride info * fb_bytes_per_pixel info)"
    using assms(3) by (intro mult_le_mono1) simp
  then have "?off + fb_stride info * fb_bytes_per_pixel info \<le> fb_stride info * fb_height info * fb_bytes_per_pixel info"
    by (simp add: algebra_simps)
  moreover have "?n \<le> fb_stride info * fb_bytes_per_pixel info" using w by (rule mult_le_mono1)
  ultimately have "?off + ?n \<le> fb_stride info * fb_height info * fb_bytes_per_pixel info" by linarith
  then have apart: "back_buffer db + ?off + ?n \<le> front_buffer db + ?off \<or> front_buffer db + ?off + ?n \<le> back_buffer db + ?off"
    using assms(2) by (auto simp: buffers_apart_def Let_def)
  have "(\<lambda>a. if front_buffer db + ?off \<le> a \<and> a < front_buffer db + ?off + ?n
      then m (back_buffer db + ?off + (a - (front_buffer db + ?off))) else m a) = blit db (row_bytes info y) m"
  proof
    fix a
    show "(if front_buffer db + ?off \<le> a \<and> a < front_buffer db + ?off + ?n
      then m (back_buffer db + ?off + (a - (front_buffer db + ?off))) else m a) = blit db (row_bytes info y) m a"
      by (auto simp: blit_def row_bytes_def)
  qed
  with apart fb_sane_bounds [OF assms(1,3)] show ?thesis by (simp add: push_row_def copy_nonoverlapping_def)
qed

lemma push_rows_eq:
  assumes "fb_sane info" "buffers_apart info db" "\<forall>y\<in>set ys. y < fb_height info"
  shows "foldm (push_row info db) ys m = Inr (blit db (\<Union>y\<in>set ys. row_bytes info y) m)"
  using assms(3)
proof (induction ys arbitrary: m)
  case (Cons y ys)
  have w: "fb_width info \<le> fb_stride info" using assms(1) by (simp add: fb_sane_def)
  have "\<forall>d\<in>row_bytes info y \<union> (\<Union>y\<in>set ys. row_bytes info y).
      d < fb_stride info * fb_height info * fb_bytes_per_pixel info"
    using Cons.prems row_bytes_less [OF w] by auto
  with Cons push_row_eq [OF assms(1,2), of y] blit_blit [OF assms(2)] show ?case by simp
qed simp

lemma push_bytes_eq:
  assumes "fb_width info \<le> fb_stride info" "buffers_apart info db"
    and "\<forall>(y, x, k)\<in>set ps. y < fb_height info \<and> x < fb_width info \<and> k < fb_bytes_per_pixel info"
  shows "fold (push_byte info db) ps m =
    blit db ((\<lambda>(y, x, k). pixel_byte (fb_stride info) (fb_bytes_per_pixel info) x y k) ` set ps) m"
  using assms(3)
proof (induction ps arbitrary: m)
  case (Cons p ps)
  let ?d = "\<lambda>(y, x, k). pixel_byte (fb_stride info) (fb_bytes_per_pixel info) x y k"
  have less: "\<forall>d\<in>{?d p} \<union> ?d ` set ps. d < fb_stride info * fb_height info * fb_bytes_per_pixel info"
    using Cons.prems assms(1) by (auto intro!: pixel_byte_less)
  have "push_byte info db p m = blit db {?d p} m"
    by (auto simp: push_byte_def blit_def Let_def fun_eq_iff split: prod.split)
  with Cons blit_blit [OF assms(2) less, of m] show ?case by simp
qed simp

lemma push_pixels_eq:
  assumes "fb_width info \<le> fb_stride info" "buffers_apart info db"
  shows "push_pixels info db m = blit db (visible info) m"
proof -
  let ?ps = "List.product [0..<fb_height info] (List.product [0..<fb_width info] [0..<fb_bytes_per_pixel info])"
  have "(\<lambda>(y, x, k). pixel_byte (fb_stride info) (fb_bytes_per_pixel info) x y k) ` set ?ps = visible info"
    by (force simp: visible_def)
  with push_bytes_eq [OF assms, of ?ps] show ?thesis by (auto simp: push_pixels_def)
qed


lemma push_copy_eq:
  assumes "framebuffer bi = Some fb" "fb_sane (fb_info fb)" "DOUBLE_BUFFER s = Some db" "MAIN_TERM s = Some t"
    and "buffers_apart (fb_info fb) db"
  shows "push_copy bi s = Inr (s\<lparr>vm := blit db (visible (fb_info fb)) (vm s)\<rparr>)"
proof -
  have "foldm (push_row (fb_info fb) db) [0..<fb_height (fb_info fb)] (vm s) = Inr (blit db (visible (fb_info fb)) (vm s))"
    using push_rows_eq [OF assms(2,5), of "[0..<fb_height (fb_info fb)]" "vm s"] row_bytes_visible [of "fb_info fb"]
    by (simp add: lessThan_atLeast0)
  with assms(1,3,4) show ?thesis by (simp add: push_copy_def lazy_term_def)
qed

subsection \<open>After a panic\<close>

datatype screen_op =
    Print "nat list"
  | Clear "FontSize option"
  | PrintPixels nat "Color list"
  | Push
  | SetFontWeight FontWeight
  | SetForeground Color
  | SetBackground Color
  | SetClearColor Color

fun screen_step :: "BootInfo \<Rightarrow> font \<Rightarrow> screen_op \<Rightarrow> screen \<Rightarrow> screen res option" where
  "screen_step bi F (Print text) s = Some (stdout_print bi F text s)"
| "screen_step bi F (Clear sz) s = Some (stdout_clear bi F sz s)"
| "screen_step bi F (PrintPixels w cs) s = stdout_print_pixels bi w cs s"
| "screen_step bi F Push s = Some (push_to_frame_buffer bi s)"
| "screen_step bi F (SetFontWeight wt) s = Some (set_font_weight bi wt s)"
| "screen_step bi F (SetForeground c) s = Some (set_foreground bi c s)"
| "screen_step bi F (SetBackground c) s = Some (set_background bi c s)"
| "screen_step bi F (SetClearColor c) s = Some (set_clear_color bi c s)"

fun screen_run :: "BootInfo \<Rightarrow> font \<Rightarrow> screen_op list \<Rightarrow> screen \<Rightarrow> screen res option" where
  "screen_run bi F [] s = Some (Inr s)"
| "screen_run bi F (op # ops) s = (case screen_step bi F op s of
     None \<Rightarrow> None | Some (Inl e) \<Rightarrow> Some (Inl e) | Some (Inr s) \<Rightarrow> screen_run bi F ops s)"

definition frozen :: "screen \<Rightarrow> screen \<Rightarrow> bool" where
  "frozen s s' \<longleftrightarrow> PANICKED_STOP_PRINTING s' \<and> vm s' = vm s \<and> (\<exists>t. MAIN_TERM s' = Some t)"

lemma frozen_step: "frozen s s1 \<Longrightarrow> \<exists>s2. screen_step bi F op s1 = Some (Inr s2) \<and> frozen s s2"
  by (cases op) (auto simp: frozen_def stdout_print_def stdout_clear_def stdout_write_def stdout_print_pixels_def
      push_to_frame_buffer_def set_font_weight_def set_foreground_def set_background_def set_clear_color_def
      stdout_update_def lazy_term_def)

lemma frozen_run: "frozen s s1 \<Longrightarrow> \<exists>s2. screen_run bi F ops s1 = Some (Inr s2) \<and> frozen s s2"
proof (induction ops arbitrary: s1)
  case (Cons op ops)
  obtain s2 where "screen_step bi F op s1 = Some (Inr s2)" "frozen s s2" using frozen_step [OF Cons.prems] by blast
  with Cons.IH [of s2] show ?case by simp
qed simp


subsection \<open>Properties\<close>

text \<open>
  C28: unless the kernel has panicked, \<open>push_to_frame_buffer\<close>, which copies whole rows, has the same
  effect as copying every byte of every visible pixel from the back buffer to the frame buffer: the
  screen shows the back buffer, and the padding of the rows and all other memory are unchanged.
\<close>

theorem push_equals_pixel_copy:
  assumes "framebuffer bi = Some fb" "fb_sane (fb_info fb)" "DOUBLE_BUFFER s = Some db" "MAIN_TERM s = Some t"
    and "buffers_apart (fb_info fb) db" "\<not> PANICKED_STOP_PRINTING s"
  shows "push_to_frame_buffer bi s = Inr (s\<lparr>vm := push_pixels (fb_info fb) db (vm s)\<rparr>) \<and>
    (\<forall>d\<in>visible (fb_info fb). push_pixels (fb_info fb) db (vm s) (front_buffer db + d) = vm s (back_buffer db + d)) \<and>
    (\<forall>a. a \<notin> (+) (front_buffer db) ` visible (fb_info fb) \<longrightarrow> push_pixels (fb_info fb) db (vm s) a = vm s a)"
proof -
  have w: "fb_width (fb_info fb) \<le> fb_stride (fb_info fb)" using assms(2) by (simp add: fb_sane_def)
  have other: "blit db (visible (fb_info fb)) (vm s) a = vm s a"
    if "a \<notin> (+) (front_buffer db) ` visible (fb_info fb)" for a
    using that by (force simp: blit_def image_iff)
  show ?thesis
    using push_copy_eq [OF assms(1-5)] assms(6) other
    by (simp add: push_to_frame_buffer_def push_pixels_eq [OF w assms(5)] blit_apply)
qed

text \<open>
  The first switch to the double buffer takes a zeroed buffer of the frame's size from the heap,
  and the main terminal draws there from then on; the buffer that is later copied starts where the
  terminal's window starts, which is the start of the buffer for a full-screen window.  Every later
  switch does nothing.
\<close>

lemma switch_to_double_buffer_once:
  assumes "framebuffer bi = Some fb" "fb_sane (fb_info fb)" "MAIN_TERM s = Some t" "DOUBLE_BUFFER s = None"
    and "0 < fb_byte_len (fb_info fb)" "0 < stride (tw_info t) * win_height (tw_info t) * bytes_per_pixel (tw_info t)"
    and "stride (tw_info t) * win_height (tw_info t) * bytes_per_pixel (tw_info t) < 2 ^ 64"
  shows "\<exists>s' db len. switch_to_double_buffer bi heap s = Inr s' \<and> DOUBLE_BUFFER s' = Some db \<and>
    back_buffer db = heap + byte_offset (tw_info t) \<and> front_buffer db = fb_buffer_start fb \<and>
    db_length db = min (fb_byte_len (fb_info fb)) (fb_stride (fb_info fb) * fb_bytes_per_pixel (fb_info fb) * fb_height (fb_info fb)) \<and>
    (\<forall>i<db_length db. vm s' (heap + i) = 0) \<and>
    (\<forall>a. a < heap \<or> heap + db_length db \<le> a \<longrightarrow> vm s' a = vm s a) \<and>
    MAIN_TERM s' = Some (t\<lparr>buffer_base_ptr := heap, tw_buffer := (heap + byte_offset (tw_info t), len)\<rparr>) \<and>
    PANICKED_STOP_PRINTING s' = PANICKED_STOP_PRINTING s \<and> switch_to_double_buffer bi heap2 s' = Inr s'"
proof -
  let ?i = "fb_info fb" and ?w = "tw_info t"
  have "fb_stride ?i * fb_bytes_per_pixel ?i * (fb_height ?i + 1) \<le> (fb_stride ?i * (fb_height ?i + 1) + fb_stride ?i) * (fb_bytes_per_pixel ?i + 1)"
    by (simp add: algebra_simps)
  then have "fb_stride ?i * fb_bytes_per_pixel ?i * (fb_height ?i + 1) < 2 ^ 64" using assms(2) unfolding fb_sane_def by linarith
  then have m: "cmul (fb_stride ?i) (fb_bytes_per_pixel ?i) = Inr (fb_stride ?i * fb_bytes_per_pixel ?i)"
    "cmul (fb_stride ?i * fb_bytes_per_pixel ?i) (fb_height ?i) = Inr (fb_stride ?i * fb_bytes_per_pixel ?i * fb_height ?i)"
    by (simp_all add: algebra_simps)
  have pos: "0 < bytes_per_pixel ?w" using assms(6) by (cases "bytes_per_pixel ?w") simp_all
  then have "stride ?w * win_height ?w \<le> stride ?w * win_height ?w * bytes_per_pixel ?w" by simp
  then have "stride ?w * win_height ?w < 2 ^ 64" using assms(7) by (rule le_less_trans)
  then have c: "construct_buffer heap ?w = Inr (heap + byte_offset ?w, stride ?w * win_height ?w * bytes_per_pixel ?w)"
    using assms(7) by (simp add: construct_buffer_def)
  let ?n = "min (fb_byte_len ?i) (fb_stride ?i * fb_bytes_per_pixel ?i * fb_height ?i)"
  let ?s = "s\<lparr>vm := store heap (replicate ?n 0) (vm s),
      MAIN_TERM := Some (t\<lparr>buffer_base_ptr := heap, tw_buffer := (heap + byte_offset ?w, stride ?w * win_height ?w * bytes_per_pixel ?w)\<rparr>),
      DOUBLE_BUFFER := Some \<lparr>back_buffer = heap + byte_offset ?w, front_buffer = fb_buffer_start fb, db_length = ?n\<rparr>\<rparr>"
  have "switch_to_double_buffer bi heap s = Inr ?s"
    unfolding switch_to_double_buffer_def using assms(1,3-6)
    by (simp add: m c lazy_term_def first_byte_def Let_def)
  moreover have "switch_to_double_buffer bi heap2 ?s = Inr ?s" by (simp add: switch_to_double_buffer_def)
  ultimately show ?thesis
    by (intro exI [of _ ?s] exI [of _ "\<lparr>back_buffer = heap + byte_offset ?w, front_buffer = fb_buffer_start fb, db_length = ?n\<rparr>"]
        exI [of _ "stride ?w * win_height ?w * bytes_per_pixel ?w"]) (simp add: store_apply)
qed


text \<open>
  C30: a push that has read the flag before the panic and gets its locks only after the message was
  printed copies the back buffer over the whole screen; nothing of the message is left.
\<close>

theorem late_push_erases_panic:
  assumes "framebuffer bi = Some fb" "fb_sane (fb_info fb)" "DOUBLE_BUFFER s = Some db" "MAIN_TERM s = Some t"
    and "buffers_apart (fb_info fb) db" "\<not> PANICKED_STOP_PRINTING s"
    and "panic_print bi tries free callback s = Inr s1"
  shows "push_to_frame_buffer bi s = push_copy bi s \<and>
    (\<exists>s2. push_copy bi s1 = Inr s2 \<and> PANICKED_STOP_PRINTING s2 \<and>
      (\<forall>d\<in>visible (fb_info fb). vm s2 (front_buffer db + d) = vm s1 (back_buffer db + d)))"
proof -
  have s1: "DOUBLE_BUFFER s1 = Some db" "MAIN_TERM s1 = Some t" "PANICKED_STOP_PRINTING s1"
    using assms(3,4,7) by (auto simp: panic_print_def Let_def bnd_def split: sum.splits)
  with push_copy_eq [OF assms(1,2) s1(1,2) assms(5)] assms(6) show ?thesis
    by (simp add: push_to_frame_buffer_def blit_apply)
qed


subsection \<open>A concrete screen\<close>

definition fb_ex :: FrameBuffer where
  "fb_ex = \<lparr>fb_buffer_start = 4096, fb_info = \<lparr>fb_byte_len = 9600, fb_width = 64, fb_height = 48,
     fb_pixel_format = Rgb, fb_bytes_per_pixel = 3, fb_stride = 65\<rparr>\<rparr>"

definition bi_ex :: BootInfo where
  "bi_ex = \<lparr>memory_regions = [], framebuffer = Some fb_ex, boot_physical_memory_offset = None, ramdisk_addr = None,
     ramdisk_len = 0, rsdp_addr = None\<rparr>"

definition db_ex :: DoubleBuffer where
  "db_ex = \<lparr>back_buffer = 65536, front_buffer = 4096, db_length = 9360\<rparr>"

definition screen_ex :: screen where
  "screen_ex = (screen_init (\<lambda>a. if a < 65536 then 1 else 2))\<lparr>MAIN_TERM := Some term_ex,
     EMERGENCY_PANIC_TERM := Some term_ex, DOUBLE_BUFFER := Some db_ex\<rparr>"

lemma screen_ex_ok:
  "framebuffer bi_ex = Some fb_ex" "fb_sane (fb_info fb_ex)" "DOUBLE_BUFFER screen_ex = Some db_ex"
  "MAIN_TERM screen_ex = Some term_ex" "EMERGENCY_PANIC_TERM screen_ex = Some term_ex"
  "buffers_apart (fb_info fb_ex) db_ex" "\<not> PANICKED_STOP_PRINTING screen_ex"
  by (simp_all add: bi_ex_def fb_ex_def fb_sane_def screen_ex_def screen_init_def buffers_apart_def db_ex_def)

lemma visible_ex: "0 \<in> visible (fb_info fb_ex)"
  by (force simp: visible_def fb_ex_def pixel_byte_def)

lemma term_ex_front_ok: "term_ok font_ex (term_ex\<lparr>tw_buffer := (front_buffer db_ex, db_length db_ex)\<rparr>)"
  by (simp add: term_ok_def term_ex_def font_ex_def surface_ok_def channels_def Let_def db_ex_def)

theorem push_equals_pixel_copy_witness:
  "\<exists>s'. push_to_frame_buffer bi_ex screen_ex = Inr s' \<and> vm s' 4096 = 2 \<and> vm s' 4095 = 1"
proof -
  note p = push_equals_pixel_copy [OF screen_ex_ok(1-4,6,7)]
  have "4095 \<notin> (+) (front_buffer db_ex) ` visible (fb_info fb_ex)" by (auto simp: db_ex_def)
  with p have "push_pixels (fb_info fb_ex) db_ex (vm screen_ex) 4095 = 1"
    by (simp add: screen_ex_def screen_init_def)
  moreover have "push_pixels (fb_info fb_ex) db_ex (vm screen_ex) (4096 + 0) = 2"
    using p visible_ex unfolding screen_ex_def screen_init_def db_ex_def by force
  ultimately show ?thesis using p by simp
qed

lemma switch_to_double_buffer_once_witness:
  "\<exists>s'. switch_to_double_buffer bi_ex 65536 (screen_ex\<lparr>DOUBLE_BUFFER := None\<rparr>) = Inr s' \<and> vm s' 65537 = 0 \<and>
     switch_to_double_buffer bi_ex 99 s' = Inr s'"
proof -
  let ?s = "screen_ex\<lparr>DOUBLE_BUFFER := None\<rparr>"
  have "MAIN_TERM ?s = Some term_ex" "DOUBLE_BUFFER ?s = None" "0 < fb_byte_len (fb_info fb_ex)"
    "0 < stride (tw_info term_ex) * win_height (tw_info term_ex) * bytes_per_pixel (tw_info term_ex)"
    "stride (tw_info term_ex) * win_height (tw_info term_ex) * bytes_per_pixel (tw_info term_ex) < 2 ^ 64"
    by (simp_all add: screen_ex_def fb_ex_def term_ex_def)
  note r = switch_to_double_buffer_once [OF screen_ex_ok(1,2) this, of 65536 99]
  then obtain s' and db :: DoubleBuffer where "switch_to_double_buffer bi_ex 65536 ?s = Inr s'" "switch_to_double_buffer bi_ex 99 s' = Inr s'"
    "db_length db = min (fb_byte_len (fb_info fb_ex)) (fb_stride (fb_info fb_ex) * fb_bytes_per_pixel (fb_info fb_ex) * fb_height (fb_info fb_ex))"
    "\<forall>i<db_length db. vm s' (65536 + i) = 0" by blast
  note r' = this
  moreover from r'(3) have "1 < db_length db" by (simp add: fb_ex_def)
  ultimately have "vm s' (65536 + 1) = 0" by blast
  with r' show ?thesis by auto
qed


theorem late_push_erases_panic_witness:
  "\<exists>s1 s2. panic_print bi_ex (\<lambda>_. True) True (\<lambda>(t, m). Inr (t, m(4096 := 77))) screen_ex = Inr s1 \<and> vm s1 4096 = 77 \<and>
     push_copy bi_ex s1 = Inr s2 \<and> vm s2 4096 = 2"
proof -
  let ?cb = "\<lambda>(t :: TerminalWriter, m :: vmem). Inr (t, m(4096 := 77)) :: tstate res"
  obtain s1 where s1: "panic_print bi_ex (\<lambda>_. True) True ?cb screen_ex = Inr s1" "vm s1 4096 = 77" "vm s1 65536 = 2"
    by (simp add: panic_print_def screen_ex_ok lazy_term_def Let_def) (simp add: screen_ex_def screen_init_def)
  obtain s2 where s2: "push_copy bi_ex s1 = Inr s2"
    "\<forall>d\<in>visible (fb_info fb_ex). vm s2 (front_buffer db_ex + d) = vm s1 (back_buffer db_ex + d)"
    using late_push_erases_panic [OF screen_ex_ok(1-4,6,7) s1(1)] by blast
  from s2(2) visible_ex have "vm s2 (front_buffer db_ex + 0) = vm s1 (back_buffer db_ex + 0)" by blast
  with s1 s2(1) show ?thesis by (auto simp: db_ex_def)
qed

end
