(* ===== verification/Logging.thy ===== *)
theory Logging
  imports Screen Core_Local Serial
begin

text \<open>
  The logger, kernel/src/logging.rs.  The levels and the front end are those of the crate log:
  \<open>Level\<close> is ordered from \<open>Error\<close> to \<open>Trace\<close>, \<open>LevelFilter\<close> has \<open>Off\<close> in front of them, and their
  numbers are 1 to 5 and 0 to 5.  A log record carries its level, its text and possibly the place in
  the source.  The two levels of the logger are stored as numbers and read back with
  \<open>transmute\<close>, which is undefined for a number that no level has.
\<close>

datatype Level = Error | Warn | Info | Debug | Trace

datatype LevelFilter = Off | UpTo Level

fun level_number :: "Level \<Rightarrow> nat" where
  "level_number Error = 1"
| "level_number Warn = 2"
| "level_number Info = 3"
| "level_number Debug = 4"
| "level_number Trace = 5"

fun level_name :: "Level \<Rightarrow> string" where
  "level_name Error = ''ERROR''"
| "level_name Warn = ''WARN''"
| "level_name Info = ''INFO''"
| "level_name Debug = ''DEBUG''"
| "level_name Trace = ''TRACE''"

fun filter_number :: "LevelFilter \<Rightarrow> nat" where
  "filter_number Off = 0"
| "filter_number (UpTo l) = level_number l"

definition transmute :: "nat \<Rightarrow> LevelFilter res" where
  "transmute n =
     (if n = 0 then Inr Off else if n = 1 then Inr (UpTo Error) else if n = 2 then Inr (UpTo Warn)
      else if n = 3 then Inr (UpTo Info) else if n = 4 then Inr (UpTo Debug) else if n = 5 then Inr (UpTo Trace)
      else Inl UndefinedBehaviour)"

record log_record =
  rec_level :: Level
  rec_file :: "string option"
  rec_line :: "nat option"
  rec_args :: "nat list"

record 'd logger =
  log_kernel :: "'d kernel"
  log_screen :: screen
  SERIAL_LOG_LEVEL :: nat
  GRAPHICS_LOG_LEVEL :: nat
  LOGGER_SET :: bool

subsection \<open>Formatting\<close>

definition codes :: "string \<Rightarrow> nat list" where
  "codes s = map of_char s"

text \<open>The formats \<open>{:<w}\<close> and \<open>{: >w}\<close>.\<close>

definition left_aligned :: "nat \<Rightarrow> string \<Rightarrow> string" where
  "left_aligned w s = s @ replicate (w - length s) CHR '' ''"

definition right_aligned :: "nat \<Rightarrow> string \<Rightarrow> string" where
  "right_aligned w s = replicate (w - length s) CHR '' '' @ s"

subsection \<open>The serial line\<close>

definition obnd :: "'a res option \<Rightarrow> ('a \<Rightarrow> 'b res option) \<Rightarrow> 'b res option" where
  "obnd r f = (case r of None \<Rightarrow> None | Some (Inl e) \<Rightarrow> Some (Inl e) | Some (Inr x) \<Rightarrow> f x)"

definition serial_out :: "'d hw \<Rightarrow> nat list \<Rightarrow> 'd kernel \<Rightarrow> 'd kernel res option" where
  "serial_out H cs k = map_option (\<lambda>d. Inr (k\<lparr>device := d\<rparr>)) (print_serial (hw_ports H) cs (device k))"

definition serial_rest :: "log_record \<Rightarrow> nat list" where
  "serial_rest r = (case (rec_file r, rec_line r) of
     (Some file, Some line) \<Rightarrow> codes '' '' @ codes file @ codes '':'' @ codes (dec line) @ codes ''] '' @ rec_args r @ [10]
   | _ \<Rightarrow> codes '' '' @ rec_args r @ [10])"

definition log_serial :: "'d hw \<Rightarrow> log_record \<Rightarrow> 'd kernel \<Rightarrow> 'd kernel res option" where
  "log_serial H r k =
     obnd (serial_out H (codes (''['' @ left_aligned 5 (level_name (rec_level r)))) k) (\<lambda>k.
     obnd (Some (try_get_cld H k)) (\<lambda>(i, k).
     obnd (case i of
             None \<Rightarrow> Some (Inr k)
           | Some i \<Rightarrow> serial_out H (codes ('' '' @ right_aligned 2 (dec (cpu_index_field (cld i k))))) k) (\<lambda>k.
     serial_out H (serial_rest r) k)))"

subsection \<open>The screen\<close>

fun info_color :: "Level \<Rightarrow> Color" where
  "info_color Error = new_color 255 50 50"
| "info_color Warn = new_color 255 200 0"
| "info_color Info = new_color 220 220 220"
| "info_color Debug = new_color 0 40 255"
| "info_color Trace = new_color 130 130 130"

definition log_location :: "log_record \<Rightarrow> nat list option" where
  "log_location r = (case (rec_file r, rec_line r) of
     (Some file, Some line) \<Rightarrow> Some (
       if length file > 50 then codes '' |'' @ codes (drop (length file - 50) file) @ codes '':'' @ codes (dec line)
       else codes '' '' @ codes file @ codes '':'' @ codes (dec line))
   | _ \<Rightarrow> None)"

definition log_graphics ::
  "BootInfo \<Rightarrow> font \<Rightarrow> 'd hw \<Rightarrow> log_record \<Rightarrow> screen \<times> 'd kernel \<Rightarrow> (screen \<times> 'd kernel) res"
where
  "log_graphics bi F H r = (\<lambda>(s, k).
     bnd (get_foreground bi s) (\<lambda>(fg, s).
     bnd (get_background bi s) (\<lambda>(bg, s).
     bnd (get_font_weight bi s) (\<lambda>(font, s).
     bnd (set_foreground bi fg s) (\<lambda>s.
     bnd (set_background bi bg s) (\<lambda>s.
     bnd (set_font_weight bi Light s) (\<lambda>s.
     bnd (stdout_print bi F (codes ''['') s) (\<lambda>s.
     bnd (set_foreground bi (info_color (rec_level r)) s) (\<lambda>s.
     bnd (set_font_weight bi Bold s) (\<lambda>s.
     bnd (stdout_print bi F (codes (left_aligned 5 (level_name (rec_level r)))) s) (\<lambda>s.
     bnd (set_foreground bi fg s) (\<lambda>s.
     bnd (try_get_cld H k) (\<lambda>(i, k).
     bnd (case i of
            None \<Rightarrow> Inr s
          | Some i \<Rightarrow> stdout_print bi F (codes ('' '' @ right_aligned 2 (dec (cpu_index_field (cld i k))))) s) (\<lambda>s.
     bnd (set_font_weight bi Light s) (\<lambda>s.
     bnd (case log_location r of None \<Rightarrow> Inr s | Some cs \<Rightarrow> stdout_print bi F cs s) (\<lambda>s.
     bnd (stdout_print bi F (codes ''] - '') s) (\<lambda>s.
     bnd (set_font_weight bi Regular s) (\<lambda>s.
     bnd (stdout_print bi F (rec_args r @ [10]) s) (\<lambda>s.
     bnd (set_foreground bi fg s) (\<lambda>s.
     bnd (set_background bi bg s) (\<lambda>s.
     bnd (set_font_weight bi font s) (\<lambda>s.
     Inr (s, k)))))))))))))))))))))))"

subsection \<open>The logger\<close>

fun passes :: "Level \<Rightarrow> LevelFilter \<Rightarrow> bool" where
  "passes l Off = False"
| "passes l (UpTo m) = (level_number l \<le> level_number m)"

definition log_msg ::
  "BootInfo \<Rightarrow> font \<Rightarrow> 'd hw \<Rightarrow> log_record \<Rightarrow> 'd logger \<Rightarrow> 'd logger res option"
where
  "log_msg bi F H r st =
     obnd (Some (transmute (SERIAL_LOG_LEVEL st))) (\<lambda>serial_level.
     obnd (Some (transmute (GRAPHICS_LOG_LEVEL st))) (\<lambda>graphics_level.
     obnd (if passes (rec_level r) serial_level then log_serial H r (log_kernel st) else Some (Inr (log_kernel st))) (\<lambda>k.
     obnd (Some (if passes (rec_level r) graphics_level then log_graphics bi F H r (log_screen st, k)
                 else Inr (log_screen st, k))) (\<lambda>(s, k).
     Some (Inr (st\<lparr>log_kernel := k, log_screen := s\<rparr>))))))"

definition set_serial_log_level :: "LevelFilter \<Rightarrow> 'd logger \<Rightarrow> 'd logger" where
  "set_serial_log_level level st = st\<lparr>SERIAL_LOG_LEVEL := filter_number level\<rparr>"

definition set_graphics_log_level :: "LevelFilter \<Rightarrow> 'd logger \<Rightarrow> 'd logger" where
  "set_graphics_log_level level st = st\<lparr>GRAPHICS_LOG_LEVEL := filter_number level\<rparr>"

text \<open>\<open>log::set_logger\<close> succeeds once.  \<open>this_file\<close> is the path of the source file as the compiler sees it.\<close>

definition init_logging ::
  "BootInfo \<Rightarrow> font \<Rightarrow> 'd hw \<Rightarrow> string \<Rightarrow> LevelFilter \<Rightarrow> LevelFilter \<Rightarrow> 'd logger \<Rightarrow> 'd logger res option"
where
  "init_logging bi F H this_file serial_level graphics_level st =
     (let st = set_serial_log_level serial_level st;
          st = set_graphics_log_level graphics_level st
      in if LOGGER_SET st then Some (Inl (Explicit ''Logger setup failed''))
         else log_msg bi F H \<lparr>rec_level = Debug, rec_file = Some this_file, rec_line = Some 102,
                rec_args = codes ''Logging initialized''\<rparr> (st\<lparr>LOGGER_SET := True\<rparr>))"

definition log_flush :: "'d hw \<Rightarrow> 'd kernel \<Rightarrow> 'd kernel option" where
  "log_flush H k = map_option (\<lambda>d. k\<lparr>device := d\<rparr>) (serial_flush (hw_ports H) COM1 (device k))"


subsection \<open>Well-formed states\<close>

definition levels_valid :: "'d logger \<Rightarrow> bool" where
  "levels_valid st \<longleftrightarrow> (\<exists>l. SERIAL_LOG_LEVEL st = filter_number l) \<and> (\<exists>l. GRAPHICS_LOG_LEVEL st = filter_number l)"

lemma transmute_filter_number [simp]: "transmute (filter_number l) = Inr l"
proof (cases l)
  case (UpTo m)
  then show ?thesis by (cases m) (simp_all add: transmute_def)
qed (simp add: transmute_def)

text \<open>The local APIC is not set up yet, or the running core can be identified.\<close>

definition apic_ready :: "'d hw \<Rightarrow> 'd kernel \<Rightarrow> bool" where
  "apic_ready H k \<longleftrightarrow> LOCAL_APIC_PTR k = None \<or> (\<exists>p a. runs_on H p a \<and> kernel_ok p k)"

lemma apic_ready_device [simp]: "apic_ready H (k\<lparr>device := d\<rparr>) = apic_ready H k"
  by (simp add: apic_ready_def)

text \<open>The cell that \<open>try_get_cld\<close> finds.\<close>

definition found_cld :: "'d hw \<Rightarrow> 'd kernel \<Rightarrow> nat option" where
  "found_cld H k = fst (projr (try_get_cld H k))"

lemma try_get_cld_ready:
  assumes "apic_ready H k"
  shows "try_get_cld H k = Inr (found_cld H k, k)" "found_cld H (k\<lparr>device := d\<rparr>) = found_cld H k"
proof -
  have "\<exists>i. \<forall>d. try_get_cld H (k\<lparr>device := d\<rparr>) = Inr (i, k\<lparr>device := d\<rparr>)"
  proof (cases "LOCAL_APIC_PTR k")
    case None
    then show ?thesis by (simp add: try_get_cld_def try_get_apic_def)
  next
    case (Some q)
    then obtain p a where pa: "runs_on H p a" "kernel_ok p k" using assms by (auto simp: apic_ready_def)
    have "try_get_cld H (k\<lparr>device := d\<rparr>) = Inr (case CORE_LOCAL k ! unat a of None \<Rightarrow> None | Some _ \<Rightarrow> Some (unat a), k\<lparr>device := d\<rparr>)" for d
    proof -
      obtain w where w: "mmio_read H (p + 0x20) d = (w, d)" "ucast (drop_bit 24 w) = a"
        using pa(1) unfolding runs_on_def by blast
      have "LOCAL_APIC_PTR k = Some p" using pa(2) by (simp add: kernel_ok_def)
      then show ?thesis using w id_in_range [OF pa(2), of a]
        by (simp add: try_get_cld_def try_get_apic_def apic_id_def apic_read_def apic_offset_def Let_def)
    qed
    then show ?thesis by blast
  qed
  then obtain i where i: "\<And>d. try_get_cld H (k\<lparr>device := d\<rparr>) = Inr (i, k\<lparr>device := d\<rparr>)" by blast
  have "k\<lparr>device := device k\<rparr> = k" by simp
  with i [of "device k"] have "try_get_cld H k = Inr (i, k)" by simp
  with i [of d] show "try_get_cld H k = Inr (found_cld H k, k)" "found_cld H (k\<lparr>device := d\<rparr>) = found_cld H k"
    by (simp_all add: found_cld_def)
qed

subsection \<open>The line on the serial port\<close>

definition cpu_column :: "'d hw \<Rightarrow> 'd kernel \<Rightarrow> nat list" where
  "cpu_column H k = (case found_cld H k of
     None \<Rightarrow> [] | Some i \<Rightarrow> codes ('' '' @ right_aligned 2 (dec (cpu_index_field (cld i k)))))"

definition serial_line :: "'d hw \<Rightarrow> 'd kernel \<Rightarrow> log_record \<Rightarrow> nat list" where
  "serial_line H k r = codes (''['' @ left_aligned 5 (level_name (rec_level r))) @ cpu_column H k @ serial_rest r"

definition ascii_bytes :: "nat list \<Rightarrow> u8 list" where
  "ascii_bytes cs = map word_of_nat (filter (\<lambda>c. c < 128) cs)"

lemma ascii_bytes_append [simp]: "ascii_bytes (xs @ ys) = ascii_bytes xs @ ascii_bytes ys"
  by (simp add: ascii_bytes_def)

lemma serial_out_ok:
  assumes "uart_sends (hw_ports H) COM1 sent wait"
  obtains d where "serial_out H cs k = Some (Inr (k\<lparr>device := d\<rparr>))" "sent d = sent (device k) @ ascii_bytes cs"
proof -
  from serial_write_str_ok [OF assms, of cs "device k"] obtain d where
    "serial_write_str (hw_ports H) COM1 cs (device k) = Some d" "sent d = sent (device k) @ ascii_bytes cs"
    by (auto simp: ascii_bytes_def)
  then show ?thesis by (intro that) (simp_all add: serial_out_def print_serial_def)
qed

lemma log_serial_ok:
  assumes "uart_sends (hw_ports H) COM1 sent wait" "apic_ready H k"
  obtains d where "log_serial H r k = Some (Inr (k\<lparr>device := d\<rparr>))"
    "sent d = sent (device k) @ ascii_bytes (serial_line H k r)"
proof -
  obtain d1 where d1: "serial_out H (codes (''['' @ left_aligned 5 (level_name (rec_level r)))) k = Some (Inr (k\<lparr>device := d1\<rparr>))"
    "sent d1 = sent (device k) @ ascii_bytes (codes (''['' @ left_aligned 5 (level_name (rec_level r))))"
    by (rule serial_out_ok [OF assms(1)])
  let ?k1 = "k\<lparr>device := d1\<rparr>"
  have t: "try_get_cld H ?k1 = Inr (found_cld H k, ?k1)"
    using try_get_cld_ready(1) [of H ?k1] try_get_cld_ready(2) [OF assms(2), of d1] assms(2) by simp
  obtain d2 where d2: "(case found_cld H k of None \<Rightarrow> Some (Inr ?k1)
      | Some i \<Rightarrow> serial_out H (codes ('' '' @ right_aligned 2 (dec (cpu_index_field (cld i ?k1))))) ?k1) = Some (Inr (k\<lparr>device := d2\<rparr>))"
    "sent d2 = sent d1 @ ascii_bytes (cpu_column H k)"
  proof (cases "found_cld H k")
    case None
    then show ?thesis by (intro that [of d1]) (simp_all add: cpu_column_def ascii_bytes_def)
  next
    case (Some i)
    obtain d where "serial_out H (codes ('' '' @ right_aligned 2 (dec (cpu_index_field (cld i ?k1))))) ?k1 = Some (Inr (?k1\<lparr>device := d\<rparr>))"
      "sent d = sent (device ?k1) @ ascii_bytes (codes ('' '' @ right_aligned 2 (dec (cpu_index_field (cld i ?k1)))))"
      by (rule serial_out_ok [OF assms(1)])
    with Some show ?thesis by (intro that [of d]) (simp_all add: cpu_column_def cld_def)
  qed
  obtain d3 where d3: "serial_out H (serial_rest r) (k\<lparr>device := d2\<rparr>) = Some (Inr (k\<lparr>device := d2\<rparr>\<lparr>device := d3\<rparr>))"
    "sent d3 = sent (device (k\<lparr>device := d2\<rparr>)) @ ascii_bytes (serial_rest r)"
    by (rule serial_out_ok [OF assms(1)])
  show ?thesis
  proof (rule that)
    show "log_serial H r k = Some (Inr (k\<lparr>device := d3\<rparr>))"
      using d1(1) t d2(1) d3(1) by (simp add: log_serial_def obnd_def)
    show "sent d3 = sent (device k) @ ascii_bytes (serial_line H k r)"
      using d1(2) d2(2) d3(2) by (simp add: serial_line_def)
  qed
qed


subsection \<open>The line on the screen\<close>

definition returns :: "'a res \<Rightarrow> ('a \<Rightarrow> bool) \<Rightarrow> bool" where
  "returns r Q \<longleftrightarrow> (\<exists>x. r = Inr x \<and> Q x)"

lemma returns_bnd: "returns r R \<Longrightarrow> (\<And>x. R x \<Longrightarrow> returns (f x) Q) \<Longrightarrow> returns (bnd r f) Q"
  by (auto simp: returns_def)

lemma returns_Inr: "Q x \<Longrightarrow> returns (Inr x) Q"
  by (simp add: returns_def)

text \<open>The main terminal exists and is well formed.\<close>

definition term_ready :: "font \<Rightarrow> screen \<Rightarrow> bool" where
  "term_ready F s \<longleftrightarrow> (\<exists>t. MAIN_TERM s = Some t \<and> term_ok F t)"

lemma returns_update:
  assumes "term_ready F s" "\<And>t. term_ok F t \<Longrightarrow> term_ok F (g t)"
  shows "returns (stdout_update bi g s) (term_ready F)"
  using assms by (auto simp: term_ready_def returns_def stdout_update_def lazy_term_def)

lemma returns_settings:
  assumes "term_ready F s"
  shows "returns (set_foreground bi c s) (term_ready F)" "returns (set_background bi c s) (term_ready F)"
    and "returns (set_font_weight bi wt s) (term_ready F)"
  unfolding set_foreground_def set_background_def set_font_weight_def
  by (rule returns_update [OF assms]; simp add: term_ok_def surface_ok_def)+

lemma returns_print:
  assumes "font_ok F" "term_ready F s"
  shows "returns (stdout_print bi F cs s) (term_ready F)"
proof -
  obtain t where t: "MAIN_TERM s = Some t" "term_ok F t" using assms(2) by (auto simp: term_ready_def)
  obtain t' m' where "write_str F cs (t, vm s) = Inr (t', m')" "term_ok F t'"
    using write_str_keeps [of F "(t, vm s)" cs] assms(1) t(2) by (auto simp: keeps_def)
  with t show ?thesis
    by (auto simp: returns_def term_ready_def stdout_print_def stdout_write_def lazy_term_def)
qed

text \<open>The final settings.\<close>

definition settings :: "screen \<Rightarrow> (Color \<times> Color \<times> FontWeight) option" where
  "settings s = map_option (\<lambda>t. (foreground t, background t, font_weight t)) (MAIN_TERM s)"

lemma restore_settings:
  assumes "term_ready F s"
  shows "returns (bnd (set_foreground bi fg s) (\<lambda>s. bnd (set_background bi bg s) (\<lambda>s. bnd (set_font_weight bi wt s) (\<lambda>s.
    Inr (s, k))))) (\<lambda>(s', k'). k' = k \<and> settings s' = Some (fg, bg, wt) \<and> term_ready F s')"
  using assms by (auto simp: term_ready_def returns_def set_foreground_def set_background_def set_font_weight_def
      stdout_update_def lazy_term_def settings_def term_ok_def surface_ok_def)

lemma log_graphics_ok:
  assumes "font_ok F" "MAIN_TERM s = Some t" "term_ok F t" "apic_ready H k"
  shows "returns (log_graphics bi F H r (s, k))
    (\<lambda>(s', k'). k' = k \<and> settings s' = Some (foreground t, background t, font_weight t) \<and> term_ready F s')"
proof -
  have s: "term_ready F s" "term_ready F (s\<lparr>MAIN_TERM := Some t\<rparr>)" using assms(2,3) by (simp_all add: term_ready_def)
  have get: "get_foreground bi s = Inr (foreground t, s)" "get_background bi s = Inr (background t, s)"
    "get_font_weight bi s = Inr (font_weight t, s)"
    using assms(2) by (simp_all add: get_foreground_def get_background_def get_font_weight_def stdout_get_def lazy_term_def)
  have opt: "returns (case x of None \<Rightarrow> Inr s | Some y \<Rightarrow> stdout_print bi F (g y) s) (term_ready F)"
    if "term_ready F s" for s and x :: "'z option" and g
    using returns_print [OF assms(1) that] that by (cases x) (simp_all add: returns_def)
  note steps = returns_bnd [OF returns_settings(1)] returns_bnd [OF returns_settings(2)]
    returns_bnd [OF returns_settings(3)] returns_bnd [OF returns_print [OF assms(1)]] returns_bnd [OF opt]
  show ?thesis
    unfolding log_graphics_def
    by (simp only: get bnd_Inr prod.case try_get_cld_ready(1) [OF assms(4)])
      (rule steps s(1) restore_settings | assumption)+
qed


lemma log_msg_ok:
  assumes "font_ok F" "MAIN_TERM (log_screen st) = Some t" "term_ok F t" "apic_ready H (log_kernel st)"
    and "uart_sends (hw_ports H) COM1 sent wait"
    and "SERIAL_LOG_LEVEL st = filter_number sl" "GRAPHICS_LOG_LEVEL st = filter_number gl"
  obtains s' d where "log_msg bi F H r st = Some (Inr (st\<lparr>log_kernel := (log_kernel st)\<lparr>device := d\<rparr>, log_screen := s'\<rparr>))"
    "sent d = sent (device (log_kernel st)) @
       (if passes (rec_level r) sl then ascii_bytes (serial_line H (log_kernel st) r) else [])"
    "settings s' = Some (foreground t, background t, font_weight t)" "term_ready F s'"
    "\<not> passes (rec_level r) gl \<Longrightarrow> s' = log_screen st"
proof -
  let ?k = "log_kernel st"
  obtain d where d: "(if passes (rec_level r) sl then log_serial H r ?k else Some (Inr ?k)) = Some (Inr (?k\<lparr>device := d\<rparr>))"
    "sent d = sent (device ?k) @ (if passes (rec_level r) sl then ascii_bytes (serial_line H ?k r) else [])"
  proof (cases "passes (rec_level r) sl")
    case True
    obtain d where "log_serial H r ?k = Some (Inr (?k\<lparr>device := d\<rparr>))"
      "sent d = sent (device ?k) @ ascii_bytes (serial_line H ?k r)" by (rule log_serial_ok [OF assms(5,4)])
    with True show ?thesis by (intro that [of d]) simp_all
  next
    case False
    then show ?thesis by (intro that [of "device ?k"]) simp_all
  qed
  have ready: "apic_ready H (?k\<lparr>device := d\<rparr>)" using assms(4) by simp
  obtain s' where s': "(if passes (rec_level r) gl then log_graphics bi F H r (log_screen st, ?k\<lparr>device := d\<rparr>)
      else Inr (log_screen st, ?k\<lparr>device := d\<rparr>)) = Inr (s', ?k\<lparr>device := d\<rparr>)"
    "settings s' = Some (foreground t, background t, font_weight t)" "term_ready F s'"
    "\<not> passes (rec_level r) gl \<Longrightarrow> s' = log_screen st"
  proof (cases "passes (rec_level r) gl")
    case True
    obtain s' where "log_graphics bi F H r (log_screen st, ?k\<lparr>device := d\<rparr>) = Inr (s', ?k\<lparr>device := d\<rparr>)"
      "settings s' = Some (foreground t, background t, font_weight t)" "term_ready F s'"
      using log_graphics_ok [OF assms(1-3) ready, of bi r] by (auto simp: returns_def)
    with True show ?thesis by (intro that [of s']) simp_all
  next
    case False
    with assms(2,3) show ?thesis by (intro that [of "log_screen st"]) (simp_all add: settings_def term_ready_def)
  qed
  have "log_msg bi F H r st = Some (Inr (st\<lparr>log_kernel := ?k\<lparr>device := d\<rparr>, log_screen := s'\<rparr>))"
    using d(1) s'(1) assms(6,7) by (simp add: log_msg_def obnd_def)
  from that [OF this d(2) s'(2,3)] s'(4) show ?thesis by blast
qed

subsection \<open>Properties\<close>

datatype log_op = Log log_record | SetSerial LevelFilter | SetGraphics LevelFilter

fun log_step :: "BootInfo \<Rightarrow> font \<Rightarrow> 'd hw \<Rightarrow> log_op \<Rightarrow> 'd logger \<Rightarrow> 'd logger res option" where
  "log_step bi F H (Log r) st = log_msg bi F H r st"
| "log_step bi F H (SetSerial l) st = Some (Inr (set_serial_log_level l st))"
| "log_step bi F H (SetGraphics l) st = Some (Inr (set_graphics_log_level l st))"

fun log_run :: "BootInfo \<Rightarrow> font \<Rightarrow> 'd hw \<Rightarrow> log_op list \<Rightarrow> 'd logger \<Rightarrow> 'd logger res option" where
  "log_run bi F H [] st = Some (Inr st)"
| "log_run bi F H (op # ops) st = obnd (log_step bi F H op st) (log_run bi F H ops)"

text \<open>
  C31: the stored levels are always numbers of a level, so reading them back is never undefined: from
  the initial state, every sequence of log messages and level changes runs to its end, on a
  well-formed terminal and a serial port that becomes ready again, and leaves the colours and the
  font weight of the terminal as they were.
\<close>

theorem log_levels_stay_valid:
  assumes "font_ok F" "MAIN_TERM (log_screen st) = Some t" "term_ok F t" "apic_ready H (log_kernel st)"
    and "uart_sends (hw_ports H) COM1 sent wait" "SERIAL_LOG_LEVEL st = 0" "GRAPHICS_LOG_LEVEL st = 0"
  shows "\<exists>st'. log_run bi F H ops st = Some (Inr st') \<and> levels_valid st' \<and>
    settings (log_screen st') = Some (foreground t, background t, font_weight t)"
proof -
  have "SERIAL_LOG_LEVEL st = filter_number Off" "GRAPHICS_LOG_LEVEL st = filter_number Off" using assms(6,7) by simp_all
  then have "levels_valid st" unfolding levels_valid_def by blast
  moreover have "settings (log_screen st) = Some (foreground t, background t, font_weight t)" "term_ready F (log_screen st)"
    using assms(2,3) by (auto simp: settings_def term_ready_def)
  ultimately show ?thesis using assms(4)
  proof (induction ops arbitrary: st)
    case (Cons op ops)
    have "\<exists>st1. log_step bi F H op st = Some (Inr st1) \<and> levels_valid st1 \<and> apic_ready H (log_kernel st1) \<and>
        settings (log_screen st1) = Some (foreground t, background t, font_weight t) \<and> term_ready F (log_screen st1)"
    proof (cases op)
      case (Log r)
      obtain t1 where t1: "MAIN_TERM (log_screen st) = Some t1" "term_ok F t1"
        using Cons.prems(3) by (auto simp: term_ready_def)
      obtain sl gl where l: "SERIAL_LOG_LEVEL st = filter_number sl" "GRAPHICS_LOG_LEVEL st = filter_number gl"
        using Cons.prems(1) unfolding levels_valid_def by blast
      obtain s' d where "log_msg bi F H r st = Some (Inr (st\<lparr>log_kernel := (log_kernel st)\<lparr>device := d\<rparr>, log_screen := s'\<rparr>))"
        "settings s' = Some (foreground t1, background t1, font_weight t1)" "term_ready F s'"
        by (rule log_msg_ok [OF assms(1) t1 Cons.prems(4) assms(5) l])
      with Log Cons.prems t1 show ?thesis by (auto simp: levels_valid_def settings_def)
    qed (use Cons.prems in \<open>auto simp: levels_valid_def set_serial_log_level_def set_graphics_log_level_def\<close>)
    then obtain st1 where "log_step bi F H op st = Some (Inr st1)" "levels_valid st1" "apic_ready H (log_kernel st1)"
        "settings (log_screen st1) = Some (foreground t, background t, font_weight t)" "term_ready F (log_screen st1)" by blast
    with Cons.IH [of st1] show ?case by (simp add: obnd_def)
  qed simp
qed

text \<open>
  A message whose level passes the serial filter appears on the serial port as exactly one line:
  the level in brackets, padded to five columns, the number of the core once its local data exist,
  the place in the source and the text, without the characters that are not ASCII.  A message that
  does not pass a filter leaves that output alone.
\<close>

lemma log_msg_line:
  assumes "font_ok F" "MAIN_TERM (log_screen st) = Some t" "term_ok F t" "apic_ready H (log_kernel st)"
    and "uart_sends (hw_ports H) COM1 sent wait"
    and "SERIAL_LOG_LEVEL st = filter_number sl" "GRAPHICS_LOG_LEVEL st = filter_number gl"
  shows "\<exists>st'. log_msg bi F H r st = Some (Inr st') \<and>
    sent (device (log_kernel st')) = sent (device (log_kernel st)) @
      (if passes (rec_level r) sl then ascii_bytes (serial_line H (log_kernel st) r) else []) \<and>
    (\<not> passes (rec_level r) gl \<longrightarrow> log_screen st' = log_screen st) \<and>
    CORE_LOCAL (log_kernel st') = CORE_LOCAL (log_kernel st)"
  by (rule log_msg_ok [OF assms, of bi r]) auto

subsection \<open>A concrete logger\<close>

definition hw_uart :: "(u8 list \<times> u8 list \<times> bool) hw" where
  "hw_uart = \<lparr>hw_ports = uart_ref, mmio_read = (\<lambda>a d. (0, d)), mmio_write = (\<lambda>a v d. d)\<rparr>"

definition logger_ex :: "(u8 list \<times> u8 list \<times> bool) logger" where
  "logger_ex = \<lparr>log_kernel = \<lparr>device = ([], [], True), LOCAL_APIC_PTR = None, CORE_LOCAL = core_local_init,
       NEW_FRAME_REQUESTED = True\<rparr>,
     log_screen = screen_ex, SERIAL_LOG_LEVEL = 0, GRAPHICS_LOG_LEVEL = 0, LOGGER_SET = False\<rparr>"

lemma logger_ex_ok:
  "MAIN_TERM (log_screen logger_ex) = Some term_ex" "apic_ready H (log_kernel logger_ex)"
  "uart_sends (hw_ports hw_uart) COM1 (\<lambda>d. fst (snd d)) uart_wait"
  using uart_ref_sends by (simp_all add: logger_ex_def screen_ex_ok apic_ready_def hw_uart_def)

definition record_ex :: log_record where
  "record_ex = \<lparr>rec_level = Warn, rec_file = Some ''a.rs'', rec_line = Some 7, rec_args = [79, 75]\<rparr>"

theorem log_levels_stay_valid_witness:
  "\<exists>st'. log_run bi_ex font_ex hw_uart [SetSerial (UpTo Trace), Log record_ex, SetGraphics (UpTo Info), Log record_ex]
     logger_ex = Some (Inr st') \<and> levels_valid st'"
proof -
  have "SERIAL_LOG_LEVEL logger_ex = 0" "GRAPHICS_LOG_LEVEL logger_ex = 0" by (simp_all add: logger_ex_def)
  from log_levels_stay_valid [OF font_ex_ok logger_ex_ok(1) term_ex_ok logger_ex_ok(2,3) this] show ?thesis by blast
qed

lemma log_msg_line_witness:
  "\<exists>st'. log_msg bi_ex font_ex hw_uart record_ex (logger_ex\<lparr>SERIAL_LOG_LEVEL := 3\<rparr>) = Some (Inr st') \<and>
     fst (snd (device (log_kernel st'))) =
       [91, 87, 65, 82, 78, 32, 32, 97, 46, 114, 115, 58, 55, 93, 32, 79, 75, 10]"
proof -
  let ?st = "logger_ex\<lparr>SERIAL_LOG_LEVEL := 3\<rparr>"
  have st: "MAIN_TERM (log_screen ?st) = Some term_ex" "apic_ready hw_uart (log_kernel ?st)"
    "SERIAL_LOG_LEVEL ?st = filter_number (UpTo Info)" "GRAPHICS_LOG_LEVEL ?st = filter_number Off"
    using logger_ex_ok by (simp_all add: logger_ex_def)
  from log_msg_line [OF font_ex_ok st(1) term_ex_ok st(2) logger_ex_ok(3) st(3,4), of bi_ex record_ex]
  show ?thesis
    by (auto simp: logger_ex_def record_ex_def serial_line_def serial_rest_def cpu_column_def found_cld_def
        try_get_cld_def try_get_apic_def codes_def left_aligned_def ascii_bytes_def)
qed

end
