(* ===== verification/Interrupts.thy ===== *)
theory Interrupts
  imports Logging Apic_Timer
begin

text \<open>
  Exceptions and interrupts, kernel/src/interrupts.rs: the interrupt descriptor table, the handlers
  and the two legacy interrupt controllers.  The vectors of the exceptions are those of the
  processor; the crate x86_64 names the entries of the table after them.  Segment registers and
  task state segments are in the theory \<open>Segments\<close>; the rendering of values for debug output is a
  parameter.
\<close>

datatype exception =
    divide_error | debug | non_maskable_interrupt | breakpoint | overflow | bound_range_exceeded | invalid_opcode
  | device_not_available | double_fault | invalid_tss | segment_not_present | stack_segment_fault
  | general_protection_fault | page_fault | x87_floating_point | alignment_check | machine_check
  | simd_floating_point | virtualization | cp_protection_exception | hv_injection_exception
  | vmm_communication_exception | security_exception

fun vector :: "exception \<Rightarrow> nat" where
  "vector divide_error = 0"
| "vector debug = 1"
| "vector non_maskable_interrupt = 2"
| "vector breakpoint = 3"
| "vector overflow = 4"
| "vector bound_range_exceeded = 5"
| "vector invalid_opcode = 6"
| "vector device_not_available = 7"
| "vector double_fault = 8"
| "vector invalid_tss = 10"
| "vector segment_not_present = 11"
| "vector stack_segment_fault = 12"
| "vector general_protection_fault = 13"
| "vector page_fault = 14"
| "vector x87_floating_point = 16"
| "vector alignment_check = 17"
| "vector machine_check = 18"
| "vector simd_floating_point = 19"
| "vector virtualization = 20"
| "vector cp_protection_exception = 21"
| "vector hv_injection_exception = 28"
| "vector vmm_communication_exception = 29"
| "vector security_exception = 30"

text \<open>
  The handlers: those that the two macros generate, without and with an error code, and the four
  that are written out.  The double fault handler runs on a stack of its own, given by its index.
\<close>

datatype handler =
    Exception_handler exception
  | Exception_handler_ec exception
  | Page_fault_handler
  | Double_fault_handler nat
  | Timer_handler
  | Breakpoint_handler

definition set_handler_fn :: "nat \<Rightarrow> handler \<Rightarrow> (nat \<rightharpoonup> handler) \<Rightarrow> (nat \<rightharpoonup> handler)" where
  "set_handler_fn v h idt = idt(v \<mapsto> h)"

definition interrupt_handler :: "exception \<Rightarrow> (nat \<rightharpoonup> handler) \<Rightarrow> (nat \<rightharpoonup> handler)" where
  "interrupt_handler x = set_handler_fn (vector x) (Exception_handler x)"

definition interrupt_handler_ec :: "exception \<Rightarrow> (nat \<rightharpoonup> handler) \<Rightarrow> (nat \<rightharpoonup> handler)" where
  "interrupt_handler_ec x = set_handler_fn (vector x) (Exception_handler_ec x)"

definition IDT :: "nat \<rightharpoonup> handler" where
  "IDT =
     (let idt = interrupt_handler_ec alignment_check Map.empty;
          idt = interrupt_handler bound_range_exceeded idt;
          idt = interrupt_handler_ec cp_protection_exception idt;
          idt = interrupt_handler device_not_available idt;
          idt = interrupt_handler divide_error idt;
          idt = interrupt_handler_ec general_protection_fault idt;
          idt = interrupt_handler hv_injection_exception idt;
          idt = interrupt_handler invalid_opcode idt;
          idt = interrupt_handler_ec invalid_tss idt;
          idt = interrupt_handler non_maskable_interrupt idt;
          idt = interrupt_handler overflow idt;
          idt = interrupt_handler_ec security_exception idt;
          idt = interrupt_handler_ec segment_not_present idt;
          idt = interrupt_handler simd_floating_point idt;
          idt = interrupt_handler_ec stack_segment_fault idt;
          idt = interrupt_handler virtualization idt;
          idt = interrupt_handler_ec vmm_communication_exception idt;
          idt = interrupt_handler x87_floating_point idt;
          idt = set_handler_fn (vector page_fault) Page_fault_handler idt;
          idt = set_handler_fn (vector double_fault) (Double_fault_handler 0) idt;
          idt = set_handler_fn 32 Timer_handler idt
      in set_handler_fn (vector breakpoint) Breakpoint_handler idt)"

subsection \<open>The handlers\<close>

fun exception_name :: "exception \<Rightarrow> string" where
  "exception_name divide_error = ''divide_error''"
| "exception_name debug = ''debug''"
| "exception_name non_maskable_interrupt = ''non_maskable_interrupt''"
| "exception_name breakpoint = ''breakpoint''"
| "exception_name overflow = ''overflow''"
| "exception_name bound_range_exceeded = ''bound_range_exceeded''"
| "exception_name invalid_opcode = ''invalid_opcode''"
| "exception_name device_not_available = ''device_not_available''"
| "exception_name double_fault = ''double_fault''"
| "exception_name invalid_tss = ''invalid_tss''"
| "exception_name segment_not_present = ''segment_not_present''"
| "exception_name stack_segment_fault = ''stack_segment_fault''"
| "exception_name general_protection_fault = ''general_protection_fault''"
| "exception_name page_fault = ''page_fault''"
| "exception_name x87_floating_point = ''x87_floating_point''"
| "exception_name alignment_check = ''alignment_check''"
| "exception_name machine_check = ''machine_check''"
| "exception_name simd_floating_point = ''simd_floating_point''"
| "exception_name virtualization = ''virtualization''"
| "exception_name cp_protection_exception = ''cp_protection_exception''"
| "exception_name hv_injection_exception = ''hv_injection_exception''"
| "exception_name vmm_communication_exception = ''vmm_communication_exception''"
| "exception_name security_exception = ''security_exception''"

text \<open>A handler that reports and panics; the panic message starts with the text given.\<close>

definition report_and_panic :: "'d hw \<Rightarrow> string \<Rightarrow> 'd kernel \<Rightarrow> 'd kernel res option" where
  "report_and_panic H text k = Some (bnd (try_get_cld H k) (\<lambda>_. Inl (Explicit (''EXCEPTION: '' @ text))))"

definition breakpoint_handler ::
  "'d hw \<Rightarrow> (CoreLocalData option \<Rightarrow> nat list) \<Rightarrow> 'd kernel \<Rightarrow> 'd kernel res option"
where
  "breakpoint_handler H dbg k =
     obnd (Some (try_get_cld H k)) (\<lambda>(i, k).
     serial_out H (codes ''break_point cld:'' @ dbg (map_option (\<lambda>i. cld i k) i) @ [10]) k)"

fun run_handler ::
  "'d hw \<Rightarrow> (CoreLocalData option \<Rightarrow> nat list) \<Rightarrow> handler \<Rightarrow> 'd kernel \<Rightarrow> 'd kernel res option"
where
  "run_handler H dbg (Exception_handler x) k = report_and_panic H (exception_name x) k"
| "run_handler H dbg (Exception_handler_ec x) k = report_and_panic H (exception_name x) k"
| "run_handler H dbg Page_fault_handler k = report_and_panic H ''PAGE FAULT'' k"
| "run_handler H dbg (Double_fault_handler i) k = report_and_panic H ''DOUBLE FAULT'' k"
| "run_handler H dbg Timer_handler k = Some (timer_interrupt H k)"
| "run_handler H dbg Breakpoint_handler k = breakpoint_handler H dbg k"

subsection \<open>The legacy interrupt controllers\<close>

definition remap_and_disable_pic :: "'d ports \<Rightarrow> u8 \<Rightarrow> u8 \<Rightarrow> 'd \<Rightarrow> 'd" where
  "remap_and_disable_pic D offset1 offset2 d =
     (let wait = port_out D 0x80 0;
          d = wait (port_out D 0x20 0x11 d);
          d = wait (port_out D 0xA0 0x11 d);
          d = wait (port_out D 0x21 offset1 d);
          d = wait (port_out D 0xA1 offset2 d);
          d = wait (port_out D 0x21 4 d);
          d = wait (port_out D 0xA1 2 d);
          d = wait (port_out D 0x21 1 d);
          d = wait (port_out D 0xA1 1 d);
          d = port_out D 0x21 0xff d
      in port_out D 0xA1 0xff d)"

text \<open>The part of \<open>init_gdt_and_exceptions_bsp\<close> behind the segment registers.\<close>

definition init_exceptions_bsp :: "'d ports \<Rightarrow> 'd \<Rightarrow> 'd" where
  "init_exceptions_bsp D d = remap_and_disable_pic D 32 (32 + 8) d"

text \<open>
  An 8259A as its data sheet describes it, in cascade mode: a command with bit 4 set starts the
  initialisation and clears the mask; the next three words to the data port are the vector offset,
  the cascade connection and the mode; every later word is the mask.
\<close>

record chip =
  next_word :: nat
  vector_offset :: u8
  cascade :: u8
  mode_8086 :: bool
  irq_mask :: u8

definition chip_command :: "u8 \<Rightarrow> chip \<Rightarrow> chip" where
  "chip_command v c = (if bit v 4 then c\<lparr>next_word := 2, irq_mask := 0\<rparr> else c)"

definition chip_data :: "u8 \<Rightarrow> chip \<Rightarrow> chip" where
  "chip_data v c =
     (if next_word c = 2 then c\<lparr>vector_offset := v, next_word := 3\<rparr>
      else if next_word c = 3 then c\<lparr>cascade := v, next_word := 4\<rparr>
      else if next_word c = 4 then c\<lparr>mode_8086 := bit v 0, next_word := 0\<rparr>
      else c\<lparr>irq_mask := v\<rparr>)"

definition pic_out :: "u16 \<Rightarrow> u8 \<Rightarrow> chip \<times> chip \<Rightarrow> chip \<times> chip" where
  "pic_out p v = (\<lambda>(c1, c2).
     if p = 0x20 then (chip_command v c1, c2)
     else if p = 0x21 then (chip_data v c1, c2)
     else if p = 0xA0 then (c1, chip_command v c2)
     else if p = 0xA1 then (c1, chip_data v c2)
     else (c1, c2))"

text \<open>A device that contains the two controllers behind these ports.\<close>

definition has_pics :: "'d ports \<Rightarrow> ('d \<Rightarrow> chip \<times> chip) \<Rightarrow> bool" where
  "has_pics D pics \<longleftrightarrow> (\<forall>p v d. pics (port_out D p v d) = pic_out p v (pics d))"

subsection \<open>Properties\<close>

definition pushes_error_code :: "nat \<Rightarrow> bool" where
  "pushes_error_code v \<longleftrightarrow> v \<in> {8, 10, 11, 12, 13, 14, 17, 21, 29, 30}"

fun takes_error_code :: "handler \<Rightarrow> bool" where
  "takes_error_code (Exception_handler_ec _) = True"
| "takes_error_code Page_fault_handler = True"
| "takes_error_code (Double_fault_handler _) = True"
| "takes_error_code _ = False"

lemmas idt_defs = IDT_def Let_def interrupt_handler_def interrupt_handler_ec_def set_handler_fn_def



text \<open>
  From any state of the two legacy controllers, the initialisation ends with both in 8086 mode, the
  second connected to input 2 of the first, their vectors moved behind those of the exceptions, and
  all their interrupts masked.
\<close>

lemma pic_remapped_and_masked:
  assumes "has_pics D pics" "pics (init_exceptions_bsp D d) = (c1, c2)"
  shows "vector_offset c1 = 32 \<and> vector_offset c2 = 40 \<and> cascade c1 = 4 \<and> cascade c2 = 2 \<and>
    mode_8086 c1 \<and> mode_8086 c2 \<and> irq_mask c1 = 0xff \<and> irq_mask c2 = 0xff \<and> next_word c1 = 0 \<and> next_word c2 = 0"
proof -
  have out: "pics (port_out D p v d) = pic_out p v (pics d)" for p v d using assms(1) by (simp add: has_pics_def)
  obtain a b where "pics d = (a, b)" by fastforce
  with assms(2) show ?thesis
    unfolding init_exceptions_bsp_def remap_and_disable_pic_def Let_def out
    by (simp add: pic_out_def chip_command_def chip_data_def) (auto simp: bit_simps)
qed

text \<open>
  Vector 32, which the local APIC's timer uses, leads to the timer handler.  The spurious
  interrupt vector that \<open>init\<close> programs is 255, for which the table has no handler, so a spurious
  interrupt becomes a general protection fault and a panic.  The word written there has bit 12 set
  (suppression of end-of-interrupt broadcasts) and bit 9 clear (focus processor checking stays on).
\<close>

lemma apic_vectors:
  "(\<exists>w. apic_init_self BF H \<lparr>local_apic_ptr = p\<rparr> k =
      init_timer BF H \<lparr>local_apic_ptr = p\<rparr> (k\<lparr>device := reg_writes H p [(0x80, 0), (0xf0, w)] (device k)\<rparr>) \<and>
      take_bit 8 w = 255 \<and> IDT (unat (take_bit 8 w)) = None \<and> bit w 8 \<and> bit w 12 \<and> \<not> bit w 9) \<and>
   IDT 32 = Some Timer_handler"
proof -
  have "take_bit 8 (0x11FF :: u32) = 255" "bit (0x11FF :: u32) 8" "bit (0x11FF :: u32) 12" "\<not> bit (0x11FF :: u32) 9"
    by (simp_all add: take_bit_eq_mod bit_numeral_rec)
  moreover have "IDT 255 = None" "IDT 32 = Some Timer_handler" by (simp_all add: idt_defs)
  moreover have "apic_init_self BF H \<lparr>local_apic_ptr = p\<rparr> k =
      init_timer BF H \<lparr>local_apic_ptr = p\<rparr> (k\<lparr>device := reg_writes H p [(0x80, 0), (0xf0, 0x11FF)] (device k)\<rparr>)"
    by (simp add: apic_init_self_def reg_writes_def apic_write_def apic_offset_def)
  ultimately show ?thesis by (intro conjI exI [of _ "0x11FF"]) simp_all
qed

subsection \<open>Concrete devices\<close>

definition pic_ref :: "(chip \<times> chip) ports" where
  "pic_ref = \<lparr>port_in = (\<lambda>p d. (0, d)), port_out = pic_out\<rparr>"

lemma pic_remapped_and_masked_witness:
  "\<exists>c1 c2. init_exceptions_bsp pic_ref
      (\<lparr>next_word = 0, vector_offset = 8, cascade = 0, mode_8086 = False, irq_mask = 0\<rparr>,
       \<lparr>next_word = 3, vector_offset = 112, cascade = 0, mode_8086 = False, irq_mask = 7\<rparr>) = (c1, c2) \<and>
     irq_mask c1 = 0xff \<and> irq_mask c2 = 0xff"
proof -
  have "has_pics pic_ref (\<lambda>d. d)" by (simp add: has_pics_def pic_ref_def)
  from pic_remapped_and_masked [OF this] show ?thesis by (metis surj_pair)
qed



end
