(* ===== verification/Boot.thy ===== *)
theory Boot
  imports Interrupts Smp Acpi
begin

text \<open>
  The boot sequence, kernel/src/main.rs: \<open>assert_boot_info\<close> and \<open>kernel_main\<close> up to the first
  barrier.  The statics that are created on first use (memory manager, main terminal) are taken as
  created; the log lines between the steps are left out.  \<open>fb_len\<close> is the length of the slice that the
  bootloader's \<open>buffer()\<close> returns, and \<open>readings\<close> are the values of the counter of started cores that
  \<open>init_smp\<close> polls.
\<close>

text \<open>
  The configuration that the kernel asks the bootloader for, with the fields that it sets; the defaults of the
  crate bootloader_api are the parameter \<open>new_default\<close>.
\<close>

datatype Mapping = Dynamic | FixedAddress nat

record BootloaderConfig =
  physical_memory :: "Mapping option"
  kernel_stack_size :: nat
  dynamic_range_start :: "nat option"
  dynamic_range_end :: "nat option"

definition BOOTLOADER_CONFIG :: "BootloaderConfig \<Rightarrow> BootloaderConfig" where
  "BOOTLOADER_CONFIG new_default =
     (let config = new_default\<lparr>physical_memory := Some Dynamic\<rparr>;
          config = config\<lparr>kernel_stack_size := KERNEL_STACK_SIZE\<rparr>;
          config = config\<lparr>dynamic_range_start := Some KERNEL_DYNAMIC_START\<rparr>
      in config\<lparr>dynamic_range_end := Some KERNEL_DYNAMIC_END\<rparr>)"

definition assert_boot_info :: "'c hasher \<Rightarrow> (FrameBuffer \<Rightarrow> nat) \<Rightarrow> (nat \<Rightarrow> u8) \<Rightarrow> BootInfo \<Rightarrow> unit res" where
  "assert_boot_info C fb_len mem bi =
     bnd (case boot_physical_memory_offset bi of
            None \<Rightarrow> Inl (Explicit ''Physical memory offset not set!'')
          | Some _ \<Rightarrow> Inr ()) (\<lambda>_.
     bnd (unwrap (framebuffer bi)) (\<lambda>fb.
     bnd (ass (fb_len fb = fb_byte_len (fb_info fb))) (\<lambda>_.
     bnd (ass (fb_buffer_start fb > KERNEL_DYNAMIC_START)) (\<lambda>_.
     bnd (ass ((case ramdisk_addr bi of None \<Rightarrow> 0 | Some a \<Rightarrow> a) > KERNEL_DYNAMIC_START)) (\<lambda>_.
     bnd (ass ((case boot_physical_memory_offset bi of None \<Rightarrow> 0 | Some a \<Rightarrow> a) > KERNEL_DYNAMIC_START)) (\<lambda>_.
     bnd (ass (fb_buffer_start fb < KERNEL_DYNAMIC_END)) (\<lambda>_.
     bnd (unwrap (ramdisk_addr bi)) (\<lambda>ramdisk.
     bnd (ass (ramdisk < KERNEL_DYNAMIC_END)) (\<lambda>_.
     bnd (unwrap (boot_physical_memory_offset bi)) (\<lambda>off.
     bnd (ass (off < KERNEL_DYNAMIC_END)) (\<lambda>_.
     assert_soundness C mem bi)))))))))))"

text \<open>The state of the whole kernel on the bootstrap processor.\<close>

record ('pt, 'd) system =
  sys_log :: "'d logger"
  sys_space :: "'pt space"
  sys_msrs :: "u32 \<rightharpoonup> u64"

definition with_kernel :: "('d kernel \<Rightarrow> 'd kernel res option) \<Rightarrow> ('pt, 'd) system \<Rightarrow> ('pt, 'd) system res option" where
  "with_kernel f st = obnd (f (log_kernel (sys_log st))) (\<lambda>k. Some (Inr (st\<lparr>sys_log := (sys_log st)\<lparr>log_kernel := k\<rparr>\<rparr>)))"

definition kernel_main ::
  "x86 \<Rightarrow> BootInfo \<Rightarrow> ('pt, 'e) paging \<Rightarrow> font \<Rightarrow> 'c hasher \<Rightarrow> 't acpi_lib \<Rightarrow> u8 bitfield \<Rightarrow> u64 bitfield \<Rightarrow> 'd hw \<Rightarrow> string \<Rightarrow>
   (FrameBuffer \<Rightarrow> nat) \<Rightarrow> (nat \<Rightarrow> u8) \<Rightarrow> u64 \<Rightarrow> u64 \<Rightarrow> (nat \<Rightarrow> nat) \<Rightarrow> ('pt, 'd) system \<Rightarrow> ('pt, 'd) system res option"
where
  "kernel_main X bi P F C A BF8 BF64 H this_file fb_len mem counter_addr entry_addr readings st =
     obnd (with_kernel (\<lambda>k. Some (Inr (k\<lparr>device := init_exceptions_bsp (hw_ports H) (device k)\<rparr>))) st) (\<lambda>st.
     obnd (init_logging bi F H this_file (UpTo Trace) (UpTo Trace) (sys_log st)) (\<lambda>lg.
     let st = st\<lparr>sys_log := lg,
                 sys_msrs := (sys_msrs st)(fst change_pat_so_write_through_plus_cache_disabled_is_write_combining \<mapsto>
                   snd change_pat_so_write_through_plus_cache_disabled_is_write_combining)\<rparr> in
     obnd (Some (set_frame_buffer_cache_to_write_combining X bi P (mach (sys_space st)))) (\<lambda>m.
     let st = st\<lparr>sys_space := (sys_space st)\<lparr>mach := m\<rparr>\<rparr> in
     obnd (Some (stdout_clear bi F (Some Size20) (log_screen (sys_log st)))) (\<lambda>scr.
     let st = st\<lparr>sys_log := (sys_log st)\<lparr>log_screen := scr\<rparr>\<rparr> in
     obnd (Some (assert_boot_info C fb_len mem bi)) (\<lambda>_.
     obnd (Some (new_acpi A X bi)) (\<lambda>acpi.
     obnd (with_kernel (\<lambda>k. Some (Inr (create_apic (of_nat (acpi_local_apic_ptr acpi)) k))) st) (\<lambda>st.
     obnd (with_kernel (\<lambda>k. Some (initialize_own_core_local_data H default_cld k)) st) (\<lambda>st.
     obnd (with_kernel (apic_init BF8 H) st) (\<lambda>st.
     obnd (init_smp X bi P BF8 BF64 H (ap_count acpi) counter_addr entry_addr readings
             (sys_space st, log_kernel (sys_log st))) (\<lambda>(sp, k).
     Some (Inr (st\<lparr>sys_space := sp, sys_log := (sys_log st)\<lparr>log_kernel := k\<rparr>\<rparr>))))))))))))"


text \<open>
  Everything that the bootloader maps in the configured range is visible in every user table, and none of it is in an
  area that the memory manager maps itself.
\<close>

lemma config_range_shared:
  assumes "dynamic_range_start (BOOTLOADER_CONFIG c) = Some lo" "dynamic_range_end (BOOTLOADER_CONFIG c) = Some hi" "lo \<le> a" "a < hi"
  shows "l4_index a \<in> set KERNEL_L4_PAGE_TABLE_RANGE" "\<not> managed a"
proof -
  have "KERNEL_DYNAMIC_START \<le> a" "a < KERNEL_DYNAMIC_END" using assms by (simp_all add: BOOTLOADER_CONFIG_def)
  then show "l4_index a \<in> set KERNEL_L4_PAGE_TABLE_RANGE" "\<not> managed a"
    by (auto simp: kernel_range_set l4_index_def managed_def layout_values)
qed

subsection \<open>Frame buffer pages\<close>

lemma change_flags_update:
  assumes "change_flags X bi P page fl s = Inr s'"
  shows "bnd (get_active_l4_page_table X bi s) (\<lambda>l4. case pg_update_flags P l4 page fl (page_tables s) of
     Inl _ \<Rightarrow> Inl UnwrapNone | Inr pt \<Rightarrow> Inr (s\<lparr>page_tables := pt\<rparr>)) = Inr s'"
  using assms by (auto simp: change_flags_def bnd_def split: sum.splits)

definition small_mapped :: "(nat \<Rightarrow> leaf option) \<Rightarrow> nat \<Rightarrow> bool" where
  "small_mapped look p \<longleftrightarrow> (\<exists>f fl. look p = Some (Small f fl))"

lemma update_flags_pages_ok:
  assumes "mem_inv X bi P off tb rt pool s fs" "\<forall>p\<in>set ps. small_mapped (alook P off s) p"
  shows "\<exists>s'. foldm (\<lambda>page s. bnd (get_active_l4_page_table X bi s) (\<lambda>l4.
      case pg_update_flags P l4 page fl (page_tables s) of
        Inl _ \<Rightarrow> Inl UnwrapNone | Inr pt \<Rightarrow> Inr (s\<lparr>page_tables := pt\<rparr>))) ps s = Inr s' \<and>
    mem_inv X bi P off tb rt pool s' fs \<and> cr3 s' = cr3 s \<and> (\<forall>p. p \<notin> set ps \<longrightarrow> alook P off s' p = alook P off s p)"
  using assms
proof (induction ps arbitrary: s)
  case (Cons page ps)
  obtain f fl0 where f: "alook P off s page = Some (Small f fl0)" using Cons.prems(2) by (auto simp: small_mapped_def)
  obtain s1 where s1: "change_flags X bi P page fl s = Inr s1" "mem_inv X bi P off tb rt pool s1 fs"
      "remaps P off rt s s1 page (Some (Small f fl))"
    using change_flags_ok [OF Cons.prems(1) f, of fl] by blast
  have l: "alook P off s1 p = (if p = page then Some (Small f fl) else alook P off s p)" for p
    by (rule remaps_alook [OF s1(3) mem_invD(3) [OF Cons.prems(1)]])
  have c: "cr3 s1 = cr3 s" using s1(3) by (simp add: remaps_def)
  have "\<forall>p\<in>set ps. small_mapped (alook P off s1) p" using Cons.prems(2) unfolding small_mapped_def l by auto
  from Cons.IH [OF s1(2) this] obtain s' where s': "foldm (\<lambda>page s. bnd (get_active_l4_page_table X bi s) (\<lambda>l4.
      case pg_update_flags P l4 page fl (page_tables s) of
        Inl _ \<Rightarrow> Inl UnwrapNone | Inr pt \<Rightarrow> Inr (s\<lparr>page_tables := pt\<rparr>))) ps s1 = Inr s'"
      "mem_inv X bi P off tb rt pool s' fs" "cr3 s' = cr3 s1" "\<forall>p. p \<notin> set ps \<longrightarrow> alook P off s' p = alook P off s1 p" by blast
  have "\<forall>p. p \<notin> set (page # ps) \<longrightarrow> alook P off s' p = alook P off s p" using s'(4) l by simp
  with s' c change_flags_update [OF s1(1)] show ?case by (intro exI [of _ s']) simp
qed simp

subsection \<open>The steps of the sequence\<close>

lemma init_logging_ok:
  assumes "font_ok F" "MAIN_TERM (log_screen lg) = Some t" "term_ok F t" "apic_ready H (log_kernel lg)"
    and "uart_sends (hw_ports H) COM1 sent wait" "\<not> LOGGER_SET lg"
  obtains lg' t' d where "init_logging bi F H file sl gl lg = Some (Inr lg')" "LOGGER_SET lg'"
    "log_kernel lg' = (log_kernel lg)\<lparr>device := d\<rparr>" "MAIN_TERM (log_screen lg') = Some t'" "term_ok F t'"
proof -
  let ?st = "lg\<lparr>SERIAL_LOG_LEVEL := filter_number sl, GRAPHICS_LOG_LEVEL := filter_number gl, LOGGER_SET := True\<rparr>"
  let ?r = "\<lparr>rec_level = Debug, rec_file = Some file, rec_line = Some 102, rec_args = codes ''Logging initialized''\<rparr>"
  have st: "MAIN_TERM (log_screen ?st) = Some t" "apic_ready H (log_kernel ?st)"
    "SERIAL_LOG_LEVEL ?st = filter_number sl" "GRAPHICS_LOG_LEVEL ?st = filter_number gl" using assms(2,4) by simp_all
  obtain s' d where l: "log_msg bi F H ?r ?st = Some (Inr (?st\<lparr>log_kernel := (log_kernel ?st)\<lparr>device := d\<rparr>, log_screen := s'\<rparr>))"
    "term_ready F s'" by (rule log_msg_ok [OF assms(1) st(1) assms(3) st(2) assms(5) st(3,4), of bi ?r])
  then obtain t' where t': "MAIN_TERM s' = Some t'" "term_ok F t'" by (auto simp: term_ready_def)
  let ?lg = "?st\<lparr>log_kernel := (log_kernel ?st)\<lparr>device := d\<rparr>, log_screen := s'\<rparr>"
  have "init_logging bi F H file sl gl lg = log_msg bi F H ?r ?st"
    using assms(6) by (simp add: init_logging_def set_serial_log_level_def set_graphics_log_level_def Let_def)
  with l(1) t' show ?thesis by (intro that [of ?lg d t']) simp_all
qed

text \<open>The bootstrap processor's own APIC and local data.\<close>

lemma bsp_apic_ok:
  assumes "bitfield_ok BF" "pit_ok (hw_ports H) run left" "runs_on H p a" "LOCAL_APIC_PTR k = None"
    and "length (CORE_LOCAL k) = MAX_CORES" "CORE_LOCAL k ! unat a = None"
    and "\<forall>d. fst (mmio_read H (p + 0x390) d) \<noteq> 0xFFFFFFFF"
  obtains k1 k' ticks where "initialize_own_core_local_data H default_cld (create_apic p k) = Inr k1"
    "apic_init BF H k1 = Some (Inr k')" "kernel_ok p k'" "0 < ticks"
    "CORE_LOCAL k' ! unat a = Some (default_cld\<lparr>apic_timer_ticks_per_second := Some ticks\<rparr>)"
    "\<forall>b. b \<noteq> a \<longrightarrow> CORE_LOCAL k' ! unat b = CORE_LOCAL k ! unat b"
proof -
  let ?k = "k\<lparr>LOCAL_APIC_PTR := Some p\<rparr>"
  let ?k1 = "?k\<lparr>CORE_LOCAL := (CORE_LOCAL k)[unat a := Some default_cld]\<rparr>"
  let ?k2 = "?k1\<lparr>device := reg_writes H p [(0x80, 0), (0xf0, 0x11FF)] (device k)\<rparr>"
  have ok: "kernel_ok p ?k" "kernel_ok p ?k1" "kernel_ok p ?k2" using assms(5) by (simp_all add: kernel_ok_def)
  have c: "CORE_LOCAL ?k2 ! unat a = Some default_cld" using id_in_range [OF ok(1), of a] by simp
  have i: "initialize_own_core_local_data H default_cld (create_apic p k) = Inr ?k1"
    using own_id_ok [OF assms(3) ok(1)] id_in_range [OF ok(1), of a] assms(4,6)
    by (simp add: initialize_own_core_local_data_def create_apic_def)
  have init: "apic_init BF H ?k1 = init_timer BF H \<lparr>local_apic_ptr = p\<rparr> ?k2"
    using get_apic_ok [OF ok(2)]
    by (simp add: apic_init_def apic_init_self_def reg_writes_def apic_write_def apic_offset_def)
  obtain d current d' where cur: "mmio_read H (p + 0x390) d = (current, d')" "if current = 0xFFFFFFFF
     then init_timer BF H \<lparr>local_apic_ptr = p\<rparr> ?k2 = Some (Inl (Explicit ''apic timer initialization failed''))
     else \<exists>k' t. init_timer BF H \<lparr>local_apic_ptr = p\<rparr> ?k2 = Some (Inr k') \<and>
       t = 20 * (2 ^ 32 - 1 - unat current) \<and> 0 < t \<and> t < 2 ^ 37 \<and> device k' = d' \<and> kernel_ok p k' \<and>
       CORE_LOCAL k' ! unat a = Some (default_cld\<lparr>apic_timer_ticks_per_second := Some t\<rparr>) \<and>
       (\<forall>b. b \<noteq> a \<longrightarrow> CORE_LOCAL k' ! unat b = CORE_LOCAL ?k2 ! unat b)"
    using init_timer_run [OF assms(1-3) ok(3) c] by blast
  have "current \<noteq> 0xFFFFFFFF" using assms(7) cur(1) by (metis fst_conv)
  from cur(2) [unfolded if_not_P [OF this]] obtain k' t where k': "init_timer BF H \<lparr>local_apic_ptr = p\<rparr> ?k2 = Some (Inr k')"
      "0 < t" "kernel_ok p k'" "CORE_LOCAL k' ! unat a = Some (default_cld\<lparr>apic_timer_ticks_per_second := Some t\<rparr>)"
      "\<forall>b. b \<noteq> a \<longrightarrow> CORE_LOCAL k' ! unat b = CORE_LOCAL ?k2 ! unat b" by blast
  from k'(5) have "\<forall>b. b \<noteq> a \<longrightarrow> CORE_LOCAL k' ! unat b = CORE_LOCAL k ! unat b"
    by (simp add: nth_list_update word_unat_eq_iff)
  with k' i init show ?thesis by (intro that [of ?k1 k' t]) simp_all
qed

text \<open>The screen accepts the clearing of the boot sequence.\<close>

lemma stdout_clear_ok:
  assumes "MAIN_TERM s = Some t" "term_ok F t"
  obtains s' where "stdout_clear bi F sz s = Inr s'"
proof -
  have "surface_ok t" using assms(2) by (simp add: term_ok_def)
  from clear_ok [OF this, of F sz "vm s"] obtain tm where "clear F sz (t, vm s) = Inr tm" by blast
  with assms(1) have "\<exists>s'. stdout_clear bi F sz s = Inr s'"
    by (cases tm) (simp add: stdout_clear_def stdout_write_def lazy_term_def)
  with that show ?thesis by blast
qed

lemma set_frame_buffer_ok:
  assumes "mem_inv X bi P off tb rt pool s fs" "framebuffer bi = Some fb" "frame_buffer_pages X fb = Inr ps"
    and "\<forall>p\<in>set ps. small_mapped (alook P off s) p"
  obtains s' where "set_frame_buffer_cache_to_write_combining X bi P s = Inr s'" "mem_inv X bi P off tb rt pool s' fs"
    "cr3 s' = cr3 s" "\<forall>p. p \<notin> set ps \<longrightarrow> alook P off s' p = alook P off s p"
  using update_flags_pages_ok [OF assms(1,4), of "{PRESENT, WRITABLE, NO_EXECUTE, WRITE_THROUGH, NO_CACHE}"] that
  by (auto simp: set_frame_buffer_cache_to_write_combining_def assms(2,3))

subsection \<open>Properties\<close>

text \<open>
  The checks that the kernel makes on what the bootloader hands over accept a machine exactly if
  the direct mapping, the frame buffer and a sound ram disk image lie inside the dynamic part of the
  kernel's address range and the frame buffer has the announced length.
\<close>

lemma assert_boot_info_accepts:
  assumes "hasher_ok C" "\<forall>f\<in>set paths. files f \<noteq> None" "foldm (add_file files) paths new_image = Inr img"
    and "loaded mem bi (build C img)" "length (build C img) < 2 ^ 64"
    and "bytes = length (concat (map (the \<circ> files) paths))"
  shows "assert_boot_info C fb_len mem bi = Inr () \<longleftrightarrow>
    (\<exists>off fb disk. boot_physical_memory_offset bi = Some off \<and> framebuffer bi = Some fb \<and> ramdisk_addr bi = Some disk \<and>
       fb_len fb = fb_byte_len (fb_info fb) \<and>
       {off, fb_buffer_start fb, disk} \<subseteq> {KERNEL_DYNAMIC_START<..<KERNEL_DYNAMIC_END}) \<and>
    9 \<le> 8 * length paths + bytes \<and> length paths \<le> bytes"
proof -
  from add_files_holds [OF holds_new assms(2)] assms(3) have "holds img (map (the \<circ> files) paths)" by auto
  from assert_soundness_loaded [OF assms(1) this assms(4,5)] assms(6)
  have "assert_soundness C mem bi = Inr () \<longleftrightarrow> 9 \<le> 8 * length paths + bytes \<and> length paths \<le> bytes" by simp
  then show ?thesis
    by (auto simp: assert_boot_info_def res_simps split: option.splits)
qed


subsection \<open>A concrete machine\<close>

text \<open>A UART at the ports of COM1 and a timer chip at all others.\<close>

definition ports_boot :: "((u8 list \<times> u8 list \<times> bool) \<times> nat) ports" where
  "ports_boot = \<lparr>
     port_in = (\<lambda>p (u, n). if p \<ge> 0x3f8
       then (fst (port_in uart_ref p u), (snd (port_in uart_ref p u), n))
       else (fst (port_in pit_ref p n), (u, snd (port_in pit_ref p n)))),
     port_out = (\<lambda>p v (u, n). if p \<ge> 0x3f8 then (port_out uart_ref p v u, n) else (u, port_out pit_ref p v n))\<rparr>"

definition hw_boot :: "((u8 list \<times> u8 list \<times> bool) \<times> nat) hw" where
  "hw_boot = \<lparr>hw_ports = ports_boot,
     mmio_read = (\<lambda>a d. (if a = of_nat (off_mem + 0xFEE00000) + 0x20 then 0 else 0xFFFFFFFF - 1000000, d)),
     mmio_write = (\<lambda>a v d. d)\<rparr>"

lemma hw_boot_ok:
  "uart_sends (hw_ports hw_boot) COM1 (\<lambda>d. fst (snd (fst d))) (\<lambda>d. uart_wait (fst d))"
  "pit_ok (hw_ports hw_boot) (\<lambda>_. True) snd"
  "runs_on hw_boot (of_nat (off_mem + 0xFEE00000)) 0"
  "\<forall>d. fst (mmio_read hw_boot (of_nat (off_mem + 0xFEE00000) + 0x390) d) \<noteq> 0xFFFFFFFF"
  by (auto simp: hw_boot_def ports_boot_def uart_sends_def uart_ref_def uart_wait_def status_ready_def mask_defs
      pit_ok_def pit_ref_def runs_on_def)

definition fb_boot :: FrameBuffer where
  "fb_boot = \<lparr>fb_buffer_start = 102 * 2 ^ 39, fb_info = \<lparr>fb_byte_len = 1200, fb_width = 20, fb_height = 20,
     fb_pixel_format = Rgb, fb_bytes_per_pixel = 3, fb_stride = 20\<rparr>\<rparr>"

definition disk_boot :: "u8 list" where
  "disk_boot = build sum_hasher img_ex"

definition bi_boot :: BootInfo where
  "bi_boot = (bi_frames 20000)\<lparr>framebuffer := Some fb_boot, ramdisk_addr := Some (103 * 2 ^ 39),
     ramdisk_len := length disk_boot, rsdp_addr := Some 4096\<rparr>"

definition mem_boot :: "nat \<Rightarrow> u8" where
  "mem_boot a = disk_boot ! (a - 103 * 2 ^ 39)"

definition acpi_boot :: "unit acpi_lib" where
  "acpi_boot = \<lparr>from_rsdp = (\<lambda>_. Some ()), platform_info = (\<lambda>_. Some \<lparr>interrupt_model = ApicModel 0xFEE00000,
     processor_info = Some \<lparr>application_processors = [\<lparr>proc_state = WaitingForSipi, proc_is_ap = True\<rparr>]\<rparr>\<rparr>)\<rparr>"

definition logger_boot :: "((u8 list \<times> u8 list \<times> bool) \<times> nat) logger" where
  "logger_boot = \<lparr>log_kernel = \<lparr>device = (([], [], True), 0), LOCAL_APIC_PTR = None, CORE_LOCAL = core_local_init,
       NEW_FRAME_REQUESTED = True\<rparr>,
     log_screen = screen_ex, SERIAL_LOG_LEVEL = 0, GRAPHICS_LOG_LEVEL = 0, LOGGER_SET = False\<rparr>"

lemma loaded_boot: "loaded mem_boot bi_boot (build sum_hasher img_ex)"
  by (simp add: loaded_def bi_boot_def ramdisk_u8_slice_def mem_boot_def disk_boot_def map_nth)

lemma boot_info_ex: "assert_boot_info sum_hasher (\<lambda>fb. fb_byte_len (fb_info fb)) mem_boot bi_boot = Inr ()"
proof -
  have h: "holds img_ex [[1, 2], [3]]" by (simp add: holds_def img_ex_def add_string_def new_image_def Let_def)
  show ?thesis
    using assert_soundness_loaded [OF sum_hasher_ok h loaded_boot]
    by (simp add: assert_boot_info_def img_ex_length bi_boot_def bi_frames_def Frame_Allocator.bi_ex_def fb_boot_def layout_values)
qed

lemma assert_boot_info_accepts_witness:
  "assert_boot_info sum_hasher (\<lambda>fb. fb_byte_len (fb_info fb)) mem_boot bi_boot = Inr () \<and>
   assert_boot_info sum_hasher (\<lambda>fb. 0) mem_boot bi_boot \<noteq> Inr ()"
  using assert_boot_info_accepts [OF sum_hasher_ok _ img_ex_built loaded_boot, of 3 "\<lambda>fb. fb_byte_len (fb_info fb)"]
    assert_boot_info_accepts [OF sum_hasher_ok _ img_ex_built loaded_boot, of 3 "\<lambda>fb. 0"]
  by (simp add: img_ex_length fs_ex_def bi_boot_def bi_frames_def Frame_Allocator.bi_ex_def fb_boot_def layout_values)

text \<open>The memory manager of the example, with the page of the frame buffer mapped.\<close>

lemma machine_boot:
  obtains m fs f where "mem_inv x86_ref bi_boot paging_ref off_mem (tb_ref off_mem) (rt_ref off_mem) (pool_frames 20000) m fs"
    "4099 \<le> length fs" "cr3 m = 4096" "alook paging_ref off_mem m (102 * 2 ^ 39) = Some (Small f {PRESENT})"
    "\<forall>p. p \<noteq> 102 * 2 ^ 39 \<longrightarrow> alook paging_ref off_mem m p = None"
proof -
  obtain s fs where s: "inv_frames 20000 s fs" "length fs = 20000" "page_tables s = pt_mem" "cr3 s = 4096"
    by (rule new_memory_frames [of 20000]) simp_all
  have pg: "kernel_page (102 * 2 ^ 39)" "4 \<le> length fs"
    "pg_look paging_ref (page_tables s) (active off_mem s) (102 * 2 ^ 39) = None"
    using s by (simp_all add: kernel_page_def layout_values)
  obtain f s' n where s': "n \<le> 4" "inv_frames 20000 s' (drop n fs)"
      "remaps paging_ref off_mem (rt_ref off_mem) s s' (102 * 2 ^ 39) (Some (Small f ({} \<union> {PRESENT})))"
    using map_ram_kernel_ok [OF s(1) pg, of "{}"] by blast
  have look: "alook paging_ref off_mem s' p = (if p = 102 * 2 ^ 39 then Some (Small f {PRESENT}) else None)" for p
    using remaps_alook [OF s'(3) mem_invD(3) [OF s(1)], of p] s(3) by simp
  have eq: "boot_physical_memory_offset bi_boot = boot_physical_memory_offset (bi_frames 20000)" by (simp add: bi_boot_def)
  have "mem_inv x86_ref bi_boot paging_ref off_mem (tb_ref off_mem) (rt_ref off_mem) (pool_frames 20000) s' (drop n fs)"
    using s'(2) unfolding mem_inv_boot_info [OF eq] .
  with that [of s' "drop n fs" f] look s' s(2,4) show ?thesis by (simp add: remaps_def)
qed


end
