(* ===== verification/Panic.thy ===== *)
theory Panic
  imports Logging
begin

text \<open>
  The panic handler of the kernel, kernel/src/main.rs, up to its endless loop: the message on the
  screen through \<open>panic_print\<close>, then an error message to the logger, which exists only once
  \<open>init_logging\<close> has run.  \<open>info\<close> is the formatted panic information and \<open>this_file\<close> the path of the
  source file.
\<close>

definition panic_callback :: "font \<Rightarrow> nat list \<Rightarrow> tstate \<Rightarrow> tstate res" where
  "panic_callback F info = (\<lambda>(term, m).
     let term = term\<lparr>foreground := new_color 0xFF 0 0\<rparr>;
         term = term\<lparr>background := new_color 0x70 0x70 0\<rparr>
     in write_str F ([10] @ info @ [10]) (term, m))"

text \<open>The macros of the crate log forward a message once the logger is set.\<close>

definition log_line :: "BootInfo \<Rightarrow> font \<Rightarrow> 'd hw \<Rightarrow> Level \<Rightarrow> string \<Rightarrow> nat \<Rightarrow> nat list \<Rightarrow> 'd logger \<Rightarrow> 'd logger res option" where
  "log_line bi F H level file line text st =
     (if LOGGER_SET st
      then log_msg bi F H \<lparr>rec_level = level, rec_file = Some file, rec_line = Some line, rec_args = text\<rparr> st
      else Some (Inr st))"

text \<open>
  The logger waits for the lock of the main terminal when the message passes the graphics filter.
  If the lock is never released (\<open>term_later\<close> is false, as when the panicking core itself holds it),
  the handler waits forever.
\<close>

definition acquire_blocks :: "bool \<Rightarrow> Level \<Rightarrow> 'd logger \<Rightarrow> bool" where
  "acquire_blocks term_later level st \<longleftrightarrow> \<not> term_later \<and> LOGGER_SET st \<and>
     (case transmute (GRAPHICS_LOG_LEVEL st) of Inl _ \<Rightarrow> False | Inr graphics_level \<Rightarrow> passes level graphics_level)"

definition report_panic ::
  "BootInfo \<Rightarrow> font \<Rightarrow> 'd hw \<Rightarrow> (nat \<Rightarrow> bool) \<Rightarrow> bool \<Rightarrow> bool \<Rightarrow> string \<Rightarrow> nat \<Rightarrow> nat list \<Rightarrow> 'd logger \<Rightarrow> 'd logger res option"
where
  "report_panic bi F H swap_tries term_free term_later this_file line info st =
     obnd (Some (panic_print bi swap_tries term_free (panic_callback F info) (log_screen st))) (\<lambda>s.
     let st = st\<lparr>log_screen := s\<rparr> in
     if acquire_blocks term_later Error st then None
     else log_line bi F H Error this_file line ([10, 9] @ info) st)"

definition panic where
  "panic bi F H swap_tries term_free term_later this_file = report_panic bi F H swap_tries term_free term_later this_file 145"

subsection \<open>Logging on a frozen screen\<close>

lemma returns_frozen:
  assumes "frozen s0 s"
  shows "returns (set_foreground bi c s) (frozen s0)" "returns (set_background bi c s) (frozen s0)"
    and "returns (set_font_weight bi wt s) (frozen s0)" "returns (stdout_print bi F cs s) (frozen s0)"
  using assms by (auto simp: returns_def frozen_def set_foreground_def set_background_def set_font_weight_def
      stdout_update_def stdout_print_def stdout_write_def lazy_term_def)

lemma log_graphics_frozen:
  assumes "frozen s0 s" "apic_ready H k"
  shows "returns (log_graphics bi F H r (s, k)) (\<lambda>(s', k'). k' = k \<and> frozen s0 s')"
proof -
  obtain t where t: "MAIN_TERM s = Some t" using assms(1) by (auto simp: frozen_def)
  have get: "get_foreground bi s = Inr (foreground t, s)" "get_background bi s = Inr (background t, s)"
    "get_font_weight bi s = Inr (font_weight t, s)"
    using t by (simp_all add: get_foreground_def get_background_def get_font_weight_def stdout_get_def lazy_term_def)
  have opt: "returns (case x of None \<Rightarrow> Inr s | Some y \<Rightarrow> stdout_print bi F (g y) s) (frozen s0)"
    if "frozen s0 s" for s and x :: "'z option" and g
    using returns_frozen(4) [OF that] that by (cases x) (simp_all add: returns_def)
  have done': "returns (Inr (s, k)) (\<lambda>(s', k'). k' = k \<and> frozen s0 s')" if "frozen s0 s" for s
    using that by (simp add: returns_def)
  show ?thesis
    unfolding log_graphics_def
    by (simp only: get bnd_Inr prod.case try_get_cld_ready(1) [OF assms(2)])
      (rule returns_bnd [OF returns_frozen(1)] returns_bnd [OF returns_frozen(2)] returns_bnd [OF returns_frozen(3)]
        returns_bnd [OF returns_frozen(4)] returns_bnd [OF opt] done' assms(1) | assumption)+
qed

lemma log_msg_frozen:
  assumes "frozen s0 (log_screen st)" "apic_ready H (log_kernel st)" "uart_sends (hw_ports H) COM1 sent wait"
    and "SERIAL_LOG_LEVEL st = filter_number sl" "GRAPHICS_LOG_LEVEL st = filter_number gl"
  shows "\<exists>st'. log_msg bi F H r st = Some (Inr st') \<and> frozen s0 (log_screen st') \<and>
    sent (device (log_kernel st')) = sent (device (log_kernel st)) @
      (if passes (rec_level r) sl then ascii_bytes (serial_line H (log_kernel st) r) else [])"
proof -
  let ?k = "log_kernel st"
  obtain d where d: "(if passes (rec_level r) sl then log_serial H r ?k else Some (Inr ?k)) = Some (Inr (?k\<lparr>device := d\<rparr>))"
    "sent d = sent (device ?k) @ (if passes (rec_level r) sl then ascii_bytes (serial_line H ?k r) else [])"
  proof (cases "passes (rec_level r) sl")
    case True
    obtain d where "log_serial H r ?k = Some (Inr (?k\<lparr>device := d\<rparr>))"
      "sent d = sent (device ?k) @ ascii_bytes (serial_line H ?k r)" by (rule log_serial_ok [OF assms(3,2)])
    with True show ?thesis by (intro that [of d]) simp_all
  next
    case False
    then show ?thesis by (intro that [of "device ?k"]) simp_all
  qed
  obtain s' where s': "(if passes (rec_level r) gl then log_graphics bi F H r (log_screen st, ?k\<lparr>device := d\<rparr>)
      else Inr (log_screen st, ?k\<lparr>device := d\<rparr>)) = Inr (s', ?k\<lparr>device := d\<rparr>)"
    "frozen s0 s'"
    using log_graphics_frozen [OF assms(1), of H "?k\<lparr>device := d\<rparr>" bi F r] assms(1,2)
    by (cases "passes (rec_level r) gl") (auto simp: returns_def)
  have "log_msg bi F H r st = Some (Inr (st\<lparr>log_kernel := ?k\<lparr>device := d\<rparr>, log_screen := s'\<rparr>))"
    using d(1) s'(1) assms(4,5) by (simp add: log_msg_def obnd_def)
  with d(2) s'(2) show ?thesis by (intro exI [of _ "st\<lparr>log_kernel := ?k\<lparr>device := d\<rparr>, log_screen := s'\<rparr>"]) simp
qed

subsection \<open>Properties\<close>



end
