(* ===== verification/Host_Main.thy ===== *)
theory Host_Main
  imports Ram_Disk
begin

text \<open>
  The host program that builds and starts the system, bootimage/src/main.rs: the command lines it
  runs, the disk images it writes, the rotation of the log files and the check of QEMU's exit status
  in test mode.  What lies outside the program is the record \<open>host\<close>: the processes it starts, the
  crate bootloader, which writes the disk images, the environment and the crate that provides the
  UEFI firmware.  The command line parser of the crate clap is left out; its result is \<open>Args\<close>.
\<close>

datatype Bootloader = Uefi | Bios

datatype RedirectSerial = RedirectNone | RedirectFile | RedirectStdout

datatype Profile = Dev | OptDev | Release

record Args =
  arg_smp :: nat
  arg_build_only :: bool
  arg_bootloader :: Bootloader
  arg_test :: bool
  arg_redirect_serial :: RedirectSerial
  arg_kernel_profile :: Profile
  arg_user_app_profile :: Profile
  arg_assemble_smp_trampoline :: bool

definition default_args :: Args where
  "default_args = \<lparr>arg_smp = 4, arg_build_only = False, arg_bootloader = Bios, arg_test = False,
     arg_redirect_serial = RedirectStdout, arg_kernel_profile = OptDev, arg_user_app_profile = OptDev,
     arg_assemble_smp_trampoline = False\<rparr>"

record Command =
  cmd_program :: string
  cmd_dir :: "string option"
  cmd_args :: "string list"

definition new_command :: "string \<Rightarrow> Command" where
  "new_command p = \<lparr>cmd_program = p, cmd_dir = None, cmd_args = []\<rparr>"

definition add_args :: "string list \<Rightarrow> Command \<Rightarrow> Command" where
  "add_args xs c = c\<lparr>cmd_args := cmd_args c @ xs\<rparr>"

fun add_profile_args :: "Profile \<Rightarrow> Command \<Rightarrow> Command \<times> string" where
  "add_profile_args Dev cmd = (cmd, ''debug'')"
| "add_profile_args OptDev cmd = (add_args [''--profile'', ''opt-dev''] cmd, ''opt-dev'')"
| "add_profile_args Release cmd = (add_args [''--profile'', ''release-lto''] cmd, ''release-lto'')"

definition nasm_command :: Command where
  "nasm_command = add_args [''-fbin'', ''ap.asm'', ''-o'', ''ap.bin''] (new_command ''nasm'')\<lparr>cmd_dir := Some ''kernel/smp_trampoline''\<rparr>"

definition kernel_command :: "bool \<Rightarrow> Profile \<Rightarrow> Command \<times> string" where
  "kernel_command test_mode profile =
     (let cmd = add_args [''build'', ''--bin'', ''kernel'', ''--target'', ''x86_64-unknown-none''] (new_command ''cargo'');
          (cmd, kernel_profile) = add_profile_args profile cmd
      in (if test_mode then add_args [''--features'', ''testing''] cmd else cmd, kernel_profile))"

definition user_command :: "Profile \<Rightarrow> Command \<times> string" where
  "user_command profile = add_profile_args profile (add_args [''build''] ((new_command ''cargo'')\<lparr>cmd_dir := Some ''user_app''\<rparr>))"

text \<open>A process gives its exit code, None if a signal ended it; starting it may fail.\<close>

type_synonym files = "string \<rightharpoonup> u8 list"

record host =
  spawn :: "Command \<Rightarrow> files \<Rightarrow> (nat option \<times> files) option"
  create_disk_image :: "Bootloader \<Rightarrow> string \<Rightarrow> u8 list \<Rightarrow> string \<Rightarrow> files \<Rightarrow> files option"
  cargo_target_dir :: "string option"
  ovmf_pure_efi :: string

definition uefi_path :: string where "uefi_path = ''bootimage/out/uefi.img''"
definition bios_path :: string where "bios_path = ''bootimage/out/bios.img''"
definition log_path :: string where "log_path = ''kernel.log''"
definition last_log_path :: string where "last_log_path = ''kernel_last.log''"

definition kernel_path :: "host \<Rightarrow> string \<Rightarrow> string" where
  "kernel_path S kernel_profile =
     (case cargo_target_dir S of None \<Rightarrow> ''target'' | Some d \<Rightarrow> d) @ ''/x86_64-unknown-none/'' @ kernel_profile @ ''/kernel''"

definition rotate_logs :: "files \<Rightarrow> files" where
  "rotate_logs fs = (if fs log_path \<noteq> None
     then let fs = (if fs last_log_path \<noteq> None then fs(last_log_path := None) else fs)
          in fs(last_log_path := fs log_path, log_path := None)
     else fs)"

definition qemu_command :: "host \<Rightarrow> Args \<Rightarrow> Command" where
  "qemu_command S args =
     (let cmd = new_command ''qemu-system-x86_64'';
          cmd = (if arg_bootloader args = Bios
                 then add_args [''-drive'', ''format=raw,file='' @ bios_path] cmd
                 else add_args [''-bios'', ovmf_pure_efi S, ''-drive'', ''format=raw,file='' @ uefi_path] cmd);
          cmd = add_args [''-device'', ''isa-debug-exit,iobase=0xf4,iosize=0x04'', ''-m'', ''8G''] cmd;
          cmd = add_args [''-smp'', dec (arg_smp args)] cmd
      in case arg_redirect_serial args of
           RedirectNone \<Rightarrow> cmd
         | RedirectFile \<Rightarrow> add_args [''-serial'', ''file:'' @ log_path] cmd
         | RedirectStdout \<Rightarrow> add_args [''-serial'', ''stdio''] cmd)"

text \<open>Runs a build step; anything but success is a panic.\<close>

definition build_step :: "host \<Rightarrow> Command \<Rightarrow> files \<Rightarrow> files res" where
  "build_step S cmd fs =
     bnd (unwrap (spawn S cmd fs)) (\<lambda>(status, fs).
     if status = Some 0 then Inr fs else Inl (Explicit ''Failed to build kernel''))"

definition check_exit_code :: "bool \<Rightarrow> nat option \<Rightarrow> unit res" where
  "check_exit_code test_mode status =
     (if test_mode then bnd (unwrap status) (\<lambda>code. ass (code = 33)) else Inr ())"

text \<open>\<open>cfg_test\<close> is set in the build of the crate's own test.  The result holds the started commands.\<close>

definition host_main :: "'c hasher \<Rightarrow> host \<Rightarrow> bool \<Rightarrow> Args \<Rightarrow> files \<Rightarrow> (Command list \<times> files) res" where
  "host_main C S cfg_test args fs =
     (let test_mode = (cfg_test \<or> arg_test args) in
      bnd (if arg_assemble_smp_trampoline args
           then bnd (unwrap (spawn S nasm_command fs)) (\<lambda>(_, fs). Inr ([nasm_command], fs))
           else Inr ([], fs)) (\<lambda>(cmds, fs).
      let (cmd, kernel_profile) = kernel_command test_mode (arg_kernel_profile args) in
      bnd (build_step S cmd fs) (\<lambda>fs.
      let cmds = cmds @ [cmd]; (cmd, user_profile) = user_command (arg_user_app_profile args) in
      bnd (build_step S cmd fs) (\<lambda>fs.
      let cmds = cmds @ [cmd]; kernel = kernel_path S kernel_profile in
      bnd (create_ram_disk C fs (cargo_target_dir S) user_profile) (\<lambda>ram_disk.
      bnd (unwrap (create_disk_image S Uefi kernel ram_disk uefi_path fs)) (\<lambda>fs.
      bnd (unwrap (create_disk_image S Bios kernel ram_disk bios_path fs)) (\<lambda>fs.
      if arg_build_only args then Inr (cmds, fs)
      else
        let fs = rotate_logs fs; cmd = qemu_command S args in
        bnd (unwrap (spawn S cmd fs)) (\<lambda>(exit_code, fs).
        bnd (check_exit_code test_mode exit_code) (\<lambda>_.
        Inr (cmds @ [cmd], fs))))))))))"

lemmas path_defs = uefi_path_def bios_path_def log_path_def last_log_path_def

subsection \<open>Properties\<close>

text \<open>
  When the builds succeed, the program writes both disk images from the kernel just built and a
  ram disk with the user programs just built, and stops there if asked to build only.  Otherwise the
  log of the previous run becomes the last log, QEMU starts with no log file in the way, and in test
  mode the program fails exactly if QEMU's exit code is not 33.
\<close>

lemma host_main_result:
  assumes spawn: "\<forall>cmd fs. spawn S cmd fs = Some (status cmd, effect cmd fs)"
    and tm: "tm \<longleftrightarrow> cfg_test \<or> arg_test args"
    and k: "kernel_command tm (arg_kernel_profile args) = (kcmd, kprofile)" "status kcmd = Some 0"
    and u: "user_command (arg_user_app_profile args) = (ucmd, uprofile)" "status ucmd = Some 0"
    and q: "status (qemu_command S args) = Some code"
    and img: "\<forall>b p d f fs. create_disk_image S b p d f fs = Some (fs(f \<mapsto> mk b p d))"
    and built: "built = effect ucmd (effect kcmd (if arg_assemble_smp_trampoline args then effect nasm_command fs else fs))"
    and disk: "create_ram_disk C built (cargo_target_dir S) uprofile = Inr disk"
  shows "\<exists>cmds written. host_main C S cfg_test args fs =
      (if arg_build_only args then Inr (cmds, written)
       else if tm \<and> code \<noteq> 33 then Inl AssertFail
       else Inr (cmds @ [qemu_command S args], effect (qemu_command S args) (rotate_logs written))) \<and>
    cmds = (if arg_assemble_smp_trampoline args then [nasm_command] else []) @ [kcmd, ucmd] \<and>
    (''testing'' \<in> set (cmd_args kcmd) \<longleftrightarrow> tm) \<and>
    written bios_path = Some (mk Bios (kernel_path S kprofile) disk) \<and>
    written uefi_path = Some (mk Uefi (kernel_path S kprofile) disk) \<and>
    rotate_logs written log_path = None \<and>
    rotate_logs written last_log_path = (if built log_path = None then built last_log_path else built log_path) \<and>
    (\<forall>p. p \<notin> {bios_path, uefi_path, log_path, last_log_path} \<longrightarrow> rotate_logs written p = built p)"
proof -
  let ?cmds = "(if arg_assemble_smp_trampoline args then [nasm_command] else []) @ [kcmd, ucmd]"
  let ?w = "built(uefi_path \<mapsto> mk Uefi (kernel_path S kprofile) disk, bios_path \<mapsto> mk Bios (kernel_path S kprofile) disk)"
  have "host_main C S cfg_test args fs = (if arg_build_only args then Inr (?cmds, ?w)
       else if tm \<and> code \<noteq> 33 then Inl AssertFail
       else Inr (?cmds @ [qemu_command S args], effect (qemu_command S args) (rotate_logs ?w)))"
    using k u q disk
    by (cases "arg_assemble_smp_trampoline args")
      (simp_all add: host_main_def spawn img built build_step_def check_exit_code_def Let_def flip: tm)
  moreover have "''testing'' \<in> set (cmd_args kcmd) \<longleftrightarrow> tm"
    using k(1) by (cases "arg_kernel_profile args")
      (auto simp: kernel_command_def add_args_def new_command_def Let_def split: if_splits)
  ultimately show ?thesis
    by (intro exI [of _ ?cmds] exI [of _ ?w]) (simp add: rotate_logs_def path_defs)
qed

subsection \<open>A concrete host\<close>

definition host_ex :: host where
  "host_ex = \<lparr>spawn = (\<lambda>cmd fs. Some (if cmd_program cmd = ''cargo'' then Some 0 else Some 33,
       fs(''kernel.log'' \<mapsto> [1]))),
     create_disk_image = (\<lambda>b p d f fs. Some (fs(f \<mapsto> d))), cargo_target_dir = None, ovmf_pure_efi = ''ovmf''\<rparr>"

definition files_ex :: files where
  "files_ex = (\<lambda>p. if p = ''kernel.log'' \<or> p = ''kernel_last.log'' then None else Some [7])"

lemma host_main_result_witness:
  "\<exists>cmds fs'. host_main sum_hasher host_ex False (default_args\<lparr>arg_test := True\<rparr>) files_ex = Inr (cmds, fs') \<and> length cmds = 3"
proof -
  let ?args = "default_args\<lparr>arg_test := True\<rparr>"
  let ?status = "\<lambda>cmd. if cmd_program cmd = ''cargo'' then Some 0 else Some (33 :: nat)"
  let ?effect = "\<lambda>cmd :: Command. \<lambda>fs :: files. fs(''kernel.log'' \<mapsto> [1])"
  obtain kcmd kp where k: "kernel_command True (arg_kernel_profile ?args) = (kcmd, kp)" "?status kcmd = Some 0"
    by (auto simp: kernel_command_def default_args_def add_args_def new_command_def)
  obtain ucmd up where u: "user_command (arg_user_app_profile ?args) = (ucmd, up)" "?status ucmd = Some 0"
    by (auto simp: user_command_def default_args_def add_args_def new_command_def)
  have q: "?status (qemu_command host_ex ?args) = Some 33"
    by (simp add: qemu_command_def default_args_def add_args_def new_command_def Let_def)
  let ?built = "?effect ucmd (?effect kcmd files_ex)"
  have b: "?built = ?effect ucmd (?effect kcmd (if arg_assemble_smp_trampoline ?args then ?effect nasm_command files_ex else files_ex))"
    by (simp add: default_args_def)
  obtain disk where d: "create_ram_disk sum_hasher ?built (cargo_target_dir host_ex) up = Inr disk"
    by (simp add: create_ram_disk_def add_user_app_def add_file_ok host_ex_def files_ex_def add_string_def Let_def)
  have s: "\<forall>cmd fs. spawn host_ex cmd fs = Some (?status cmd, ?effect cmd fs)"
    "\<forall>b p d f fs. create_disk_image host_ex b p d f fs = Some (fs(f \<mapsto> (\<lambda>b p d. d) b p d))"
    by (simp_all add: host_ex_def)
  have t: "True \<longleftrightarrow> False \<or> arg_test ?args" by simp
  from host_main_result [OF s(1) t k u q s(2) b d] show ?thesis by (auto simp: default_args_def)
qed

end
