(* ===== verification/Testing.thy ===== *)
theory Testing
  imports Panic Host_Main
begin

text \<open>
  The test runner inside the kernel, kernel/src/tester.rs, in a build with the feature \<open>testing\<close>: the
  test macro, \<open>run_tests\<close>, the panic handler of test builds and the exit through QEMU's debug port.
  A test is the text that the macro makes of its name and place, and its body, which works on the
  state of the kernel that the logger sees.
\<close>

datatype QemuExitCode = Success | Failed

fun qemu_exit_code :: "QemuExitCode \<Rightarrow> u32" where
  "qemu_exit_code Success = 0x10"
| "qemu_exit_code Failed = 0x11"

text \<open>The write to a 32-bit port.\<close>

definition exit_qemu :: "QemuExitCode \<Rightarrow> u16 \<times> u32" where
  "exit_qemu exit_code = (0xf4, qemu_exit_code exit_code)"

record Tester =
  number_of_tests :: nat
  tester_counter :: nat

type_synonym 'd test = "string \<times> ('d logger \<Rightarrow> 'd logger res option)"

definition start_test ::
  "BootInfo \<Rightarrow> font \<Rightarrow> 'd hw \<Rightarrow> string \<Rightarrow> nat list \<Rightarrow> Tester \<times> 'd logger \<Rightarrow> (Tester \<times> 'd logger) res option"
where
  "start_test bi F H this_file args = (\<lambda>(self, st).
     if tester_counter self + 1 < 2 ^ 32
     then let self = self\<lparr>tester_counter := tester_counter self + 1\<rparr> in
       obnd (log_line bi F H Info this_file 19 ([10] @ codes ''Starting test ('' @ codes (dec (tester_counter self)) @ codes ''/'' @
         codes (dec (number_of_tests self)) @ codes ''): '' @ args) st) (\<lambda>st.
       Some (Inr (self, st)))
     else Some (Inl ArithOverflow))"

definition run_test ::
  "BootInfo \<Rightarrow> font \<Rightarrow> 'd hw \<Rightarrow> string \<Rightarrow> 'd test \<Rightarrow> Tester \<times> 'd logger \<Rightarrow> (Tester \<times> 'd logger) res option"
where
  "run_test bi F H this_file = (\<lambda>(name, block) s.
     obnd (start_test bi F H this_file (codes name) s) (\<lambda>(self, st).
     obnd (block st) (\<lambda>st.
     Some (Inr (self, st)))))"

fun ofold :: "('a \<Rightarrow> 's \<Rightarrow> 's res option) \<Rightarrow> 'a list \<Rightarrow> 's \<Rightarrow> 's res option" where
  "ofold f [] s = Some (Inr s)"
| "ofold f (x # xs) s = obnd (f x s) (ofold f xs)"

definition print_out :: "BootInfo \<Rightarrow> font \<Rightarrow> nat list \<Rightarrow> 'd logger \<Rightarrow> 'd logger res option" where
  "print_out bi F cs st = obnd (Some (stdout_print bi F cs (log_screen st))) (\<lambda>s. Some (Inr (st\<lparr>log_screen := s\<rparr>)))"

definition run_tests ::
  "BootInfo \<Rightarrow> font \<Rightarrow> 'd hw \<Rightarrow> string \<Rightarrow> 'd test list \<Rightarrow> 'd logger \<Rightarrow> ('d logger \<times> (u16 \<times> u32) list) res option"
where
  "run_tests bi F H this_file TESTS st =
     (let number_of_tests = length TESTS mod 2 ^ 32 in
      if number_of_tests = 0
      then obnd (log_line bi F H Error this_file 63 (codes ''No tests found!'') st) (\<lambda>st. Some (Inr (st, [])))
      else
        obnd (ofold (run_test bi F H this_file) (rev TESTS)
               (\<lparr>number_of_tests = number_of_tests, tester_counter = 0\<rparr>, st)) (\<lambda>(tester, st).
        obnd (print_out bi F [10] st) (\<lambda>st.
        obnd (ofold (\<lambda>i. print_out bi F ([13] @ codes ''shutdown countdown: '' @ codes (dec i))) (rev [0..<500]) st) (\<lambda>st.
        obnd (log_line bi F H Info this_file 80 ([10] @ codes ''All('' @ codes (dec number_of_tests) @ codes '') tests passed!'') st) (\<lambda>st.
        Some (Inr (st, [exit_qemu Success])))))))"

text \<open>
  The panic handler of a test build, up to its endless loop, and a whole test run of the bootstrap
  processor: the writes to the debug port.  The state in which a panic reaches the handler and the
  text of the panic are given by \<open>at_panic\<close>.
\<close>

definition test_panic where
  "test_panic bi F H swap_tries term_free term_later this_file info st =
     obnd (report_panic bi F H swap_tries term_free term_later this_file 95 info st) (\<lambda>st. Some (Inr (st, [exit_qemu Failed])))"

definition bsp_test_main ::
  "BootInfo \<Rightarrow> font \<Rightarrow> 'd hw \<Rightarrow> (nat \<Rightarrow> bool) \<Rightarrow> bool \<Rightarrow> bool \<Rightarrow> string \<Rightarrow> (panic \<Rightarrow> nat list \<times> 'd logger) \<Rightarrow> 'd test list \<Rightarrow>
   'd logger \<Rightarrow> (u16 \<times> u32) list res option"
where
  "bsp_test_main bi F H swap_tries term_free term_later this_file at_panic TESTS st =
     (case run_tests bi F H this_file TESTS st of
        None \<Rightarrow> None
      | Some (Inr (_, ws)) \<Rightarrow> Some (Inr ws)
      | Some (Inl e) \<Rightarrow>
          (case at_panic e of (info, st) \<Rightarrow>
             obnd (test_panic bi F H swap_tries term_free term_later this_file info st) (\<lambda>(_, ws). Some (Inr ws))))"

subsection \<open>Output keeps the logger usable\<close>

definition log_ready :: "font \<Rightarrow> 'd hw \<Rightarrow> 'd logger \<Rightarrow> bool" where
  "log_ready F H st \<longleftrightarrow> term_ready F (log_screen st) \<and> apic_ready H (log_kernel st) \<and> levels_valid st"

lemma log_line_ready:
  assumes "font_ok F" "uart_sends (hw_ports H) COM1 sent wait" "log_ready F H st"
  shows "\<exists>st'. log_line bi F H lv file line text st = Some (Inr st') \<and> log_ready F H st'"
proof (cases "LOGGER_SET st")
  case True
  obtain t where t: "MAIN_TERM (log_screen st) = Some t" "term_ok F t" using assms(3) by (auto simp: log_ready_def term_ready_def)
  obtain sl gl where l: "SERIAL_LOG_LEVEL st = filter_number sl" "GRAPHICS_LOG_LEVEL st = filter_number gl"
    using assms(3) unfolding log_ready_def levels_valid_def by blast
  have k: "apic_ready H (log_kernel st)" using assms(3) by (simp add: log_ready_def)
  let ?r = "\<lparr>rec_level = lv, rec_file = Some file, rec_line = Some line, rec_args = text\<rparr>"
  obtain s' d where "log_msg bi F H ?r st = Some (Inr (st\<lparr>log_kernel := (log_kernel st)\<lparr>device := d\<rparr>, log_screen := s'\<rparr>))"
    "term_ready F s'" by (rule log_msg_ok [OF assms(1) t k assms(2) l])
  with True assms(3) show ?thesis by (auto simp: log_line_def log_ready_def levels_valid_def)
qed (use assms(3) in \<open>simp add: log_line_def\<close>)

lemma print_out_ready:
  assumes "font_ok F" "log_ready F H st"
  shows "\<exists>st'. print_out bi F cs st = Some (Inr st') \<and> log_ready F H st'"
  using returns_print [OF assms(1), of "log_screen st" bi cs] assms(2)
  by (auto simp: print_out_def obnd_def log_ready_def returns_def levels_valid_def)

lemma ofold_ready:
  assumes "I s" "\<And>x s. x \<in> set xs \<Longrightarrow> I s \<Longrightarrow> \<exists>s'. f x s = Some (Inr s') \<and> I s'"
  shows "\<exists>s'. ofold f xs s = Some (Inr s') \<and> I s'"
  using assms
proof (induction xs arbitrary: s)
  case (Cons x xs)
  from Cons.prems(2) [of x s] Cons.prems(1) obtain s1 where "f x s = Some (Inr s1)" "I s1" by auto
  with Cons.IH [of s1] Cons.prems(2) show ?case by (auto simp: obnd_def)
qed simp

subsection \<open>Running the tests\<close>

text \<open>A test that passes returns, one that fails panics, from every usable state.\<close>

definition behaves :: "font \<Rightarrow> 'd hw \<Rightarrow> bool \<Rightarrow> 'd test \<Rightarrow> bool" where
  "behaves F H ok T \<longleftrightarrow> (\<forall>st. log_ready F H st \<longrightarrow>
     (if ok then \<exists>st'. snd T st = Some (Inr st') \<and> log_ready F H st' else \<exists>e. snd T st = Some (Inl e)))"

lemma run_test_behaves:
  assumes "font_ok F" "uart_sends (hw_ports H) COM1 sent wait" "log_ready F H st" "behaves F H ok T" "tester_counter self + 1 < 2 ^ 32"
  shows "if ok then \<exists>st'. run_test bi F H file T (self, st) = Some (Inr (self\<lparr>tester_counter := tester_counter self + 1\<rparr>, st')) \<and> log_ready F H st'
    else \<exists>e. run_test bi F H file T (self, st) = Some (Inl e)"
proof -
  let ?self = "self\<lparr>tester_counter := tester_counter self + 1\<rparr>"
  obtain st1 where st1: "start_test bi F H file (codes (fst T)) (self, st) = Some (Inr (?self, st1))" "log_ready F H st1"
    using log_line_ready [OF assms(1-3), of bi Info "file" 19 "[10] @ codes ''Starting test ('' @ codes (dec (tester_counter ?self)) @
      codes ''/'' @ codes (dec (number_of_tests ?self)) @ codes ''): '' @ codes (fst T)"] assms(5)
    by (auto simp: start_test_def obnd_def Let_def simp del: dec.simps)
  from assms(4) [unfolded behaves_def, rule_format, OF st1(2)] st1(1) show ?thesis
    by (cases ok) (auto simp: run_test_def obnd_def split_beta)
qed

lemma run_all_behaves:
  assumes "font_ok F" "uart_sends (hw_ports H) COM1 sent wait" "log_ready F H st"
    and "\<forall>T\<in>set Ts. behaves F H (passing T) T" "tester_counter self + length Ts < 2 ^ 32"
  shows "if \<forall>T\<in>set Ts. passing T
    then \<exists>self' st'. ofold (run_test bi F H file) Ts (self, st) = Some (Inr (self', st')) \<and> log_ready F H st'
    else \<exists>e. ofold (run_test bi F H file) Ts (self, st) = Some (Inl e)"
  using assms(3-5)
proof (induction Ts arbitrary: self st)
  case (Cons T Ts)
  have T: "behaves F H (passing T) T" "tester_counter self + 1 < 2 ^ 32" using Cons.prems(2,3) by simp_all
  note r = run_test_behaves [OF assms(1,2) Cons.prems(1) T, of bi "file"]
  show ?case
  proof (cases "passing T")
    case True
    let ?self = "self\<lparr>tester_counter := tester_counter self + 1\<rparr>"
    obtain st1 where st1: "run_test bi F H file T (self, st) = Some (Inr (?self, st1))" "log_ready F H st1" using r True by auto
    have "\<forall>T\<in>set Ts. behaves F H (passing T) T" "tester_counter ?self + length Ts < 2 ^ 32" using Cons.prems(2,3) by simp_all
    from Cons.IH [OF st1(2) this] st1(1) True show ?thesis by (auto simp: obnd_def split: if_splits)
  next
    case False
    with r show ?thesis by (auto simp: obnd_def)
  qed
qed simp

text \<open>A state in which the panic handler of a test build can report; the double buffer is not in use.\<close>

definition panic_ready :: "font \<Rightarrow> 'd hw \<Rightarrow> bool \<Rightarrow> 'd logger \<Rightarrow> bool" where
  "panic_ready F H free st \<longleftrightarrow> DOUBLE_BUFFER (log_screen st) = None \<and> apic_ready H (log_kernel st) \<and> levels_valid st \<and>
     (\<exists>t. MAIN_TERM (log_screen st) = Some t \<and> (free \<longrightarrow> term_ok F t)) \<and>
     (free \<or> (\<exists>t. EMERGENCY_PANIC_TERM (log_screen st) = Some t \<and> term_ok F t))"

lemma panic_callback_ok:
  assumes "font_ok F" "term_ok F t"
  shows "\<exists>t' m'. panic_callback F info (t, m) = Inr (t', m')"
proof -
  have "term_ok F (t\<lparr>foreground := new_color 0xFF 0 0, background := new_color 0x70 0x70 0\<rparr>)"
    using assms(2) by (simp add: term_ok_def surface_ok_def)
  with write_str_keeps [OF assms(1), of "(t\<lparr>foreground := new_color 0xFF 0 0, background := new_color 0x70 0x70 0\<rparr>, m)" "[10] @ info @ [10]"]
  show ?thesis by (auto simp: panic_callback_def Let_def)
qed

lemma report_panic_ok:
  assumes "font_ok F" "uart_sends (hw_ports H) COM1 sent wait" "panic_ready F H free st"
  shows "if acquire_blocks later Error st then report_panic bi F H tries free later file line info st = None
    else \<exists>st'. report_panic bi F H tries free later file line info st = Some (Inr st')"
proof -
  let ?s = "log_screen st"
  obtain t where t: "MAIN_TERM ?s = Some t" "free \<longrightarrow> term_ok F t" using assms(3) by (auto simp: panic_ready_def)
  have "\<exists>s1. panic_print bi tries free (panic_callback F info) ?s = Inr s1 \<and> frozen s1 s1"
  proof (cases free)
    case True
    with t panic_callback_ok [OF assms(1), of t info "vm ?s"] assms(3) show ?thesis
      by (auto simp: panic_print_def lazy_term_def panic_ready_def frozen_def Let_def)
  next
    case False
    then obtain e where e: "EMERGENCY_PANIC_TERM ?s = Some e" "term_ok F e" using assms(3) by (auto simp: panic_ready_def)
    with False t panic_callback_ok [OF assms(1) e(2), of info "vm ?s"] assms(3) show ?thesis
      by (auto simp: panic_print_def lazy_term_def panic_ready_def frozen_def Let_def)
  qed
  then obtain s1 where s1: "panic_print bi tries free (panic_callback F info) ?s = Inr s1" "frozen s1 s1" by blast
  let ?st = "st\<lparr>log_screen := s1\<rparr>" and ?r = "\<lparr>rec_level = Error, rec_file = Some file, rec_line = Some line, rec_args = [10, 9] @ info\<rparr>"
  obtain sl gl where l: "SERIAL_LOG_LEVEL ?st = filter_number sl" "GRAPHICS_LOG_LEVEL ?st = filter_number gl"
    using assms(3) unfolding panic_ready_def levels_valid_def by auto
  have st: "frozen s1 (log_screen ?st)" "apic_ready H (log_kernel ?st)" using s1(2) assms(3) by (simp_all add: panic_ready_def)
  have b: "acquire_blocks later Error ?st = acquire_blocks later Error st" by (simp add: acquire_blocks_def)
  have "\<exists>st'. log_line bi F H Error file line ([10, 9] @ info) ?st = Some (Inr st')"
    using log_msg_frozen [OF st assms(2) l, of bi F ?r] by (auto simp: log_line_def)
  with s1(1) b show ?thesis by (auto simp: report_panic_def obnd_def)
qed

lemma run_tests_behaves:
  assumes "font_ok F" "uart_sends (hw_ports H) COM1 sent wait" "log_ready F H st"
    and "\<forall>T\<in>set TESTS. behaves F H (passing T) T" "TESTS \<noteq> []" "length TESTS < 2 ^ 32"
  shows "if \<forall>T\<in>set TESTS. passing T
    then \<exists>st'. run_tests bi F H file TESTS st = Some (Inr (st', [exit_qemu Success]))
    else \<exists>e. run_tests bi F H file TESTS st = Some (Inl e)"
proof -
  let ?tester = "\<lparr>number_of_tests = length TESTS, tester_counter = 0\<rparr>"
  let ?count = "\<lambda>i. print_out bi F ([13] @ codes ''shutdown countdown: '' @ codes (dec i))"
  have n: "length TESTS mod 2 ^ 32 = length TESTS" "length TESTS \<noteq> 0" using assms(5,6) by simp_all
  have b: "\<forall>T\<in>set (rev TESTS). behaves F H (passing T) T" "tester_counter ?tester + length (rev TESTS) < 2 ^ 32"
    using assms(4,6) by simp_all
  note all = run_all_behaves [OF assms(1-3) b, of bi "file"]
  show ?thesis
  proof (cases "\<forall>T\<in>set TESTS. passing T")
    case True
    with all obtain self' st1 where st1: "ofold (run_test bi F H file) (rev TESTS) (?tester, st) = Some (Inr (self', st1))"
      "log_ready F H st1" by auto
    obtain st2 where st2: "print_out bi F [10] st1 = Some (Inr st2)" "log_ready F H st2"
      using print_out_ready [OF assms(1) st1(2)] by blast
    obtain st3 where st3: "ofold ?count (rev [0..<500]) st2 = Some (Inr st3)" "log_ready F H st3"
      using ofold_ready [of "log_ready F H" st2 "rev [0..<500]" ?count] print_out_ready [OF assms(1)] st2(2) by blast
    obtain st4 where st4: "log_line bi F H Info file 80 ([10] @ codes ''All('' @ codes (dec (length TESTS)) @ codes '') tests passed!'') st3
        = Some (Inr st4)"
      using log_line_ready [OF assms(1,2) st3(2)] by blast
    have "run_tests bi F H file TESTS st = Some (Inr (st4, [exit_qemu Success]))"
      unfolding run_tests_def Let_def n(1)
      using n(2) by (simp only: if_False st1(1) st2(1) st3(1) st4 obnd_def option.case sum.case prod.case)
    with True show ?thesis by auto
  next
    case False
    then have "\<exists>e. ofold (run_test bi F H file) (rev TESTS) (?tester, st) = Some (Inl e)" using all by (simp only: set_rev if_False)
    then obtain e where e: "ofold (run_test bi F H file) (rev TESTS) (?tester, st) = Some (Inl e)" by blast
    have "run_tests bi F H file TESTS st = Some (Inl e)"
      unfolding run_tests_def Let_def n(1)
      using n(2) by (simp only: if_False e obnd_def option.case sum.case)
    with False show ?thesis by auto
  qed
qed

subsection \<open>Properties\<close>


subsection \<open>A concrete run\<close>

definition tests_ex :: "(u8 list \<times> u8 list \<times> bool) test list" where
  "tests_ex = [(''first'', \<lambda>st. Some (Inr st)), (''second'', \<lambda>st. Some (Inl AssertFail))]"

definition logger_test :: "(u8 list \<times> u8 list \<times> bool) logger" where
  "logger_test = logger_ex\<lparr>log_screen := screen_ex\<lparr>DOUBLE_BUFFER := None\<rparr>, LOGGER_SET := True, SERIAL_LOG_LEVEL := 5\<rparr>"


end
