(* ===== verification/Common_Main.thy ===== *)
theory Common_Main
  imports Testing Apic_Timer
begin

text \<open>
  What the cores do after the start, kernel/src/common_main.rs: the timer test, the picture, the frame
  loop of core 0 and the terminals of the other cores.  \<open>app_test\<close> is in the theory \<open>App_Test\<close>.  Interrupts
  arrive between the steps of a loop: \<open>arrive i\<close> is the number of timer interrupts that the core
  takes before round \<open>i\<close> of a busy loop, and \<open>hlt\<close> waits for one.  A loop that may not end is a partial
  function to an option, with \<open>None\<close> for a loop that never ends.  \<open>this_file\<close> is the path of the source file.
\<close>

lemma obnd_simps [simp]: "obnd None f = None" "obnd (Some (Inl e)) f = Some (Inl e)" "obnd (Some (Inr x)) f = f x"
  by (simp_all add: obnd_def)

lemma obnd_bind: "obnd a g = Option.bind a (\<lambda>z. case z of Inl e \<Rightarrow> Some (Inl e) | Inr x \<Rightarrow> g x)"
  by (cases a) (auto simp: obnd_def split: sum.split)

lemma obnd_mono [partial_function_mono]:
  assumes "mono_option r" "\<And>x. mono_option (\<lambda>f. c x f)"
  shows "mono_option (\<lambda>f. obnd (r f) (\<lambda>x. c x f))"
proof -
  have "mono_option (\<lambda>f. case z of Inl e \<Rightarrow> Some (Inl e) | Inr x \<Rightarrow> c x f)" for z
    using assms(2) by (cases z) (simp_all add: partial_function_mono)
  then show ?thesis unfolding obnd_bind by (intro bind_mono assms(1))
qed

subsection \<open>The timer test\<close>

text \<open>The counter behind the reference to the core's own data, cell \<open>i\<close>.\<close>

definition read_counter :: "nat \<Rightarrow> 'd kernel \<Rightarrow> nat res" where
  "read_counter i k = bnd (unwrap (stuff (cld i k))) (\<lambda>xs. idx xs 0)"

definition set_kernel :: "'d kernel \<Rightarrow> 'd logger \<Rightarrow> 'd logger" where
  "set_kernel k st = st\<lparr>log_kernel := k\<rparr>"

definition take_interrupts :: "'d hw \<Rightarrow> nat \<Rightarrow> 'd logger \<Rightarrow> 'd logger res option" where
  "take_interrupts H n st =
     obnd (Some (foldm (\<lambda>_. timer_interrupt H) (replicate n ()) (log_kernel st))) (\<lambda>k. Some (Inr (set_kernel k st)))"

definition count_text :: "nat \<Rightarrow> nat \<Rightarrow> nat list" where
  "count_text count core =
     codes (''+ count increased to '' @ right_aligned 3 (dec count) @ '' at '' @ right_aligned 3 (dec core))"

partial_function (option) timer_loop ::
  "BootInfo \<Rightarrow> font \<Rightarrow> 'd hw \<Rightarrow> string \<Rightarrow> (nat \<Rightarrow> nat) \<Rightarrow> nat \<Rightarrow> nat \<Rightarrow> nat \<Rightarrow> 'd logger \<Rightarrow> 'd logger res option"
where
  "timer_loop bi F H this_file arrive cell i last_count st =
     obnd (take_interrupts H (arrive i) st) (\<lambda>st.
     obnd (Some (read_counter cell (log_kernel st))) (\<lambda>count.
     obnd (if last_count < count
           then obnd (Some (cpu_index H (log_kernel st))) (\<lambda>(core, k).
                log_line bi F H Info this_file 205 (count_text count core) (set_kernel k st))
           else Some (Inr st)) (\<lambda>st.
     if 5 \<le> count then Some (Inr st)
     else timer_loop bi F H this_file arrive cell (i + 1) (if last_count < count then last_count + 1 else last_count) st)))"

definition start_periodic :: "'d hw \<Rightarrow> nat \<Rightarrow> callback \<Rightarrow> 'd kernel \<Rightarrow> 'd kernel res" where
  "start_periodic H interval_us interrupt k =
     bnd (get_apic k) (\<lambda>ap.
     bnd (start_timer H ap (word_of_nat interval_us) True interrupt k) (\<lambda>(r, k).
     case r of Inl _ \<Rightarrow> Inl UnwrapNone | Inr _ \<Rightarrow> Inr k))"

text \<open>The interval is computed in \<open>u32\<close>.\<close>

definition timer_interval :: "nat \<Rightarrow> nat res" where
  "timer_interval core =
     (let n = core mod 2 ^ 32 in
      if n + 1 < 2 ^ 32 \<and> 200000 * (n + 1) < 2 ^ 32 then Inr (200000 * (n + 1)) else Inl ArithOverflow)"

definition timer_test ::
  "BootInfo \<Rightarrow> font \<Rightarrow> 'd hw \<Rightarrow> string \<Rightarrow> (nat \<Rightarrow> nat) \<Rightarrow> 'd logger \<Rightarrow> 'd logger res option"
where
  "timer_test bi F H this_file arrive st =
     obnd (Some (get_cld H (log_kernel st))) (\<lambda>(cell, k).
     let k = cld_update cell (\<lambda>c. c\<lparr>stuff := Some []\<rparr>) k;
         k = cld_update cell (\<lambda>c. c\<lparr>stuff := map_option (\<lambda>xs. xs @ [0]) (stuff c)\<rparr>) k in
     obnd (Some (cpu_index H k)) (\<lambda>(core, k).
     obnd (Some (timer_interval core)) (\<lambda>interval_us.
     obnd (Some (start_periodic H interval_us Timer_interrupt k)) (\<lambda>k.
     timer_loop bi F H this_file arrive cell 0 0 (set_kernel k st)))))"

subsection \<open>The picture\<close>

text \<open>
  The JPEG decoder is the crate zune_jpeg; \<open>jpeg file\<close> is the width and the bytes it decodes, or
  \<open>None\<close> when it fails.  The iterator makes a colour of three bytes; a rest of one or two bytes is a
  panic once the iterator gets there.
\<close>

fun full_chunks :: "u8 list \<Rightarrow> Color list" where
  "full_chunks (r # g # b # rest) = new_color r g b # full_chunks rest"
| "full_chunks _ = []"

definition print_logo ::
  "BootInfo \<Rightarrow> (u8 list \<Rightarrow> (nat \<times> u8 list) option) \<Rightarrow> (nat \<Rightarrow> u8) \<Rightarrow> screen \<Rightarrow> screen res option"
where
  "print_logo bi jpeg mem s =
     obnd (Some (get_file_slice mem bi 2)) (\<lambda>image_bytes.
     obnd (Some (unwrap (jpeg image_bytes))) (\<lambda>(width, pixels).
     obnd (stdout_print_pixels bi width (full_chunks pixels) s) (\<lambda>s'.
     if length pixels mod 3 \<noteq> 0 \<and> \<not> PANICKED_STOP_PRINTING s then Some (Inl IndexOut) else Some (Inr s'))))"

subsection \<open>The frame loop of core 0\<close>

partial_function (option) wait_frame :: "'d hw \<Rightarrow> 'd kernel \<Rightarrow> 'd kernel res option" where
  "wait_frame H k =
     (let requested = NEW_FRAME_REQUESTED k; k = k\<lparr>NEW_FRAME_REQUESTED := False\<rparr> in
      if requested then Some (Inr k)
      else obnd (Some (timer_interrupt H k)) (\<lambda>k. wait_frame H k))"

record 'd frames =
  fr_kernel :: "'d kernel"
  fr_screen :: screen
  REFRESH_COUNTER :: nat

definition frame_round :: "BootInfo \<Rightarrow> 'd hw \<Rightarrow> 'd frames \<Rightarrow> 'd frames res option" where
  "frame_round bi H st =
     obnd (wait_frame H (fr_kernel st)) (\<lambda>k.
     let st = st\<lparr>fr_kernel := k, REFRESH_COUNTER := (REFRESH_COUNTER st + 1) mod 2 ^ 64\<rparr> in
     obnd (Some (push_to_frame_buffer bi (fr_screen st))) (\<lambda>s.
     Some (Inr (st\<lparr>fr_screen := s\<rparr>))))"

text \<open>\<open>heap\<close> is the address of the new back buffer.\<close>

definition start_frames :: "BootInfo \<Rightarrow> 'd hw \<Rightarrow> nat \<Rightarrow> 'd frames \<Rightarrow> 'd frames res" where
  "start_frames bi H heap st =
     bnd (switch_to_double_buffer bi heap (fr_screen st)) (\<lambda>s.
     bnd (start_periodic H 30000 Request_frame (fr_kernel st)) (\<lambda>k.
     Inr (st\<lparr>fr_kernel := k, fr_screen := s\<rparr>)))"

text \<open>
  \<open>n\<close> rounds; \<open>draw i\<close> is what the other cores write into memory before round \<open>i\<close>.
\<close>

definition frame_rounds :: "BootInfo \<Rightarrow> 'd hw \<Rightarrow> (nat \<Rightarrow> vmem \<Rightarrow> vmem) \<Rightarrow> nat \<Rightarrow> 'd frames \<Rightarrow> 'd frames res option" where
  "frame_rounds bi H draw n =
     ofold (\<lambda>i st. frame_round bi H (st\<lparr>fr_screen := (fr_screen st)\<lparr>vm := draw i (vm (fr_screen st))\<rparr>\<rparr>)) [0..<n]"

subsection \<open>The terminals of the other cores\<close>

definition core_clear_color :: "nat \<Rightarrow> nat \<Rightarrow> Color res" where
  "core_clear_color id' ap_count =
     bnd (cmul 100 id') (\<lambda>n.
     bnd (cadd ap_count 1) (\<lambda>d.
     bnd (cdiv n d) (\<lambda>q.
     bnd (csub 100 (q mod 256)) (\<lambda>g.
     Inr (new_color 10 (word_of_nat g) (word_of_nat q))))))"

definition start_core_terminal ::
  "BootInfo \<Rightarrow> font \<Rightarrow> (nat \<Rightarrow> DoubleBuffer option) \<Rightarrow> nat \<Rightarrow> nat \<Rightarrow> vmem \<Rightarrow> tstate res option"
where
  "start_core_terminal bi F readings id' ap_count m =
     obnd (Some (get_window_info_for_core bi id' ap_count)) (\<lambda>w.
     obnd (Some (new_terminal bi w)) (\<lambda>local_writer.
     obnd (Some (core_clear_color id' ap_count)) (\<lambda>c.
     obnd (set_to_double_buffer readings (local_writer\<lparr>clear_color := c\<rparr>)) (\<lambda>local_writer.
     Some (clear F (Some Size16) (local_writer, m))))))"

lemma ofold_append: "ofold f (xs @ ys) s = obnd (ofold f xs s) (ofold f ys)"
proof (induction xs arbitrary: s)
  case (Cons x xs)
  show ?case by (cases "f x s") (auto simp: Cons obnd_def split: sum.split)
qed simp

subsection \<open>The timer test ends\<close>

text \<open>Logging changes the device and the screen only.\<close>

lemma log_line_keeps:
  assumes "font_ok F" "uart_sends (hw_ports H) COM1 sent wait" "log_ready F H st"
  obtains s' d where "log_line bi F H lv file line text st =
      Some (Inr (st\<lparr>log_kernel := (log_kernel st)\<lparr>device := d\<rparr>, log_screen := s'\<rparr>))"
    "log_ready F H (st\<lparr>log_kernel := (log_kernel st)\<lparr>device := d\<rparr>, log_screen := s'\<rparr>)"
proof (cases "LOGGER_SET st")
  case True
  obtain t where t: "MAIN_TERM (log_screen st) = Some t" "term_ok F t" using assms(3) by (auto simp: log_ready_def term_ready_def)
  obtain sl gl where l: "SERIAL_LOG_LEVEL st = filter_number sl" "GRAPHICS_LOG_LEVEL st = filter_number gl"
    using assms(3) unfolding log_ready_def levels_valid_def by blast
  have k: "apic_ready H (log_kernel st)" using assms(3) by (simp add: log_ready_def)
  let ?r = "\<lparr>rec_level = lv, rec_file = Some file, rec_line = Some line, rec_args = text\<rparr>"
  obtain s' d where "log_msg bi F H ?r st = Some (Inr (st\<lparr>log_kernel := (log_kernel st)\<lparr>device := d\<rparr>, log_screen := s'\<rparr>))"
    "term_ready F s'" by (rule log_msg_ok [OF assms(1) t k assms(2) l])
  with True assms(3) show ?thesis by (intro that [of s' d]) (auto simp: log_line_def log_ready_def levels_valid_def)
next
  case False
  with assms(3) show ?thesis by (intro that [of "log_screen st" "device (log_kernel st)"]) (simp_all add: log_line_def)
qed

text \<open>The state of the loop: the core's own counter holds \<open>n\<close> and its callback counts.\<close>

definition counting :: "font \<Rightarrow> 'd hw \<Rightarrow> u64 \<Rightarrow> u8 \<Rightarrow> CoreLocalData \<Rightarrow> nat \<Rightarrow> 'd logger \<Rightarrow> bool" where
  "counting F H p a c n st \<longleftrightarrow> log_ready F H st \<and> kernel_ok p (log_kernel st) \<and>
     has_cld a (log_kernel st) (c\<lparr>apic_timer_interrupt_function := Some Timer_interrupt, stuff := Some [n]\<rparr>)"

definition others_keep :: "u8 \<Rightarrow> 'd kernel \<Rightarrow> 'd kernel \<Rightarrow> bool" where
  "others_keep a k k' \<longleftrightarrow> (\<forall>b. b \<noteq> a \<longrightarrow> CORE_LOCAL k' ! unat b = CORE_LOCAL k ! unat b)"

lemma take_interrupts_counting:
  assumes "runs_on H p a" "counting F H p a c n st" "n + m < 2 ^ 64"
  shows "\<exists>st'. take_interrupts H m st = Some (Inr st') \<and> counting F H p a c (n + m) st' \<and>
    others_keep a (log_kernel st) (log_kernel st')"
proof -
  let ?c = "c\<lparr>apic_timer_interrupt_function := Some Timer_interrupt, stuff := Some [n]\<rparr>"
  have st: "log_ready F H st" "kernel_ok p (log_kernel st)" "has_cld a (log_kernel st) ?c"
    using assms(2) by (simp_all add: counting_def)
  have "n < 2 ^ 64" "(n + m) mod 2 ^ 64 = n + m" using assms(3) by simp_all
  then obtain k' where k': "foldm (\<lambda>_. timer_interrupt H) (replicate m ()) (log_kernel st) = Inr k'" "kernel_ok p k'"
      "has_cld a k' (?c\<lparr>stuff := Some [n + m]\<rparr>)" "\<forall>b. b \<noteq> a \<longrightarrow> CORE_LOCAL k' ! unat b = CORE_LOCAL (log_kernel st) ! unat b"
    using timer_interrupts_count [OF assms(1) st(2,3), of n "[]" m] by auto
  have "apic_ready H k'" using assms(1) k'(2) by (auto simp: apic_ready_def)
  then have "log_ready F H (set_kernel k' st)" using st(1) by (simp add: log_ready_def set_kernel_def levels_valid_def)
  with k' show ?thesis by (simp add: take_interrupts_def counting_def others_keep_def set_kernel_def)
qed

lemma counting_device:
  assumes "counting F H p a c n st" "log_ready F H (st\<lparr>log_kernel := (log_kernel st)\<lparr>device := d\<rparr>, log_screen := s\<rparr>)"
  shows "counting F H p a c n (st\<lparr>log_kernel := (log_kernel st)\<lparr>device := d\<rparr>, log_screen := s\<rparr>)"
  using assms by (simp add: counting_def)

lemma timer_loop_ends:
  assumes "font_ok F" "uart_sends (hw_ports H) COM1 sent wait" "runs_on H p a" "\<And>j. arrive j < 2 ^ 32"
    and "counting F H p a c n st" "n < 5" "5 \<le> n + sum arrive {i..<i + m}"
  shows "\<exists>st' n'. timer_loop bi F H fname arrive (unat a) i last_count st = Some (Inr st') \<and> 5 \<le> n' \<and>
    counting F H p a c n' st' \<and> others_keep a (log_kernel st) (log_kernel st')"
  using assms(5-)
proof (induction m arbitrary: i n last_count st)
  case (Suc m)
  let ?n = "n + arrive i"
  have "?n < 2 ^ 64" using Suc.prems(2) assms(4) [of i] by simp
  from take_interrupts_counting [OF assms(3) Suc.prems(1) this] obtain st1 where
    st1: "take_interrupts H (arrive i) st = Some (Inr st1)" "counting F H p a c ?n st1"
      "others_keep a (log_kernel st) (log_kernel st1)" by blast
  let ?c = "c\<lparr>apic_timer_interrupt_function := Some Timer_interrupt, stuff := Some [?n]\<rparr>"
  have k1: "kernel_ok p (log_kernel st1)" "has_cld a (log_kernel st1) ?c" "log_ready F H st1"
    using st1(2) by (simp_all add: counting_def)
  note g = get_cld_ok [OF assms(3) k1(1,2)]
  have rd: "read_counter (unat a) (log_kernel st1) = Inr ?n" by (simp add: read_counter_def g(2) idx_def)
  obtain st2 where st2: "(if last_count < ?n
           then obnd (Some (cpu_index H (log_kernel st1))) (\<lambda>(core, k).
                log_line bi F H Info fname 205 (count_text ?n core) (set_kernel k st1))
           else Some (Inr st1)) = Some (Inr st2)" "counting F H p a c ?n st2" "CORE_LOCAL (log_kernel st2) = CORE_LOCAL (log_kernel st1)"
  proof (cases "last_count < ?n")
    case True
    obtain s' d where "log_line bi F H Info fname 205 (count_text ?n (cpu_index_field c)) st1 =
        Some (Inr (st1\<lparr>log_kernel := (log_kernel st1)\<lparr>device := d\<rparr>, log_screen := s'\<rparr>))"
      "log_ready F H (st1\<lparr>log_kernel := (log_kernel st1)\<lparr>device := d\<rparr>, log_screen := s'\<rparr>)"
      by (rule log_line_keeps [OF assms(1,2) k1(3)])
    with True g counting_device [OF st1(2)] show ?thesis
      by (intro that [of "st1\<lparr>log_kernel := (log_kernel st1)\<lparr>device := d\<rparr>, log_screen := s'\<rparr>"]) (simp_all add: cpu_index_def set_kernel_def)
  qed (use that [of st1] st1(2) in simp)
  have o2: "others_keep a (log_kernel st) (log_kernel st2)" using st1(3) st2(3) by (simp add: others_keep_def)
  show ?case
  proof (cases "5 \<le> ?n")
    case True
    with st1(1) rd st2 o2 show ?thesis by (subst timer_loop.simps) auto
  next
    case False
    have "5 \<le> ?n + sum arrive {i + 1..<i + 1 + m}"
      using Suc.prems(3) sum.atLeast_Suc_lessThan [of i "i + Suc m" arrive] by (simp add: add.assoc del: sum.op_ivl_Suc)
    with False obtain st' n' where
      "timer_loop bi F H fname arrive (unat a) (i + 1) (if last_count < ?n then last_count + 1 else last_count) st2 = Some (Inr st')"
      "5 \<le> n'" "counting F H p a c n' st'" "others_keep a (log_kernel st2) (log_kernel st')"
      using Suc.IH [OF st2(2), of "i + 1" "if last_count < ?n then last_count + 1 else last_count"] by auto
    with False st1(1) rd st2 o2 show ?thesis
      by (subst timer_loop.simps) (auto simp: others_keep_def)
  qed
qed simp

lemma start_periodic_ok:
  assumes "runs_on H p a" "kernel_ok p k" "has_cld a k c" "apic_timer_ticks_per_second c = Some t" "us < 2 ^ 32"
  shows "t * us < 2 ^ 64 \<Longrightarrow> 2 ^ 32 \<le> t * us div 1000000 \<Longrightarrow> start_periodic H us f k = Inl UnwrapNone"
    and "1000000 \<le> t * us \<Longrightarrow> t * us div 1000000 < 2 ^ 32 \<Longrightarrow> \<exists>d. start_periodic H us f k =
      Inr (cld_update (unat a) (\<lambda>c. c\<lparr>apic_timer_interrupt_function := Some f\<rparr>) k\<lparr>device := d\<rparr>)"
proof -
  have us: "unat (word_of_nat us :: u32) = us" using assms(5) by (simp add: unsigned_of_nat take_bit_nat_eq_self)
  note eq = start_timer_eq [OF assms(1,2) assms(3) [unfolded has_cld_def] assms(4), where us = "word_of_nat us" and f = f and periodic = True,
      unfolded us Let_def, THEN conjunct1]
  note def = start_periodic_def get_apic_ok [OF assms(2)]
  show "t * us < 2 ^ 64 \<Longrightarrow> 2 ^ 32 \<le> t * us div 1000000 \<Longrightarrow> start_periodic H us f k = Inl UnwrapNone"
    unfolding def by (simp add: eq)
  assume A: "1000000 \<le> t * us" "t * us div 1000000 < 2 ^ 32"
  have "t * us < 2 ^ 64"
  proof -
    have "t * us < 2 ^ 32 * 1000000" using A(2) by (simp add: div_less_iff_less_mult)
    then show ?thesis by simp
  qed
  moreover have "0 < t * us div 1000000" using A(1) by (simp add: div_greater_zero_iff)
  ultimately show "\<exists>d. start_periodic H us f k =
      Inr (cld_update (unat a) (\<lambda>c. c\<lparr>apic_timer_interrupt_function := Some f\<rparr>) k\<lparr>device := d\<rparr>)"
    using A(2) unfolding def by (simp add: eq) blast
qed

subsection \<open>Frames\<close>

text \<open>On a core whose timer requests frames the wait ends after at most one interrupt.\<close>

lemma timer_interrupt_requests:
  assumes "runs_on H p a" "kernel_ok p k" "has_cld a k c" "apic_timer_interrupt_function c = Some Request_frame"
  shows "timer_interrupt H k = Inr (k\<lparr>NEW_FRAME_REQUESTED := True, device := eoi H p (device k)\<rparr>)"
proof -
  have "kernel_ok p (k\<lparr>NEW_FRAME_REQUESTED := True\<rparr>)" using assms(2) by (simp add: kernel_ok_def)
  from get_apic_ok [OF this] show ?thesis
    using get_cld_ok [OF assms(1-3)] assms(4)
    by (simp add: timer_interrupt_def signal_end_of_interrupt_def apic_write_def apic_offset_def eoi_def)
qed

lemma wait_frame_ends:
  assumes "runs_on H p a" "kernel_ok p k" "has_cld a k c" "apic_timer_interrupt_function c = Some Request_frame"
  shows "\<exists>k'. wait_frame H k = Some (Inr k') \<and> kernel_ok p k' \<and> has_cld a k' c \<and> CORE_LOCAL k' = CORE_LOCAL k"
proof (cases "NEW_FRAME_REQUESTED k")
  case True
  with assms(2,3) show ?thesis by (subst wait_frame.simps) (simp add: kernel_ok_def has_cld_def)
next
  case False
  let ?k = "k\<lparr>NEW_FRAME_REQUESTED := False\<rparr>"
  have k: "kernel_ok p ?k" "has_cld a ?k c" using assms(2,3) by (simp_all add: kernel_ok_def has_cld_def)
  let ?k1 = "?k\<lparr>NEW_FRAME_REQUESTED := True, device := eoi H p (device ?k)\<rparr>"
  have "wait_frame H k = wait_frame H ?k1"
    using False timer_interrupt_requests [OF assms(1) k assms(4)] by (subst wait_frame.simps) simp
  also have "\<dots> = Some (Inr (?k1\<lparr>NEW_FRAME_REQUESTED := False\<rparr>))" by (subst wait_frame.simps) simp
  finally show ?thesis using assms(2,3) by (simp add: kernel_ok_def has_cld_def)
qed

definition frames_ready :: "'d hw \<Rightarrow> u64 \<Rightarrow> u8 \<Rightarrow> DoubleBuffer \<Rightarrow> 'd frames \<Rightarrow> bool" where
  "frames_ready H p a db st \<longleftrightarrow> kernel_ok p (fr_kernel st) \<and>
     (\<exists>c. has_cld a (fr_kernel st) c \<and> apic_timer_interrupt_function c = Some Request_frame) \<and>
     DOUBLE_BUFFER (fr_screen st) = Some db \<and> MAIN_TERM (fr_screen st) \<noteq> None \<and> \<not> PANICKED_STOP_PRINTING (fr_screen st)"

definition shown :: "FrameBufferInfo \<Rightarrow> DoubleBuffer \<Rightarrow> vmem \<Rightarrow> bool" where
  "shown info db m \<longleftrightarrow> (\<forall>d\<in>visible info. m (front_buffer db + d) = m (back_buffer db + d))"

lemma frame_round_ok:
  assumes "runs_on H p a" "framebuffer bi = Some fb" "fb_sane (fb_info fb)" "buffers_apart (fb_info fb) db" "frames_ready H p a db st"
  shows "\<exists>st'. frame_round bi H st = Some (Inr st') \<and> frames_ready H p a db st' \<and>
    REFRESH_COUNTER st' = (REFRESH_COUNTER st + 1) mod 2 ^ 64 \<and> shown (fb_info fb) db (vm (fr_screen st'))"
proof -
  obtain c where c: "has_cld a (fr_kernel st) c" "apic_timer_interrupt_function c = Some Request_frame"
    and st: "kernel_ok p (fr_kernel st)" "DOUBLE_BUFFER (fr_screen st) = Some db" "\<not> PANICKED_STOP_PRINTING (fr_screen st)"
    and "MAIN_TERM (fr_screen st) \<noteq> None" using assms(5) by (auto simp: frames_ready_def)
  then obtain t where t: "MAIN_TERM (fr_screen st) = Some t" by auto
  obtain k' where k': "wait_frame H (fr_kernel st) = Some (Inr k')" "kernel_ok p k'" "has_cld a k' c"
    using wait_frame_ends [OF assms(1) st(1) c] by blast
  note cp = push_copy_eq [OF assms(2,3) st(2) t assms(4)]
  have w: "fb_width (fb_info fb) \<le> fb_stride (fb_info fb)" using assms(3) by (simp add: fb_sane_def)
  have "blit db (visible (fb_info fb)) (vm (fr_screen st)) (back_buffer db + d) = vm (fr_screen st) (back_buffer db + d)"
    if "d \<in> visible (fb_info fb)" for d
    using blit_source [OF assms(4)] visible_less [OF w] that by blast
  then have "shown (fb_info fb) db (blit db (visible (fb_info fb)) (vm (fr_screen st)))"
    by (simp add: shown_def blit_apply)
  with k' c st t cp show ?thesis by (auto simp: frame_round_def push_to_frame_buffer_def frames_ready_def)
qed

lemma frame_rounds_ok:
  assumes "runs_on H p a" "framebuffer bi = Some fb" "fb_sane (fb_info fb)" "buffers_apart (fb_info fb) db" "frames_ready H p a db st"
  shows "\<exists>st'. frame_rounds bi H draw n st = Some (Inr st') \<and> frames_ready H p a db st' \<and>
    REFRESH_COUNTER st' = (if n = 0 then REFRESH_COUNTER st else (REFRESH_COUNTER st + n) mod 2 ^ 64) \<and>
    (0 < n \<longrightarrow> shown (fb_info fb) db (vm (fr_screen st')))"
proof (induction n)
  case 0
  with assms(5) show ?case by (simp add: frame_rounds_def)
next
  case (Suc n)
  then obtain st1 where st1: "frame_rounds bi H draw n st = Some (Inr st1)" "frames_ready H p a db st1"
    "REFRESH_COUNTER st1 = (if n = 0 then REFRESH_COUNTER st else (REFRESH_COUNTER st + n) mod 2 ^ 64)" by blast
  let ?st = "st1\<lparr>fr_screen := (fr_screen st1)\<lparr>vm := draw n (vm (fr_screen st1))\<rparr>\<rparr>"
  have "frames_ready H p a db ?st" using st1(2) by (simp add: frames_ready_def)
  from frame_round_ok [OF assms(1-4) this] obtain st2 where
    "frame_round bi H ?st = Some (Inr st2)" "frames_ready H p a db st2"
    "REFRESH_COUNTER st2 = (REFRESH_COUNTER st1 + 1) mod 2 ^ 64" "shown (fb_info fb) db (vm (fr_screen st2))" by auto
  with st1 show ?case by (auto simp: frame_rounds_def ofold_append mod_simps)
qed

subsection \<open>Terminals of the cores\<close>

lemma wait_double_buffer_ends:
  assumes "readings (k + n) = Some db" "\<forall>j<n. readings (k + j) = None"
  shows "wait_double_buffer readings k = Some db"
  using assms
proof (induction n arbitrary: k)
  case 0
  then show ?case by (subst wait_double_buffer.simps) simp
next
  case (Suc n)
  have "readings k = None" using Suc.prems(2) [rule_format, of 0] by simp
  moreover have "wait_double_buffer readings (k + 1) = Some db"
    using Suc.prems(2) [rule_format, of "Suc j" for j] Suc.prems(1) by (intro Suc.IH) simp_all
  ultimately show ?case by (subst wait_double_buffer.simps) simp
qed

lemma core_clear_color_ok:
  assumes "id' \<le> ap_count" "ap_count < 2 ^ 32"
  shows "100 * id' div (ap_count + 1) < 100"
    and "core_clear_color id' ap_count =
      (let q = 100 * id' div (ap_count + 1) in Inr (new_color 10 (word_of_nat (100 - q)) (word_of_nat q)))"
proof -
  have "100 * id' < 100 * (ap_count + 1)" using assms(1) by simp
  then show q: "100 * id' div (ap_count + 1) < 100" by (simp add: div_less_iff_less_mult)
  have "100 * id' < 2 ^ 64" "ap_count + 1 < 2 ^ 64" using assms by simp_all
  with q show "core_clear_color id' ap_count =
      (let q = 100 * id' div (ap_count + 1) in Inr (new_color 10 (word_of_nat (100 - q)) (word_of_nat q)))"
    by (simp add: core_clear_color_def cmul_def cadd_def cdiv_def csub_def Let_def)
qed

lemma construct_buffer_ok:
  assumes "surface_ok t"
  shows "construct_buffer base (tw_info t) = Inr (base + byte_offset (tw_info t),
    stride (tw_info t) * win_height (tw_info t) * bytes_per_pixel (tw_info t))"
proof -
  let ?i = "tw_info t"
  have len: "stride ?i * win_height ?i * bytes_per_pixel ?i < 2 ^ 64" "channels (pixel_format ?i) \<le> bytes_per_pixel ?i"
    using assms by (simp_all add: surface_ok_def)
  have "1 \<le> bytes_per_pixel ?i" using len(2) channels_pos [of "pixel_format ?i"] by linarith
  then have "stride ?i * win_height ?i \<le> stride ?i * win_height ?i * bytes_per_pixel ?i" by (metis mult.right_neutral mult_le_mono2)
  with len(1) have "stride ?i * win_height ?i < 2 ^ 64" by linarith
  with len(1) show ?thesis by (simp add: construct_buffer_def)
qed

subsection \<open>Properties\<close>

text \<open>
  C35: a core whose timer is calibrated and whose interval fits the timer's counter finishes the timer test
  as soon as five timer interrupts have arrived, however they are distributed over the rounds of the
  busy loop: its own counter is at least five, its timer stays armed, and the data of no other core
  have changed.  An interval that does not fit is a panic.
\<close>

theorem timer_test_ends:
  assumes "font_ok F" "uart_sends (hw_ports H) COM1 sent wait" "runs_on H p a" "log_ready F H st" "kernel_ok p (log_kernel st)"
    and "CORE_LOCAL (log_kernel st) ! unat a = Some c" "apic_timer_ticks_per_second c = Some t" "cpu_index_field c < 20000"
    and "interval = 200000 * (cpu_index_field c + 1)" "1000000 \<le> t * interval" "t * interval < 2 ^ 64"
    and "\<forall>j. arrive j < 2 ^ 32" "5 \<le> sum arrive {..<n}"
  shows "if t * interval div 1000000 < 2 ^ 32
    then \<exists>st' x. timer_test bi F H fname arrive st = Some (Inr st') \<and> 5 \<le> x \<and>
      CORE_LOCAL (log_kernel st') ! unat a =
        Some (c\<lparr>apic_timer_interrupt_function := Some Timer_interrupt, stuff := Some [x]\<rparr>) \<and>
      (\<forall>b. b \<noteq> a \<longrightarrow> CORE_LOCAL (log_kernel st') ! unat b = CORE_LOCAL (log_kernel st) ! unat b)
    else timer_test bi F H fname arrive st = Some (Inl UnwrapNone)"
proof -
  let ?k0 = "log_kernel st"
  have c: "has_cld a ?k0 c" using assms(6) by (simp add: has_cld_def)
  let ?k1 = "cld_update (unat a) (\<lambda>c. c\<lparr>stuff := Some []\<rparr>) ?k0"
  let ?k2 = "cld_update (unat a) (\<lambda>c. c\<lparr>stuff := map_option (\<lambda>xs. xs @ [0]) (stuff c)\<rparr>) ?k1"
  note u1 = cld_update_ok [OF assms(5) c, where f = "\<lambda>c. c\<lparr>stuff := Some []\<rparr>"]
  note u2 = cld_update_ok [OF u1(1,2), where f = "\<lambda>c. c\<lparr>stuff := map_option (\<lambda>xs. xs @ [0]) (stuff c)\<rparr>"]
  have k2: "kernel_ok p ?k2" "has_cld a ?k2 (c\<lparr>stuff := Some [0]\<rparr>)" using u2(1,2) by simp_all
  have iv: "timer_interval (cpu_index_field c) = Inr interval" "interval < 2 ^ 32"
    using assms(8,9) by (simp_all add: timer_interval_def Let_def)
  have start: "timer_test bi F H fname arrive st = obnd (Some (start_periodic H interval Timer_interrupt ?k2)) (\<lambda>k.
      timer_loop bi F H fname arrive (unat a) 0 0 (set_kernel k st))"
    using get_cld_ok [OF assms(3,5) c] get_cld_ok [OF assms(3) k2] iv(1) by (simp add: timer_test_def cpu_index_def Let_def)
  have "apic_timer_ticks_per_second (c\<lparr>stuff := Some [0]\<rparr>) = Some t" using assms(7) by simp
  note sp = start_periodic_ok [OF assms(3) k2 this iv(2), of Timer_interrupt]
  show ?thesis
  proof (cases "t * interval div 1000000 < 2 ^ 32")
    case True
    obtain d where d: "start_periodic H interval Timer_interrupt ?k2 = Inr (cld_update (unat a)
        (\<lambda>c. c\<lparr>apic_timer_interrupt_function := Some Timer_interrupt\<rparr>) ?k2\<lparr>device := d\<rparr>)" (is "_ = Inr ?k3")
      using sp(2) [OF assms(10) True] by blast
    note u3 = cld_update_ok [OF k2, where f = "\<lambda>c. c\<lparr>apic_timer_interrupt_function := Some Timer_interrupt\<rparr>"]
    have k3: "kernel_ok p ?k3" "has_cld a ?k3 (c\<lparr>apic_timer_interrupt_function := Some Timer_interrupt, stuff := Some [0]\<rparr>)"
    proof -
      have "c\<lparr>stuff := Some [0], apic_timer_interrupt_function := Some Timer_interrupt\<rparr> =
          c\<lparr>apic_timer_interrupt_function := Some Timer_interrupt, stuff := Some [0]\<rparr>" by (rule CoreLocalData.equality) simp_all
      with u3(1,2) show "kernel_ok p ?k3"
        "has_cld a ?k3 (c\<lparr>apic_timer_interrupt_function := Some Timer_interrupt, stuff := Some [0]\<rparr>)" by simp_all
    qed
    then have "apic_ready H ?k3" using assms(3) by (auto simp: apic_ready_def)
    then have "counting F H p a c 0 (set_kernel ?k3 st)"
      using assms(4) k3 by (simp add: counting_def log_ready_def set_kernel_def levels_valid_def)
    from timer_loop_ends [where i = 0 and m = n and bi = bi and fname = fname and arrive = arrive and last_count = 0, OF assms(1-3) assms(12) [rule_format] this] assms(13)
    obtain st' x where "timer_loop bi F H fname arrive (unat a) 0 0 (set_kernel ?k3 st) = Some (Inr st')" "5 \<le> x"
      "counting F H p a c x st'" "others_keep a ?k3 (log_kernel st')"
      by (auto simp: set_kernel_def lessThan_atLeast0)
    moreover have "CORE_LOCAL ?k3 ! unat b = CORE_LOCAL ?k0 ! unat b" if "b \<noteq> a" for b
      using u1(4) [OF that] u2(4) [OF that] u3(4) [OF that] by simp
    ultimately show ?thesis using True start d by (auto simp: counting_def has_cld_def others_keep_def)
  next
    case False
    with sp(1) assms(11) start show ?thesis by simp
  qed
qed

text \<open>
  C36: core 0 takes over the screen and then shows one frame after the other: after the switch to the
  double buffer and the start of the frame timer, any number of rounds of the frame loop returns,
  whatever the other cores draw in between, counts the frames modulo \<open>2 ^ 64\<close>, and leaves on the
  screen exactly what the back buffer holds.
\<close>

theorem frames_keep_coming:
  assumes "runs_on H p a" "kernel_ok p (fr_kernel st)" "CORE_LOCAL (fr_kernel st) ! unat a = Some c"
    and "apic_timer_ticks_per_second c = Some t" "1000000 \<le> t * 30000" "t * 30000 < 2 ^ 32 * 1000000"
    and "framebuffer bi = Some fb" "fb_sane (fb_info fb)" "0 < fb_byte_len (fb_info fb)"
    and "MAIN_TERM (fr_screen st) = Some tm" "surface_ok tm" "0 < stride (tw_info tm) * win_height (tw_info tm)"
    and "DOUBLE_BUFFER (fr_screen st) = None" "\<not> PANICKED_STOP_PRINTING (fr_screen st)" "byte_offset (tw_info tm) = 0"
    and "db = \<lparr>back_buffer = heap, front_buffer = fb_buffer_start fb, db_length = min (fb_byte_len (fb_info fb))
      (fb_stride (fb_info fb) * fb_bytes_per_pixel (fb_info fb) * fb_height (fb_info fb))\<rparr>"
    and "buffers_apart (fb_info fb) db" "REFRESH_COUNTER st = 0"
  shows "\<exists>st1. start_frames bi H heap st = Inr st1 \<and>
    (\<forall>n draw. \<exists>st2. frame_rounds bi H draw n st1 = Some (Inr st2) \<and> REFRESH_COUNTER st2 = n mod 2 ^ 64 \<and>
      (0 < n \<longrightarrow> (\<forall>d\<in>visible (fb_info fb). vm (fr_screen st2) (fb_buffer_start fb + d) = vm (fr_screen st2) (heap + d))))"
proof -
  let ?i = "tw_info tm"
  have b: "0 < bytes_per_pixel ?i" using assms(11) channels_pos [of "pixel_format ?i"] unfolding surface_ok_def by linarith
  have "0 < stride ?i * win_height ?i * bytes_per_pixel ?i" "stride ?i * win_height ?i * bytes_per_pixel ?i < 2 ^ 64"
    using b assms(11,12) by (auto simp: surface_ok_def)
  from switch_to_double_buffer_once [OF assms(7,8,10,13,9) this, of heap heap] obtain s' db' where
    s': "switch_to_double_buffer bi heap (fr_screen st) = Inr s'" "DOUBLE_BUFFER s' = Some db'" "back_buffer db' = heap"
      "front_buffer db' = fb_buffer_start fb" "db_length db' = min (fb_byte_len (fb_info fb))
        (fb_stride (fb_info fb) * fb_bytes_per_pixel (fb_info fb) * fb_height (fb_info fb))"
      "MAIN_TERM s' \<noteq> None" "\<not> PANICKED_STOP_PRINTING s'" using assms(14,15) by auto
  have db': "db' = db" using s'(3-5) assms(16) by (simp add: DoubleBuffer.equality)
  have c: "has_cld a (fr_kernel st) c" using assms(3) by (simp add: has_cld_def)
  have "t * 30000 div 1000000 < 2 ^ 32" using assms(6) by (simp add: div_less_iff_less_mult)
  then obtain d where d: "start_periodic H 30000 Request_frame (fr_kernel st) = Inr (cld_update (unat a)
      (\<lambda>c. c\<lparr>apic_timer_interrupt_function := Some Request_frame\<rparr>) (fr_kernel st)\<lparr>device := d\<rparr>)" (is "_ = Inr ?k")
    using start_periodic_ok(2) [OF assms(1,2) c assms(4), of 30000] assms(5) by auto
  note u = cld_update_ok [OF assms(2) c, where f = "\<lambda>c. c\<lparr>apic_timer_interrupt_function := Some Request_frame\<rparr>"]
  let ?st1 = "st\<lparr>fr_kernel := ?k, fr_screen := s'\<rparr>"
  have st1: "start_frames bi H heap st = Inr ?st1" using s'(1) d by (simp add: start_frames_def)
  have "frames_ready H p a db ?st1" using u(1,2) s' db' by (auto simp: frames_ready_def)
  note run = frame_rounds_ok [OF assms(1,7,8,17) this]
  have "\<exists>st2. frame_rounds bi H draw n ?st1 = Some (Inr st2) \<and> REFRESH_COUNTER st2 = n mod 2 ^ 64 \<and>
      (0 < n \<longrightarrow> (\<forall>d\<in>visible (fb_info fb). vm (fr_screen st2) (fb_buffer_start fb + d) = vm (fr_screen st2) (heap + d)))" for n draw
    using run [of draw n] s'(3,4) assms(18) unfolding db' shown_def by (auto split: if_splits)
  with st1 show ?thesis by blast
qed

text \<open>
  The terminal of a core on the double buffer: when the double buffer appears, the core's writer
  stands on its window of the back buffer, is well formed with the small font, and has painted every pixel of the
  window in the colour that the core's number gives; the computation of the colour never underflows,
  and no byte outside the window changes.
\<close>

lemma core_terminal_starts:
  assumes "font_ok F" "framebuffer bi = Some fb0" "fb_sane (fb_info fb0)" "landscape (fb_info fb0)"
    and "fb_width (fb_info fb0) < 2 ^ 31" "count < 2 ^ 32"
    and "channels (fb_pixel_format (fb_info fb0)) \<le> fb_bytes_per_pixel (fb_info fb0)"
    and "i < 4 * ((count + 3) div 4)" "i \<le> count" "get_window_info_for_core bi i count = Inr w"
    and "24 \<le> win_height w" "\<forall>wt. f_raster_width F wt Size24 \<le> win_width w \<and> f_raster_width F wt Size16 \<le> win_width w"
    and "readings n = Some db" "\<forall>j<n. readings j = None" "q = 100 * i div (count + 1)"
  shows "\<exists>t m'. start_core_terminal bi F readings i count m = Some (Inr (t, m')) \<and> term_ok F t \<and> tw_info t = w \<and>
    fst (tw_buffer t) = back_buffer db + byte_offset w \<and> q < 100 \<and>
    (\<forall>x y. x < win_width w \<longrightarrow> y < win_height w \<longrightarrow>
       pix_bytes t m' x y = encode (pixel_format w) (new_color 10 (word_of_nat (100 - q)) (word_of_nat q))) \<and>
    (\<forall>b. b \<notin> win_addrs t \<longrightarrow> m' b = m b)"
proof -
  let ?fb = "fb_info fb0" and ?p = "core_placement i count"
  let ?c = "new_color 10 (word_of_nat (100 - q)) (word_of_nat q)"
  have h: "fb_height ?fb < 2 ^ 31" using assms(4,5) by (simp add: landscape_def)
  have fits: "placement_fits ?fb ?p" by (rule core_placement_fits [OF assms(8,6,5) h])
  have "count + 4 < 2 ^ 64" using assms(6) by simp
  then have w: "w = window_of ?fb ?p"
    using assms(10) from_placement_ok [OF assms(2) refl assms(3,4) fits] by (simp add: get_window_info_for_core_eq)
  obtain t where t: "new_terminal bi w = Inr t" "term_ok F t" "tw_info t = w"
    using window_of_term_ok [OF assms(1-4) fits w assms(7)] assms(11,12) by auto
  let ?len = "stride w * win_height w * bytes_per_pixel w"
  let ?t = "t\<lparr>clear_color := ?c, buffer_base_ptr := back_buffer db, tw_buffer := (back_buffer db + byte_offset w, ?len)\<rparr>"
  have sf: "surface_ok t" using t(2) by (simp add: term_ok_def)
  then have "surface_ok (t\<lparr>clear_color := ?c\<rparr>)" by (simp add: surface_ok_def)
  note cb = construct_buffer_ok [OF this]
  have "wait_double_buffer readings 0 = Some db" using assms(13,14) by (intro wait_double_buffer_ends [of _ _ n]) simp_all
  then have db: "set_to_double_buffer readings (t\<lparr>clear_color := ?c\<rparr>) = Some (Inr ?t)"
    using cb t(3) by (simp add: set_to_double_buffer_def)
  have sf': "surface_ok ?t" using sf t(3) by (simp add: surface_ok_def)
  let ?u = "?t\<lparr>x_pos := 0, y_pos := 0, font_height := Size16, line_height := f_size_val F Size16\<rparr>"
  obtain m' where m': "clear F (Some Size16) (?t, m) = Inr (?u, m')"
     "\<forall>x y. x < win_width w \<longrightarrow> y < win_height w \<longrightarrow> pix_bytes ?t m' x y = encode (pixel_format w) ?c"
     "outside ?t m' = outside ?t m"
    using clear_ok [OF sf', of F "Some Size16" m] t(3) by auto
  have can: "same_canvas ?t ?u" by (simp add: same_canvas_def)
  have "term_ok F ?u"
    using t(2,3) sf' assms(1,11,12) by (simp add: term_ok_def surface_ok_def font_ok_def)
  moreover have "start_core_terminal bi F readings i count m = Some (Inr (?u, m'))"
    using assms(10) t(1) core_clear_color_ok(2) [OF assms(9,6)] db m'(1) assms(15)
    by (simp add: start_core_terminal_def Let_def)
  moreover have "\<forall>b. b \<notin> win_addrs ?u \<longrightarrow> m' b = m b"
    using outside_eqD [OF m'(3)] same_canvas_simps(6) [OF can] by simp
  moreover have "pix_bytes ?u = pix_bytes ?t" using same_canvas_simps(4) [OF can] .
  moreover have "q < 100" using core_clear_color_ok(1) [OF assms(9,6)] assms(15) by simp
  ultimately show ?thesis using m'(2) t(3) by (intro exI [of _ ?u] exI [of _ m']) simp
qed

lemma stdout_print_pixels_keeps:
  assumes "font_ok F" "MAIN_TERM s = Some t" "term_ok F t" "\<not> PANICKED_STOP_PRINTING s" "0 < w" "w < 2 ^ 62"
  shows "\<exists>t' m'. stdout_print_pixels bi w cs s = Some (Inr (s\<lparr>vm := m', MAIN_TERM := Some t'\<rparr>)) \<and> keeps F (t, vm s) (t', m')"
proof -
  obtain t' m' where "print_pixels w cs (t, vm s) = Some (Inr (t', m'))" "keeps F (t, vm s) (t', m')"
    using print_pixels_keeps [of F "(t, vm s)" w cs] assms by auto
  with assms(2,4) show ?thesis by (intro exI [of _ t'] exI [of _ m']) (simp add: stdout_print_pixels_def lazy_term_def)
qed

text \<open>
  C37: the picture from the ram disk, on every result of the decoder: a picture of positive width made of whole
  pixels is drawn inside the window of the main terminal, which stays well formed; a rest that is no whole pixel is a
  panic; a picture of width 0 is never finished; a file that does not decode or does not exist is a panic.
\<close>

theorem print_logo_draws:
  assumes "font_ok F" "MAIN_TERM s = Some t" "term_ok F t" "\<not> PANICKED_STOP_PRINTING s"
  shows "case get_file_slice mem bi 2 of
      Inl e \<Rightarrow> print_logo bi jpeg mem s = Some (Inl e)
    | Inr pic \<Rightarrow> (case jpeg pic of
        None \<Rightarrow> print_logo bi jpeg mem s = Some (Inl UnwrapNone)
      | Some (w, px) \<Rightarrow> w < 2 ^ 62 \<longrightarrow>
          (if w = 0 then print_logo bi jpeg mem s = None
           else if length px mod 3 \<noteq> 0 then print_logo bi jpeg mem s = Some (Inl IndexOut)
           else \<exists>s'. print_logo bi jpeg mem s = Some (Inr s') \<and> term_ready F s' \<and>
             (\<forall>a. a \<notin> win_addrs t \<longrightarrow> vm s' a = vm s a)))"
proof -
  have pp: "stdout_print_pixels bi w cs s = (case print_pixels w cs (t, vm s) of
      None \<Rightarrow> None | Some r \<Rightarrow> Some (bnd r (\<lambda>(term, m). Inr (s\<lparr>vm := m, MAIN_TERM := Some term\<rparr>))))" for w cs
    using assms(2,4) by (simp add: stdout_print_pixels_def lazy_term_def)
  have zero: "stdout_print_pixels bi 0 cs s = None" for cs
    unfolding pp by (simp add: print_pixels_zero [OF assms(1,3)])
  have pos: "\<exists>s'. stdout_print_pixels bi w cs s = Some (Inr s') \<and> term_ready F s' \<and> (\<forall>a. a \<notin> win_addrs t \<longrightarrow> vm s' a = vm s a)"
    if w: "0 < w" "w < 2 ^ 62" for w cs
  proof -
    obtain t' m' where "stdout_print_pixels bi w cs s = Some (Inr (s\<lparr>vm := m', MAIN_TERM := Some t'\<rparr>))" and k: "keeps F (t, vm s) (t', m')"
      using stdout_print_pixels_keeps [OF assms w] by blast
    moreover have "outside t m' = outside t (vm s)" using k by (simp add: keeps_def)
    ultimately show ?thesis using outside_eqD [of t m' "vm s"] k by (auto simp: term_ready_def keeps_def)
  qed
  show ?thesis
  proof (cases "get_file_slice mem bi 2")
    case (Inr pic)
    show ?thesis
    proof (cases "jpeg pic")
      case (Some z)
      obtain w px where z: "z = (w, px)" by force
      have lg: "print_logo bi jpeg mem s = obnd (stdout_print_pixels bi w (full_chunks px) s) (\<lambda>s'.
          if length px mod 3 \<noteq> 0 then Some (Inl IndexOut) else Some (Inr s'))"
        using Inr Some z assms(4) by (simp add: print_logo_def unwrap_def)
      show ?thesis
      proof (cases "w = 0")
        case True
        with Inr Some z lg zero show ?thesis by simp
      next
        case False
        with Inr Some z lg pos [of w "full_chunks px"] show ?thesis by auto
      qed
    qed (use Inr in \<open>simp add: print_logo_def unwrap_def\<close>)
  qed (simp add: print_logo_def)
qed

subsection \<open>A concrete core\<close>

definition cld_core0 :: CoreLocalData where
  "cld_core0 = default_cld\<lparr>apic_timer_ticks_per_second := Some 20000000\<rparr>"

definition kernel_core0 :: "(u8 list \<times> u8 list \<times> bool) kernel" where
  "kernel_core0 = \<lparr>device = ([], [], True), LOCAL_APIC_PTR = Some 0xFEE00000, CORE_LOCAL = core_local_init[0 := Some cld_core0],
     NEW_FRAME_REQUESTED = True\<rparr>"

lemma kernel_core0_ok: "kernel_ok 0xFEE00000 kernel_core0" "CORE_LOCAL kernel_core0 ! unat (0 :: u8) = Some cld_core0"
  by (simp_all add: kernel_ok_def kernel_core0_def core_local_init_def MAX_CORES_def)

lemma runs_on_uart: "runs_on hw_uart p 0"
  by (simp add: runs_on_def hw_uart_def)

theorem timer_test_ends_witness:
  "\<exists>st' x. timer_test bi_ex font_ex hw_uart ''common_main.rs'' (\<lambda>i. if i = 3 then 7 else 0) (logger_test\<lparr>log_kernel := kernel_core0\<rparr>) = Some (Inr st') \<and>
     5 \<le> x \<and> stuff (cld 0 (log_kernel st')) = Some [x]"
proof -
  let ?st = "logger_test\<lparr>log_kernel := kernel_core0\<rparr>"
  have "levels_valid ?st"
    unfolding levels_valid_def logger_test_def logger_ex_def
    by (intro conjI exI [of _ "UpTo Trace"] exI [of _ Off]) simp_all
  moreover have "apic_ready hw_uart kernel_core0" using runs_on_uart kernel_core0_ok(1) by (auto simp: apic_ready_def)
  moreover have "MAIN_TERM (log_screen ?st) = Some term_ex" by (simp add: logger_test_def screen_ex_ok)
  ultimately have st: "log_ready font_ex hw_uart ?st" using term_ex_ok by (simp add: log_ready_def term_ready_def)
  have k: "kernel_ok 0xFEE00000 (log_kernel ?st)" "CORE_LOCAL (log_kernel ?st) ! unat (0 :: u8) = Some cld_core0"
    using kernel_core0_ok by simp_all
  have c: "apic_timer_ticks_per_second cld_core0 = Some 20000000" "cpu_index_field cld_core0 = 0"
    by (simp_all add: cld_core0_def default_cld_def)
  have n: "5 \<le> (\<Sum>i<(4 :: nat). if i = 3 then 7 else 0 :: nat)" and a: "\<forall>j :: nat. (if j = 3 then 7 else 0 :: nat) < 2 ^ 32" by simp_all
  from timer_test_ends [OF font_ex_ok logger_ex_ok(3) runs_on_uart st k c(1) _ refl _ _ a n, of bi_ex "''common_main.rs''"]
  show ?thesis by (auto simp: c(2) cld_def)
qed

theorem frames_keep_coming_witness:
  "\<exists>st1 st2. start_frames bi_ex hw_uart 65536 \<lparr>fr_kernel = kernel_core0, fr_screen = screen_ex\<lparr>DOUBLE_BUFFER := None\<rparr>, REFRESH_COUNTER = 0\<rparr> =
     Inr st1 \<and> frame_rounds bi_ex hw_uart (\<lambda>i m. m(65536 := 7 + word_of_nat i)) 3 st1 = Some (Inr st2) \<and> REFRESH_COUNTER st2 = 3 \<and>
     vm (fr_screen st2) 4096 = vm (fr_screen st2) 65536"
proof -
  let ?st = "\<lparr>fr_kernel = kernel_core0, fr_screen = screen_ex\<lparr>DOUBLE_BUFFER := None\<rparr>, REFRESH_COUNTER = 0\<rparr>"
  have st: "kernel_ok 0xFEE00000 (fr_kernel ?st)" "CORE_LOCAL (fr_kernel ?st) ! unat (0 :: u8) = Some cld_core0"
    "MAIN_TERM (fr_screen ?st) = Some term_ex" "DOUBLE_BUFFER (fr_screen ?st) = None" "\<not> PANICKED_STOP_PRINTING (fr_screen ?st)"
    "REFRESH_COUNTER ?st = 0"
    using kernel_core0_ok screen_ex_ok by simp_all
  have c: "apic_timer_ticks_per_second cld_core0 = Some 20000000" by (simp add: cld_core0_def)
  have t: "surface_ok term_ex" "0 < stride (tw_info term_ex) * win_height (tw_info term_ex)" "byte_offset (tw_info term_ex) = 0"
    using term_ex_ok by (simp_all add: term_ok_def term_ex_def)
  have fb: "0 < fb_byte_len (fb_info fb_ex)" "fb_buffer_start fb_ex = 4096" by (simp_all add: fb_ex_def)
  have db: "buffers_apart (fb_info fb_ex) \<lparr>back_buffer = 65536, front_buffer = fb_buffer_start fb_ex, db_length = min (fb_byte_len (fb_info fb_ex))
      (fb_stride (fb_info fb_ex) * fb_bytes_per_pixel (fb_info fb_ex) * fb_height (fb_info fb_ex))\<rparr>"
    by (simp add: buffers_apart_def fb_ex_def)
  obtain st1 where st1: "start_frames bi_ex hw_uart 65536 ?st = Inr st1"
    "\<forall>n draw. \<exists>st2. frame_rounds bi_ex hw_uart draw n st1 = Some (Inr st2) \<and> REFRESH_COUNTER st2 = n mod 2 ^ 64 \<and>
      (0 < n \<longrightarrow> (\<forall>d\<in>visible (fb_info fb_ex). vm (fr_screen st2) (fb_buffer_start fb_ex + d) = vm (fr_screen st2) (65536 + d)))"
    using frames_keep_coming [OF runs_on_uart st(1,2) c _ _ screen_ex_ok(1,2) fb(1) st(3) t(1,2) st(4,5) t(3) refl db st(6)] by auto
  from st1(2) [rule_format, of "\<lambda>i m. m(65536 := 7 + word_of_nat i)" 3] obtain st2 where
    "frame_rounds bi_ex hw_uart (\<lambda>i m. m(65536 := 7 + word_of_nat i)) 3 st1 = Some (Inr st2)" "REFRESH_COUNTER st2 = 3"
    "\<forall>d\<in>visible (fb_info fb_ex). vm (fr_screen st2) (4096 + d) = vm (fr_screen st2) (65536 + d)" by (auto simp: fb(2))
  with st1(1) visible_ex show ?thesis by force
qed

lemma core_terminal_starts_witness:
  "\<exists>t m'. start_core_terminal (screen 1280 720) font_ex (\<lambda>n. if n = 2 then Some db_ex else None) 1 3 (\<lambda>_. 0) = Some (Inr (t, m')) \<and>
     pix_bytes t m' 5 5 = [10, 75, 25]"
proof -
  let ?w = "\<lparr>byte_offset = 960, win_width = 320, win_height = 720, pixel_format = Rgb, bytes_per_pixel = 3, stride = 1280\<rparr>"
  have w: "get_window_info_for_core (screen 1280 720) 1 3 = Inr ?w"
    by (simp add: get_window_info_for_core_def from_placement_def new_window_def framebuffer_info_def screen_def)
  have "\<exists>t m'. start_core_terminal (screen 1280 720) font_ex (\<lambda>n. if n = 2 then Some db_ex else None) 1 3 (\<lambda>_. 0) = Some (Inr (t, m')) \<and>
      term_ok font_ex t \<and> tw_info t = ?w \<and> fst (tw_buffer t) = back_buffer db_ex + byte_offset ?w \<and> 25 < (100 :: nat) \<and>
      (\<forall>x y. x < win_width ?w \<longrightarrow> y < win_height ?w \<longrightarrow>
         pix_bytes t m' x y = encode (pixel_format ?w) (new_color 10 (word_of_nat (100 - 25)) (word_of_nat 25))) \<and>
      (\<forall>b. b \<notin> win_addrs t \<longrightarrow> m' b = 0)"
    by (rule core_terminal_starts [OF font_ex_ok, of _ "the (framebuffer (screen 1280 720))", OF _ _ _ _ _ _ _ _ w, where n = 2])
      (simp_all add: screen_def fb_sane_def landscape_def channels_def font_ex_def Let_def)
  then show ?thesis by (auto simp: encode_def new_color_def)
qed

definition img_pic :: Image where
  "img_pic = add_string [9] img_ex"

definition bi_pic :: BootInfo where
  "bi_pic = bi_ex\<lparr>ramdisk_addr := Some 4096, ramdisk_len := length (build sum_hasher img_pic)\<rparr>"

definition mem_pic :: "nat \<Rightarrow> u8" where
  "mem_pic a = build sum_hasher img_pic ! (a - 4096)"

lemma file_pic: "get_file_slice mem_pic bi_pic 2 = Inr [9]"
proof -
  have h: "holds img_pic [[1, 2], [3], [9]]" by (simp add: img_pic_def holds_def img_ex_def add_string_def new_image_def Let_def)
  have "Ram_Disk.loaded mem_pic bi_pic (build sum_hasher img_pic)"
    by (simp add: Ram_Disk.loaded_def bi_pic_def ramdisk_u8_slice_def mem_pic_def map_nth)
  moreover have "length (build sum_hasher img_pic) < 2 ^ 64"
    by (simp add: build_def img_pic_def img_ex_def add_string_def new_image_def to_le_bytes_def Let_def)
  ultimately show ?thesis using get_file_slice_loaded [OF h, of mem_pic bi_pic sum_hasher 2] by simp
qed

theorem print_logo_draws_witness:
  "\<exists>s'. print_logo bi_pic (\<lambda>_. Some (1, [1, 2, 3])) mem_pic (screen_ex\<lparr>DOUBLE_BUFFER := None\<rparr>) = Some (Inr s') \<and> vm s' 0 = 1"
proof -
  let ?s = "screen_ex\<lparr>DOUBLE_BUFFER := None\<rparr>"
  have s: "MAIN_TERM ?s = Some term_ex" "\<not> PANICKED_STOP_PRINTING ?s" using screen_ex_ok by simp_all
  have "0 \<notin> win_addrs term_ex" "vm ?s 0 = 1"
    by (simp_all add: win_addrs_def pixel_addr_def term_ex_def screen_ex_def screen_init_def)
  with print_logo_draws [OF font_ex_ok s(1) term_ex_ok s(2), where bi = bi_pic and mem = mem_pic and jpeg = "\<lambda>_. Some (1, [1, 2, 3])"]
  show ?thesis by (auto simp: file_pic)
qed

end
