(* ===== verification/Segments.thy ===== *)
theory Segments
  imports Interrupts Smp
begin

text \<open>
  The segment tables and task state segments of the cores, kernel/src/interrupts.rs.  A task state
  segment gives the stack for double faults.  The global descriptor table of the crate x86_64 is a
  parameter: \<open>gdt_add\<close> is \<open>add_entry\<close>, which returns the selector of the new entry or panics when the table is
  full, and \<open>gdt_look\<close> is the processor's access to an entry.  Statics have fixed addresses: \<open>sa_stack\<close> is the
  stack of the bootstrap processor's double faults, \<open>sa_tss\<close> its task state segment, \<open>sa_ap_tss i\<close> that of
  application processor \<open>i\<close>, and \<open>sa_box i\<close> the \<open>i\<close>-th stack that is taken from the kernel heap.
\<close>

record TaskStateSegment =
  interrupt_stack_table :: "nat list"

definition new_tss :: TaskStateSegment where
  "new_tss = \<lparr>interrupt_stack_table = replicate 7 0\<rparr>"

datatype descriptor = Kernel_code_segment | Tss_segment nat

record 'g gdt_lib =
  gdt_new :: 'g
  gdt_add :: "descriptor \<Rightarrow> 'g \<Rightarrow> (nat \<times> 'g) res"
  gdt_look :: "'g \<Rightarrow> nat \<Rightarrow> descriptor option"

text \<open>
  Documented: an empty table has room for a code segment and a task state segment, the selector that
  \<open>add_entry\<close> returns selects the entry, and entries stay where they are.
\<close>

definition gdt_lib_ok :: "'g gdt_lib \<Rightarrow> bool" where
  "gdt_lib_ok G \<longleftrightarrow> (\<forall>t. \<exists>s1 g1 s2 g2. gdt_add G Kernel_code_segment (gdt_new G) = Inr (s1, g1) \<and>
     gdt_add G (Tss_segment t) g1 = Inr (s2, g2) \<and> gdt_look G g2 s1 = Some Kernel_code_segment \<and>
     gdt_look G g2 s2 = Some (Tss_segment t))"

record static_addrs =
  sa_stack :: nat
  sa_tss :: nat
  sa_ap_tss :: "nat \<Rightarrow> nat"
  sa_box :: "nat \<Rightarrow> nat"

subsection \<open>The tables\<close>

definition STACK_SIZE :: nat where
  "STACK_SIZE = 4096 * 5"

definition tss_with_stack :: "x86 \<Rightarrow> nat \<Rightarrow> TaskStateSegment \<Rightarrow> TaskStateSegment res" where
  "tss_with_stack X stack tss =
     bnd (x_virt_new X stack) (\<lambda>stack_start.
     bnd (x_virt_add X stack_start STACK_SIZE) (\<lambda>top.
     Inr (tss\<lparr>interrupt_stack_table := (interrupt_stack_table tss)[0 := top]\<rparr>)))"

definition TSS :: "x86 \<Rightarrow> static_addrs \<Rightarrow> TaskStateSegment res" where
  "TSS X S = tss_with_stack X (sa_stack S) new_tss"

fun ap_tss_loop :: "x86 \<Rightarrow> static_addrs \<Rightarrow> nat \<Rightarrow> TaskStateSegment list \<Rightarrow> TaskStateSegment list res" where
  "ap_tss_loop X S i [] = Inr []"
| "ap_tss_loop X S i (tss # tsss) =
     bnd (tss_with_stack X (sa_box S i) tss) (\<lambda>tss.
     bnd (ap_tss_loop X S (i + 1) tsss) (\<lambda>tsss. Inr (tss # tsss)))"

definition AP_TSS :: "x86 \<Rightarrow> static_addrs \<Rightarrow> TaskStateSegment list res" where
  "AP_TSS X S = ap_tss_loop X S 0 (replicate (MAX_CORES - 1) new_tss)"

definition make_gdt :: "'g gdt_lib \<Rightarrow> nat \<Rightarrow> ('g \<times> nat \<times> nat) res" where
  "make_gdt G tss_addr =
     bnd (gdt_add G Kernel_code_segment (gdt_new G)) (\<lambda>(code_selector, gdt).
     bnd (gdt_add G (Tss_segment tss_addr) gdt) (\<lambda>(tss_selector, gdt).
     Inr (gdt, code_selector, tss_selector)))"

definition GDT :: "'g gdt_lib \<Rightarrow> static_addrs \<Rightarrow> ('g \<times> nat \<times> nat) res" where
  "GDT G S = make_gdt G (sa_tss S)"

fun make_gdts :: "'g gdt_lib \<Rightarrow> nat list \<Rightarrow> ('g \<times> nat \<times> nat) list res" where
  "make_gdts G [] = Inr []"
| "make_gdts G (a # as) = bnd (make_gdt G a) (\<lambda>t. bnd (make_gdts G as) (\<lambda>ts. Inr (t # ts)))"

definition AP_GDT :: "x86 \<Rightarrow> 'g gdt_lib \<Rightarrow> static_addrs \<Rightarrow> ('g \<times> nat \<times> nat) list res" where
  "AP_GDT X G S = bnd (AP_TSS X S) (\<lambda>tsss. make_gdts G (map (sa_ap_tss S) [0..<length tsss]))"

subsection \<open>The registers of a core\<close>

record 'g segments =
  gdtr :: "'g option"
  reg_ss :: nat
  reg_ds :: nat
  reg_cs :: nat
  reg_tr :: nat
  idt_loaded :: bool

definition load_tables :: "'g \<times> nat \<times> nat \<Rightarrow> 'g segments \<Rightarrow> 'g segments" where
  "load_tables = (\<lambda>(gdt, code_selector, tss_selector) r.
     r\<lparr>gdtr := Some gdt, reg_ss := 0, reg_ds := 0, reg_cs := code_selector, reg_tr := tss_selector, idt_loaded := True\<rparr>)"

definition init_segments_bsp :: "x86 \<Rightarrow> 'g gdt_lib \<Rightarrow> static_addrs \<Rightarrow> 'g segments \<Rightarrow> 'g segments res" where
  "init_segments_bsp X G S r =
     bnd (TSS X S) (\<lambda>_.
     bnd (GDT G S) (\<lambda>gdt.
     Inr (load_tables gdt r)))"

definition init_segments_ap :: "x86 \<Rightarrow> 'g gdt_lib \<Rightarrow> static_addrs \<Rightarrow> nat \<Rightarrow> 'g segments \<Rightarrow> 'g segments res" where
  "init_segments_ap X G S ap_index r =
     bnd (AP_GDT X G S) (\<lambda>gdts.
     bnd (idx gdts ap_index) (\<lambda>gdt.
     Inr (load_tables gdt r)))"

text \<open>
  The stack on which the processor runs the handler of a double fault: the entry of the task state
  segment that the task register selects, at the index that the descriptor of the exception gives.
\<close>

definition tss_at :: "x86 \<Rightarrow> static_addrs \<Rightarrow> nat \<Rightarrow> TaskStateSegment option" where
  "tss_at X S a =
     (if a = sa_tss S then (case TSS X S of Inr t \<Rightarrow> Some t | Inl _ \<Rightarrow> None)
      else (case AP_TSS X S of
        Inr ts \<Rightarrow> map_option (\<lambda>i. ts ! i) (List.find (\<lambda>i. sa_ap_tss S i = a) [0..<length ts])
      | Inl _ \<Rightarrow> None))"

definition fault_stack :: "x86 \<Rightarrow> 'g gdt_lib \<Rightarrow> static_addrs \<Rightarrow> 'g segments \<Rightarrow> nat option" where
  "fault_stack X G S r = (case (gdtr r, IDT (vector double_fault)) of
     (Some gdt, Some (Double_fault_handler i)) \<Rightarrow>
       (case gdt_look G gdt (reg_tr r) of
          Some (Tss_segment a) \<Rightarrow> map_option (\<lambda>t. interrupt_stack_table t ! i) (tss_at X S a)
        | _ \<Rightarrow> None)
   | _ \<Rightarrow> None)"

subsection \<open>Every core has its own stack\<close>

definition addrs_ok :: "static_addrs \<Rightarrow> bool" where
  "addrs_ok S \<longleftrightarrow> sa_stack S + STACK_SIZE < 2 ^ 47 \<and> (\<forall>i<MAX_CORES - 1. sa_box S i + STACK_SIZE < 2 ^ 47) \<and>
     inj_on (sa_ap_tss S) {..<MAX_CORES - 1} \<and> (\<forall>i<MAX_CORES - 1. sa_ap_tss S i \<noteq> sa_tss S)"

definition init_segments :: "x86 \<Rightarrow> 'g gdt_lib \<Rightarrow> static_addrs \<Rightarrow> nat \<Rightarrow> 'g segments \<Rightarrow> 'g segments res" where
  "init_segments X G S core r =
     (if core = 0 then init_segments_bsp X G S r else init_segments_ap X G S (core - 1) r)"

definition core_stack :: "static_addrs \<Rightarrow> nat \<Rightarrow> nat" where
  "core_stack S core = (if core = 0 then sa_stack S else sa_box S (core - 1))"

abbreviation tss_on :: "nat \<Rightarrow> TaskStateSegment" where
  "tss_on stack \<equiv> new_tss\<lparr>interrupt_stack_table := (interrupt_stack_table new_tss)[0 := stack + STACK_SIZE]\<rparr>"

lemma tss_with_stack_ok:
  "x86_ok X \<Longrightarrow> stack + STACK_SIZE < 2 ^ 47 \<Longrightarrow> tss_with_stack X stack new_tss = Inr (tss_on stack)"
  using x86_addr_simps(2,3) [of X] by (simp add: tss_with_stack_def)

lemma ap_tss_loop_ok:
  assumes "x86_ok X" "\<forall>j<n. sa_box S (i + j) + STACK_SIZE < 2 ^ 47"
  shows "ap_tss_loop X S i (replicate n new_tss) = Inr (map (\<lambda>j. tss_on (sa_box S (i + j))) [0..<n])"
  using assms(2)
proof (induction n arbitrary: i)
  case (Suc n)
  have "tss_with_stack X (sa_box S i) new_tss = Inr (tss_on (sa_box S i))"
    using Suc.prems [rule_format, of 0] by (intro tss_with_stack_ok [OF assms(1)]) simp
  moreover have "\<forall>j<n. sa_box S (i + 1 + j) + STACK_SIZE < 2 ^ 47" using Suc.prems [rule_format, of "Suc _"] by simp
  note Suc.IH [OF this]
  ultimately show ?case by (simp add: upt_conv_Cons map_Suc_upt [symmetric] del: upt_Suc)
qed simp

lemma tables_ok:
  assumes "x86_ok X" "addrs_ok S"
  shows "TSS X S = Inr (tss_on (sa_stack S))"
    and "AP_TSS X S = Inr (map (\<lambda>j. tss_on (sa_box S j)) [0..<MAX_CORES - 1])"
  using assms tss_with_stack_ok [OF assms(1)] ap_tss_loop_ok [OF assms(1), of "MAX_CORES - 1" S 0]
  by (simp_all add: addrs_ok_def TSS_def AP_TSS_def)

lemma make_gdt_ok:
  assumes "gdt_lib_ok G"
  obtains gdt c t where "make_gdt G a = Inr (gdt, c, t)" "gdt_look G gdt c = Some Kernel_code_segment"
    "gdt_look G gdt t = Some (Tss_segment a)"
proof -
  obtain s1 g1 s2 g2 where g: "gdt_add G Kernel_code_segment (gdt_new G) = Inr (s1, g1)" "gdt_add G (Tss_segment a) g1 = Inr (s2, g2)"
    "gdt_look G g2 s1 = Some Kernel_code_segment" "gdt_look G g2 s2 = Some (Tss_segment a)"
    using assms unfolding gdt_lib_ok_def by blast
  then show ?thesis by (intro that [of g2 s1 s2]) (simp_all add: make_gdt_def)
qed

lemma make_gdts_ok:
  assumes "gdt_lib_ok G"
  shows "\<exists>ts. make_gdts G as = Inr ts \<and> length ts = length as \<and> (\<forall>i<length as. make_gdt G (as ! i) = Inr (ts ! i))"
proof (induction as)
  case (Cons a as)
  obtain ts where ts: "make_gdts G as = Inr ts" "length ts = length as" "\<forall>i<length as. make_gdt G (as ! i) = Inr (ts ! i)"
    using Cons by blast
  obtain g c t where "make_gdt G a = Inr (g, c, t)" by (rule make_gdt_ok [OF assms])
  with ts show ?case by (auto simp: nth_Cons split: nat.split)
qed simp

lemma tss_at_ok:
  assumes "x86_ok X" "addrs_ok S"
  shows "tss_at X S (sa_tss S) = Some (tss_on (sa_stack S))"
    and "i < MAX_CORES - 1 \<Longrightarrow> tss_at X S (sa_ap_tss S i) = Some (tss_on (sa_box S i))"
proof -
  show "tss_at X S (sa_tss S) = Some (tss_on (sa_stack S))" by (simp add: tss_at_def tables_ok [OF assms])
  assume i: "i < MAX_CORES - 1"
  have "List.find (\<lambda>j. sa_ap_tss S j = sa_ap_tss S i) [0..<MAX_CORES - 1] = Some i"
  proof -
    have "(\<lambda>j. sa_ap_tss S j = sa_ap_tss S i) j = (j = i)" if "j < MAX_CORES - 1" for j
      using assms(2) that i by (auto simp: addrs_ok_def inj_on_eq_iff)
    then show ?thesis using i by (auto simp: find_Some_iff intro!: exI [of _ i])
  qed
  with i assms show "tss_at X S (sa_ap_tss S i) = Some (tss_on (sa_box S i))"
    by (auto simp: tss_at_def tables_ok [OF assms] addrs_ok_def)
qed

lemma double_fault_index: "IDT 8 = Some (Double_fault_handler 0)"
  by (simp add: idt_defs)

lemma init_segments_ok:
  assumes "x86_ok X" "gdt_lib_ok G" "addrs_ok S" "core < MAX_CORES"
  obtains gdt c t where "init_segments X G S core r = Inr (load_tables (gdt, c, t) r)"
    "gdt_look G gdt c = Some Kernel_code_segment"
    "fault_stack X G S (load_tables (gdt, c, t) r) = Some (core_stack S core + STACK_SIZE)"
proof (cases "core = 0")
  case True
  obtain gdt c t where g: "make_gdt G (sa_tss S) = Inr (gdt, c, t)" "gdt_look G gdt c = Some Kernel_code_segment"
    "gdt_look G gdt t = Some (Tss_segment (sa_tss S))" by (rule make_gdt_ok [OF assms(2)])
  show ?thesis
  proof (rule that)
    show "init_segments X G S core r = Inr (load_tables (gdt, c, t) r)"
      using True g(1) by (simp add: init_segments_def init_segments_bsp_def tables_ok [OF assms(1,3)] GDT_def)
    show "fault_stack X G S (load_tables (gdt, c, t) r) = Some (core_stack S core + STACK_SIZE)"
      using True g(3) by (simp add: fault_stack_def load_tables_def double_fault_index tss_at_ok [OF assms(1,3)] core_stack_def new_tss_def)
  qed (rule g(2))
next
  case False
  let ?i = "core - 1" and ?as = "map (sa_ap_tss S) [0..<MAX_CORES - 1]"
  have i: "?i < MAX_CORES - 1" using False assms(4) by simp
  obtain ts where ts: "make_gdts G ?as = Inr ts" "length ts = MAX_CORES - 1" "make_gdt G (sa_ap_tss S ?i) = Inr (ts ! ?i)"
    using make_gdts_ok [OF assms(2), of ?as] i by (auto simp del: upt_rec_numeral)
  obtain gdt c t where g: "make_gdt G (sa_ap_tss S ?i) = Inr (gdt, c, t)" "gdt_look G gdt c = Some Kernel_code_segment"
    "gdt_look G gdt t = Some (Tss_segment (sa_ap_tss S ?i))" by (rule make_gdt_ok [OF assms(2)])
  have "AP_GDT X G S = Inr ts" using ts(1) by (simp add: AP_GDT_def tables_ok [OF assms(1,3)])
  moreover have "ts ! ?i = (gdt, c, t)" using ts(3) g(1) by simp
  ultimately have "init_segments X G S core r = Inr (load_tables (gdt, c, t) r)"
    using False ts(2) i by (simp add: init_segments_def init_segments_ap_def idx_def)
  moreover have "fault_stack X G S (load_tables (gdt, c, t) r) = Some (core_stack S core + STACK_SIZE)"
    using False g(3) i by (simp add: fault_stack_def load_tables_def double_fault_index tss_at_ok [OF assms(1,3)] core_stack_def new_tss_def)
  ultimately show ?thesis using that g(2) by blast
qed

text \<open>The abstract form of the initialisation that the start of the cores uses.\<close>

lemma init_segments_ap_abstract:
  assumes "x86_ok X" "gdt_lib_ok G" "addrs_ok S"
  shows "bnd (init_segments_ap X G S ap_index r) (\<lambda>_. Inr ()) = init_gdt_and_exceptions_ap ap_index"
proof (cases "ap_index < MAX_CORES - 1")
  case True
  then have "Suc ap_index < MAX_CORES" by simp
  from init_segments_ok [OF assms this] obtain gdt c t
    where "init_segments X G S (Suc ap_index) r = Inr (load_tables (gdt, c, t) r)" by blast
  with True show ?thesis by (simp add: init_segments_def init_gdt_and_exceptions_ap_def)
next
  case False
  obtain ts where "make_gdts G (map (sa_ap_tss S) [0..<MAX_CORES - 1]) = Inr ts" "length ts = MAX_CORES - 1"
    using make_gdts_ok [OF assms(2), of "map (sa_ap_tss S) [0..<MAX_CORES - 1]"] by (auto simp del: upt_rec_numeral)
  with False show ?thesis
    by (simp add: init_segments_ap_def AP_GDT_def tables_ok [OF assms(1,3)] idx_def init_gdt_and_exceptions_ap_def)
qed

text \<open>
  C38: every core, the bootstrap processor and each of the possible application processors, loads a
  table of its own whose code segment is the kernel's, and the double fault handler of two different
  cores runs on stacks of 20480 bytes that do not overlap, as the stacks that the two cores were given do
  not.  A core beyond the maximum is refused by a panic.
\<close>

theorem fault_stacks_apart:
  assumes "x86_ok X" "gdt_lib_ok G" "addrs_ok S" "i < MAX_CORES" "j < MAX_CORES" "i \<noteq> j"
    and "\<forall>i<MAX_CORES. \<forall>j<MAX_CORES. i \<noteq> j \<longrightarrow>
      core_stack S i + STACK_SIZE \<le> core_stack S j \<or> core_stack S j + STACK_SIZE \<le> core_stack S i"
    and "MAX_CORES \<le> m"
  shows "\<exists>r1 r2 t1 t2. init_segments X G S i r = Inr r1 \<and> init_segments X G S j r' = Inr r2 \<and>
    (\<exists>g1 g2. gdtr r1 = Some g1 \<and> gdt_look G g1 (reg_cs r1) = Some Kernel_code_segment \<and>
       gdtr r2 = Some g2 \<and> gdt_look G g2 (reg_cs r2) = Some Kernel_code_segment) \<and> idt_loaded r1 \<and> idt_loaded r2 \<and>
    fault_stack X G S r1 = Some t1 \<and> fault_stack X G S r2 = Some t2 \<and> {t1 - 20480..<t1} \<inter> {t2 - 20480..<t2} = {} \<and>
    init_segments X G S m r = Inl IndexOut"
proof -
  obtain g1 c1 s1 where r1: "init_segments X G S i r = Inr (load_tables (g1, c1, s1) r)" "gdt_look G g1 c1 = Some Kernel_code_segment"
    "fault_stack X G S (load_tables (g1, c1, s1) r) = Some (core_stack S i + STACK_SIZE)"
    by (rule init_segments_ok [OF assms(1-4)])
  obtain g2 c2 s2 where r2: "init_segments X G S j r' = Inr (load_tables (g2, c2, s2) r')" "gdt_look G g2 c2 = Some Kernel_code_segment"
    "fault_stack X G S (load_tables (g2, c2, s2) r') = Some (core_stack S j + STACK_SIZE)"
    by (rule init_segments_ok [OF assms(1-3,5)])
  have apart: "{core_stack S i + STACK_SIZE - 20480..<core_stack S i + STACK_SIZE} \<inter>
      {core_stack S j + STACK_SIZE - 20480..<core_stack S j + STACK_SIZE} = {}"
    using assms(7) [rule_format, OF assms(4-6)] by (auto simp: STACK_SIZE_def)
  have m: "m \<noteq> 0" "\<not> m - 1 < MAX_CORES - 1" using assms(8) by (auto simp: MAX_CORES_def)
  have "init_segments_ap X G S (m - 1) r = Inl IndexOut"
  proof -
    obtain ts where "make_gdts G (map (sa_ap_tss S) [0..<MAX_CORES - 1]) = Inr ts" "length ts = MAX_CORES - 1"
      using make_gdts_ok [OF assms(2), of "map (sa_ap_tss S) [0..<MAX_CORES - 1]"] by (auto simp del: upt_rec_numeral)
    with m(2) show ?thesis by (simp add: init_segments_ap_def AP_GDT_def tables_ok [OF assms(1,3)] idx_def)
  qed
  with m have "init_segments X G S m r = Inl IndexOut" by (simp add: init_segments_def)
  with r1 r2 apart show ?thesis by (auto simp: load_tables_def)
qed

subsection \<open>A concrete table\<close>

text \<open>A table is the list of its entries; a task state segment takes two of them.\<close>

definition gdt_ref :: "descriptor option list gdt_lib" where
  "gdt_ref = \<lparr>gdt_new = [None],
     gdt_add = (\<lambda>d g. if length g < 7 then Inr (8 * length g, g @ (case d of Kernel_code_segment \<Rightarrow> [Some d] | Tss_segment _ \<Rightarrow> [Some d, None]))
       else Inl (Explicit ''GDT full'')),
     gdt_look = (\<lambda>g s. if s div 8 < length g then g ! (s div 8) else None)\<rparr>"

lemma gdt_ref_ok: "gdt_lib_ok gdt_ref"
  by (simp add: gdt_lib_ok_def gdt_ref_def nth_append)

definition statics_ex :: static_addrs where
  "statics_ex = \<lparr>sa_stack = 0x100000, sa_tss = 0x200000, sa_ap_tss = (\<lambda>i. 0x200100 + 104 * i), sa_box = (\<lambda>i. 0x300000 + 20480 * i)\<rparr>"

definition regs_boot :: "descriptor option list segments" where
  "regs_boot = \<lparr>gdtr = None, reg_ss = 16, reg_ds = 16, reg_cs = 8, reg_tr = 0, idt_loaded = False\<rparr>"

theorem fault_stacks_apart_witness:
  "\<exists>r1 r2 t1 t2. init_segments x86_ref gdt_ref statics_ex 0 regs_boot = Inr r1 \<and> init_segments x86_ref gdt_ref statics_ex 7 regs_boot = Inr r2 \<and>
     fault_stack x86_ref gdt_ref statics_ex r1 = Some t1 \<and> fault_stack x86_ref gdt_ref statics_ex r2 = Some t2 \<and>
     {t1 - 20480..<t1} \<inter> {t2 - 20480..<t2} = {}"
proof -
  have "addrs_ok statics_ex" by (auto simp: addrs_ok_def statics_ex_def STACK_SIZE_def MAX_CORES_def inj_on_def)
  moreover have "\<forall>i<MAX_CORES. \<forall>j<MAX_CORES. i \<noteq> j \<longrightarrow>
      core_stack statics_ex i + STACK_SIZE \<le> core_stack statics_ex j \<or> core_stack statics_ex j + STACK_SIZE \<le> core_stack statics_ex i"
  proof (intro allI impI)
    fix i j :: nat assume "i \<noteq> j"
    then consider "i < j" | "j < i" by linarith
    then show "core_stack statics_ex i + STACK_SIZE \<le> core_stack statics_ex j \<or> core_stack statics_ex j + STACK_SIZE \<le> core_stack statics_ex i"
      by cases (auto simp: core_stack_def statics_ex_def STACK_SIZE_def)
  qed
  ultimately show ?thesis
    using fault_stacks_apart [OF x86_ref_ok gdt_ref_ok, of statics_ex 0 7 MAX_CORES regs_boot regs_boot] by (auto simp: MAX_CORES_def)
qed

end
