(* ===== verification/Utf8.thy ===== *)
theory Utf8
  imports Prelude
begin

text \<open>
  The encoding of strings in the language: a \<open>str\<close> is the UTF-8 encoding of its characters, here code
  points, and \<open>core::str::from_utf8\<close> accepts exactly the well-formed encodings.  The programs hand
  strings to the kernel as bytes, and the kernel decodes them.
\<close>

definition is_char :: "nat \<Rightarrow> bool" where
  "is_char c \<longleftrightarrow> c < 0xD800 \<or> 0xE000 \<le> c \<and> c < 0x110000"

definition cont :: "nat \<Rightarrow> nat" where
  "cont n = 0x80 + n mod 64"

definition utf8_char :: "nat \<Rightarrow> nat list" where
  "utf8_char c =
     (if c < 0x80 then [c]
      else if c < 0x800 then [0xC0 + c div 64, cont c]
      else if c < 0x10000 then [0xE0 + c div 4096, cont (c div 64), cont c]
      else [0xF0 + c div 262144, cont (c div 4096), cont (c div 64), cont c])"

definition utf8_encode :: "nat list \<Rightarrow> u8 list" where
  "utf8_encode cs = map word_of_nat (concat (map utf8_char cs))"

definition is_cont :: "nat \<Rightarrow> bool" where
  "is_cont b \<longleftrightarrow> 0x80 \<le> b \<and> b < 0xC0"

text \<open>One character: a sequence that is too long for its character, or that encodes no character, is refused.\<close>

fun utf8_step :: "nat list \<Rightarrow> (nat \<times> nat list) option" where
  "utf8_step [] = None"
| "utf8_step (b # bs) =
     (if b < 0x80 then Some (b, bs)
      else if 0xC2 \<le> b \<and> b < 0xE0 then
        (case bs of
           c1 # bs \<Rightarrow> if is_cont c1 then Some ((b - 0xC0) * 64 + (c1 - 0x80), bs) else None
         | _ \<Rightarrow> None)
      else if 0xE0 \<le> b \<and> b < 0xF0 then
        (case bs of
           c1 # c2 # bs \<Rightarrow>
             let c = (b - 0xE0) * 4096 + (c1 - 0x80) * 64 + (c2 - 0x80) in
             if is_cont c1 \<and> is_cont c2 \<and> 0x800 \<le> c \<and> is_char c then Some (c, bs) else None
         | _ \<Rightarrow> None)
      else if 0xF0 \<le> b \<and> b < 0xF5 then
        (case bs of
           c1 # c2 # c3 # bs \<Rightarrow>
             let c = (b - 0xF0) * 262144 + (c1 - 0x80) * 4096 + (c2 - 0x80) * 64 + (c3 - 0x80) in
             if is_cont c1 \<and> is_cont c2 \<and> is_cont c3 \<and> 0x10000 \<le> c \<and> is_char c then Some (c, bs) else None
         | _ \<Rightarrow> None)
      else None)"

lemma utf8_step_shorter: "utf8_step bs = Some (c, rest) \<Longrightarrow> length rest < length bs"
  by (cases bs) (auto simp: Let_def split: if_splits list.splits)

function utf8_chars :: "nat list \<Rightarrow> nat list option" where
  "utf8_chars bs = (if bs = [] then Some [] else
     case utf8_step bs of
       None \<Rightarrow> None
     | Some (c, rest) \<Rightarrow> map_option ((#) c) (utf8_chars rest))"
  by pat_completeness auto
termination by (relation "measure length") (auto dest: utf8_step_shorter)

declare utf8_chars.simps [simp del]

definition from_utf8 :: "u8 list \<Rightarrow> nat list option" where
  "from_utf8 bs = utf8_chars (map unat bs)"

subsection \<open>The round trip\<close>

lemma utf8_step_char:
  assumes "is_char c"
  shows "utf8_step (utf8_char c @ bs) = Some (c, bs)"
proof -
  have divs: "c div 4096 = c div 64 div 64" "c div 262144 = c div 64 div 64 div 64" by (simp_all add: div_mult2_eq [symmetric])
  consider "c < 0x80" | "0x80 \<le> c" "c < 0x800" | "0x800 \<le> c" "c < 0x10000" | "0x10000 \<le> c" "c < 0x110000"
    using assms by (auto simp: is_char_def) linarith+
  then show ?thesis
  proof cases
    case 2
    then have "2 \<le> c div 64" "c div 64 < 32" by auto
    moreover have "c div 64 * 64 + c mod 64 = c" by simp
    ultimately show ?thesis using 2 by (simp add: utf8_char_def cont_def is_cont_def)
  next
    case 3
    have d: "c div 4096 < 16" using 3 by auto
    have "c div 4096 * 4096 + c div 64 mod 64 * 64 + c mod 64 = c"
      using div_mult_mod_eq [of "c div 64" 64] div_mult_mod_eq [of c 64] unfolding divs by linarith
    with d 3 assms show ?thesis by (simp add: utf8_char_def cont_def is_cont_def Let_def)
  next
    case 4
    have d: "c div 262144 < 5" using 4 by auto
    have "c div 262144 * 262144 + c div 4096 mod 64 * 4096 + c div 64 mod 64 * 64 + c mod 64 = c"
      using div_mult_mod_eq [of "c div 64 div 64" 64] div_mult_mod_eq [of "c div 64" 64] div_mult_mod_eq [of c 64]
      unfolding divs by linarith
    with d 4 assms show ?thesis by (simp add: utf8_char_def cont_def is_cont_def Let_def)
  qed (simp add: utf8_char_def)
qed

lemma utf8_char_bytes: "is_char c \<Longrightarrow> b \<in> set (utf8_char c) \<Longrightarrow> b < 256"
  by (auto simp: utf8_char_def cont_def is_char_def split: if_splits)

lemma utf8_char_nonempty [simp]: "utf8_char c \<noteq> []"
  by (simp add: utf8_char_def)

lemma utf8_chars_concat:
  assumes "\<forall>c\<in>set cs. is_char c"
  shows "utf8_chars (concat (map utf8_char cs)) = Some cs"
  using assms
proof (induction cs)
  case (Cons c cs)
  then show ?case by (subst utf8_chars.simps) (simp add: utf8_step_char)
qed (simp add: utf8_chars.simps)

lemma from_utf8_encode:
  assumes "\<forall>c\<in>set cs. is_char c"
  shows "from_utf8 (utf8_encode cs) = Some cs"
proof -
  have "unat (word_of_nat b :: u8) = b" if "b \<in> set (concat (map utf8_char cs))" for b
    using that assms utf8_char_bytes by (auto simp: unsigned_of_nat take_bit_nat_eq_self)
  then have "map unat (utf8_encode cs) = concat (map utf8_char cs)"
    unfolding utf8_encode_def map_map by (intro map_idI) simp
  then show ?thesis using utf8_chars_concat [OF assms] by (simp add: from_utf8_def)
qed

text \<open>Only encodings of characters are accepted.\<close>

lemma utf8_step_inv:
  assumes "utf8_step bs = Some (c, rest)"
  shows "is_char c" "bs = utf8_char c @ rest"
proof -
  have two: "x div 64 = h" "cont x = b" if "x = h * 64 + (b - 0x80)" "is_cont b" for x h b
  proof -
    define e where "e = b - 0x80"
    have "x = h * 64 + e" "b = 0x80 + e" "e < 64" using that by (auto simp: e_def is_cont_def)
    then show "x div 64 = h" "cont x = b" by (simp_all add: cont_def)
  qed
  obtain b bs' where bs: "bs = b # bs'" using assms by (cases bs) auto
  consider "b < 0x80" | "0xC2 \<le> b" "b < 0xE0" | "0xE0 \<le> b" "b < 0xF0" | "0xF0 \<le> b" "b < 0xF5"
    using assms bs by (fastforce split: if_splits)
  then have "is_char c \<and> bs = utf8_char c @ rest"
  proof cases
    case 2
    then obtain c1 where c1: "bs' = c1 # rest" "is_cont c1" "c = (b - 0xC0) * 64 + (c1 - 0x80)"
      using assms bs by (auto split: list.splits if_splits)
    have "0x80 \<le> c" "c < 0x800" using c1(2,3) 2 by (auto simp: is_cont_def)
    with c1 two [OF c1(3,2)] 2 bs show ?thesis by (auto simp: utf8_char_def is_char_def)
  next
    case 3
    then obtain c1 c2 where c: "bs' = c1 # c2 # rest" "is_cont c1" "is_cont c2" "0x800 \<le> c" "is_char c"
        "c = ((b - 0xE0) * 64 + (c1 - 0x80)) * 64 + (c2 - 0x80)"
      using assms bs by (auto simp: Let_def algebra_simps split: list.splits if_splits)
    note t1 = two [OF c(6,3)]
    note t2 = two [OF t1(1) c(2)]
    have "0xE0 + c div 4096 = b" using t2(1) 3 by (simp add: div_mult2_eq [symmetric])
    moreover have "c < 0x10000" using c(2,3,6) 3 by (auto simp: is_cont_def)
    ultimately have "utf8_char c = [b, c1, c2]" using c(4) t1(2) t2(2) by (simp only: utf8_char_def) simp
    with c(1,5) bs show ?thesis by simp
  next
    case 4
    then obtain c1 c2 c3 where c: "bs' = c1 # c2 # c3 # rest" "is_cont c1" "is_cont c2" "is_cont c3" "0x10000 \<le> c" "is_char c"
        "c = (((b - 0xF0) * 64 + (c1 - 0x80)) * 64 + (c2 - 0x80)) * 64 + (c3 - 0x80)"
      using assms bs by (auto simp: Let_def algebra_simps split: list.splits if_splits)
    note t1 = two [OF c(7,4)]
    note t2 = two [OF t1(1) c(3)]
    note t3 = two [OF t2(1) c(2)]
    have d: "c div 4096 = c div 64 div 64" "c div 262144 = c div 64 div 64 div 64" by (simp_all add: div_mult2_eq [symmetric])
    have "0xF0 + c div 262144 = b" using t3(1) 4 unfolding d by simp
    moreover have "cont (c div 4096) = c1" using t3(2) unfolding d .
    ultimately have "utf8_char c = [b, c1, c2, c3]" using c(5) t1(2) t2(2) by (simp only: utf8_char_def) simp
    with c(1,6) bs show ?thesis by simp
  qed (use assms bs in \<open>auto simp: utf8_char_def is_char_def\<close>)
  then show "is_char c" "bs = utf8_char c @ rest" by simp_all
qed

lemma utf8_chars_inv: "utf8_chars bs = Some cs \<Longrightarrow> (\<forall>c\<in>set cs. is_char c) \<and> concat (map utf8_char cs) = bs"
proof (induction bs arbitrary: cs rule: utf8_chars.induct)
  case (1 bs)
  show ?case
  proof (cases "bs = []")
    case False
    then obtain c rest cs' where c: "utf8_step bs = Some (c, rest)" "utf8_chars rest = Some cs'" "cs = c # cs'"
      using "1.prems" by (subst (asm) utf8_chars.simps) (auto split: option.splits prod.splits)
    with "1.IH" [OF False c(1) refl c(2)] utf8_step_inv [OF c(1)] show ?thesis by simp
  qed (use "1.prems" in \<open>simp add: utf8_chars.simps\<close>)
qed

lemma from_utf8_inv:
  assumes "from_utf8 bs = Some cs"
  shows "\<forall>c\<in>set cs. is_char c" "utf8_encode cs = bs"
proof -
  from utf8_chars_inv [OF assms [unfolded from_utf8_def]]
  have "\<forall>c\<in>set cs. is_char c" "concat (map utf8_char cs) = map unat bs" by simp_all
  then show "\<forall>c\<in>set cs. is_char c" "utf8_encode cs = bs" by (simp_all add: utf8_encode_def comp_def)
qed

end
