(* ===== verification/Locked_Heap.thy ===== *)
theory Locked_Heap
  imports Heap User_Memory
begin

text \<open>
  Allocation from the two heaps, kernel/src/allocator.rs.  The locked heap of the crate
  buddy_system_allocator is the record \<open>locked_heap\<close>: \<open>lh_alloc\<close> gets the rescue function with which the heap was
  created and returns an address, 0 for a null pointer.  Its free blocks hold the crate's lists and belong to the state
  \<open>'h\<close>, not to the bytes of memory that programs see.  \<open>heap_alloc\<close> and the default methods of the trait
  \<open>GlobalAlloc\<close> are written once for both heaps; the wrapper \<open>KernelAllocatorWrapper\<close> adds log lines only.
\<close>

record ('pt, 'h) locked_heap =
  lh_heap :: "'h heap_lib"
  lh_alloc :: "(Layout \<Rightarrow> 'h \<times> 'pt machine \<Rightarrow> ('h \<times> 'pt machine) res) \<Rightarrow> Layout \<Rightarrow> 'h \<times> 'pt machine \<Rightarrow> (nat \<times> 'h \<times> 'pt machine) res"
  lh_dealloc :: "nat \<Rightarrow> Layout \<Rightarrow> 'h \<Rightarrow> 'h"
  lh_area :: "'h \<Rightarrow> nat set"
  lh_blocks :: "'h \<Rightarrow> (nat \<times> nat) set"

definition heap_alloc where
  "heap_alloc L R layout = (\<lambda>(h, sp).
     bnd (lh_alloc L R layout (h, mach sp)) (\<lambda>(p, h, m). Inr (p, h, sp\<lparr>mach := m\<rparr>)))"

definition heap_alloc_zeroed where
  "heap_alloc_zeroed X bi P L R layout = (\<lambda>(h, sp).
     bnd (heap_alloc L R layout (h, sp)) (\<lambda>(p, h, sp).
     if p = 0 then Inr (0, h, sp)
     else bnd (store_bytes X bi P p (replicate (l_size layout) 0) sp) (\<lambda>sp. Inr (p, h, sp))))"

definition heap_realloc where
  "heap_realloc X bi P L R ptr layout new_size = (\<lambda>(h, sp).
     bnd (heap_alloc L R (layout\<lparr>l_size := new_size\<rparr>) (h, sp)) (\<lambda>(p, h, sp).
     if p = 0 then Inr (0, h, sp)
     else
       bnd (load_bytes X bi P ptr (min (l_size layout) new_size) sp) (\<lambda>bs.
       bnd (store_bytes X bi P p bs sp) (\<lambda>sp.
       Inr (p, lh_dealloc L ptr layout h, sp)))))"

text \<open>The allocator of the kernel.\<close>

definition kernel_alloc where
  "kernel_alloc X bi P L = heap_alloc L (kernel_heap_rescue X bi P (lh_heap L))"

definition kernel_dealloc where
  "kernel_dealloc L ptr layout = (\<lambda>(h, sp). (lh_dealloc L ptr layout h, sp))"

definition kernel_alloc_zeroed where
  "kernel_alloc_zeroed X bi P L = heap_alloc_zeroed X bi P L (kernel_heap_rescue X bi P (lh_heap L))"

definition kernel_realloc where
  "kernel_realloc X bi P L = heap_realloc X bi P L (kernel_heap_rescue X bi P (lh_heap L))"

subsection \<open>What the crate promises\<close>

text \<open>
  Documented: an allocation is served from the addresses that were added to the heap, aligned and
  apart from all live blocks, if need be after one call of the rescue function, or the result is a
  null pointer; it panics only in the rescue function.  Freeing removes the block.
\<close>

definition block_bytes :: "nat \<times> nat \<Rightarrow> nat set" where
  "block_bytes b = {fst b..<fst b + snd b}"

text \<open>\<open>placed L layout h q h'\<close>: \<open>h'\<close> is \<open>h\<close> with a block at \<open>q\<close> for \<open>layout\<close>, or \<open>h\<close> when \<open>q\<close> is null.\<close>

definition placed where
  "placed L layout h q h' \<longleftrightarrow>
     (if q = 0 then lh_blocks L h' = lh_blocks L h
      else l_align layout dvd q \<and> block_bytes (q, l_size layout) \<subseteq> lh_area L h' \<and>
        lh_blocks L h' = insert (q, l_size layout) (lh_blocks L h) \<and>
        (\<forall>b\<in>lh_blocks L h. block_bytes b \<inter> block_bytes (q, l_size layout) = {}))"

definition locked_heap_ok :: "('pt, 'h) locked_heap \<Rightarrow> bool" where
  "locked_heap_ok L \<longleftrightarrow> heap_lib_ok (lh_heap L) \<and> lh_area L (h_new (lh_heap L)) = {} \<and> lh_blocks L (h_new (lh_heap L)) = {} \<and>
     (\<forall>a b h. lh_area L (h_add (lh_heap L) a b h) = lh_area L h \<union> {a..<b} \<and> lh_blocks L (h_add (lh_heap L) a b h) = lh_blocks L h) \<and>
     (\<forall>R layout h m e. lh_alloc L R layout (h, m) = Inl e \<longrightarrow> R layout (h, m) = Inl e) \<and>
     (\<forall>R layout h m q h' m'. lh_alloc L R layout (h, m) = Inr (q, h', m') \<longrightarrow>
        (\<exists>h1. (h1 = h \<and> m' = m \<or> R layout (h, m) = Inr (h1, m')) \<and> h_total (lh_heap L) h' = h_total (lh_heap L) h1 \<and>
           lh_area L h' = lh_area L h1 \<and> placed L layout h1 q h')) \<and>
     (\<forall>p layout h. h_total (lh_heap L) (lh_dealloc L p layout h) = h_total (lh_heap L) h \<and>
        lh_area L (lh_dealloc L p layout h) = lh_area L h \<and> lh_blocks L (lh_dealloc L p layout h) = lh_blocks L h - {(p, l_size layout)})"

lemma locked_heap_errD:
  assumes "locked_heap_ok L" "lh_alloc L R layout (h, m) = Inl e"
  shows "R layout (h, m) = Inl e"
  using assms by (simp add: locked_heap_ok_def)

lemma locked_heap_allocD:
  assumes "locked_heap_ok L" "lh_alloc L R layout (h, m) = Inr (q, h', m')"
  obtains h1 where "h1 = h \<and> m' = m \<or> R layout (h, m) = Inr (h1, m')" "h_total (lh_heap L) h' = h_total (lh_heap L) h1"
    "lh_area L h' = lh_area L h1" "placed L layout h1 q h'"
proof -
  have "\<forall>R layout h m q h' m'. lh_alloc L R layout (h, m) = Inr (q, h', m') \<longrightarrow>
    (\<exists>h1. (h1 = h \<and> m' = m \<or> R layout (h, m) = Inr (h1, m')) \<and> h_total (lh_heap L) h' = h_total (lh_heap L) h1 \<and>
       lh_area L h' = lh_area L h1 \<and> placed L layout h1 q h')"
    using assms(1) unfolding locked_heap_ok_def by (elim conjE)
  from this [rule_format, OF assms(2)] show thesis by (elim exE conjE) (rule that)
qed

lemma locked_heap_dealloc:
  assumes "locked_heap_ok L"
  shows "h_total (lh_heap L) (lh_dealloc L p layout h) = h_total (lh_heap L) h" "lh_area L (lh_dealloc L p layout h) = lh_area L h"
    "lh_blocks L (lh_dealloc L p layout h) = lh_blocks L h - {(p, l_size layout)}"
  using assms by (simp_all add: locked_heap_ok_def)

subsection \<open>The invariant of a heap\<close>

text \<open>
  The heap is the contiguous range from \<open>start\<close>, all of its pages are mapped with the flags \<open>fl\<close> to frames of the
  pool, the pages behind it up to \<open>limit\<close> are free, and the live blocks lie in it and do not overlap.
\<close>

definition heap_inv where
  "heap_inv L look start limit pool fl h \<longleftrightarrow>
     (let n = h_total (lh_heap L) h in
      heap_size_ok n \<and> start + n \<le> limit \<and> lh_area L h = {start..<start + n} \<and>
      (\<forall>p. 4096 dvd p \<longrightarrow> start \<le> p \<longrightarrow> p < start + n \<longrightarrow> (\<exists>f. f \<in> pool \<and> look p = Some (Small f fl))) \<and>
      (\<forall>p. 4096 dvd p \<longrightarrow> start + n \<le> p \<longrightarrow> p < limit \<longrightarrow> look p = None)) \<and>
     (\<forall>b\<in>lh_blocks L h. block_bytes b \<subseteq> lh_area L h) \<and>
     (\<forall>b\<in>lh_blocks L h. \<forall>c\<in>lh_blocks L h. b \<noteq> c \<longrightarrow> block_bytes b \<inter> block_bytes c = {})"

lemma heap_inv_cong:
  assumes "heap_inv L look start limit pool fl h" "h_total (lh_heap L) h' = h_total (lh_heap L) h" "lh_area L h' = lh_area L h"
    and "lh_blocks L h' \<subseteq> lh_blocks L h"
  shows "heap_inv L look start limit pool fl h'"
proof -
  have "\<forall>b\<in>lh_blocks L h'. block_bytes b \<subseteq> lh_area L h'"
    using assms(1,3,4) unfolding heap_inv_def by auto
  moreover have "\<forall>b\<in>lh_blocks L h'. \<forall>c\<in>lh_blocks L h'. b \<noteq> c \<longrightarrow> block_bytes b \<inter> block_bytes c = {}"
    using assms(1,4) unfolding heap_inv_def by (meson subsetD)
  ultimately show ?thesis using assms(1-3) unfolding heap_inv_def Let_def by simp
qed

lemma heap_inv_placed:
  assumes inv: "heap_inv L look start limit pool fl h" and h': "h_total (lh_heap L) h' = h_total (lh_heap L) h" "lh_area L h' = lh_area L h"
    and q: "placed L layout h q h'"
  shows "heap_inv L look start limit pool fl h'"
proof (cases "q = 0")
  case True
  with q show ?thesis by (intro heap_inv_cong [OF inv h']) (simp add: placed_def)
next
  case False
  let ?b = "(q, l_size layout)"
  have b: "lh_blocks L h' = insert ?b (lh_blocks L h)" "block_bytes ?b \<subseteq> lh_area L h"
    "\<forall>c\<in>lh_blocks L h. block_bytes c \<inter> block_bytes ?b = {}"
    using q False h'(2) by (simp_all add: placed_def)
  have "\<forall>c\<in>lh_blocks L h'. \<forall>d\<in>lh_blocks L h'. c \<noteq> d \<longrightarrow> block_bytes c \<inter> block_bytes d = {}"
    using inv b(3) unfolding b(1) heap_inv_def by (auto simp: Int_commute)
  moreover have "\<forall>c\<in>lh_blocks L h'. block_bytes c \<subseteq> lh_area L h'"
    using inv h'(2) b(2) unfolding b(1) heap_inv_def by auto
  ultimately show ?thesis using inv h' unfolding heap_inv_def Let_def by simp
qed

lemma heap_inv_block:
  assumes "heap_inv L look start limit pool fl h" "b \<in> lh_blocks L h"
  shows "block_bytes b \<subseteq> lh_area L h"
  using assms unfolding heap_inv_def by blast

lemma block_apart:
  assumes "heap_inv L look start limit pool fl h" "b \<in> lh_blocks L h" "c \<in> lh_blocks L h - {b}" "v \<in> block_bytes c"
  shows "v \<notin> block_bytes b" "v \<in> lh_area L h"
proof -
  have "b \<noteq> c" "c \<in> lh_blocks L h" using assms(3) by auto
  then have "block_bytes b \<inter> block_bytes c = {}" "block_bytes c \<subseteq> lh_area L h"
    using assms(1,2) unfolding heap_inv_def by blast+
  then show "v \<notin> block_bytes b" "v \<in> lh_area L h" using assms(4) by blast+
qed

lemma placed_fresh:
  assumes "placed L layout h q h'" "q \<noteq> 0" "0 < l_size layout"
  shows "(q, l_size layout) \<notin> lh_blocks L h" "(q, l_size layout) \<in> lh_blocks L h'" "lh_blocks L h' - {(q, l_size layout)} = lh_blocks L h"
proof -
  show "(q, l_size layout) \<notin> lh_blocks L h"
  proof
    assume "(q, l_size layout) \<in> lh_blocks L h"
    with assms have "block_bytes (q, l_size layout) = {}" by (auto simp: placed_def)
    with assms(3) show False by (simp add: block_bytes_def)
  qed
  with assms(1,2) show "(q, l_size layout) \<in> lh_blocks L h'" "lh_blocks L h' - {(q, l_size layout)} = lh_blocks L h"
    by (auto simp: placed_def)
qed

lemma grown_ge: "old \<le> grown layout old"
  by (auto simp: grown_def max_def)

subsection \<open>Allocation from a heap area\<close>

text \<open>A heap area whose free frames are frames of the pool.  The laws give that an allocation keeps the invariant.\<close>

locale pooled_heap = heap_area map_ram inv look rest allowed final X heap_start room
  for map_ram :: "nat \<Rightarrow> PageTableFlags \<Rightarrow> 'pt machine \<Rightarrow> (nat \<times> 'pt machine) res"
    and inv :: "'pt machine \<Rightarrow> nat list \<Rightarrow> bool"
    and look :: "'pt machine \<Rightarrow> nat \<Rightarrow> leaf option"
    and rest :: "'pt machine \<Rightarrow> 'c"
    and allowed :: "nat \<Rightarrow> bool"
    and final :: "PageTableFlags \<Rightarrow> PageTableFlags"
    and X :: x86 and heap_start room :: nat +
  fixes pool :: "nat set"
  assumes fs_pool: "inv s fs \<Longrightarrow> f \<in> set fs \<Longrightarrow> f \<in> pool"
begin

lemma rescue_inv:
  assumes inv: "inv m fs" and L: "locked_heap_ok L" and lay: "layout_ok layout"
    and h: "heap_inv L (look m) heap_start (heap_start + room) pool (final {PRESENT, WRITABLE, NO_EXECUTE}) h"
    and room: "grown layout (h_total (lh_heap L) h) \<le> room"
    and frames: "4 * ((grown layout (h_total (lh_heap L) h) - h_total (lh_heap L) h) div 4096) \<le> length fs"
  obtains h' m' n where "rescue X (lh_heap L) heap_start map_ram layout (h, m) = Inr (h', m')"
    "inv m' (drop n fs)" "heap_inv L (look m') heap_start (heap_start + room) pool (final {PRESENT, WRITABLE, NO_EXECUTE}) h'"
    "lh_blocks L h' = lh_blocks L h" "rest m' = rest m" "\<forall>p. p < heap_start + h_total (lh_heap L) h \<longrightarrow> look m' p = look m p"
    "h' = h_add (lh_heap L) (heap_start + h_total (lh_heap L) h) (heap_start + grown layout (h_total (lh_heap L) h)) h"
proof -
  let ?H = "lh_heap L" and ?old = "h_total (lh_heap L) h" and ?fl = "final {PRESENT, WRITABLE, NO_EXECUTE}"
  let ?g = "grown layout ?old"
  let ?n = "(?g - ?old) div 4096"
  have H: "heap_lib_ok ?H" and add: "\<And>a b. lh_area L (h_add ?H a b h) = lh_area L h \<union> {a..<b}" "\<And>a b. lh_blocks L (h_add ?H a b h) = lh_blocks L h"
    using L by (simp_all add: locked_heap_ok_def)
  have hs: "heap_size_ok ?old" "lh_area L h = {heap_start..<heap_start + ?old}"
    and mapped: "\<And>p. 4096 dvd p \<Longrightarrow> heap_start \<le> p \<Longrightarrow> p < heap_start + ?old \<Longrightarrow> \<exists>f. f \<in> pool \<and> look m p = Some (Small f ?fl)"
    and free: "\<And>p. 4096 dvd p \<Longrightarrow> heap_start + ?old \<le> p \<Longrightarrow> p < heap_start + room \<Longrightarrow> look m p = None"
    and blocks: "\<forall>b\<in>lh_blocks L h. block_bytes b \<subseteq> lh_area L h"
      "\<forall>b\<in>lh_blocks L h. \<forall>c\<in>lh_blocks L h. b \<noteq> c \<longrightarrow> block_bytes b \<inter> block_bytes c = {}"
    using h unfolding heap_inv_def Let_def by blast+
  have fr: "\<forall>p. 4096 dvd p \<longrightarrow> heap_start + ?old \<le> p \<longrightarrow> p < heap_start + ?g \<longrightarrow> look m p = None"
    using free room by auto
  from grow_ok [OF inv H lay hs(1) room fr frames] obtain h' m' n f where r:
    "rescue X ?H heap_start map_ram layout (h, m) = Inr (h', m')"
    "h' = h_add ?H (heap_start + ?old) (heap_start + ?g) h" "h_total ?H h' = ?g" "heap_size_ok (h_total ?H h')"
    "inv m' (drop n fs)" "rest m' = rest m"
    and new: "\<forall>i<?n. f i \<in> set fs \<and> look m' (heap_start + ?old + i * 4096) = Some (Small (f i) ?fl)"
    and same: "\<forall>p. p < heap_start + ?old \<or> heap_start + ?g \<le> p \<longrightarrow> look m' p = look m p" by blast
  have le: "?old \<le> ?g" using grown_ge [of ?old layout] .
  have gd: "4096 dvd ?g" using heap_size_dvd [OF r(4)] r(3) by simp
  have od: "4096 dvd ?old" by (rule heap_size_dvd [OF hs(1)])
  have "\<exists>g. g \<in> pool \<and> look m' p = Some (Small g ?fl)"
    if p: "4096 dvd p" "heap_start \<le> p" "p < heap_start + ?g" for p
  proof (cases "p < heap_start + ?old")
    case True
    then show ?thesis using mapped [OF p(1,2) True] same by simp
  next
    case False
    have "4096 dvd p - (heap_start + ?old)" using od area_aligned p(1) False by simp
    then obtain i where "p - (heap_start + ?old) = 4096 * i" by (elim dvdE)
    then have pi: "p = heap_start + ?old + i * 4096" using False by simp
    have "i * 4096 < ?g - ?old" using p(3) pi le by simp
    then have "i < ?n" using gd od by (auto elim!: dvdE simp flip: diff_mult_distrib2)
    with new pi fs_pool [OF inv] show ?thesis by auto
  qed
  moreover have "look m' p = None" if "4096 dvd p" "heap_start + ?g \<le> p" "p < heap_start + room" for p
    using same that free [OF that(1) _ that(3)] le by simp
  moreover have "lh_area L h' = {heap_start..<heap_start + ?g}" using r(2) add(1) hs(2) le by auto
  moreover have b: "lh_blocks L h' = lh_blocks L h" using r(2) add(2) by simp
  moreover have "\<forall>b\<in>lh_blocks L h. block_bytes b \<subseteq> {heap_start..<heap_start + ?g}"
    using blocks(1) le unfolding hs(2) by fastforce
  ultimately have "heap_inv L (look m') heap_start (heap_start + room) pool ?fl h'"
    using r(3,4) room blocks(2) by (simp add: heap_inv_def Let_def)
  with r same b show ?thesis by (intro that [of h' m' n]) auto
qed

lemma look_page:
  assumes "heap_inv L (look m) heap_start limit pool fl h" "\<forall>p. p < heap_start + h_total (lh_heap L) h \<longrightarrow> look m' p = look m p"
  shows "\<forall>v\<in>lh_area L h. look m' (page_of v) = look m (page_of v)"
proof
  fix v assume "v \<in> lh_area L h"
  then have "v < heap_start + h_total (lh_heap L) h" using assms(1) unfolding heap_inv_def Let_def by auto
  moreover have "page_of v \<le> v" by (simp add: page_of_def)
  ultimately show "look m' (page_of v) = look m (page_of v)" using assms(2) by simp
qed

lemma alloc_serves:
  assumes inv: "inv m fs" and L: "locked_heap_ok L" and lay: "layout_ok layout"
    and h: "heap_inv L (look m) heap_start (heap_start + room) pool (final {PRESENT, WRITABLE, NO_EXECUTE}) h"
    and room: "grown layout (h_total (lh_heap L) h) \<le> room"
    and frames: "4 * ((grown layout (h_total (lh_heap L) h) - h_total (lh_heap L) h) div 4096) \<le> length fs"
  obtains q h' m' n where "lh_alloc L (rescue X (lh_heap L) heap_start map_ram) layout (h, m) = Inr (q, h', m')"
    "inv m' (drop n fs)" "heap_inv L (look m') heap_start (heap_start + room) pool (final {PRESENT, WRITABLE, NO_EXECUTE}) h'"
    "placed L layout h q h'" "rest m' = rest m" "\<forall>v\<in>lh_area L h. look m' (page_of v) = look m (page_of v)"
proof -
  let ?R = "rescue X (lh_heap L) heap_start map_ram" and ?fl = "final {PRESENT, WRITABLE, NO_EXECUTE}"
  obtain h1 m1 n1 where r: "?R layout (h, m) = Inr (h1, m1)" "inv m1 (drop n1 fs)"
    "heap_inv L (look m1) heap_start (heap_start + room) pool ?fl h1" "lh_blocks L h1 = lh_blocks L h" "rest m1 = rest m"
    "\<forall>p. p < heap_start + h_total (lh_heap L) h \<longrightarrow> look m1 p = look m p"
    by (rule rescue_inv [OF inv L lay h room frames])
  have "\<exists>q h' m'. lh_alloc L ?R layout (h, m) = Inr (q, h', m')"
    by (cases "lh_alloc L ?R layout (h, m)") (use r(1) locked_heap_errD [OF L, of ?R layout h m] in auto)
  then obtain q h' m' where al: "lh_alloc L ?R layout (h, m) = Inr (q, h', m')" by blast
  obtain h2 where h2: "h2 = h \<and> m' = m \<or> ?R layout (h, m) = Inr (h2, m')" "h_total (lh_heap L) h' = h_total (lh_heap L) h2"
    "lh_area L h' = lh_area L h2" "placed L layout h2 q h'"
    by (rule locked_heap_allocD [OF L al])
  have "\<exists>n. inv m' (drop n fs) \<and> heap_inv L (look m') heap_start (heap_start + room) pool ?fl h2 \<and> lh_blocks L h2 = lh_blocks L h \<and>
    rest m' = rest m \<and> (\<forall>v\<in>lh_area L h. look m' (page_of v) = look m (page_of v))"
  proof (cases "h2 = h \<and> m' = m")
    case True
    with inv h show ?thesis by (intro exI [of _ 0]) simp
  next
    case False
    with h2(1) r look_page [OF h r(6)] show ?thesis by (intro exI [of _ n1]) simp
  qed
  then obtain n where m': "inv m' (drop n fs)" "heap_inv L (look m') heap_start (heap_start + room) pool ?fl h2" "lh_blocks L h2 = lh_blocks L h"
    "rest m' = rest m" "\<forall>v\<in>lh_area L h. look m' (page_of v) = look m (page_of v)" by blast
  have "heap_inv L (look m') heap_start (heap_start + room) pool ?fl h'" by (rule heap_inv_placed [OF m'(2) h2(2-4)])
  moreover have "placed L layout h q h'" using h2(4) m'(3) by (simp add: placed_def)
  ultimately show ?thesis using al m'(1,4,5) by (intro that [of q h' m' n])
qed

end

interpretation kernel_pool: pooled_heap "map_ram_kernel X bi P" "mem_inv X bi P off tb rt pool"
  "alook P off" "kernel_rest P rt" kernel_page kernel_final X KERNEL_HEAP_START "KERNEL_AP_STACKS - KERNEL_HEAP_START" pool
  for X bi P off tb rt pool
  by unfold_locales (auto simp: mem_inv_def fa_inv_def)

interpretation user_pool: pooled_heap "map_ram_user X bi P" "mem_inv X bi P off tb rt pool"
  "alook P off" "user_rest P off rt" user_page user_final X USER_HEAP_START "USER_END - USER_HEAP_START" pool
  for X bi P off tb rt pool
  by unfold_locales (auto simp: mem_inv_def fa_inv_def)

subsection \<open>The bytes of a heap\<close>

definition heap_range :: "nat \<Rightarrow> nat \<Rightarrow> PageTableFlags \<Rightarrow> bool" where
  "heap_range start limit fl \<longleftrightarrow> 4096 dvd start \<and> (\<forall>p. start \<le> p \<longrightarrow> p < limit \<longrightarrow> managed p) \<and> PRESENT \<in> fl \<and> WRITABLE \<in> fl"

lemma kernel_range: "heap_range KERNEL_HEAP_START KERNEL_AP_STACKS {PRESENT, WRITABLE, NO_EXECUTE}"
  by (simp add: heap_range_def managed_def layout_values)

lemma user_range: "heap_range USER_HEAP_START USER_END {PRESENT, WRITABLE, NO_EXECUTE, USER_ACCESSIBLE}"
  by (simp add: heap_range_def managed_def layout_values)

text \<open>\<open>heap_at\<close>: memory is in order, and the heap \<open>h\<close> is in its place.  It does not depend on the bytes of memory.\<close>

definition heap_at where
  "heap_at X bi P off tb rt pool L start limit fl fs h sp \<longleftrightarrow> mem_inv X bi P off tb rt pool (mach sp) fs \<and> locked_heap_ok L \<and>
     heap_range start limit fl \<and> heap_inv L (alook P off (mach sp)) start limit pool fl h"

lemma heap_at_ram [simp]:
  "heap_at X bi P off tb rt pool L start limit fl fs h (sp\<lparr>ram := r\<rparr>) = heap_at X bi P off tb rt pool L start limit fl fs h sp"
  by (simp add: heap_at_def)

lemma heap_mapped:
  assumes inv: "heap_inv L look start limit pool fl h" and range: "heap_range start limit fl" and v: "v \<in> lh_area L h"
  shows "writable_at look v" "\<exists>f. f \<in> pool \<and> look (page_of v) = Some (Small f fl)" "managed (page_of v)"
proof -
  let ?n = "h_total (lh_heap L) h"
  have v: "start \<le> v" "v < start + ?n" and e: "start + ?n \<le> limit" using inv v unfolding heap_inv_def Let_def by auto
  have p: "4096 dvd page_of v" by (simp add: page_of_def)
  have le: "page_of v \<le> v" by (simp add: page_of_def)
  have ge: "start \<le> page_of v"
  proof -
    have "start div 4096 * 4096 \<le> page_of v" unfolding page_of_def by (intro mult_le_mono1 div_le_mono v(1))
    then show ?thesis using range by (simp add: heap_range_def)
  qed
  show f: "\<exists>f. f \<in> pool \<and> look (page_of v) = Some (Small f fl)"
    using inv p ge le v unfolding heap_inv_def Let_def by (meson le_less_trans)
  then show "writable_at look v" using range by (auto simp: writable_at_def heap_range_def)
  show "managed (page_of v)" using range ge le v e by (simp add: heap_range_def)
qed

lemma heap_paddr_inj:
  assumes "mem_inv X bi P off tb rt pool m fs" "heap_inv L (alook P off m) start limit pool fl h" "heap_range start limit fl"
  shows "inj_on (paddr (alook P off m)) (lh_area L h)"
proof (rule paddr_inj)
  let ?fr = "\<lambda>p. case alook P off m p of Some (Small f _) \<Rightarrow> f | _ \<Rightarrow> 0"
  note mapped = heap_mapped [OF assms(2,3)]
  show "\<exists>fl. alook P off m (page_of v) = Some (Small (?fr (page_of v)) fl)" if "v \<in> lh_area L h" for v
    using mapped(2) [OF that] by auto
  show "4096 dvd ?fr (page_of v)" if "v \<in> lh_area L h" for v
    using mapped(2) [OF that] pool_aligned [OF assms(1)] by auto
  show "inj_on ?fr (page_of ` lh_area L h)"
  proof (rule inj_onI)
    fix p q assume pq: "p \<in> page_of ` lh_area L h" "q \<in> page_of ` lh_area L h" "?fr p = ?fr q"
    from pq(1) obtain f where f: "f \<in> pool" "alook P off m p = Some (Small f fl)" "managed p" using mapped(2,3) by blast
    from pq(2) obtain g where g: "g \<in> pool" "alook P off m q = Some (Small g fl)" "managed q" using mapped(2,3) by blast
    have "f = g" using pq(3) f(2) g(2) by simp
    with f g mem_invD(3,7) [OF assms(1)] show "p = q" unfolding frames_exclusive_def by blast
  qed
qed

text \<open>The byte that the active address space has at an address, and live blocks that keep their bytes.\<close>

definition byte_at where
  "byte_at P off sp v = ram sp (paddr (alook P off (mach sp)) v)"

definition blocks_kept where
  "blocks_kept P off B sp sp' \<longleftrightarrow> (\<forall>b\<in>B. \<forall>v\<in>block_bytes b. byte_at P off sp' v = byte_at P off sp v)"

lemma store_heap:
  assumes at: "heap_at X bi P off tb rt pool L start limit fl fs h sp" and sub: "{v..<v + length bs} \<subseteq> lh_area L h"
  obtains r where "store_bytes X bi P v bs sp = Inr (sp\<lparr>ram := r\<rparr>)"
    "\<forall>i<length bs. byte_at P off (sp\<lparr>ram := r\<rparr>) (v + i) = bs ! i"
    "\<forall>w\<in>lh_area L h - {v..<v + length bs}. byte_at P off (sp\<lparr>ram := r\<rparr>) w = byte_at P off sp w"
proof -
  let ?look = "alook P off (mach sp)"
  let ?r = "poke ?look v bs (ram sp)"
  have m: "mem_inv X bi P off tb rt pool (mach sp) fs" "heap_inv L ?look start limit pool fl h" "heap_range start limit fl"
    using at by (simp_all add: heap_at_def)
  have inj: "inj_on (paddr ?look) (lh_area L h)" by (rule heap_paddr_inj [OF m])
  have "v + i \<in> lh_area L h" if "i < length bs" for i using sub that by auto
  then have "store_bytes X bi P v bs sp = Inr (sp\<lparr>ram := ?r\<rparr>)"
    using heap_mapped(1) [OF m(2,3)] by (intro store_bytes_ok [OF m(1)]) blast
  moreover have "\<forall>i<length bs. ?r (paddr ?look (v + i)) = bs ! i"
    using poke_nth [OF inj_on_subset [OF inj sub]] by blast
  moreover have "?r (paddr ?look w) = ram sp (paddr ?look w)" if w: "w \<in> lh_area L h - {v..<v + length bs}" for w
    using inj sub w by (intro poke_other) (auto simp: inj_on_image_mem_iff)
  ultimately show ?thesis by (intro that [of ?r]) (simp_all add: byte_at_def)
qed

lemma load_heap:
  assumes at: "heap_at X bi P off tb rt pool L start limit fl fs h sp" and sub: "{v..<v + n} \<subseteq> lh_area L h"
  shows "load_bytes X bi P v n sp = Inr (map (\<lambda>i. byte_at P off sp (v + i)) [0..<n])"
proof -
  have m: "mem_inv X bi P off tb rt pool (mach sp) fs" "heap_inv L (alook P off (mach sp)) start limit pool fl h" "heap_range start limit fl"
    using at by (simp_all add: heap_at_def)
  have "v + i \<in> lh_area L h" if "i < n" for i using sub that by auto
  then show ?thesis using heap_mapped(1) [OF m(2,3)] unfolding byte_at_def by (intro load_bytes_ok [OF m(1)]) blast
qed

lemma store_block:
  assumes at: "heap_at X bi P off tb rt pool L start limit fl fs h sp" and blk: "(q, n) \<in> lh_blocks L h"
    and fits: "q \<le> v" "v + length bs \<le> q + n"
  obtains r where "store_bytes X bi P v bs sp = Inr (sp\<lparr>ram := r\<rparr>)"
    "\<forall>i<length bs. byte_at P off (sp\<lparr>ram := r\<rparr>) (v + i) = bs ! i"
    "\<forall>w\<in>{q..<q + n} - {v..<v + length bs}. byte_at P off (sp\<lparr>ram := r\<rparr>) w = byte_at P off sp w"
    "blocks_kept P off (lh_blocks L h - {(q, n)}) sp (sp\<lparr>ram := r\<rparr>)"
proof -
  have inv: "heap_inv L (alook P off (mach sp)) start limit pool fl h" using at by (simp add: heap_at_def)
  have area: "{q..<q + n} \<subseteq> lh_area L h" using heap_inv_block [OF inv blk] by (simp add: block_bytes_def)
  then have sub: "{v..<v + length bs} \<subseteq> lh_area L h" using fits by auto
  obtain r where r: "store_bytes X bi P v bs sp = Inr (sp\<lparr>ram := r\<rparr>)"
    "\<forall>i<length bs. byte_at P off (sp\<lparr>ram := r\<rparr>) (v + i) = bs ! i"
    "\<forall>w\<in>lh_area L h - {v..<v + length bs}. byte_at P off (sp\<lparr>ram := r\<rparr>) w = byte_at P off sp w"
    by (rule store_heap [OF at sub])
  have "blocks_kept P off (lh_blocks L h - {(q, n)}) sp (sp\<lparr>ram := r\<rparr>)"
    unfolding blocks_kept_def
  proof (intro ballI)
    fix b w assume b: "b \<in> lh_blocks L h - {(q, n)}" "w \<in> block_bytes b"
    from block_apart [OF inv blk b] fits have "w \<in> lh_area L h - {v..<v + length bs}" by (auto simp: block_bytes_def)
    with r(3) show "byte_at P off (sp\<lparr>ram := r\<rparr>) w = byte_at P off sp w" by blast
  qed
  with r area show ?thesis by (intro that [of r]) blast+
qed

lemma copy_block:
  assumes at: "heap_at X bi P off tb rt pool L start limit fl fs h sp"
    and blocks: "(q0, sz) \<in> lh_blocks L h" "(q, n) \<in> lh_blocks L h" and k: "k \<le> sz" "k \<le> n"
  obtains bs r where "load_bytes X bi P q0 k sp = Inr bs" "store_bytes X bi P q bs sp = Inr (sp\<lparr>ram := r\<rparr>)"
    "\<forall>i<k. byte_at P off (sp\<lparr>ram := r\<rparr>) (q + i) = byte_at P off sp (q0 + i)"
    "blocks_kept P off (lh_blocks L h - {(q, n)}) sp (sp\<lparr>ram := r\<rparr>)"
proof -
  let ?bs = "map (\<lambda>i. byte_at P off sp (q0 + i)) [0..<k]"
  have "heap_inv L (alook P off (mach sp)) start limit pool fl h" using at by (simp add: heap_at_def)
  from heap_inv_block [OF this blocks(1)] k(1) have "{q0..<q0 + k} \<subseteq> lh_area L h" by (auto simp: block_bytes_def)
  note ld = load_heap [OF at this]
  obtain r where "store_bytes X bi P q ?bs sp = Inr (sp\<lparr>ram := r\<rparr>)"
    "\<forall>i<length ?bs. byte_at P off (sp\<lparr>ram := r\<rparr>) (q + i) = ?bs ! i"
    "blocks_kept P off (lh_blocks L h - {(q, n)}) sp (sp\<lparr>ram := r\<rparr>)"
    by (rule store_block [OF at blocks(2), of q ?bs]) (use k(2) in simp_all)
  with ld show ?thesis by (intro that [of ?bs r]) simp_all
qed

text \<open>What an allocation has done when it returns: \<open>q\<close> is placed, and the pages that the heap had are where they were.\<close>

definition allocated where
  "allocated X bi P off tb rt pool L start limit fl layout fs h sp q h' m' \<longleftrightarrow>
     heap_at X bi P off tb rt pool L start limit fl fs h' (sp\<lparr>mach := m'\<rparr>) \<and> placed L layout h q h' \<and>
     heap_inv L (alook P off (mach sp)) start limit pool fl h \<and>
     (\<forall>v\<in>lh_area L h. alook P off m' (page_of v) = alook P off (mach sp) (page_of v))"

lemma allocated_bytes:
  assumes "allocated X bi P off tb rt pool L start limit fl layout fs h sp q h' m'"
  shows "\<forall>v\<in>lh_area L h. byte_at P off (sp\<lparr>mach := m'\<rparr>) v = byte_at P off sp v"
    and "blocks_kept P off (lh_blocks L h) sp (sp\<lparr>mach := m'\<rparr>)"
proof -
  show b: "\<forall>v\<in>lh_area L h. byte_at P off (sp\<lparr>mach := m'\<rparr>) v = byte_at P off sp v"
    using assms by (simp add: allocated_def byte_at_def paddr_def)
  have "heap_inv L (alook P off (mach sp)) start limit pool fl h" using assms by (simp add: allocated_def)
  from heap_inv_block [OF this] b show "blocks_kept P off (lh_blocks L h) sp (sp\<lparr>mach := m'\<rparr>)"
    unfolding blocks_kept_def by blast
qed

lemma allocated_writable:
  assumes "allocated X bi P off tb rt pool L start limit fl layout fs h sp q h' m'" "q \<noteq> 0"
  shows "\<forall>v\<in>{q..<q + l_size layout}. writable_at (alook P off m') v"
proof
  fix v assume "v \<in> {q..<q + l_size layout}"
  with assms have "v \<in> lh_area L h'" by (auto simp: allocated_def placed_def block_bytes_def)
  with assms(1) heap_mapped(1) show "writable_at (alook P off m') v" by (fastforce simp: allocated_def heap_at_def)
qed

lemma blocks_kept_trans:
  "blocks_kept P off B sp sp1 \<Longrightarrow> blocks_kept P off C sp1 sp2 \<Longrightarrow> B \<subseteq> C \<Longrightarrow> blocks_kept P off B sp sp2"
  unfolding blocks_kept_def by (metis subsetD)

lemma blocks_kept_mono: "blocks_kept P off C sp sp' \<Longrightarrow> B \<subseteq> C \<Longrightarrow> blocks_kept P off B sp sp'"
  unfolding blocks_kept_def by blast

lemma heap_alloc_zeroed_ok:
  assumes al: "lh_alloc L R layout (h, mach sp) = Inr (q, h', m')" and lay: "0 < l_size layout"
    and res: "allocated X bi P off tb rt pool L start limit fl layout fs h sp q h' m'"
  obtains r where "heap_alloc_zeroed X bi P L R layout (h, sp) = Inr (q, h', sp\<lparr>mach := m', ram := r\<rparr>)"
    "blocks_kept P off (lh_blocks L h) sp (sp\<lparr>mach := m', ram := r\<rparr>)"
    "q \<noteq> 0 \<longrightarrow> (\<forall>v\<in>{q..<q + l_size layout}. byte_at P off (sp\<lparr>mach := m', ram := r\<rparr>) v = 0)"
proof (cases "q = 0")
  case True
  with al allocated_bytes(2) [OF res] show ?thesis
    by (intro that [of "ram sp"]) (simp_all add: heap_alloc_zeroed_def heap_alloc_def)
next
  case False
  let ?sp = "sp\<lparr>mach := m'\<rparr>" and ?z = "replicate (l_size layout) 0"
  have at: "heap_at X bi P off tb rt pool L start limit fl fs h' ?sp" and pl: "placed L layout h q h'" using res by (simp_all add: allocated_def)
  note fresh = placed_fresh [OF pl False lay]
  obtain r where r: "store_bytes X bi P q ?z ?sp = Inr (?sp\<lparr>ram := r\<rparr>)"
    "\<forall>i<length ?z. byte_at P off (?sp\<lparr>ram := r\<rparr>) (q + i) = ?z ! i"
    "blocks_kept P off (lh_blocks L h' - {(q, l_size layout)}) ?sp (?sp\<lparr>ram := r\<rparr>)"
    by (rule store_block [OF at fresh(2), of q ?z]) simp_all
  have "byte_at P off (?sp\<lparr>ram := r\<rparr>) v = 0" if "v \<in> {q..<q + l_size layout}" for v
  proof -
    have "v - q < length ?z" "q + (v - q) = v" using that by auto
    with r(2) show ?thesis by (metis nth_replicate length_replicate)
  qed
  moreover have "blocks_kept P off (lh_blocks L h) sp (?sp\<lparr>ram := r\<rparr>)"
    using blocks_kept_trans [OF allocated_bytes(2) [OF res] r(3)] fresh(3) by simp
  moreover have "heap_alloc_zeroed X bi P L R layout (h, sp) = Inr (q, h', ?sp\<lparr>ram := r\<rparr>)"
    using al r(1) False by (simp add: heap_alloc_zeroed_def heap_alloc_def)
  ultimately show ?thesis by (intro that [of r]) simp_all
qed

text \<open>Reallocation of a live block: its bytes are copied, and it is freed.\<close>

lemma heap_realloc_ok:
  assumes al: "lh_alloc L R (layout\<lparr>l_size := new_size\<rparr>) (h, mach sp) = Inr (q, h', m')" and pos: "0 < new_size" "q \<noteq> 0"
    and res: "allocated X bi P off tb rt pool L start limit fl (layout\<lparr>l_size := new_size\<rparr>) fs h sp q h' m'"
    and old: "(q0, l_size layout) \<in> lh_blocks L h"
  obtains r h2 where "heap_realloc X bi P L R q0 layout new_size (h, sp) = Inr (q, h2, sp\<lparr>mach := m', ram := r\<rparr>)"
    "h2 = lh_dealloc L q0 layout h'"
    "heap_at X bi P off tb rt pool L start limit fl fs h2 (sp\<lparr>mach := m', ram := r\<rparr>)"
    "lh_blocks L h2 = insert (q, new_size) (lh_blocks L h) - {(q0, l_size layout)}" "(q, new_size) \<notin> lh_blocks L h"
    "\<forall>i<min (l_size layout) new_size. byte_at P off (sp\<lparr>mach := m', ram := r\<rparr>) (q + i) = byte_at P off sp (q0 + i)"
    "blocks_kept P off (lh_blocks L h) sp (sp\<lparr>mach := m', ram := r\<rparr>)"
proof -
  let ?sp = "sp\<lparr>mach := m'\<rparr>" and ?k = "min (l_size layout) new_size" and ?h2 = "lh_dealloc L q0 layout h'"
  have at: "heap_at X bi P off tb rt pool L start limit fl fs h' ?sp" and L: "locked_heap_ok L"
    and pl: "placed L (layout\<lparr>l_size := new_size\<rparr>) h q h'" and inv: "heap_inv L (alook P off (mach sp)) start limit pool fl h"
    using res by (simp_all add: allocated_def heap_at_def)
  have fresh: "(q, new_size) \<notin> lh_blocks L h" "(q, new_size) \<in> lh_blocks L h'" "lh_blocks L h' - {(q, new_size)} = lh_blocks L h"
    using placed_fresh [OF pl pos(2)] pos(1) by simp_all
  have b: "lh_blocks L h' = insert (q, new_size) (lh_blocks L h)" using fresh(2,3) by auto
  obtain bs r where r: "load_bytes X bi P q0 ?k ?sp = Inr bs" "store_bytes X bi P q bs ?sp = Inr (?sp\<lparr>ram := r\<rparr>)"
    "\<forall>i<?k. byte_at P off (?sp\<lparr>ram := r\<rparr>) (q + i) = byte_at P off ?sp (q0 + i)"
    "blocks_kept P off (lh_blocks L h' - {(q, new_size)}) ?sp (?sp\<lparr>ram := r\<rparr>)"
    by (rule copy_block [OF at _ fresh(2), of q0 "l_size layout" ?k]) (use old b in simp_all)
  have "heap_realloc X bi P L R q0 layout new_size (h, sp) = Inr (q, ?h2, ?sp\<lparr>ram := r\<rparr>)"
    using al r(1,2) pos(2) by (simp add: heap_realloc_def heap_alloc_def)
  moreover have "heap_at X bi P off tb rt pool L start limit fl fs ?h2 ?sp"
    using at heap_inv_cong [of L "alook P off m'" start limit pool fl h' ?h2] locked_heap_dealloc [OF L]
    by (simp add: heap_at_def Diff_subset)
  moreover have "\<forall>i<?k. byte_at P off (?sp\<lparr>ram := r\<rparr>) (q + i) = byte_at P off sp (q0 + i)"
  proof (intro allI impI)
    fix i assume i: "i < ?k"
    then have "q0 + i \<in> lh_area L h" using heap_inv_block [OF inv old] by (auto simp: block_bytes_def)
    with r(3) i allocated_bytes(1) [OF res] show "byte_at P off (?sp\<lparr>ram := r\<rparr>) (q + i) = byte_at P off sp (q0 + i)" by simp
  qed
  moreover have "blocks_kept P off (lh_blocks L h) sp (?sp\<lparr>ram := r\<rparr>)"
    using blocks_kept_trans [OF allocated_bytes(2) [OF res] r(4)] fresh(3) by simp
  ultimately show ?thesis using locked_heap_dealloc(3) [OF L, of q0 layout h'] b fresh(1) by (intro that [of ?h2 r]) simp_all
qed

subsection \<open>The kernel's heap\<close>

text \<open>The kernel's heap is in order, and its area and memory suffice for a growth that \<open>layout\<close> may need.\<close>

definition kernel_heap_ready where
  "kernel_heap_ready X bi P off tb rt pool L layout fs h sp \<longleftrightarrow>
     heap_at X bi P off tb rt pool L KERNEL_HEAP_START KERNEL_AP_STACKS {PRESENT, WRITABLE, NO_EXECUTE} fs h sp \<and> layout_ok layout \<and>
     KERNEL_HEAP_START + grown layout (h_total (lh_heap L) h) \<le> KERNEL_AP_STACKS \<and>
     4 * ((grown layout (h_total (lh_heap L) h) - h_total (lh_heap L) h) div 4096) \<le> length fs"

lemma kernel_final_rw: "kernel_final {PRESENT, WRITABLE, NO_EXECUTE} = {PRESENT, WRITABLE, NO_EXECUTE}"
  by (auto simp: kernel_final_def)

lemma kernel_allocated:
  assumes ready: "kernel_heap_ready X bi P off tb rt pool L layout fs h sp"
  obtains q h' m' n where "lh_alloc L (kernel_heap_rescue X bi P (lh_heap L)) layout (h, mach sp) = Inr (q, h', m')"
    "allocated X bi P off tb rt pool L KERNEL_HEAP_START KERNEL_AP_STACKS {PRESENT, WRITABLE, NO_EXECUTE} layout (drop n fs) h sp q h' m'"
    "kernel_rest P rt m' = kernel_rest P rt (mach sp)"
proof -
  have eq: "KERNEL_HEAP_START + (KERNEL_AP_STACKS - KERNEL_HEAP_START) = KERNEL_AP_STACKS" by (simp add: layout_values)
  have r: "mem_inv X bi P off tb rt pool (mach sp) fs" "locked_heap_ok L" "layout_ok layout"
    "heap_inv L (alook P off (mach sp)) KERNEL_HEAP_START KERNEL_AP_STACKS pool {PRESENT, WRITABLE, NO_EXECUTE} h"
    "grown layout (h_total (lh_heap L) h) \<le> KERNEL_AP_STACKS - KERNEL_HEAP_START"
    "4 * ((grown layout (h_total (lh_heap L) h) - h_total (lh_heap L) h) div 4096) \<le> length fs"
    using ready by (auto simp: kernel_heap_ready_def heap_at_def)
  obtain q h' m' n where "lh_alloc L (rescue X (lh_heap L) KERNEL_HEAP_START (map_ram_kernel X bi P)) layout (h, mach sp) = Inr (q, h', m')"
    "mem_inv X bi P off tb rt pool m' (drop n fs)"
    "heap_inv L (alook P off m') KERNEL_HEAP_START KERNEL_AP_STACKS pool {PRESENT, WRITABLE, NO_EXECUTE} h'" "placed L layout h q h'"
    "kernel_rest P rt m' = kernel_rest P rt (mach sp)" "\<forall>v\<in>lh_area L h. alook P off m' (page_of v) = alook P off (mach sp) (page_of v)"
    by (rule kernel_pool.alloc_serves [unfolded eq kernel_final_rw, OF r])
  then show ?thesis using r(2,4) kernel_range
    by (intro that [of q h' m' n]) (simp_all add: kernel_heap_rescue_def allocated_def heap_at_def)
qed

text \<open>
  C21: the kernel's allocator serves its clients as long as the heap's area and memory suffice for a possible
  growth.  It returns a null pointer or an aligned block in writable kernel memory that overlaps no live
  block, filled with zeros when that is asked for; live blocks keep their contents, the heap stays mapped
  and contiguous, and no user page of any address space changes.  Freeing the block removes that block only.
\<close>

theorem kernel_alloc_serves:
  assumes ready: "kernel_heap_ready X bi P off tb rt pool L layout fs h sp"
  shows "\<exists>q h' m' r n. kernel_alloc X bi P L layout (h, sp) = Inr (q, h', sp\<lparr>mach := m'\<rparr>) \<and>
    kernel_alloc_zeroed X bi P L layout (h, sp) = Inr (q, h', sp\<lparr>mach := m', ram := r\<rparr>) \<and>
    heap_at X bi P off tb rt pool L KERNEL_HEAP_START KERNEL_AP_STACKS {PRESENT, WRITABLE, NO_EXECUTE} (drop n fs) h' (sp\<lparr>mach := m'\<rparr>) \<and>
    placed L layout h q h' \<and>
    (q \<noteq> 0 \<longrightarrow> (\<forall>v\<in>{q..<q + l_size layout}. writable_at (alook P off m') v \<and> byte_at P off (sp\<lparr>mach := m', ram := r\<rparr>) v = 0)) \<and>
    blocks_kept P off (lh_blocks L h) sp (sp\<lparr>mach := m'\<rparr>) \<and> blocks_kept P off (lh_blocks L h) sp (sp\<lparr>mach := m', ram := r\<rparr>) \<and>
    (\<forall>t\<in>rt (page_tables (mach sp)). \<forall>p. \<not> kernel_page p \<longrightarrow> pg_look P (page_tables m') t p = pg_look P (page_tables (mach sp)) t p) \<and>
    (\<exists>h2. kernel_dealloc L q layout (h', sp\<lparr>mach := m'\<rparr>) = (h2, sp\<lparr>mach := m'\<rparr>) \<and>
       heap_at X bi P off tb rt pool L KERNEL_HEAP_START KERNEL_AP_STACKS {PRESENT, WRITABLE, NO_EXECUTE} (drop n fs) h2 (sp\<lparr>mach := m'\<rparr>) \<and>
       lh_blocks L h2 = lh_blocks L h' - {(q, l_size layout)})"
proof -
  let ?fl = "{PRESENT, WRITABLE, NO_EXECUTE}"
  obtain q h' m' n where al: "lh_alloc L (kernel_heap_rescue X bi P (lh_heap L)) layout (h, mach sp) = Inr (q, h', m')"
    and res: "allocated X bi P off tb rt pool L KERNEL_HEAP_START KERNEL_AP_STACKS ?fl layout (drop n fs) h sp q h' m'"
    and rest: "kernel_rest P rt m' = kernel_rest P rt (mach sp)" by (rule kernel_allocated [OF ready])
  have pos: "0 < l_size layout" using ready by (simp add: kernel_heap_ready_def layout_ok_def)
  obtain r where z: "heap_alloc_zeroed X bi P L (kernel_heap_rescue X bi P (lh_heap L)) layout (h, sp) = Inr (q, h', sp\<lparr>mach := m', ram := r\<rparr>)"
    "blocks_kept P off (lh_blocks L h) sp (sp\<lparr>mach := m', ram := r\<rparr>)"
    "q \<noteq> 0 \<longrightarrow> (\<forall>v\<in>{q..<q + l_size layout}. byte_at P off (sp\<lparr>mach := m', ram := r\<rparr>) v = 0)"
    by (rule heap_alloc_zeroed_ok [OF al pos res])
  let ?h2 = "lh_dealloc L q layout h'"
  have at: "heap_at X bi P off tb rt pool L KERNEL_HEAP_START KERNEL_AP_STACKS ?fl (drop n fs) h' (sp\<lparr>mach := m'\<rparr>)" and pl: "placed L layout h q h'"
    using res by (simp_all add: allocated_def)
  have L: "locked_heap_ok L" using at by (simp add: heap_at_def)
  have "heap_at X bi P off tb rt pool L KERNEL_HEAP_START KERNEL_AP_STACKS ?fl (drop n fs) ?h2 (sp\<lparr>mach := m'\<rparr>)"
    using at heap_inv_cong [of L "alook P off m'" _ _ pool ?fl h' ?h2] locked_heap_dealloc [OF L] by (simp add: heap_at_def Diff_subset)
  then have free: "\<exists>h2. kernel_dealloc L q layout (h', sp\<lparr>mach := m'\<rparr>) = (h2, sp\<lparr>mach := m'\<rparr>) \<and>
       heap_at X bi P off tb rt pool L KERNEL_HEAP_START KERNEL_AP_STACKS ?fl (drop n fs) h2 (sp\<lparr>mach := m'\<rparr>) \<and>
       lh_blocks L h2 = lh_blocks L h' - {(q, l_size layout)}"
    using locked_heap_dealloc(3) [OF L] by (simp add: kernel_dealloc_def)
  have bytes: "q \<noteq> 0 \<longrightarrow> (\<forall>v\<in>{q..<q + l_size layout}. writable_at (alook P off m') v \<and> byte_at P off (sp\<lparr>mach := m', ram := r\<rparr>) v = 0)"
    using z(3) allocated_writable [OF res] by blast
  have user: "\<forall>t\<in>rt (page_tables (mach sp)). \<forall>p. \<not> kernel_page p \<longrightarrow> pg_look P (page_tables m') t p = pg_look P (page_tables (mach sp)) t p"
    using kernel_rest_look [OF rest] by blast
  have "kernel_alloc X bi P L layout (h, sp) = Inr (q, h', sp\<lparr>mach := m'\<rparr>)" using al by (simp add: kernel_alloc_def heap_alloc_def)
  then show ?thesis using z(1) allocated_bytes(2) [OF res] unfolding kernel_alloc_zeroed_def
    by - (rule exI [of _ q], rule exI [of _ h'], rule exI [of _ m'], rule exI [of _ r], rule exI [of _ n], intro conjI, assumption+,
      rule at, rule pl, rule bytes, assumption, rule z(2), rule user, rule free)
qed

text \<open>Reallocation in the kernel: the bytes of the block move with it.\<close>

lemma kernel_realloc_keeps:
  assumes ready: "kernel_heap_ready X bi P off tb rt pool L (layout\<lparr>l_size := new_size\<rparr>) fs h sp" and old: "(q0, l_size layout) \<in> lh_blocks L h"
  shows "\<exists>q h' sp' n. kernel_realloc X bi P L q0 layout new_size (h, sp) = Inr (q, h', sp') \<and>
    (if q = 0 then lh_blocks L h' = lh_blocks L h
     else lh_blocks L h' = insert (q, new_size) (lh_blocks L h) - {(q0, l_size layout)} \<and>
       (\<forall>i<min (l_size layout) new_size. byte_at P off sp' (q + i) = byte_at P off sp (q0 + i))) \<and>
    heap_at X bi P off tb rt pool L KERNEL_HEAP_START KERNEL_AP_STACKS {PRESENT, WRITABLE, NO_EXECUTE} (drop n fs) h' sp' \<and>
    blocks_kept P off (lh_blocks L h) sp sp'"
proof -
  let ?lay = "layout\<lparr>l_size := new_size\<rparr>" and ?fl = "{PRESENT, WRITABLE, NO_EXECUTE}" and ?R = "kernel_heap_rescue X bi P (lh_heap L)"
  obtain q h' m' n where al: "lh_alloc L ?R ?lay (h, mach sp) = Inr (q, h', m')"
    and res: "allocated X bi P off tb rt pool L KERNEL_HEAP_START KERNEL_AP_STACKS ?fl ?lay (drop n fs) h sp q h' m'"
    by (rule kernel_allocated [OF ready])
  have pos: "0 < new_size" using ready by (simp add: kernel_heap_ready_def layout_ok_def)
  show ?thesis
  proof (cases "q = 0")
    case True
    with al have "kernel_realloc X bi P L q0 layout new_size (h, sp) = Inr (0, h', sp\<lparr>mach := m'\<rparr>)"
      by (simp add: kernel_realloc_def heap_realloc_def heap_alloc_def)
    with True res allocated_bytes(2) [OF res] show ?thesis
      by (intro exI [of _ 0] exI [of _ h'] exI [of _ "sp\<lparr>mach := m'\<rparr>"] exI [of _ n]) (auto simp: allocated_def placed_def)
  next
    case False
    show ?thesis
      by (rule heap_realloc_ok [OF al pos False res old]) (use False in \<open>auto simp: kernel_realloc_def\<close>)
  qed
qed

subsection \<open>A concrete heap\<close>

text \<open>A first-fit heap: its size, its ranges and its live blocks.\<close>

type_synonym first_fit = "nat \<times> (nat \<times> nat) list \<times> (nat \<times> nat) list"

definition fit :: "Layout \<Rightarrow> first_fit \<Rightarrow> nat option" where
  "fit layout = (\<lambda>(t, rs, bs).
     find (\<lambda>q. q \<noteq> 0 \<and> l_align layout dvd q \<and> list_ex (\<lambda>(a, b). a \<le> q \<and> q + l_size layout \<le> b) rs \<and>
         list_all (\<lambda>(p, n). p + n \<le> q \<or> q + l_size layout \<le> p) bs) (map fst rs @ map (\<lambda>(p, n). p + n) bs))"

definition put :: "Layout \<Rightarrow> first_fit \<times> 'pt machine \<Rightarrow> (nat \<times> first_fit \<times> 'pt machine) option" where
  "put layout = (\<lambda>((t, rs, bs), m). map_option (\<lambda>q. (q, (t, rs, (q, l_size layout) # bs), m)) (fit layout (t, rs, bs)))"

definition lheap_ref :: "('pt, first_fit) locked_heap" where
  "lheap_ref = \<lparr>
     lh_heap = \<lparr>h_new = (0, [], []), h_total = fst, h_add = (\<lambda>a b (t, rs, bs). (t + (b - a), (a, b) # rs, bs))\<rparr>,
     lh_alloc = (\<lambda>R layout (h, m). case put layout (h, m) of
        Some r \<Rightarrow> Inr r
      | None \<Rightarrow> bnd (R layout (h, m)) (\<lambda>(h, m). case put layout (h, m) of Some r \<Rightarrow> Inr r | None \<Rightarrow> Inr (0, h, m))),
     lh_dealloc = (\<lambda>p layout (t, rs, bs). (t, rs, filter (\<lambda>b. b \<noteq> (p, l_size layout)) bs)),
     lh_area = (\<lambda>(t, rs, bs). \<Union>(a, b)\<in>set rs. {a..<b}),
     lh_blocks = (\<lambda>(t, rs, bs). set bs)\<rparr>"

lemma put_ok:
  fixes m :: "'pt machine" and L :: "('pt, first_fit) locked_heap"
  assumes L: "L = lheap_ref" and put: "put layout (h, m) = Some (q, h', m')"
  shows "m' = m" "q \<noteq> 0" "l_align layout dvd q" "h_total (lh_heap L) h' = h_total (lh_heap L) h"
    "lh_area L h' = lh_area L h" "block_bytes (q, l_size layout) \<subseteq> lh_area L h"
    "lh_blocks L h' = insert (q, l_size layout) (lh_blocks L h)"
    "\<forall>b\<in>lh_blocks L h. block_bytes b \<inter> block_bytes (q, l_size layout) = {}"
proof -
  obtain t rs bs where h: "h = (t, rs, bs)" by (cases h)
  then have f: "fit layout h = Some q" and h': "h' = (t, rs, (q, l_size layout) # bs)" and m: "m' = m" using put by (auto simp: put_def)
  have sel: "lh_area L (t, rs, bs') = (\<Union>(a, b)\<in>set rs. {a..<b})" "lh_blocks L (t, rs, bs') = set bs'" "h_total (lh_heap L) (t, rs, bs') = t" for bs'
    by (simp_all add: L lheap_ref_def)
  have q: "q \<noteq> 0" "l_align layout dvd q" "list_ex (\<lambda>(a, b). a \<le> q \<and> q + l_size layout \<le> b) rs"
    "list_all (\<lambda>(p, n). p + n \<le> q \<or> q + l_size layout \<le> p) bs"
    using f unfolding h fit_def by (auto simp: find_Some_iff)
  show "m' = m" "q \<noteq> 0" "l_align layout dvd q" by (fact m q(1) q(2))+
  show "h_total (lh_heap L) h' = h_total (lh_heap L) h" "lh_area L h' = lh_area L h"
    "lh_blocks L h' = insert (q, l_size layout) (lh_blocks L h)"
    unfolding h h' sel by simp_all
  from q(3) obtain a b where ab: "(a, b) \<in> set rs" "a \<le> q" "q + l_size layout \<le> b" by (auto simp: list_ex_iff)
  have "block_bytes (q, l_size layout) \<subseteq> {a..<b}" using ab(2,3) by (auto simp: block_bytes_def)
  also have "\<dots> \<subseteq> lh_area L h" unfolding h sel using ab(1) by auto
  finally show "block_bytes (q, l_size layout) \<subseteq> lh_area L h" .
  show "\<forall>b\<in>lh_blocks L h. block_bytes b \<inter> block_bytes (q, l_size layout) = {}"
    using q(4) unfolding h sel by (auto simp: block_bytes_def list_all_iff)
qed

lemma lheap_ref_alloc:
  assumes "lh_alloc lheap_ref R layout (h, m) = Inr (q, h', m')"
  shows "\<exists>h1. (h1 = h \<and> m' = m \<or> R layout (h, m) = Inr (h1, m')) \<and>
    (q = 0 \<and> h' = h1 \<or> put layout (h1, m') = Some (q, h', m'))"
proof (cases "put layout (h, m)")
  case (Some r)
  moreover from this assms have "r = (q, h', m')" by (simp add: lheap_ref_def)
  ultimately show ?thesis using put_ok(1) [OF refl, of layout h m q h' m'] by (intro exI [of _ h]) auto
next
  case None
  then obtain h1 m1 where r: "R layout (h, m) = Inr (h1, m1)"
    "(case put layout (h1, m1) of Some r \<Rightarrow> Inr r | None \<Rightarrow> Inr (0, h1, m1)) = (Inr (q, h', m') :: (nat \<times> first_fit \<times> 'a machine) res)"
    using assms by (auto simp: lheap_ref_def bnd_def split: sum.splits)
  then show ?thesis using put_ok(1) [OF refl, of layout h1 m1] by (intro exI [of _ h1]) (auto split: option.splits)
qed

lemma lheap_ref_laws:
  fixes L :: "('pt, first_fit) locked_heap"
  assumes L: "L = lheap_ref"
  shows "locked_heap_ok L"
  unfolding locked_heap_ok_def
proof (intro conjI allI impI)
  fix R layout and h :: first_fit and m :: "'pt machine" and q h' m'
  assume "lh_alloc L R layout (h, m) = Inr (q, h', m')"
  from lheap_ref_alloc [OF this [unfolded L]] obtain h1 where h1: "h1 = h \<and> m' = m \<or> R layout (h, m) = Inr (h1, m')"
    "q = 0 \<and> h' = h1 \<or> put layout (h1, m') = Some (q, h', m')" by blast
  then show "\<exists>h1. (h1 = h \<and> m' = m \<or> R layout (h, m) = Inr (h1, m')) \<and>
      h_total (lh_heap L) h' = h_total (lh_heap L) h1 \<and> lh_area L h' = lh_area L h1 \<and> placed L layout h1 q h'"
    using put_ok [OF L, of layout h1 m' q h' m'] by (intro exI [of _ h1]) (auto simp: placed_def)
next
  fix R layout and h :: first_fit and m :: "'pt machine" and e
  assume "lh_alloc L R layout (h, m) = Inl e"
  then show "R layout (h, m) = Inl e" by (auto simp: L lheap_ref_def bnd_def split: option.splits sum.splits)
qed (auto simp: L lheap_ref_def heap_lib_ok_def split: prod.splits)

lemmas lheap_ref_ok = lheap_ref_laws [OF refl]

abbreviation heap_app :: "(pt_ref, first_fit) locked_heap" where
  "heap_app \<equiv> lheap_ref"

abbreviation layout_app :: Layout where
  "layout_app \<equiv> \<lparr>l_size = 8, l_align = 1\<rparr>"

lemma layout_app_ok: "layout_ok layout_app" "grown layout_app 0 = 4096"
proof -
  have "npot 8 = 8" using npot_eqI [of 8 3] by simp
  then show "grown layout_app 0 = 4096" by (simp add: grown_def)
qed (auto simp: layout_ok_def intro!: exI [of _ 0])

lemma machine_app:
  obtains m fs where "inv_frames 40 m fs" "length fs = 40" "\<forall>p. alook paging_ref off_mem m p = None"
proof -
  obtain s fs where "inv_frames 40 s fs" "length fs = 40" "page_tables s = pt_mem" by (rule new_memory_frames [of 40]) simp_all
  then show ?thesis by (intro that [of s fs]) (simp_all add: paging_ref_def)
qed

lemma empty_heap:
  assumes "\<forall>p. look p = None" "start \<le> limit"
  shows "heap_inv heap_app look start limit pool fl (0, [], [])"
  using assms by (simp add: heap_inv_def lheap_ref_def heap_size_ok_def)

theorem kernel_alloc_serves_witness:
  "\<exists>m q h' sp'. kernel_alloc_zeroed x86_ref (bi_frames 40) paging_ref heap_app layout_app ((0, [], []), \<lparr>mach = m, ram = \<lambda>_. 7\<rparr>) = Inr (q, h', sp') \<and>
     (q \<noteq> 0 \<longrightarrow> byte_at paging_ref off_mem sp' q = 0)"
proof -
  obtain m fs where m: "inv_frames 40 m fs" "length fs = 40" "\<forall>p. alook paging_ref off_mem m p = None" by (rule machine_app)
  let ?sp = "\<lparr>mach = m, ram = \<lambda>_. 7\<rparr>" and ?h = "(0, [], []) :: first_fit"
  have "heap_inv heap_app (alook paging_ref off_mem m) KERNEL_HEAP_START KERNEL_AP_STACKS (pool_frames 40) {PRESENT, WRITABLE, NO_EXECUTE} ?h"
    using m(3) by (intro empty_heap) (simp_all add: layout_values)
  moreover have "h_total (lh_heap heap_app) ?h = 0" by (simp add: lheap_ref_def)
  ultimately have "kernel_heap_ready x86_ref (bi_frames 40) paging_ref off_mem (tb_ref off_mem) (rt_ref off_mem) (pool_frames 40) heap_app
      layout_app fs ?h ?sp"
    using m(1,2) lheap_ref_ok [where 'pt = pt_ref] kernel_range layout_app_ok by (simp add: kernel_heap_ready_def heap_at_def layout_values)
  from kernel_alloc_serves [OF this] obtain q h' m' r where
    k: "kernel_alloc_zeroed x86_ref (bi_frames 40) paging_ref heap_app layout_app (?h, ?sp) = Inr (q, h', ?sp\<lparr>mach := m', ram := r\<rparr>)"
    "q \<noteq> 0 \<longrightarrow> (\<forall>v\<in>{q..<q + l_size layout_app}. writable_at (alook paging_ref off_mem m') v \<and>
       byte_at paging_ref off_mem (?sp\<lparr>mach := m', ram := r\<rparr>) v = 0)" by (elim exE conjE)
  from k(2) have "q \<noteq> 0 \<longrightarrow> byte_at paging_ref off_mem (?sp\<lparr>mach := m', ram := r\<rparr>) q = 0" by simp
  with k(1) show ?thesis by blast
qed

end
