(* ===== verification/User_Functions.thy ===== *)
theory User_Functions
  imports App_Test Screen Utf8 Locked_Heap
begin

text \<open>
  The functions that the kernel offers to programs, module \<open>user_functions\<close> of kernel/src/loader.rs,
  and their callers in the programs, user_app/src/os_functions.rs: printing and the heap.  \<open>abort\<close> is in
  the theory \<open>App_Switch\<close>.

  \<open>services\<close> is what the functions work on: memory seen through the active table, the kernel's
  statics, the screen, and the application resources behind the pointer in the core-local data.  The
  heap of a program is a \<open>locked_heap\<close> with the rescue function that \<open>create_user_heap\<close> passes to the crate.
\<close>

record ('pt, 'h, 'd) services =
  sv_space :: "'pt space"
  sv_kernel :: "'d kernel"
  sv_screen :: screen
  sv_resources :: "nat \<rightharpoonup> 'h ApplicationResources"

subsection \<open>The kernel's side\<close>

definition user_print ::
  "x86 \<Rightarrow> BootInfo \<Rightarrow> ('pt, 'e) paging \<Rightarrow> font \<Rightarrow> nat \<Rightarrow> nat \<Rightarrow> ('pt, 'h, 'd) services \<Rightarrow> ('pt, 'h, 'd) services res"
where
  "user_print X bi P F string len st =
     bnd (load_bytes X bi P string len (sv_space st)) (\<lambda>slice.
     bnd (unwrap (from_utf8 slice)) (\<lambda>text.
     bnd (stdout_print bi F text (sv_screen st)) (\<lambda>s.
     Inr (st\<lparr>sv_screen := s\<rparr>))))"

text \<open>The pointer to the resources of the running program, and the resources behind it.\<close>

definition running_resources :: "'d hw \<Rightarrow> ('pt, 'h, 'd) services \<Rightarrow> (nat \<times> 'h ApplicationResources \<times> ('pt, 'h, 'd) services) res" where
  "running_resources H st =
     bnd (get_cld H (sv_kernel st)) (\<lambda>(i, k).
     bnd (unwrap (running_application_data (cld i k))) (\<lambda>d.
     case sv_resources st (application_resources d) of
       None \<Rightarrow> Inl UndefinedBehaviour
     | Some app_res \<Rightarrow> Inr (application_resources d, app_res, st\<lparr>sv_kernel := k\<rparr>)))"

definition user_alloc ::
  "x86 \<Rightarrow> BootInfo \<Rightarrow> ('pt, 'e) paging \<Rightarrow> ('pt, 'h) locked_heap \<Rightarrow> 'd hw \<Rightarrow> nat \<Rightarrow> nat \<Rightarrow> ('pt, 'h, 'd) services \<Rightarrow>
   (nat \<times> ('pt, 'h, 'd) services) res"
where
  "user_alloc X bi P L H sz alignment st =
     (let layout = \<lparr>l_size = sz, l_align = alignment\<rparr> in
      bnd (running_resources H st) (\<lambda>(ptr, app_res, st).
      bnd (lh_alloc L (user_heap_rescue X bi P (lh_heap L)) layout (heap app_res, mach (sv_space st))) (\<lambda>(p, h, m).
      Inr (p, st\<lparr>sv_space := (sv_space st)\<lparr>mach := m\<rparr>, sv_resources := (sv_resources st)(ptr \<mapsto> app_res\<lparr>heap := h\<rparr>)\<rparr>))))"

definition user_dealloc ::
  "('pt, 'h) locked_heap \<Rightarrow> 'd hw \<Rightarrow> nat \<Rightarrow> nat \<Rightarrow> nat \<Rightarrow> ('pt, 'h, 'd) services \<Rightarrow> ('pt, 'h, 'd) services res"
where
  "user_dealloc L H p sz alignment st =
     (let layout = \<lparr>l_size = sz, l_align = alignment\<rparr> in
      bnd (running_resources H st) (\<lambda>(ptr, app_res, st).
      Inr (st\<lparr>sv_resources := (sv_resources st)(ptr \<mapsto> app_res\<lparr>heap := lh_dealloc L p layout (heap app_res)\<rparr>)\<rparr>)))"

subsection \<open>The program's side\<close>

text \<open>
  The allocator of a program forwards to the kernel and keeps the default \<open>realloc\<close> of the language: a
  new block, a copy, and the old block is freed.  A string is its pointer, capacity and length; it grows
  to at least twice its capacity and to at least 8 bytes.  An allocation that fails is a panic.
\<close>

definition user_realloc where
  "user_realloc X bi P L H ptr sz alignment new_size st =
     bnd (user_alloc X bi P L H new_size alignment st) (\<lambda>(p, st).
     if p = 0 then Inr (0, st)
     else
       bnd (load_bytes X bi P ptr (min sz new_size) (sv_space st)) (\<lambda>bs.
       bnd (store_bytes X bi P p bs (sv_space st)) (\<lambda>sp.
       bnd (user_dealloc L H ptr sz alignment (st\<lparr>sv_space := sp\<rparr>)) (\<lambda>st.
       Inr (p, st)))))"

record String =
  str_ptr :: nat
  str_cap :: nat
  str_len :: nat

definition set_capacity where
  "set_capacity X bi P L H cap = (\<lambda>(buf, st).
     bnd (if str_cap buf = 0 then user_alloc X bi P L H cap 1 st
          else user_realloc X bi P L H (str_ptr buf) (str_cap buf) 1 cap st) (\<lambda>(p, st).
     if p = 0 then Inl (Explicit ''memory allocation failed'')
     else Inr (buf\<lparr>str_ptr := p, str_cap := cap\<rparr>, st)))"

definition reserve where
  "reserve X bi P L H additional = (\<lambda>(buf, st).
     if additional \<le> str_cap buf - str_len buf then Inr (buf, st)
     else if 2 ^ 63 \<le> str_len buf + additional then Inl (Explicit ''capacity overflow'')
     else set_capacity X bi P L H (max (max (2 * str_cap buf) (str_len buf + additional)) 8) (buf, st))"

definition push_str where
  "push_str X bi P L H bs = (\<lambda>(buf, st).
     bnd (reserve X bi P L H (length bs) (buf, st)) (\<lambda>(buf, st).
     bnd (store_bytes X bi P (str_ptr buf + str_len buf) bs (sv_space st)) (\<lambda>sp.
     Inr (buf\<lparr>str_len := str_len buf + length bs\<rparr>, st\<lparr>sv_space := sp\<rparr>))))"

definition print_str where
  "print_str X bi P F buf st = user_print X bi P F (str_ptr buf) (str_len buf) st"

text \<open>
  \<open>_print_fmt_contiguous\<close>: the arguments are written piece by piece into the common buffer, which is
  printed in one call, emptied, and shrunk when it has become large.
\<close>

definition print_fmt_contiguous where
  "print_fmt_contiguous X bi P F L H pieces = (\<lambda>(buf, st).
     bnd (foldm (push_str X bi P L H) (map utf8_encode pieces) (buf, st)) (\<lambda>(buf, st).
     bnd (print_str X bi P F buf st) (\<lambda>st.
     let buf = buf\<lparr>str_len := 0\<rparr> in
     if 4096 < str_cap buf then set_capacity X bi P L H 4096 (buf, st) else Inr (buf, st))))"

text \<open>The macro \<open>println\<close> adds a line feed.  \<open>_print_fmt\<close> hands every piece to the kernel as it comes.\<close>

definition println_contiguous where
  "println_contiguous X bi P F L H pieces = print_fmt_contiguous X bi P F L H (pieces @ [[10]])"

definition print_fmt where
  "print_fmt X bi P F = foldm (\<lambda>(string, len). user_print X bi P F string len)"

subsection \<open>The running program\<close>

abbreviation heap_flags :: PageTableFlags where
  "heap_flags \<equiv> {PRESENT, WRITABLE, NO_EXECUTE, USER_ACCESSIBLE}"

definition serving :: "'d hw \<Rightarrow> u64 \<Rightarrow> u8 \<Rightarrow> nat \<Rightarrow> 'h ApplicationResources \<Rightarrow> ('pt, 'h, 'd) services \<Rightarrow> bool" where
  "serving H p a ptr res st \<longleftrightarrow> runs_on H p a \<and> kernel_ok p (sv_kernel st) \<and> sv_resources st ptr = Some res \<and>
     (\<exists>c d. has_cld a (sv_kernel st) c \<and> running_application_data c = Some d \<and> application_resources d = ptr)"

text \<open>The state with another heap of the program and other memory.\<close>

definition with_heap where
  "with_heap ptr res h sp st = st\<lparr>sv_space := sp, sv_resources := (sv_resources st)(ptr \<mapsto> res\<lparr>heap := h\<rparr>)\<rparr>"

lemma with_heap_simps [simp]:
  "sv_space (with_heap ptr res h sp st) = sp" "sv_screen (with_heap ptr res h sp st) = sv_screen st"
  "with_heap ptr (res\<lparr>heap := h\<rparr>) h' sp' (with_heap ptr res h sp st) = with_heap ptr res h' sp' st"
  "(with_heap ptr res h sp st)\<lparr>sv_space := sp'\<rparr> = with_heap ptr res h sp' st"
  by (simp_all add: with_heap_def)

lemma serving_with_heap [intro]: "serving H p a ptr res st \<Longrightarrow> serving H p a ptr (res\<lparr>heap := h\<rparr>) (with_heap ptr res h sp st)"
  by (simp add: serving_def with_heap_def)

lemma running_resources_ok:
  assumes "serving H p a ptr res st"
  shows "running_resources H st = Inr (ptr, res, st)"
proof -
  obtain c d where c: "runs_on H p a" "kernel_ok p (sv_kernel st)" "sv_resources st ptr = Some res"
    "has_cld a (sv_kernel st) c" "running_application_data c = Some d" "application_resources d = ptr"
    using assms by (auto simp: serving_def)
  from get_cld_ok [OF c(1,2,4)] c(3,5,6) show ?thesis by (simp add: running_resources_def)
qed

text \<open>The functions are those of the locked heap, on the heap of the running program.\<close>

lemma user_alloc_eq:
  assumes "serving H p a ptr res st"
  shows "user_alloc X bi P L H sz al st =
    bnd (heap_alloc L (user_heap_rescue X bi P (lh_heap L)) \<lparr>l_size = sz, l_align = al\<rparr> (heap res, sv_space st))
      (\<lambda>(q, h, sp). Inr (q, with_heap ptr res h sp st))"
  using running_resources_ok [OF assms]
  by (simp add: user_alloc_def heap_alloc_def with_heap_def Let_def bnd_def split: sum.splits prod.splits)

lemma user_dealloc_eq:
  assumes "serving H p a ptr res st"
  shows "user_dealloc L H q sz al st = Inr (with_heap ptr res (lh_dealloc L q \<lparr>l_size = sz, l_align = al\<rparr> (heap res)) (sv_space st) st)"
  using running_resources_ok [OF assms] by (simp add: user_dealloc_def with_heap_def Let_def)

lemma user_realloc_eq:
  assumes sv: "serving H p a ptr res st"
  shows "user_realloc X bi P L H q0 sz al new_size st =
    bnd (heap_realloc X bi P L (user_heap_rescue X bi P (lh_heap L)) q0 \<lparr>l_size = sz, l_align = al\<rparr> new_size (heap res, sv_space st))
      (\<lambda>(q, h, sp). Inr (q, with_heap ptr res h sp st))"
proof -
  let ?R = "user_heap_rescue X bi P (lh_heap L)" and ?lay = "\<lparr>l_size = new_size, l_align = al\<rparr>"
  have "user_dealloc L H q0 sz al (with_heap ptr res h sp st) =
      Inr (with_heap ptr res (lh_dealloc L q0 \<lparr>l_size = sz, l_align = al\<rparr> h) sp st)" for h sp
    using user_dealloc_eq [OF serving_with_heap [OF sv, of h sp]] by simp
  then show ?thesis unfolding user_realloc_def heap_realloc_def user_alloc_eq [OF sv]
    by (cases "heap_alloc L ?R ?lay (heap res, sv_space st)") (auto simp: bnd_def split: sum.splits)
qed

subsection \<open>The heap of the running program\<close>

text \<open>\<open>program_ok\<close>: a program runs, and its heap is in order.  \<open>user_heap_ready\<close>: an allocation of \<open>layout\<close> can grow it.\<close>

definition program_ok where
  "program_ok X bi P off tb rt pool L H p a ptr fs res st \<longleftrightarrow>
     heap_at X bi P off tb rt pool L USER_HEAP_START USER_END heap_flags fs (heap res) (sv_space st) \<and> serving H p a ptr res st"

definition user_heap_ready where
  "user_heap_ready X bi P off tb rt pool L H p a ptr layout fs res st \<longleftrightarrow>
     program_ok X bi P off tb rt pool L H p a ptr fs res st \<and> layout_ok layout \<and>
     USER_HEAP_START + grown layout (h_total (lh_heap L) (heap res)) \<le> USER_END \<and>
     4 * ((grown layout (h_total (lh_heap L) (heap res)) - h_total (lh_heap L) (heap res)) div 4096) \<le> length fs"

lemma user_area: "USER_HEAP_START + (USER_END - USER_HEAP_START) = USER_END"
  "user_final {PRESENT, WRITABLE, NO_EXECUTE} = heap_flags"
  by (auto simp: layout_values user_final_def)

lemma user_allocated:
  assumes ready: "user_heap_ready X bi P off tb rt pool L H p a ptr layout fs res st"
  obtains q h' m' n where "lh_alloc L (user_heap_rescue X bi P (lh_heap L)) layout (heap res, mach (sv_space st)) = Inr (q, h', m')"
    "allocated X bi P off tb rt pool L USER_HEAP_START USER_END heap_flags layout (drop n fs) (heap res) (sv_space st) q h' m'"
    "user_rest P off rt m' = user_rest P off rt (mach (sv_space st))"
proof -
  let ?m = "mach (sv_space st)" and ?h = "heap res"
  have r: "mem_inv X bi P off tb rt pool ?m fs" "locked_heap_ok L" "layout_ok layout"
    "heap_inv L (alook P off ?m) USER_HEAP_START USER_END pool heap_flags ?h"
    "grown layout (h_total (lh_heap L) ?h) \<le> USER_END - USER_HEAP_START"
    "4 * ((grown layout (h_total (lh_heap L) ?h) - h_total (lh_heap L) ?h) div 4096) \<le> length fs"
    using ready by (auto simp: user_heap_ready_def program_ok_def heap_at_def)
  obtain q h' m' n where "lh_alloc L (rescue X (lh_heap L) USER_HEAP_START (map_ram_user X bi P)) layout (?h, ?m) = Inr (q, h', m')"
    "mem_inv X bi P off tb rt pool m' (drop n fs)" "heap_inv L (alook P off m') USER_HEAP_START USER_END pool heap_flags h'"
    "placed L layout ?h q h'" "user_rest P off rt m' = user_rest P off rt ?m"
    "\<forall>v\<in>lh_area L ?h. alook P off m' (page_of v) = alook P off ?m (page_of v)"
    by (rule user_pool.alloc_serves [unfolded user_area, OF r])
  then show ?thesis using r(2,4) user_range
    by (intro that [of q h' m' n]) (simp_all add: user_heap_rescue_def allocated_def heap_at_def)
qed

text \<open>
  C14: an allocation of the running program returns, as long as memory and the program's address range
  suffice for a possible growth of its heap.  The result is a null pointer or an aligned block that
  overlaps no live block and whose every byte is in a writable page of the program; the pages of the
  heap stay mapped and contiguous, and the live blocks keep their contents and all other address spaces
  their mappings.  Freeing the block removes that block only.
\<close>

theorem user_alloc_serves:
  fixes st :: "('pt, 'h, 'd) services"
  assumes ready: "user_heap_ready X bi P off tb rt pool L H p a ptr \<lparr>l_size = sz, l_align = al\<rparr> fs res st"
  shows "\<exists>q h' m' n. let sp = (sv_space st)\<lparr>mach := m'\<rparr>; st' = with_heap ptr res h' sp st in
    user_alloc X bi P L H sz al st = Inr (q, st') \<and> program_ok X bi P off tb rt pool L H p a ptr (drop n fs) (res\<lparr>heap := h'\<rparr>) st' \<and>
    placed L \<lparr>l_size = sz, l_align = al\<rparr> (heap res) q h' \<and> (q \<noteq> 0 \<longrightarrow> (\<forall>v\<in>{q..<q + sz}. writable_at (alook P off m') v)) \<and>
    blocks_kept P off (lh_blocks L (heap res)) (sv_space st) sp \<and>
    (\<forall>r\<in>rt (page_tables (mach (sv_space st))). \<forall>v. r \<noteq> active off (mach (sv_space st)) \<longrightarrow>
       pg_look P (page_tables m') r v = pg_look P (page_tables (mach (sv_space st))) r v) \<and>
    (\<exists>h2. user_dealloc L H q sz al st' = Inr (with_heap ptr res h2 sp st) \<and>
       program_ok X bi P off tb rt pool L H p a ptr (drop n fs) (res\<lparr>heap := h2\<rparr>) (with_heap ptr res h2 sp st) \<and>
       lh_blocks L h2 = lh_blocks L h' - {(q, sz)})"
proof -
  let ?lay = "\<lparr>l_size = sz, l_align = al\<rparr>"
  have sv: "serving H p a ptr res st" using ready by (simp add: user_heap_ready_def program_ok_def)
  obtain q h' m' n where al: "lh_alloc L (user_heap_rescue X bi P (lh_heap L)) ?lay (heap res, mach (sv_space st)) = Inr (q, h', m')"
    and res: "allocated X bi P off tb rt pool L USER_HEAP_START USER_END heap_flags ?lay (drop n fs) (heap res) (sv_space st) q h' m'"
    and rest: "user_rest P off rt m' = user_rest P off rt (mach (sv_space st))" by (rule user_allocated [OF ready])
  let ?sp = "(sv_space st)\<lparr>mach := m'\<rparr>" and ?h2 = "lh_dealloc L q ?lay h'"
  have at: "heap_at X bi P off tb rt pool L USER_HEAP_START USER_END heap_flags (drop n fs) h' ?sp" and pl: "placed L ?lay (heap res) q h'"
    using res by (simp_all add: allocated_def)
  have L: "locked_heap_ok L" using at by (simp add: heap_at_def)
  have "user_alloc X bi P L H sz al st = Inr (q, with_heap ptr res h' ?sp st)"
    using al by (simp add: user_alloc_eq [OF sv] heap_alloc_def)
  moreover have "user_dealloc L H q sz al (with_heap ptr res h' ?sp st) = Inr (with_heap ptr res ?h2 ?sp st)"
    using user_dealloc_eq [OF serving_with_heap [OF sv, of h' ?sp]] by simp
  moreover have "heap_at X bi P off tb rt pool L USER_HEAP_START USER_END heap_flags (drop n fs) ?h2 ?sp"
    using at heap_inv_cong [of L "alook P off m'" _ _ pool heap_flags h' ?h2] locked_heap_dealloc [OF L] by (simp add: heap_at_def Diff_subset)
  moreover have "\<forall>r\<in>rt (page_tables (mach (sv_space st))). \<forall>v. r \<noteq> active off (mach (sv_space st)) \<longrightarrow>
       pg_look P (page_tables m') r v = pg_look P (page_tables (mach (sv_space st))) r v"
    using user_rest_look [OF rest] by blast
  moreover have "q \<noteq> 0 \<longrightarrow> (\<forall>v\<in>{q..<q + sz}. writable_at (alook P off m') v)" using allocated_writable [OF res] by simp
  moreover have "lh_blocks L ?h2 = lh_blocks L h' - {(q, sz)}" using locked_heap_dealloc(3) [OF L] by simp
  ultimately show ?thesis using at pl allocated_bytes(2) [OF res] serving_with_heap [OF sv] unfolding Let_def program_ok_def
    by - (rule exI [of _ q], rule exI [of _ h'], rule exI [of _ m'], rule exI [of _ n], intro conjI exI [of _ ?h2], simp_all)
qed

subsection \<open>The buffer of a program\<close>

text \<open>An empty buffer, or a live block whose first bytes are the text.\<close>

definition buffer_ok where
  "buffer_ok L buf h \<longleftrightarrow> str_len buf \<le> str_cap buf \<and> (str_cap buf = 0 \<or> (str_ptr buf, str_cap buf) \<in> lh_blocks L h)"

definition contents where
  "contents P off buf sp = map (\<lambda>i. byte_at P off sp (str_ptr buf + i)) [0..<str_len buf]"

text \<open>The blocks of the program other than the buffer.\<close>

definition other_blocks where
  "other_blocks L buf h = lh_blocks L h - {(str_ptr buf, str_cap buf)}"

lemma program_heap: "program_ok X bi P off tb rt pool L H p a ptr fs res st \<Longrightarrow>
    heap_at X bi P off tb rt pool L USER_HEAP_START USER_END heap_flags fs (heap res) (sv_space st)"
  by (simp add: program_ok_def)

lemma push_fits:
  assumes ok: "program_ok X bi P off tb rt pool L H p a ptr fs res st" and buf: "buffer_ok L buf (heap res)"
    and fits: "length bs \<le> str_cap buf - str_len buf"
  obtains r where
    "push_str X bi P L H bs (buf, st) = Inr (buf\<lparr>str_len := str_len buf + length bs\<rparr>, st\<lparr>sv_space := (sv_space st)\<lparr>ram := r\<rparr>\<rparr>)"
    "contents P off (buf\<lparr>str_len := str_len buf + length bs\<rparr>) ((sv_space st)\<lparr>ram := r\<rparr>) = contents P off buf (sv_space st) @ bs"
    "blocks_kept P off (other_blocks L buf (heap res)) (sv_space st) ((sv_space st)\<lparr>ram := r\<rparr>)"
proof (cases "str_cap buf = 0")
  case True
  then have "bs = []" using fits by simp
  moreover from this have "push_str X bi P L H bs (buf, st) = Inr (buf, st)" by (simp add: push_str_def reserve_def)
  ultimately show ?thesis by (intro that [of "ram (sv_space st)"]) (simp_all add: blocks_kept_def)
next
  case False
  let ?v = "str_ptr buf + str_len buf" and ?sp = "sv_space st" and ?buf = "buf\<lparr>str_len := str_len buf + length bs\<rparr>"
  have blk: "(str_ptr buf, str_cap buf) \<in> lh_blocks L (heap res)" and len: "str_len buf + length bs \<le> str_cap buf"
    using buf False fits by (auto simp: buffer_ok_def)
  obtain r where r: "store_bytes X bi P ?v bs ?sp = Inr (?sp\<lparr>ram := r\<rparr>)"
    "\<forall>i<length bs. byte_at P off (?sp\<lparr>ram := r\<rparr>) (?v + i) = bs ! i"
    "\<forall>w\<in>{str_ptr buf..<str_ptr buf + str_cap buf} - {?v..<?v + length bs}. byte_at P off (?sp\<lparr>ram := r\<rparr>) w = byte_at P off ?sp w"
    "blocks_kept P off (lh_blocks L (heap res) - {(str_ptr buf, str_cap buf)}) ?sp (?sp\<lparr>ram := r\<rparr>)"
    by (rule store_block [OF program_heap [OF ok] blk, of ?v bs]) (use len in simp_all)
  have "contents P off ?buf (?sp\<lparr>ram := r\<rparr>) = contents P off buf ?sp @ bs"
  proof (rule nth_equalityI)
    fix i assume "i < length (contents P off ?buf (?sp\<lparr>ram := r\<rparr>))"
    then have i: "i < str_len buf + length bs" by (simp add: contents_def)
    show "contents P off ?buf (?sp\<lparr>ram := r\<rparr>) ! i = (contents P off buf ?sp @ bs) ! i"
    proof (cases "i < str_len buf")
      case True
      then show ?thesis using r(3) len by (simp add: contents_def nth_append)
    next
      case False
      then show ?thesis using r(2) [rule_format, of "i - str_len buf"] i by (simp add: contents_def nth_append)
    qed
  qed (simp add: contents_def)
  moreover have "push_str X bi P L H bs (buf, st) = Inr (?buf, st\<lparr>sv_space := ?sp\<lparr>ram := r\<rparr>\<rparr>)"
    using fits r(1) by (simp add: push_str_def reserve_def)
  ultimately show ?thesis using r(4) by (intro that [of r]) (simp_all add: other_blocks_def)
qed

lemma push_fits_keeps:
  assumes "program_ok X bi P off tb rt pool L H p a ptr fs res st" "buffer_ok L buf (heap res)" "n \<le> str_cap buf"
  shows "program_ok X bi P off tb rt pool L H p a ptr fs res (st\<lparr>sv_space := (sv_space st)\<lparr>ram := r\<rparr>\<rparr>)"
    "buffer_ok L (buf\<lparr>str_len := n\<rparr>) (heap res)"
  using assms by (simp_all add: program_ok_def serving_def buffer_ok_def)

lemma pieces_fit:
  assumes "program_ok X bi P off tb rt pool L H p a ptr fs res st" "buffer_ok L buf (heap res)"
    and "length (concat pieces) \<le> str_cap buf - str_len buf"
  shows "\<exists>r. foldm (push_str X bi P L H) pieces (buf, st) =
      Inr (buf\<lparr>str_len := str_len buf + length (concat pieces)\<rparr>, st\<lparr>sv_space := (sv_space st)\<lparr>ram := r\<rparr>\<rparr>) \<and>
    contents P off (buf\<lparr>str_len := str_len buf + length (concat pieces)\<rparr>) ((sv_space st)\<lparr>ram := r\<rparr>) =
      contents P off buf (sv_space st) @ concat pieces \<and>
    blocks_kept P off (other_blocks L buf (heap res)) (sv_space st) ((sv_space st)\<lparr>ram := r\<rparr>)"
  using assms
proof (induction pieces arbitrary: buf st)
  case Nil
  then show ?case by (intro exI [of _ "ram (sv_space st)"]) (simp add: blocks_kept_def)
next
  case (Cons bs pieces)
  have fits: "length bs \<le> str_cap buf - str_len buf" using Cons.prems(3) by simp
  let ?buf = "buf\<lparr>str_len := str_len buf + length bs\<rparr>"
  obtain r where r: "push_str X bi P L H bs (buf, st) = Inr (?buf, st\<lparr>sv_space := (sv_space st)\<lparr>ram := r\<rparr>\<rparr>)"
    "contents P off ?buf ((sv_space st)\<lparr>ram := r\<rparr>) = contents P off buf (sv_space st) @ bs"
    "blocks_kept P off (other_blocks L buf (heap res)) (sv_space st) ((sv_space st)\<lparr>ram := r\<rparr>)"
    by (rule push_fits [OF Cons.prems(1,2) fits])
  let ?st = "st\<lparr>sv_space := (sv_space st)\<lparr>ram := r\<rparr>\<rparr>"
  have "str_len buf + length bs \<le> str_cap buf" using fits Cons.prems(2) by (auto simp: buffer_ok_def)
  note keep = push_fits_keeps [OF Cons.prems(1,2) this]
  have "length (concat pieces) \<le> str_cap ?buf - str_len ?buf" using Cons.prems(3) by simp
  from Cons.IH [OF keep this] obtain r' where
    "foldm (push_str X bi P L H) pieces (?buf, ?st) =
      Inr (?buf\<lparr>str_len := str_len ?buf + length (concat pieces)\<rparr>, ?st\<lparr>sv_space := (sv_space ?st)\<lparr>ram := r'\<rparr>\<rparr>)"
    "contents P off (?buf\<lparr>str_len := str_len ?buf + length (concat pieces)\<rparr>) ((sv_space ?st)\<lparr>ram := r'\<rparr>) =
      contents P off ?buf (sv_space ?st) @ concat pieces"
    "blocks_kept P off (other_blocks L ?buf (heap res)) (sv_space ?st) ((sv_space ?st)\<lparr>ram := r'\<rparr>)"
    by blast
  with r show ?case by (intro exI [of _ r']) (simp add: blocks_kept_def other_blocks_def add.assoc)
qed

subsection \<open>A larger buffer\<close>

text \<open>A buffer of another capacity with the same text, or the panic of a failed allocation.\<close>

lemma set_capacity_ok:
  fixes st :: "('pt, 'h, 'd) services"
  assumes ready: "user_heap_ready X bi P off tb rt pool L H p a ptr \<lparr>l_size = cap, l_align = 1\<rparr> fs res st"
    and buf: "buffer_ok L buf (heap res)" and len: "str_len buf \<le> cap"
  shows "set_capacity X bi P L H cap (buf, st) = Inl (Explicit ''memory allocation failed'') \<or>
    (\<exists>q h' sp n. set_capacity X bi P L H cap (buf, st) = Inr (buf\<lparr>str_ptr := q, str_cap := cap\<rparr>, with_heap ptr res h' sp st) \<and>
       program_ok X bi P off tb rt pool L H p a ptr (drop n fs) (res\<lparr>heap := h'\<rparr>) (with_heap ptr res h' sp st) \<and>
       (q, cap) \<in> lh_blocks L h' \<and> (q, cap) \<notin> lh_blocks L (heap res) \<and> other_blocks L buf (heap res) \<subseteq> lh_blocks L h' \<and>
       contents P off (buf\<lparr>str_ptr := q, str_cap := cap\<rparr>) sp = contents P off buf (sv_space st) \<and>
       blocks_kept P off (other_blocks L buf (heap res)) (sv_space st) sp)"
proof -
  let ?lay = "\<lparr>l_size = cap, l_align = 1\<rparr>" and ?R = "user_heap_rescue X bi P (lh_heap L)" and ?sp = "sv_space st" and ?h = "heap res"
  have sv: "serving H p a ptr res st" and pos: "0 < cap"
    using ready by (simp_all add: user_heap_ready_def program_ok_def layout_ok_def)
  obtain q h' m' n where al: "lh_alloc L ?R ?lay (?h, mach ?sp) = Inr (q, h', m')"
    and res: "allocated X bi P off tb rt pool L USER_HEAP_START USER_END heap_flags ?lay (drop n fs) ?h ?sp q h' m'"
    by (rule user_allocated [OF ready])
  show ?thesis
  proof (cases "q = 0")
    case True
    have "user_realloc X bi P L H (str_ptr buf) (str_cap buf) 1 cap st = Inr (0, with_heap ptr res h' (?sp\<lparr>mach := m'\<rparr>) st)"
      "user_alloc X bi P L H cap 1 st = Inr (0, with_heap ptr res h' (?sp\<lparr>mach := m'\<rparr>) st)"
      using al True by (simp_all add: user_realloc_eq [OF sv] user_alloc_eq [OF sv] heap_realloc_def heap_alloc_def)
    then show ?thesis by (simp add: set_capacity_def)
  next
    case False
    note at = res [unfolded allocated_def]
    have pl: "placed L ?lay ?h q h'" using at by blast
    have fresh: "(q, cap) \<notin> lh_blocks L ?h" "(q, cap) \<in> lh_blocks L h'" "lh_blocks L h' - {(q, cap)} = lh_blocks L ?h"
      using placed_fresh [OF pl False] pos by simp_all
    show ?thesis
    proof (cases "str_cap buf = 0")
      case True
      let ?sp' = "?sp\<lparr>mach := m'\<rparr>"
      have "set_capacity X bi P L H cap (buf, st) = Inr (buf\<lparr>str_ptr := q, str_cap := cap\<rparr>, with_heap ptr res h' ?sp' st)"
        using al True False by (simp add: set_capacity_def user_alloc_eq [OF sv] heap_alloc_def)
      moreover have "blocks_kept P off (other_blocks L buf ?h) ?sp ?sp'"
        by (rule blocks_kept_mono [OF allocated_bytes(2) [OF res]]) (auto simp: other_blocks_def)
      moreover have "str_len buf = 0" using True buf by (simp add: buffer_ok_def)
      moreover have "other_blocks L buf ?h \<subseteq> lh_blocks L h'" using fresh(3) by (auto simp: other_blocks_def)
      moreover have "program_ok X bi P off tb rt pool L H p a ptr (drop n fs) (res\<lparr>heap := h'\<rparr>) (with_heap ptr res h' ?sp' st)"
        unfolding program_ok_def using at serving_with_heap [OF sv] by simp
      ultimately show ?thesis using fresh(1,2)
        by (intro disjI2 exI [of _ q] exI [of _ h'] exI [of _ ?sp'] exI [of _ n]) (simp add: contents_def)
    next
      case cap: False
      let ?old = "\<lparr>l_size = str_cap buf, l_align = 1\<rparr>"
      have blk: "(str_ptr buf, l_size ?old) \<in> lh_blocks L ?h" using buf cap by (simp add: buffer_ok_def)
      have al': "lh_alloc L ?R (?old\<lparr>l_size := cap\<rparr>) (?h, mach ?sp) = Inr (q, h', m')"
        "allocated X bi P off tb rt pool L USER_HEAP_START USER_END heap_flags (?old\<lparr>l_size := cap\<rparr>) (drop n fs) ?h ?sp q h' m'"
        using al res by simp_all
      obtain r h2 where r: "heap_realloc X bi P L ?R (str_ptr buf) ?old cap (?h, ?sp) = Inr (q, h2, ?sp\<lparr>mach := m', ram := r\<rparr>)"
        "heap_at X bi P off tb rt pool L USER_HEAP_START USER_END heap_flags (drop n fs) h2 (?sp\<lparr>mach := m', ram := r\<rparr>)"
        "lh_blocks L h2 = insert (q, cap) (lh_blocks L ?h) - {(str_ptr buf, l_size ?old)}"
        "\<forall>i<min (l_size ?old) cap. byte_at P off (?sp\<lparr>mach := m', ram := r\<rparr>) (q + i) = byte_at P off ?sp (str_ptr buf + i)"
        "blocks_kept P off (lh_blocks L ?h) ?sp (?sp\<lparr>mach := m', ram := r\<rparr>)"
        by (rule heap_realloc_ok [OF al'(1) pos False al'(2) blk])
      let ?sp' = "?sp\<lparr>mach := m', ram := r\<rparr>"
      have "set_capacity X bi P L H cap (buf, st) = Inr (buf\<lparr>str_ptr := q, str_cap := cap\<rparr>, with_heap ptr res h2 ?sp' st)"
        using r(1) cap False by (simp add: set_capacity_def user_realloc_eq [OF sv])
      moreover have "contents P off (buf\<lparr>str_ptr := q, str_cap := cap\<rparr>) ?sp' = contents P off buf ?sp"
        using r(4) buf len by (auto simp: contents_def buffer_ok_def)
      moreover have "(q, cap) \<in> lh_blocks L h2" using r(3) fresh(1) blk by auto
      moreover have "blocks_kept P off (other_blocks L buf ?h) ?sp ?sp'"
        by (rule blocks_kept_mono [OF r(5)]) (auto simp: other_blocks_def)
      moreover have "other_blocks L buf ?h \<subseteq> lh_blocks L h2" using r(3) by (auto simp: other_blocks_def)
      moreover have "program_ok X bi P off tb rt pool L H p a ptr (drop n fs) (res\<lparr>heap := h2\<rparr>) (with_heap ptr res h2 ?sp' st)"
        unfolding program_ok_def using r(2) serving_with_heap [OF sv] by simp
      ultimately show ?thesis using fresh(1)
        by (intro disjI2 exI [of _ q] exI [of _ h2] exI [of _ ?sp'] exI [of _ n]) simp
    qed
  qed
qed

text \<open>
  A text that is appended to a program's buffer ends up behind the text that is there, whether the
  buffer has room or is moved to a larger block; the only other outcome is the panic of a failed
  allocation.  All other live blocks of the program stay live and keep their contents.
\<close>

lemma push_str_appends:
  fixes st :: "('pt, 'h, 'd) services"
  assumes ready: "user_heap_ready X bi P off tb rt pool L H p a ptr
      \<lparr>l_size = max (max (2 * str_cap buf) (str_len buf + length bs)) 8, l_align = 1\<rparr> fs res st"
    and buf: "buffer_ok L buf (heap res)"
  shows "push_str X bi P L H bs (buf, st) = Inl (Explicit ''memory allocation failed'') \<or>
    (\<exists>buf' st' res' n. push_str X bi P L H bs (buf, st) = Inr (buf', st') \<and>
       program_ok X bi P off tb rt pool L H p a ptr (drop n fs) res' st' \<and> buffer_ok L buf' (heap res') \<and>
       contents P off buf' (sv_space st') = contents P off buf (sv_space st) @ bs \<and>
       other_blocks L buf (heap res) \<subseteq> lh_blocks L (heap res') \<and>
       blocks_kept P off (other_blocks L buf (heap res)) (sv_space st) (sv_space st') \<and> sv_screen st' = sv_screen st)"
proof (cases "length bs \<le> str_cap buf - str_len buf")
  case True
  have ok: "program_ok X bi P off tb rt pool L H p a ptr fs res st" using ready by (simp add: user_heap_ready_def)
  have len: "str_len buf + length bs \<le> str_cap buf" using True buf by (auto simp: buffer_ok_def)
  obtain r where r:
    "push_str X bi P L H bs (buf, st) = Inr (buf\<lparr>str_len := str_len buf + length bs\<rparr>, st\<lparr>sv_space := (sv_space st)\<lparr>ram := r\<rparr>\<rparr>)"
    "contents P off (buf\<lparr>str_len := str_len buf + length bs\<rparr>) ((sv_space st)\<lparr>ram := r\<rparr>) = contents P off buf (sv_space st) @ bs"
    "blocks_kept P off (other_blocks L buf (heap res)) (sv_space st) ((sv_space st)\<lparr>ram := r\<rparr>)"
    by (rule push_fits [OF ok buf True])
  show ?thesis
    by (rule disjI2, rule exI, rule exI, rule exI [of _ res], rule exI [of _ 0], intro conjI, rule r(1))
      (use push_fits_keeps [OF ok buf len] r(2,3) in \<open>auto simp: other_blocks_def\<close>)
next
  case False
  let ?cap = "max (max (2 * str_cap buf) (str_len buf + length bs)) 8"
  have res: "reserve X bi P L H (length bs) (buf, st) = set_capacity X bi P L H ?cap (buf, st)"
    using False ready by (simp add: reserve_def user_heap_ready_def layout_ok_def)
  have "str_len buf \<le> ?cap" by simp
  from set_capacity_ok [OF ready buf this] show ?thesis
  proof (elim disjE exE conjE)
    assume "set_capacity X bi P L H ?cap (buf, st) = Inl (Explicit ''memory allocation failed'')"
    then show ?thesis using res by (simp add: push_str_def)
  next
    fix q h' sp n
    let ?buf = "buf\<lparr>str_ptr := q, str_cap := ?cap\<rparr>" and ?st = "with_heap ptr res h' sp st"
    assume c: "set_capacity X bi P L H ?cap (buf, st) = Inr (?buf, ?st)"
      "program_ok X bi P off tb rt pool L H p a ptr (drop n fs) (res\<lparr>heap := h'\<rparr>) ?st"
      "(q, ?cap) \<in> lh_blocks L h'" "(q, ?cap) \<notin> lh_blocks L (heap res)" "other_blocks L buf (heap res) \<subseteq> lh_blocks L h'"
      "contents P off ?buf sp = contents P off buf (sv_space st)" "blocks_kept P off (other_blocks L buf (heap res)) (sv_space st) sp"
    have ok: "buffer_ok L ?buf (heap (res\<lparr>heap := h'\<rparr>))" using c(3) by (simp add: buffer_ok_def)
    have fits: "length bs \<le> str_cap ?buf - str_len ?buf" and len: "str_len ?buf + length bs \<le> str_cap ?buf" by simp_all
    obtain r where r:
      "push_str X bi P L H bs (?buf, ?st) = Inr (?buf\<lparr>str_len := str_len ?buf + length bs\<rparr>, ?st\<lparr>sv_space := (sv_space ?st)\<lparr>ram := r\<rparr>\<rparr>)"
      "contents P off (?buf\<lparr>str_len := str_len ?buf + length bs\<rparr>) ((sv_space ?st)\<lparr>ram := r\<rparr>) = contents P off ?buf (sv_space ?st) @ bs"
      "blocks_kept P off (other_blocks L ?buf (heap (res\<lparr>heap := h'\<rparr>))) (sv_space ?st) ((sv_space ?st)\<lparr>ram := r\<rparr>)"
      by (rule push_fits [OF c(2) ok fits])
    have "push_str X bi P L H bs (buf, st) = push_str X bi P L H bs (?buf, ?st)"
      using fits by (simp add: push_str_def res c(1)) (simp add: reserve_def)
    moreover have "other_blocks L buf (heap res) \<subseteq> other_blocks L ?buf h'" using c(4,5) by (auto simp: other_blocks_def)
    then have "blocks_kept P off (other_blocks L buf (heap res)) (sv_space st) (sp\<lparr>ram := r\<rparr>)"
      using blocks_kept_trans [OF c(7)] r(3) by simp
    ultimately show ?thesis using push_fits_keeps(1) [OF c(2) ok len, of r] push_fits_keeps(2) [OF c(2) ok len] r(1,2) c(5,6)
      by (intro disjI2 exI [of _ "?buf\<lparr>str_len := str_len ?buf + length bs\<rparr>"] exI [of _ "?st\<lparr>sv_space := (sv_space ?st)\<lparr>ram := r\<rparr>\<rparr>"]
          exI [of _ "res\<lparr>heap := h'\<rparr>"] exI [of _ n]) (simp add: with_heap_def)
  qed
qed

subsection \<open>Printing\<close>

lemma utf8_encode_concat: "concat (map utf8_encode pieces) = utf8_encode (concat pieces)"
  by (induction pieces) (simp_all add: utf8_encode_def)


text \<open>
  Printing piece by piece, without the buffer, shows the same: the kernel writes the characters one
  after the other in either case.
\<close>

lemma stdout_print_append: "stdout_print bi F (cs @ ds) s = bnd (stdout_print bi F cs s) (stdout_print bi F ds)"
  by (auto simp: stdout_print_def stdout_write_def lazy_term_def write_str_def foldm_append bnd_def split: sum.splits option.splits)

lemma print_fmt_same:
  assumes "list_all2 (\<lambda>(string, len) cs. load_bytes X bi P string len (sv_space st) = Inr (utf8_encode cs)) slices pieces"
    and "\<forall>c\<in>set (concat pieces). is_char c" "slices \<noteq> []"
  shows "print_fmt X bi P F slices st = bnd (stdout_print bi F (concat pieces) (sv_screen st)) (\<lambda>s. Inr (st\<lparr>sv_screen := s\<rparr>))"
  using assms
proof (induction slices arbitrary: pieces st)
  case (Cons a slices)
  obtain string len cs rest where a: "a = (string, len)" "pieces = cs # rest"
    "load_bytes X bi P string len (sv_space st) = Inr (utf8_encode cs)"
    and rest: "list_all2 (\<lambda>(string, len) cs. load_bytes X bi P string len (sv_space st) = Inr (utf8_encode cs)) slices rest"
    using Cons.prems(1) by (cases a) (auto simp: list_all2_Cons1)
  have chars: "\<forall>c\<in>set cs. is_char c" "\<forall>c\<in>set (concat rest). is_char c" using Cons.prems(2) a(2) by auto
  have head: "user_print X bi P F string len st = bnd (stdout_print bi F cs (sv_screen st)) (\<lambda>s. Inr (st\<lparr>sv_screen := s\<rparr>))"
    using a(3) from_utf8_encode [OF chars(1)] by (simp add: user_print_def)
  show ?case
  proof (cases "slices = []")
    case True
    with rest a head show ?thesis by (simp add: print_fmt_def) (simp add: bnd_def split: sum.splits)
  next
    case False
    have "print_fmt X bi P F slices (st\<lparr>sv_screen := s\<rparr>) =
        bnd (stdout_print bi F (concat rest) s) (\<lambda>s. Inr (st\<lparr>sv_screen := s\<rparr>))" for s
      using Cons.IH [of "st\<lparr>sv_screen := s\<rparr>" rest] rest chars(2) False by simp
    then show ?thesis using a(1,2) head
      by (simp add: print_fmt_def stdout_print_append) (simp add: bnd_def split: sum.splits)
  qed
qed simp

subsection \<open>A concrete program\<close>

text \<open>Core 3 runs a program whose heap is still empty.\<close>

definition kernel_app :: "(u64 \<times> u32) list kernel" where
  "kernel_app = kernel_core\<lparr>CORE_LOCAL := core_local_init[3 := Some (default_cld\<lparr>running_application_data :=
     Some \<lparr>application_resources = 64, abort_addr = 0, saved_stack_pointer = 0\<rparr>\<rparr>)]\<rparr>"

definition resources_app :: "first_fit ApplicationResources" where
  "resources_app = \<lparr>l4_page_table = off_mem + 4096, entry_point_virt_addr = 0x400000, heap = (0, [], [])\<rparr>"

definition services_app :: "'pt machine \<Rightarrow> ('pt, first_fit, (u64 \<times> u32) list) services" where
  "services_app m = \<lparr>sv_space = \<lparr>mach = m, ram = \<lambda>_. 7\<rparr>, sv_kernel = kernel_app, sv_screen = screen_ex, sv_resources = [64 \<mapsto> resources_app]\<rparr>"

lemma serving_app: "serving hw_core 0xFEE00000 3 64 resources_app (services_app m)"
  using runs_on_core
  by (simp add: serving_def services_app_def kernel_app_def kernel_ok_def kernel_core_def has_cld_def core_local_init_def MAX_CORES_def)

lemma ready_app:
  assumes m: "inv_frames 40 m fs" "length fs = 40" "\<forall>p. alook paging_ref off_mem m p = None"
  shows "user_heap_ready x86_ref (bi_frames 40) paging_ref off_mem (tb_ref off_mem) (rt_ref off_mem) (pool_frames 40) heap_app hw_core
    0xFEE00000 3 64 layout_app fs resources_app (services_app m)"
proof -
  have "heap_inv heap_app (alook paging_ref off_mem m) USER_HEAP_START USER_END (pool_frames 40) heap_flags (heap resources_app)"
    using m(3) unfolding resources_app_def by (simp add: empty_heap layout_values)
  moreover have "h_total (lh_heap heap_app) (heap resources_app) = 0" by (simp add: lheap_ref_def resources_app_def)
  ultimately show ?thesis using m(1,2) lheap_ref_ok [where 'pt = pt_ref] serving_app [of m] layout_app_ok user_range
    unfolding user_heap_ready_def program_ok_def heap_at_def by (simp add: services_app_def layout_values)
qed

text \<open>Its first allocation maps a page for the heap and gets the first bytes of it.\<close>

lemma alloc_app:
  assumes m: "inv_frames 40 m fs" "length fs = 40" "\<forall>p. alook paging_ref off_mem m p = None"
    and al: "user_alloc x86_ref (bi_frames 40) paging_ref heap_app hw_core 8 1 (services_app m) = Inr (q, st')"
  shows "q = USER_HEAP_START"
proof -
  let ?m = "mach (sv_space (services_app m))" and ?h = "heap resources_app"
  have t: "h_total (lh_heap heap_app) ?h = 0" by (simp add: lheap_ref_def resources_app_def)
  have r: "mem_inv x86_ref (bi_frames 40) paging_ref off_mem (tb_ref off_mem) (rt_ref off_mem) (pool_frames 40) ?m fs"
    "locked_heap_ok heap_app" "layout_ok layout_app" "heap_inv heap_app (alook paging_ref off_mem ?m) USER_HEAP_START USER_END (pool_frames 40) heap_flags ?h"
    "grown layout_app (h_total (lh_heap heap_app) ?h) \<le> USER_END - USER_HEAP_START"
    "4 * ((grown layout_app (h_total (lh_heap heap_app) ?h) - h_total (lh_heap heap_app) ?h) div 4096) \<le> length fs"
    using ready_app [OF m] unfolding user_heap_ready_def program_ok_def heap_at_def by auto
  obtain h' m' where res: "rescue x86_ref (lh_heap heap_app) USER_HEAP_START (map_ram_user x86_ref (bi_frames 40) paging_ref) layout_app (?h, ?m) = Inr (h', m')"
    "h' = h_add (lh_heap heap_app) (USER_HEAP_START + h_total (lh_heap heap_app) ?h) (USER_HEAP_START + grown layout_app (h_total (lh_heap heap_app) ?h)) ?h"
    by (rule user_pool.rescue_inv [unfolded user_area, OF r])
  have "h' = (4096, [(USER_HEAP_START, USER_HEAP_START + 4096)], [])"
    unfolding res(2) t layout_app_ok(2) by (simp add: lheap_ref_def resources_app_def)
  then have "put layout_app (h', m') = Some (USER_HEAP_START, (4096, [(USER_HEAP_START, USER_HEAP_START + 4096)], [(USER_HEAP_START, 8)]), m')"
    by (simp add: put_def fit_def layout_values)
  moreover have "put layout_app (?h, ?m) = None"
    by (simp add: put_def fit_def resources_app_def)
  ultimately show ?thesis
    using al running_resources_ok [OF serving_app [of m]] res(1) by (simp add: user_alloc_def user_heap_rescue_def lheap_ref_def)
qed

lemma program_app:
  obtains m fs st res where "user_alloc x86_ref (bi_frames 40) paging_ref heap_app hw_core 8 1 (services_app m) = Inr (USER_HEAP_START, st)"
    "program_ok x86_ref (bi_frames 40) paging_ref off_mem (tb_ref off_mem) (rt_ref off_mem) (pool_frames 40) heap_app hw_core
       0xFEE00000 3 64 fs res st" "(USER_HEAP_START, 8) \<in> lh_blocks heap_app (heap res)"
proof -
  obtain m fs where m: "inv_frames 40 m fs" "length fs = 40" "\<forall>p. alook paging_ref off_mem m p = None" by (rule machine_app)
  obtain q h' m' n where al: "lh_alloc heap_app (user_heap_rescue x86_ref (bi_frames 40) paging_ref (lh_heap heap_app)) layout_app
      (heap resources_app, mach (sv_space (services_app m))) = Inr (q, h', m')"
    and res: "allocated x86_ref (bi_frames 40) paging_ref off_mem (tb_ref off_mem) (rt_ref off_mem) (pool_frames 40) heap_app USER_HEAP_START USER_END
      heap_flags layout_app (drop n fs) (heap resources_app) (sv_space (services_app m)) q h' m'"
    by (rule user_allocated [OF ready_app [OF m]])
  let ?sp = "(sv_space (services_app m))\<lparr>mach := m'\<rparr>"
  have r: "user_alloc x86_ref (bi_frames 40) paging_ref heap_app hw_core 8 1 (services_app m) = Inr (q, with_heap 64 resources_app h' ?sp (services_app m))"
    using al by (simp add: user_alloc_eq [OF serving_app] heap_alloc_def)
  have q: "q = USER_HEAP_START" by (rule alloc_app [OF m r])
  have "program_ok x86_ref (bi_frames 40) paging_ref off_mem (tb_ref off_mem) (rt_ref off_mem) (pool_frames 40) heap_app hw_core
       0xFEE00000 3 64 (drop n fs) (resources_app\<lparr>heap := h'\<rparr>) (with_heap 64 resources_app h' ?sp (services_app m))"
    using res serving_with_heap [OF serving_app] by (simp add: program_ok_def allocated_def)
  moreover have "(USER_HEAP_START, 8) \<in> lh_blocks heap_app (heap (resources_app\<lparr>heap := h'\<rparr>))"
    using res q by (simp add: allocated_def placed_def layout_values)
  ultimately show ?thesis by (rule that [OF r [unfolded q]])
qed

theorem user_alloc_serves_witness:
  "\<exists>m st'. user_alloc x86_ref (bi_frames 40) paging_ref heap_app hw_core 8 1 (services_app m) = Inr (USER_HEAP_START, st')"
proof -
  obtain m fs where m: "inv_frames 40 m fs" "length fs = 40" "\<forall>p. alook paging_ref off_mem m p = None" by (rule machine_app)
  from user_alloc_serves [OF ready_app [OF m]]
  obtain q st' where "user_alloc x86_ref (bi_frames 40) paging_ref heap_app hw_core 8 1 (services_app m) = Inr (q, st')"
    unfolding Let_def by (elim exE conjE)
  with alloc_app [OF m this] show ?thesis by blast
qed

lemma push_str_appends_witness:
  "\<exists>m out. push_str x86_ref (bi_frames 40) paging_ref heap_app hw_core (utf8_encode [72, 228]) (\<lparr>str_ptr = 1, str_cap = 0, str_len = 0\<rparr>, services_app m) = out \<and>
     (out = Inl (Explicit ''memory allocation failed'') \<or>
      (\<exists>buf st. out = Inr (buf, st) \<and> contents paging_ref off_mem buf (sv_space st) = [0x48, 0xC3, 0xA4]))"
proof -
  let ?buf = "\<lparr>str_ptr = 1, str_cap = 0, str_len = 0\<rparr>" and ?bs = "utf8_encode [72, 228]"
  obtain m fs where m: "inv_frames 40 m fs" "length fs = 40" "\<forall>p. alook paging_ref off_mem m p = None" by (rule machine_app)
  have bs: "?bs = [0x48, 0xC3, 0xA4]" by (simp add: utf8_encode_def utf8_char_def cont_def)
  have sz: "max (max (2 * str_cap ?buf) (str_len ?buf + length ?bs)) 8 = 8" by (simp add: bs)
  have buf: "buffer_ok heap_app ?buf (heap resources_app)" by (simp add: buffer_ok_def)
  have c: "contents paging_ref off_mem ?buf (sv_space (services_app m)) @ ?bs = [0x48, 0xC3, 0xA4]" by (simp add: contents_def bs)
  have "user_heap_ready x86_ref (bi_frames 40) paging_ref off_mem (tb_ref off_mem) (rt_ref off_mem) (pool_frames 40) heap_app hw_core 0xFEE00000 3 64
      \<lparr>l_size = max (max (2 * str_cap ?buf) (str_len ?buf + length ?bs)) 8, l_align = 1\<rparr> fs resources_app (services_app m)"
    unfolding sz by (rule ready_app [OF m])
  from push_str_appends [OF this buf] c show ?thesis by (intro exI [of _ m]) (elim disjE exE conjE; simp)
qed


end
