(* ===== verification/Core_Phases.thy ===== *)
theory Core_Phases
  imports Prelude
begin

text \<open>
  What the cores do after the start of the application processors, and how they wait for each other:
  the ends of \<open>kernel_main\<close> (kernel/src/main.rs) and of the entry of the application processors (kernel/src/smp.rs), and
  \<open>main\<close> of kernel/src/common_main.rs.  The phases of a core are its calls in program order; what they do is in the
  theories of the components, here they take a step each.  All cores meet in \<open>sync_cores_barrier\<close>, the
  application processors also in \<open>barrier!(ap_count)\<close>; they wait for the double buffer of core 0, and until core 0 has shown two frames.  The interleaving of
  the cores is a step relation.

  The barrier of the crate spin is the parameter \<open>B\<close>: \<open>B n tot t\<close> tells whether the \<open>t\<close>-th arrival (from 0) at a
  barrier for \<open>n\<close> may go on when there were \<open>tot\<close> arrivals.  Documented: every group of \<open>n\<close> arrivals waits until the
  group is complete, and the barrier can be used again.
\<close>

datatype phase =
    Enable_interrupts | Sync | Log_utilization | Int3 | App_test | Print_logo | Timer_test
  | Switch_to_double_buffer | Frames | Start_terminal | Wait_refresh | Move_main_term | Barrier | Clear_terminal | Demo | Echo

definition main_phases :: "nat \<Rightarrow> phase list" where
  "main_phases core =
     [Int3, App_test, Sync] @ (if core = 0 then [Log_utilization] else []) @
     [Sync, Print_logo, Timer_test, Print_logo, Sync] @ (if core = 0 then [Log_utilization] else []) @
     [Sync] @
     (if core = 0 then [Switch_to_double_buffer, Frames]
      else [Start_terminal, Wait_refresh] @ (if core = 1 then [Move_main_term] else []) @ [Barrier, Clear_terminal, Demo, Echo])"

definition bsp_phases :: "phase list" where
  "bsp_phases = [Enable_interrupts, Sync, Log_utilization, Sync] @ main_phases 0"

definition ap_phases :: "nat \<Rightarrow> phase list" where
  "ap_phases ap_index = [Enable_interrupts, Sync, Sync] @ main_phases (ap_index + 1)"

definition phases :: "nat \<Rightarrow> phase list" where
  "phases core = (if core = 0 then bsp_phases else ap_phases (core - 1))"

record cores =
  pc :: "nat \<Rightarrow> nat"
  ticket :: "nat \<Rightarrow> nat option"
  arrivals :: "phase \<Rightarrow> nat"
  double_buffer :: bool
  REFRESH_COUNTER :: nat

definition cores_init :: cores where
  "cores_init = \<lparr>pc = \<lambda>_. 0, ticket = \<lambda>_. None, arrivals = \<lambda>_. 0, double_buffer = False, REFRESH_COUNTER = 0\<rparr>"

definition nxt :: "cores \<Rightarrow> nat \<Rightarrow> phase" where
  "nxt s c = phases c ! pc s c"

definition advance :: "nat \<Rightarrow> cores \<Rightarrow> cores" where
  "advance c s = s\<lparr>pc := (pc s)(c := pc s c + 1)\<rparr>"

text \<open>The number with which a barrier is created.\<close>

definition barrier_count :: "nat \<Rightarrow> phase \<Rightarrow> nat" where
  "barrier_count ap_count b = (if b = Sync then ap_count + 1 else ap_count)"

definition is_barrier :: "phase \<Rightarrow> bool" where
  "is_barrier b \<longleftrightarrow> b = Sync \<or> b = Barrier"

definition is_call :: "phase \<Rightarrow> bool" where
  "is_call a \<longleftrightarrow> \<not> is_barrier a \<and> a \<notin> {Switch_to_double_buffer, Start_terminal, Wait_refresh, Frames, Echo}"

inductive core_step :: "(nat \<Rightarrow> nat \<Rightarrow> nat \<Rightarrow> bool) \<Rightarrow> nat \<Rightarrow> cores \<Rightarrow> cores \<Rightarrow> bool" for B ap_count where
  call: "c \<le> ap_count \<Longrightarrow> is_call (nxt s c) \<Longrightarrow> core_step B ap_count s (advance c s)"
| arrive: "c \<le> ap_count \<Longrightarrow> is_barrier (nxt s c) \<Longrightarrow> ticket s c = None \<Longrightarrow>
    core_step B ap_count s (s\<lparr>ticket := (ticket s)(c := Some (arrivals s (nxt s c))),
      arrivals := (arrivals s)(nxt s c := arrivals s (nxt s c) + 1)\<rparr>)"
| pass: "c \<le> ap_count \<Longrightarrow> is_barrier (nxt s c) \<Longrightarrow> ticket s c = Some t \<Longrightarrow>
    B (barrier_count ap_count (nxt s c)) (arrivals s (nxt s c)) t \<Longrightarrow>
    core_step B ap_count s (advance c (s\<lparr>ticket := (ticket s)(c := None)\<rparr>))"
| switch: "c \<le> ap_count \<Longrightarrow> nxt s c = Switch_to_double_buffer \<Longrightarrow>
    core_step B ap_count s (advance c (s\<lparr>double_buffer := True\<rparr>))"
| terminal: "c \<le> ap_count \<Longrightarrow> nxt s c = Start_terminal \<Longrightarrow> double_buffer s \<Longrightarrow> core_step B ap_count s (advance c s)"
| refreshed: "c \<le> ap_count \<Longrightarrow> nxt s c = Wait_refresh \<Longrightarrow> 2 \<le> REFRESH_COUNTER s \<Longrightarrow> core_step B ap_count s (advance c s)"
| frame: "nxt s 0 = Frames \<Longrightarrow> core_step B ap_count s (s\<lparr>REFRESH_COUNTER := (REFRESH_COUNTER s + 1) mod 2 ^ 64\<rparr>)"

abbreviation cores_reach :: "(nat \<Rightarrow> nat \<Rightarrow> nat \<Rightarrow> bool) \<Rightarrow> nat \<Rightarrow> cores \<Rightarrow> cores \<Rightarrow> bool" where
  "cores_reach B ap_count \<equiv> (core_step B ap_count)\<^sup>*\<^sup>*"

definition barrier_ok :: "(nat \<Rightarrow> nat \<Rightarrow> nat \<Rightarrow> bool) \<Rightarrow> bool" where
  "barrier_ok B \<longleftrightarrow> (\<forall>n tot t. 0 < n \<longrightarrow> B n tot t = ((t div n + 1) * n \<le> tot))"

subsection \<open>A group of threads at a barrier\<close>

text \<open>
  \<open>pa c\<close> is how often a thread has passed, \<open>w c\<close> whether it waits, \<open>tk c\<close> its ticket.  No thread is more than one
  rendezvous ahead of another, and the tickets of those who wait are of the generation that they wait for.
\<close>

definition in_step :: "nat set \<Rightarrow> (nat \<Rightarrow> nat) \<Rightarrow> (nat \<Rightarrow> bool) \<Rightarrow> (nat \<Rightarrow> nat option) \<Rightarrow> nat \<Rightarrow> bool" where
  "in_step G pa w tk tot \<longleftrightarrow> finite G \<and> tot = (\<Sum>c\<in>G. pa c + of_bool (w c)) \<and>
     (\<forall>c\<in>G. \<forall>d\<in>G. pa c \<le> pa d + of_bool (w d)) \<and>
     (\<forall>c\<in>G. w c \<longrightarrow> (\<exists>t. tk c = Some t \<and> t div card G = pa c))"

lemma sum_below:
  fixes f :: "nat \<Rightarrow> nat"
  assumes "finite G" "c \<in> G" "f c < m" "\<forall>d\<in>G. f d \<le> m"
  shows "sum f G < card G * m"
proof -
  have "sum f G = f c + sum f (G - {c})" using assms(1,2) by (rule sum.remove)
  moreover have "sum f (G - {c}) \<le> card (G - {c}) * m" by (rule sum_bounded_above [of "G - {c}" f m, simplified of_nat_id]) (use assms(4) in simp)
  moreover have "card G = Suc (card (G - {c}))" using assms(1,2) by (rule card.remove)
  ultimately show ?thesis using assms(3) by simp
qed

lemma in_step_arrive:
  assumes "in_step G pa w tk tot" "c \<in> G" "\<not> w c"
  shows "in_step G pa (w(c := True)) (tk(c := Some tot)) (tot + 1)"
proof -
  let ?f = "\<lambda>d. pa d + of_bool (w d)" and ?g = "\<lambda>d. pa d + of_bool ((w(c := True)) d)"
  have s: "finite G" "tot = sum ?f G" "\<And>d e. d \<in> G \<Longrightarrow> e \<in> G \<Longrightarrow> pa d \<le> ?f e"
    "\<And>d. d \<in> G \<Longrightarrow> w d \<Longrightarrow> \<exists>t. tk d = Some t \<and> t div card G = pa d"
    using assms(1) unfolding in_step_def by auto
  have "sum ?g G = ?g c + sum ?g (G - {c})" "sum ?f G = ?f c + sum ?f (G - {c})"
    using sum.remove [OF s(1) assms(2)] by blast+
  moreover have "sum ?g (G - {c}) = sum ?f (G - {c})" by (rule sum.cong) auto
  ultimately have tot: "tot + 1 = sum ?g G" using s(2) assms(3) by simp
  have "card G * pa c \<le> tot"
    unfolding s(2) using sum_bounded_below [of G "pa c" ?f] s(3) [OF assms(2)] by simp
  moreover have "tot < card G * (pa c + 1)"
    unfolding s(2) using s(3) assms(2,3) by (intro sum_below [OF s(1) assms(2)]) force+
  moreover have "0 < card G" using s(1) assms(2) by (auto simp: card_gt_0_iff)
  ultimately have "tot div card G = pa c" by (intro div_nat_eqI) (simp_all add: mult.commute)
  moreover have "pa d \<le> ?g e" if "d \<in> G" "e \<in> G" for d e using s(3) [OF that] assms(3) by (auto split: if_splits)
  ultimately show ?thesis unfolding in_step_def using s(1,4) tot by auto
qed

lemma in_step_pass:
  assumes "in_step G pa w tk tot" "c \<in> G" "w c" "tk c = Some t" "(t div card G + 1) * card G \<le> tot"
  shows "in_step G (pa(c := pa c + 1)) (w(c := False)) (tk(c := None)) tot"
proof -
  let ?f = "\<lambda>d. pa d + of_bool (w d)" and ?g = "\<lambda>d. (pa(c := pa c + 1)) d + of_bool ((w(c := False)) d)"
  have s: "finite G" "tot = sum ?f G" "\<And>d e. d \<in> G \<Longrightarrow> e \<in> G \<Longrightarrow> pa d \<le> ?f e"
    "\<And>d. d \<in> G \<Longrightarrow> w d \<Longrightarrow> \<exists>t. tk d = Some t \<and> t div card G = pa d"
    using assms(1) unfolding in_step_def by auto
  have "t div card G = pa c" using s(4) [OF assms(2,3)] assms(4) by auto
  then have ge: "card G * (pa c + 1) \<le> sum ?f G" using assms(5) s(2) by (simp add: mult.commute)
  have all: "pa c + 1 \<le> ?f d" if d: "d \<in> G" for d
  proof (rule ccontr)
    assume "\<not> pa c + 1 \<le> ?f d"
    then have less: "?f d < pa c + 1" by simp
    moreover have "?f e \<le> pa c + 1" if "e \<in> G" for e
      using s(3) [OF that d] less by (simp split: if_splits)
    ultimately have "sum ?f G < card G * (pa c + 1)" using d by (intro sum_below [OF s(1)]) auto
    with ge show False by simp
  qed
  have "sum ?g G = sum ?f G" using assms(3) by (intro sum.cong) auto
  moreover have "(pa(c := pa c + 1)) d \<le> ?g e" if "d \<in> G" "e \<in> G" for d e
    using s(3) [OF that] all [OF that(2)] assms(3) by auto
  ultimately show ?thesis unfolding in_step_def using s(1,2,4) by auto
qed

lemma in_step_cong:
  assumes "in_step G pa w tk tot" "\<And>c. c \<in> G \<Longrightarrow> pa' c = pa c" "\<And>c. c \<in> G \<Longrightarrow> w' c = w c"
    and "\<And>c. c \<in> G \<Longrightarrow> w c \<Longrightarrow> tk' c = tk c"
  shows "in_step G pa' w' tk' tot"
proof -
  have "(\<Sum>c\<in>G. pa' c + of_bool (w' c)) = (\<Sum>c\<in>G. pa c + of_bool (w c))" using assms(2,3) by (intro sum.cong) auto
  then show ?thesis using assms unfolding in_step_def by auto
qed

subsection \<open>The programs of the cores\<close>

lemma phases_eqs:
  "phases 0 = [Enable_interrupts, Sync, Log_utilization, Sync, Int3, App_test, Sync, Log_utilization, Sync, Print_logo, Timer_test,
     Print_logo, Sync, Log_utilization, Sync, Switch_to_double_buffer, Frames]"
  "phases (Suc 0) = [Enable_interrupts, Sync, Sync, Int3, App_test, Sync, Sync, Print_logo, Timer_test, Print_logo, Sync, Sync, Start_terminal,
     Wait_refresh, Move_main_term, Barrier, Clear_terminal, Demo, Echo]"
  "2 \<le> c \<Longrightarrow> phases c = [Enable_interrupts, Sync, Sync, Int3, App_test, Sync, Sync, Print_logo, Timer_test, Print_logo, Sync, Sync,
     Start_terminal, Wait_refresh, Barrier, Clear_terminal, Demo, Echo]"
  by (simp_all add: phases_def bsp_phases_def ap_phases_def main_phases_def)

lemma core_cases: obtains "c = 0" | "c = 1" | "2 \<le> (c :: nat)"
  by linarith

lemma phases_last: "phases c \<noteq> []" "last (phases c) = (if c = 0 then Frames else Echo)"
proof -
  have "phases c \<noteq> [] \<and> last (phases c) = (if c = 0 then Frames else Echo)"
    by (cases rule: core_cases [of c]) (simp_all add: phases_eqs)
  then show "phases c \<noteq> []" "last (phases c) = (if c = 0 then Frames else Echo)" by blast+
qed

lemma phases_go_on:
  assumes "pc s c < length (phases c)" "nxt s c \<noteq> Frames" "nxt s c \<noteq> Echo"
  shows "Suc (pc s c) < length (phases c)"
proof (rule ccontr)
  assume "\<not> Suc (pc s c) < length (phases c)"
  then have "pc s c = length (phases c) - 1" using assms(1) by simp
  then have "nxt s c = last (phases c)" using phases_last(1) [of c] by (simp add: nxt_def last_conv_nth)
  with phases_last(2) [of c] assms(2,3) show False by (simp split: if_splits)
qed

lemma frames_after_switch:
  assumes "pc s 0 < length (phases 0)" "phases 0 ! Suc (pc s 0) = Frames" "nxt s 0 \<noteq> Frames"
  shows "nxt s 0 = Switch_to_double_buffer"
proof -
  have "pc s 0 \<in> {0, 1, 2, 3, 4, 5, 6, 7, 8, 9, 10, 11, 12, 13, 14, 15, 16}"
    using assms(1) by (simp add: phases_eqs eval_nat_numeral less_Suc_eq disj_ac)
  with assms(2,3) show ?thesis by (auto simp: nxt_def phases_eqs)
qed

lemma nxt_in: "pc s c < length (phases c) \<Longrightarrow> nxt s c \<in> set (phases c)"
  by (simp add: nxt_def)

subsection \<open>The invariant\<close>

definition passed :: "phase \<Rightarrow> cores \<Rightarrow> nat \<Rightarrow> nat" where
  "passed b s c = count_list (take (pc s c) (phases c)) b"

definition waiting :: "phase \<Rightarrow> cores \<Rightarrow> nat \<Rightarrow> bool" where
  "waiting b s c \<longleftrightarrow> nxt s c = b \<and> ticket s c \<noteq> None"

definition members :: "nat \<Rightarrow> phase \<Rightarrow> nat set" where
  "members ap_count b = (if b = Sync then {0..ap_count} else {1..ap_count})"

lemma card_members: "card (members ap_count b) = barrier_count ap_count b"
  by (simp add: members_def barrier_count_def)

definition cores_inv :: "nat \<Rightarrow> cores \<Rightarrow> bool" where
  "cores_inv ap_count s \<longleftrightarrow> (\<forall>c\<le>ap_count. pc s c < length (phases c)) \<and>
     (\<forall>c\<le>ap_count. ticket s c \<noteq> None \<longrightarrow> is_barrier (nxt s c)) \<and>
     (\<forall>b. is_barrier b \<longrightarrow> in_step (members ap_count b) (passed b s) (waiting b s) (ticket s) (arrivals s b)) \<and>
     (nxt s 0 = Frames \<longrightarrow> double_buffer s)"

lemma cores_inv_init: "cores_inv ap_count cores_init"
  using phases_last(1) by (simp add: cores_inv_def cores_init_def in_step_def members_def passed_def waiting_def nxt_def phases_eqs)

lemma passed_advance:
  assumes "pc s c < length (phases c)"
  shows "passed b (advance c s) = (passed b s)(c := passed b s c + of_bool (nxt s c = b))"
  using assms by (auto simp: passed_def advance_def nxt_def take_Suc_conv_app_nth)

lemma same_position [simp]:
  "nxt (s\<lparr>ticket := f\<rparr>) = nxt s" "nxt (s\<lparr>arrivals := g\<rparr>) = nxt s" "nxt (s\<lparr>REFRESH_COUNTER := r\<rparr>) = nxt s"
  "nxt (s\<lparr>double_buffer := u\<rparr>) = nxt s" "passed b (s\<lparr>double_buffer := u\<rparr>) = passed b s"
  "passed b (s\<lparr>ticket := f\<rparr>) = passed b s" "passed b (s\<lparr>arrivals := g\<rparr>) = passed b s"
  "passed b (s\<lparr>REFRESH_COUNTER := r\<rparr>) = passed b s"
  by (auto simp: nxt_def passed_def)

lemma nxt_advance: "d \<noteq> c \<Longrightarrow> nxt (advance c s) d = nxt s d"
  by (simp add: nxt_def advance_def)

lemma advance_simps [simp]:
  "ticket (advance c s) = ticket s" "arrivals (advance c s) = arrivals s" "REFRESH_COUNTER (advance c s) = REFRESH_COUNTER s"
  "double_buffer (advance c s) = double_buffer s"
  "pc (advance c s) = (pc s)(c := Suc (pc s c))"
  by (simp_all add: advance_def)

lemma barrier_member:
  assumes "cores_inv ap_count s" "c \<le> ap_count" "is_barrier (nxt s c)"
  shows "c \<in> members ap_count (nxt s c)"
proof (cases "c = 0")
  case True
  then have "nxt s c \<in> set (phases 0)" using assms(1,2) nxt_in [of s 0] by (simp add: cores_inv_def)
  with assms(3) have "nxt s c = Sync" by (auto simp: phases_eqs is_barrier_def)
  with True show ?thesis by (simp add: members_def)
qed (use assms(2) in \<open>auto simp: members_def\<close>)

lemma frames_buffer:
  assumes "cores_inv ap_count s" "pc s' = pc s" "double_buffer s' = double_buffer s" "nxt s c = Switch_to_double_buffer \<longrightarrow> double_buffer s"
  shows "nxt (advance c s') 0 = Frames \<longrightarrow> double_buffer (advance c s')"
proof (cases "c = 0")
  case True
  have "nxt s 0 = Frames \<longrightarrow> double_buffer s" "pc s 0 < length (phases 0)" using assms(1) by (simp_all add: cores_inv_def)
  with True frames_after_switch [of s] assms show ?thesis by (auto simp: nxt_def)
next
  case False
  with assms show ?thesis by (simp add: cores_inv_def nxt_def)
qed

text \<open>A step that is not at a barrier.\<close>

lemma cores_inv_advance:
  assumes inv: "cores_inv ap_count s" and c: "c \<le> ap_count" and a: "\<not> is_barrier (nxt s c)" "nxt s c \<noteq> Frames" "nxt s c \<noteq> Echo"
    and db: "nxt s c = Switch_to_double_buffer \<longrightarrow> double_buffer s"
  shows "cores_inv ap_count (advance c s)"
proof -
  have pc: "pc s c < length (phases c)" and tk: "ticket s c = None" using inv c a(1) by (auto simp: cores_inv_def)
  have "in_step (members ap_count b) (passed b (advance c s)) (waiting b (advance c s)) (ticket s) (arrivals s b)"
    if b: "is_barrier b" for b
  proof (rule in_step_cong [where w = "waiting b s" and pa = "passed b s" and tk = "ticket s"])
    show "in_step (members ap_count b) (passed b s) (waiting b s) (ticket s) (arrivals s b)" using inv b by (simp add: cores_inv_def)
    show "passed b (advance c s) d = passed b s d" for d using a(1) b by (auto simp: passed_advance [OF pc])
    show "waiting b (advance c s) d = waiting b s d" for d
      using tk by (cases "d = c") (simp_all add: waiting_def nxt_advance)
  qed simp
  moreover have "\<forall>d\<le>ap_count. ticket s d \<noteq> None \<longrightarrow> is_barrier (nxt (advance c s) d)"
    using inv tk by (metis cores_inv_def nxt_advance)
  moreover note frames_buffer [OF inv refl refl db]
  ultimately show ?thesis using inv phases_go_on [OF pc a(2,3)] by (simp add: cores_inv_def)
qed

lemma cores_inv_arrive:
  assumes inv: "cores_inv ap_count s" and c: "c \<le> ap_count" and a: "is_barrier (nxt s c)" "ticket s c = None"
  shows "cores_inv ap_count (s\<lparr>ticket := (ticket s)(c := Some (arrivals s (nxt s c))),
      arrivals := (arrivals s)(nxt s c := arrivals s (nxt s c) + 1)\<rparr>)" (is "cores_inv _ ?s")
proof -
  have st: "in_step (members ap_count b) (passed b s) (waiting b s) (ticket s) (arrivals s b)" if "is_barrier b" for b
    using inv that by (simp add: cores_inv_def)
  have "in_step (members ap_count b) (passed b ?s) (waiting b ?s) (ticket ?s) (arrivals ?s b)" if b: "is_barrier b" for b
  proof (cases "b = nxt s c")
    case True
    have "in_step (members ap_count b) (passed b s) ((waiting b s)(c := True)) ((ticket s)(c := Some (arrivals s b))) (arrivals s b + 1)"
      using in_step_arrive [OF st [OF b], of c] barrier_member [OF inv c a(1)] a(2) True by (simp add: waiting_def)
    moreover have "(waiting b s)(c := True) = waiting b ?s" using True by (auto simp: waiting_def fun_eq_iff)
    ultimately show ?thesis using True by simp
  next
    case False
    have "in_step (members ap_count b) (passed b s) (waiting b ?s) (ticket ?s) (arrivals s b)"
      by (rule in_step_cong [OF st [OF b]]) (use False a(2) in \<open>auto simp: waiting_def\<close>)
    with False show ?thesis by simp
  qed
  then show ?thesis using inv a(1) by (simp add: cores_inv_def)
qed

lemma cores_inv_pass:
  assumes inv: "cores_inv ap_count s" and c: "c \<le> ap_count" and a: "is_barrier (nxt s c)" "ticket s c = Some t"
    and B: "barrier_ok B" "B (barrier_count ap_count (nxt s c)) (arrivals s (nxt s c)) t"
  shows "cores_inv ap_count (advance c (s\<lparr>ticket := (ticket s)(c := None)\<rparr>))" (is "cores_inv _ (advance c ?s)")
proof -
  have pc: "pc ?s c < length (phases c)" using inv c by (simp add: cores_inv_def)
  have st: "in_step (members ap_count b) (passed b s) (waiting b s) (ticket s) (arrivals s b)" if "is_barrier b" for b
    using inv that by (simp add: cores_inv_def)
  have wait: "waiting b (advance c ?s) d = (d \<noteq> c \<and> waiting b s d)" for b d
    by (cases "d = c") (simp_all add: waiting_def nxt_advance)
  let ?b = "nxt s c"
  have m: "c \<in> members ap_count ?b" by (rule barrier_member [OF inv c a(1)])
  then have "0 < barrier_count ap_count ?b" unfolding card_members [symmetric] by (auto simp: card_gt_0_iff members_def)
  with B have rel: "(t div card (members ap_count ?b) + 1) * card (members ap_count ?b) \<le> arrivals s ?b"
    by (simp add: barrier_ok_def card_members)
  have "in_step (members ap_count b) (passed b (advance c ?s)) (waiting b (advance c ?s)) ((ticket s)(c := None)) (arrivals s b)"
    if b: "is_barrier b" for b
  proof (cases "b = ?b")
    case True
    have w: "waiting ?b s c" using a(2) by (simp add: waiting_def)
    have "waiting ?b (advance c ?s) = (waiting ?b s)(c := False)" by (simp add: wait fun_eq_iff)
    moreover have "passed ?b (advance c ?s) = (passed ?b s)(c := passed ?b s c + 1)" using passed_advance [OF pc] by simp
    ultimately show ?thesis using in_step_pass [OF st [OF a(1)] m w a(2) rel] True by simp
  next
    case False
    then have "\<not> waiting b s c" "passed b (advance c ?s) = passed b s" using passed_advance [OF pc, of b] by (auto simp: waiting_def)
    then show ?thesis by (intro in_step_cong [OF st [OF b]]) (auto simp: wait)
  qed
  moreover have "nxt s c \<noteq> Frames" "nxt s c \<noteq> Echo" using a(1) by (auto simp: is_barrier_def)
  then have "Suc (pc s c) < length (phases c)" using phases_go_on [of s c] pc by simp
  moreover have "nxt (advance c ?s) 0 = Frames \<longrightarrow> double_buffer (advance c ?s)"
    using a(1) by (intro frames_buffer [OF inv]) (auto simp: is_barrier_def)
  ultimately show ?thesis using inv by (auto simp: cores_inv_def nxt_advance)
qed

lemma cores_inv_step:
  assumes "core_step B ap_count s s'" "cores_inv ap_count s" "barrier_ok B"
  shows "cores_inv ap_count s'"
  using assms
proof (induction rule: core_step.induct)
  case (call c s)
  then show ?case by (intro cores_inv_advance) (auto simp: is_call_def)
next
  case (switch c s)
  let ?s = "s\<lparr>double_buffer := True\<rparr>"
  have "waiting b ?s = waiting b s" for b by (auto simp: waiting_def)
  with switch have "cores_inv ap_count ?s" by (simp add: cores_inv_def)
  with switch show ?case by (intro cores_inv_advance) (auto simp: is_barrier_def)
next
  case (terminal c s)
  then show ?case by (intro cores_inv_advance) (auto simp: is_barrier_def)
next
  case (refreshed c s)
  then show ?case by (intro cores_inv_advance) (auto simp: is_barrier_def)
next
  case (frame s)
  let ?s = "s\<lparr>REFRESH_COUNTER := (REFRESH_COUNTER s + 1) mod 2 ^ 64\<rparr>"
  have "waiting b ?s = waiting b s" for b by (auto simp: waiting_def)
  with frame show ?case by (simp add: cores_inv_def)
next
  case (arrive c s)
  from cores_inv_arrive [OF arrive.prems(1) arrive.hyps] show ?case .
next
  case (pass c s t)
  from cores_inv_pass [OF pass.prems(1) pass.hyps(1-3) pass.prems(2) pass.hyps(4)] show ?case .
qed

lemma cores_inv_reach: "cores_reach B ap_count s s' \<Longrightarrow> barrier_ok B \<Longrightarrow> cores_inv ap_count s \<Longrightarrow> cores_inv ap_count s'"
  by (induction rule: rtranclp_induct) (auto dest: cores_inv_step)

text \<open>Two cores at the same barrier: one cannot have passed it more often than the other has arrived there.\<close>

lemma passed_le:
  assumes "cores_inv ap_count s" "is_barrier b" "c \<in> members ap_count b" "d \<in> members ap_count b"
  shows "passed b s c \<le> passed b s d + of_bool (waiting b s d)"
  using assms by (simp add: cores_inv_def in_step_def)

text \<open>The positions of a core, one by one.\<close>

lemma lessThan_cases:
  "pc s c < 17 \<Longrightarrow> pc s c \<in> {0, 1, 2, 3, 4, 5, 6, 7, 8, 9, 10, 11, 12, 13, 14, 15, 16}"
  "pc s c < 19 \<Longrightarrow> pc s c \<in> {0, 1, 2, 3, 4, 5, 6, 7, 8, 9, 10, 11, 12, 13, 14, 15, 16, 17, 18}"
  by (simp_all add: eval_nat_numeral less_Suc_eq disj_ac)

lemma bsp_logs:
  assumes "pc s 0 < length (phases 0)" "nxt s 0 = Log_utilization"
  shows "passed Sync s 0 \<in> {1, 3, 5}"
proof -
  have "pc s 0 < 17" using assms(1) by (simp add: phases_eqs)
  from lessThan_cases(1) [OF this] assms(2) show ?thesis
    by (auto simp: nxt_def passed_def phases_eqs)
qed

lemma ap_between_syncs:
  assumes "pc s c < length (phases c)" "0 < c" "passed Sync s c \<in> {1, 3, 5}"
  shows "nxt s c = Sync"
proof -
  have "c = Suc 0 \<or> 2 \<le> c" using assms(2) by auto
  then have "pc s c < 19" "phases c = phases (Suc 0) \<or> phases c = phases 2" using assms(1) by (auto simp: phases_eqs)
  from lessThan_cases(2) [OF this(1)] this(2) assms(1,3) show ?thesis
    by (auto simp: nxt_def passed_def phases_eqs)
qed

text \<open>
  C16: whenever core 0 reports the use of memory, every other core stands at the barrier, so no
  program is loaded or running and no core maps memory meanwhile.
\<close>

theorem utilization_at_rest:
  assumes "barrier_ok B" "cores_reach B ap_count cores_init s" "nxt s 0 = Log_utilization" "0 < c" "c \<le> ap_count"
  shows "nxt s c = Sync"
proof -
  have inv: "cores_inv ap_count s" by (rule cores_inv_reach [OF assms(2,1) cores_inv_init])
  then have pc: "pc s 0 < length (phases 0)" "pc s c < length (phases c)" using assms(5) by (simp_all add: cores_inv_def)
  have b: "is_barrier Sync" "0 \<in> members ap_count Sync" "c \<in> members ap_count Sync"
    using assms(5) by (simp_all add: is_barrier_def members_def)
  have "\<not> waiting Sync s 0" using assms(3) by (simp add: waiting_def)
  with passed_le [OF inv b(1) b(3,2)] have le: "passed Sync s c \<le> passed Sync s 0" by simp
  show ?thesis
  proof (cases "waiting Sync s c")
    case False
    with passed_le [OF inv b] le have "passed Sync s c = passed Sync s 0" by simp
    with bsp_logs [OF pc(1) assms(3)] ap_between_syncs [OF pc(2) assms(4)] show ?thesis by simp
  qed (simp add: waiting_def)
qed

lemma after_barrier:
  assumes "pc s c < length (phases c)" "0 < c" "nxt s c \<in> {Clear_terminal, Demo, Echo}"
  shows "passed Barrier s c = 1"
proof -
  have "c = Suc 0 \<or> 2 \<le> c" using assms(2) by auto
  then have "pc s c < 19" "phases c = phases (Suc 0) \<or> phases c = phases 2" using assms(1) by (auto simp: phases_eqs)
  from lessThan_cases(2) [OF this(1)] this(2) assms(1,3) show ?thesis
    by (auto simp: nxt_def passed_def phases_eqs)
qed

lemma at_barrier:
  assumes "pc s c < length (phases c)" "0 < c" "0 < passed Barrier s c \<or> nxt s c = Barrier"
  shows "Start_terminal \<in> set (take (pc s c) (phases c))" "c = 1 \<Longrightarrow> Move_main_term \<in> set (take (pc s c) (phases c))"
proof -
  have c: "c = Suc 0 \<or> 2 \<le> c" using assms(2) by auto
  then have "pc s c < 19" "c = Suc 0 \<or> c \<noteq> 1 \<and> phases c = phases 2" using assms(1) by (auto simp: phases_eqs)
  from lessThan_cases(2) [OF this(1)] this(2) assms(1,3)
  have "Start_terminal \<in> set (take (pc s c) (phases c)) \<and> (c = 1 \<longrightarrow> Move_main_term \<in> set (take (pc s c) (phases c)))"
    by (auto simp: nxt_def passed_def phases_eqs)
  then show "Start_terminal \<in> set (take (pc s c) (phases c))" "c = 1 \<Longrightarrow> Move_main_term \<in> set (take (pc s c) (phases c))" by blast+
qed

text \<open>
  C39: before an application processor draws its text, all of them have painted their windows and core 1 has moved
  the main terminal, which covered the whole screen, into its own window.
\<close>

theorem windows_ready_before_text:
  assumes "barrier_ok B" "cores_reach B ap_count cores_init s" "0 < c" "c \<le> ap_count" "nxt s c \<in> {Clear_terminal, Demo, Echo}"
  shows "Move_main_term \<in> set (take (pc s 1) (phases 1)) \<and>
    (\<forall>d. 0 < d \<longrightarrow> d \<le> ap_count \<longrightarrow> Start_terminal \<in> set (take (pc s d) (phases d)))"
proof -
  have inv: "cores_inv ap_count s" by (rule cores_inv_reach [OF assms(2,1) cores_inv_init])
  then have pc: "pc s d < length (phases d)" if "d \<le> ap_count" for d using that by (simp add: cores_inv_def)
  have b: "is_barrier Barrier" "c \<in> members ap_count Barrier" using assms(3,4) by (auto simp: is_barrier_def members_def)
  have "0 < passed Barrier s d \<or> nxt s d = Barrier" if "0 < d" "d \<le> ap_count" for d
  proof -
    have "d \<in> members ap_count Barrier" using that by (auto simp: members_def)
    from passed_le [OF inv b this] after_barrier [OF pc [OF assms(4)] assms(3,5)] show ?thesis
      by (cases "waiting Barrier s d") (auto simp: waiting_def)
  qed
  note at = at_barrier [OF pc _ this]
  have "Move_main_term \<in> set (take (pc s 1) (phases 1))" using assms(3,4) by (intro at(2)) simp_all
  with at(1) show ?thesis by blast
qed

subsection \<open>No core is left behind\<close>

lemma in_step_release:
  assumes "in_step G pa w tk tot" "c \<in> G" "w c" "tk c = Some t" "\<forall>d\<in>G. pa c + 1 \<le> pa d + of_bool (w d)"
  shows "(t div card G + 1) * card G \<le> tot"
proof -
  have "t div card G = pa c" "tot = (\<Sum>d\<in>G. pa d + of_bool (w d))" using assms(1-4) by (auto simp: in_step_def)
  moreover have "card G * (pa c + 1) \<le> (\<Sum>d\<in>G. pa d + of_bool (w d))"
    using sum_bounded_below [of G "pa c + 1" "\<lambda>d. pa d + of_bool (w d)"] assms(5) by simp
  ultimately show ?thesis by (simp only: mult.commute)
qed

lemma pass_step:
  assumes B: "barrier_ok B" and inv: "cores_inv ap_count s" and c: "c \<le> ap_count" "is_barrier b" "waiting b s c"
    and all: "\<forall>d\<in>members ap_count b. passed b s c + 1 \<le> passed b s d + of_bool (waiting b s d)"
  shows "core_step B ap_count s (advance c (s\<lparr>ticket := (ticket s)(c := None)\<rparr>))"
proof -
  obtain t where t: "ticket s c = Some t" and b: "nxt s c = b" using c(3) by (auto simp: waiting_def)
  have m: "c \<in> members ap_count b" using barrier_member [OF inv c(1)] c(2) b by simp
  have st: "in_step (members ap_count b) (passed b s) (waiting b s) (ticket s) (arrivals s b)" using inv c(2) by (simp add: cores_inv_def)
  have "0 < barrier_count ap_count b" unfolding card_members [symmetric] using m by (auto simp: card_gt_0_iff members_def)
  with in_step_release [OF st m c(3) t all] B have "B (barrier_count ap_count b) (arrivals s b) t"
    by (simp add: barrier_ok_def card_members)
  with c t b show ?thesis by (intro core_step.pass) simp_all
qed

lemma sync_counts:
  assumes "pc s c < length (phases c)"
  shows "nxt s c = Sync \<Longrightarrow> passed Sync s c \<le> 5" "nxt s c \<in> {Barrier, Start_terminal, Wait_refresh, Frames, Echo} \<Longrightarrow> passed Sync s c = 6"
    "nxt s c = Barrier \<Longrightarrow> passed Barrier s c = 0" "nxt s c = Frames \<Longrightarrow> c = 0"
proof -
  have "c = 0 \<and> phases c = phases 0 \<or> c \<noteq> 0 \<and> (phases c = phases (Suc 0) \<or> phases c = phases 2)"
    by (cases rule: core_cases [of c]) (simp_all add: phases_eqs)
  moreover from this assms have "pc s c < 19" by (auto simp: phases_eqs)
  note lessThan_cases(2) [OF this]
  ultimately show "nxt s c = Sync \<Longrightarrow> passed Sync s c \<le> 5" "nxt s c \<in> {Barrier, Start_terminal, Wait_refresh, Frames, Echo} \<Longrightarrow> passed Sync s c = 6"
    "nxt s c = Barrier \<Longrightarrow> passed Barrier s c = 0" "nxt s c = Frames \<Longrightarrow> c = 0"
    using assms by (auto simp: nxt_def passed_def phases_eqs)
qed

text \<open>The work that the cores have left: two steps for every phase, one when it is a barrier that has been reached.\<close>

definition core_work :: "cores \<Rightarrow> nat \<Rightarrow> nat" where
  "core_work s c = 2 * (length (phases c) - pc s c) - of_bool (ticket s c \<noteq> None)"

definition work_left :: "nat \<Rightarrow> cores \<Rightarrow> nat" where
  "work_left ap_count s = (\<Sum>c\<in>{0..ap_count}. core_work s c)"

lemma work_left_less:
  assumes "c \<le> ap_count" "core_work s' c < core_work s c" "\<And>d. d \<noteq> c \<Longrightarrow> core_work s' d = core_work s d"
  shows "work_left ap_count s' < work_left ap_count s"
  unfolding work_left_def
proof (rule sum_strict_mono_ex1)
  show "\<forall>d\<in>{0..ap_count}. core_work s' d \<le> core_work s d"
    using assms(2,3) by (metis order.strict_implies_order order_refl)
  show "\<exists>d\<in>{0..ap_count}. core_work s' d < core_work s d" using assms(1,2) by auto
qed simp

lemma work_advance:
  assumes "cores_inv ap_count s" "c \<le> ap_count" "ticket s' = (ticket s)(c := None)" "pc s' = pc s"
  shows "work_left ap_count (advance c s') < work_left ap_count s"
proof (rule work_left_less [OF assms(2)])
  have "pc s c < length (phases c)" using assms(1,2) by (simp add: cores_inv_def)
  then show "core_work (advance c s') c < core_work s c" using assms(3,4)
    by (simp add: core_work_def) arith
qed (use assms(3,4) in \<open>simp add: core_work_def\<close>)

definition cores_up :: "nat \<Rightarrow> cores \<Rightarrow> bool" where
  "cores_up ap_count s \<longleftrightarrow> nxt s 0 = Frames \<and> (\<forall>c. 0 < c \<longrightarrow> c \<le> ap_count \<longrightarrow> nxt s c = Echo)"

text \<open>Two frames let the application processors go on.\<close>

lemma frames_shown:
  assumes "nxt s 0 = Frames"
  shows "\<exists>r. 2 \<le> r \<and> cores_reach B ap_count s (s\<lparr>REFRESH_COUNTER := r\<rparr>)"
proof (cases "2 \<le> REFRESH_COUNTER s")
  case True
  have "s\<lparr>REFRESH_COUNTER := REFRESH_COUNTER s\<rparr> = s" by simp
  with True show ?thesis by (metis rtranclp.rtrancl_refl)
next
  case False
  let ?s = "s\<lparr>REFRESH_COUNTER := REFRESH_COUNTER s + 1\<rparr>"
  have 1: "core_step B ap_count s ?s" using core_step.frame [OF assms] False by simp
  have "core_step B ap_count ?s (s\<lparr>REFRESH_COUNTER := REFRESH_COUNTER s + 2\<rparr>)"
    using core_step.frame [of ?s B ap_count] assms False by (simp add: nxt_def)
  with 1 have "cores_reach B ap_count s (s\<lparr>REFRESH_COUNTER := REFRESH_COUNTER s + 2\<rparr>)" by simp
  then show ?thesis by (intro exI [of _ "REFRESH_COUNTER s + 2"]) simp
qed

lemma sync_released:
  assumes B: "barrier_ok B" and inv: "cores_inv ap_count s"
    and blocked: "\<forall>c\<le>ap_count. \<not> is_call (nxt s c) \<and> nxt s c \<noteq> Switch_to_double_buffer \<and> (is_barrier (nxt s c) \<longrightarrow> ticket s c \<noteq> None)"
    and some: "\<exists>c\<le>ap_count. nxt s c = Sync"
  obtains c where "c \<le> ap_count" "core_step B ap_count s (advance c (s\<lparr>ticket := (ticket s)(c := None)\<rparr>))"
proof -
  have pc: "pc s d < length (phases d)" if "d \<le> ap_count" for d using inv that by (simp add: cores_inv_def)
  obtain c where c: "c \<le> ap_count" "nxt s c = Sync"
    and least: "\<And>d. d \<le> ap_count \<Longrightarrow> nxt s d = Sync \<Longrightarrow> passed Sync s c \<le> passed Sync s d"
    using ex_has_least_nat [of "\<lambda>d. d \<le> ap_count \<and> nxt s d = Sync" _ "passed Sync s"] some by blast
  have b: "is_barrier Sync" by (simp add: is_barrier_def)
  have w: "waiting Sync s c" using blocked c b by (simp add: waiting_def)
  have "passed Sync s c + 1 \<le> passed Sync s d + of_bool (waiting Sync s d)" if d: "d \<in> members ap_count Sync" for d
  proof (cases "nxt s d = Sync")
    case True
    moreover have "d \<le> ap_count" using d by (simp add: members_def)
    ultimately show ?thesis using least blocked b by (simp add: waiting_def)
  next
    case False
    have le: "d \<le> ap_count" using d by (simp add: members_def)
    have "nxt s d \<in> {Barrier, Start_terminal, Wait_refresh, Frames, Echo}" using blocked le False by (auto simp: is_call_def is_barrier_def)
    from sync_counts(2) [OF pc [OF le] this] sync_counts(1) [OF pc [OF c(1)] c(2)] show ?thesis by simp
  qed
  with pass_step [OF B inv c(1) b w] c(1) that show ?thesis by blast
qed

lemma barrier_released:
  assumes B: "barrier_ok B" and inv: "cores_inv ap_count s"
    and blocked: "\<forall>c. 0 < c \<longrightarrow> c \<le> ap_count \<longrightarrow> nxt s c = Echo \<or> nxt s c = Barrier \<and> ticket s c \<noteq> None"
    and c: "0 < c" "c \<le> ap_count" "nxt s c = Barrier"
  shows "core_step B ap_count s (advance c (s\<lparr>ticket := (ticket s)(c := None)\<rparr>))"
proof -
  have pc: "pc s d < length (phases d)" if "d \<le> ap_count" for d using inv that by (simp add: cores_inv_def)
  have b: "is_barrier Barrier" by (simp add: is_barrier_def)
  have w: "waiting Barrier s c" using blocked [rule_format, OF c(1,2)] c(3) by (simp add: waiting_def)
  have "passed Barrier s c + 1 \<le> passed Barrier s d + of_bool (waiting Barrier s d)" if d: "d \<in> members ap_count Barrier" for d
  proof -
    have d': "0 < d" "d \<le> ap_count" using d by (auto simp: members_def)
    have "1 \<le> passed Barrier s d + of_bool (waiting Barrier s d)"
      using blocked [rule_format, OF d'] after_barrier [OF pc [OF d'(2)] d'(1)] by (cases "nxt s d = Echo") (simp_all add: waiting_def)
    with sync_counts(3) [OF pc [OF c(2)] c(3)] show ?thesis by simp
  qed
  with pass_step [OF B inv c(2) b w] show ?thesis by blast
qed

abbreviation progress :: "(nat \<Rightarrow> nat \<Rightarrow> nat \<Rightarrow> bool) \<Rightarrow> nat \<Rightarrow> cores \<Rightarrow> bool" where
  "progress B ap_count s \<equiv> \<exists>s'. cores_reach B ap_count s s' \<and> work_left ap_count s' < work_left ap_count s"

lemma free_ticket: "cores_inv ap_count s \<Longrightarrow> c \<le> ap_count \<Longrightarrow> \<not> is_barrier (nxt s c) \<Longrightarrow> ticket s = (ticket s)(c := None)"
  by (rule ext) (auto simp: cores_inv_def)

lemma advance_progress:
  assumes "cores_inv ap_count s" "c \<le> ap_count" "cores_reach B ap_count s s1" "core_step B ap_count s1 (advance c s')"
    and "pc s' = pc s" "ticket s' = (ticket s)(c := None)"
  shows "progress B ap_count s"
  using work_advance [OF assms(1,2,6,5)] assms(3,4) by (meson rtranclp.rtrancl_into_rtrancl)

text \<open>When nobody is at \<open>sync_cores_barrier\<close> and nobody can make a call, the windows are being set up.\<close>

lemma windows_progress:
  assumes B: "barrier_ok B" and inv: "cores_inv ap_count s" and up: "\<not> cores_up ap_count s"
    and kinds: "\<And>c. c \<le> ap_count \<Longrightarrow> nxt s c \<in> {Barrier, Start_terminal, Wait_refresh, Frames, Echo}"
    and tickets: "\<And>c. c \<le> ap_count \<Longrightarrow> nxt s c = Barrier \<Longrightarrow> ticket s c \<noteq> None"
  shows "progress B ap_count s"
proof -
  have pc: "pc s c < length (phases c)" if "c \<le> ap_count" for c using inv that by (simp add: cores_inv_def)
  have 0: "nxt s 0 = Frames" using kinds [of 0] nxt_in [OF pc [of 0]] by (auto simp: phases_eqs)
  then have db: "double_buffer s" using inv by (simp add: cores_inv_def)
  have ap: "nxt s c \<noteq> Frames" if "0 < c" "c \<le> ap_count" for c using sync_counts(4) [OF pc [OF that(2)]] that(1) by auto
  have none: "ticket s = (ticket s)(c := None)" if "c \<le> ap_count" "nxt s c \<in> {Start_terminal, Wait_refresh}" for c
    using that by (intro free_ticket [OF inv]) (auto simp: is_barrier_def)
  consider (terminal) c where "c \<le> ap_count" "nxt s c = Start_terminal"
    | (refresh) c where "c \<le> ap_count" "nxt s c = Wait_refresh"
    | (rest) "\<forall>c\<le>ap_count. nxt s c \<noteq> Start_terminal \<and> nxt s c \<noteq> Wait_refresh" by blast
  then show ?thesis
  proof cases
    case terminal
    from none [of c] terminal have "ticket s = (ticket s)(c := None)" by simp
    from advance_progress [OF inv terminal(1) rtranclp.rtrancl_refl core_step.terminal [OF terminal db] refl this] show ?thesis .
  next
    case refresh
    obtain r where r: "2 \<le> r" "cores_reach B ap_count s (s\<lparr>REFRESH_COUNTER := r\<rparr>)" using frames_shown [OF 0] by blast
    have "core_step B ap_count (s\<lparr>REFRESH_COUNTER := r\<rparr>) (advance c (s\<lparr>REFRESH_COUNTER := r\<rparr>))"
      using refresh r(1) by (intro core_step.refreshed) simp_all
    moreover have "ticket (s\<lparr>REFRESH_COUNTER := r\<rparr>) = (ticket s)(c := None)" using none [of c] refresh by simp
    ultimately show ?thesis by (intro advance_progress [OF inv refresh(1) r(2), of "s\<lparr>REFRESH_COUNTER := r\<rparr>"]) simp_all
  next
    case rest
    then have last: "\<forall>c. 0 < c \<longrightarrow> c \<le> ap_count \<longrightarrow> nxt s c = Echo \<or> nxt s c = Barrier \<and> ticket s c \<noteq> None"
      using kinds ap tickets by blast
    obtain c where c: "0 < c" "c \<le> ap_count" "nxt s c = Barrier" using up 0 last by (auto simp: cores_up_def)
    from barrier_released [OF B inv last c] show ?thesis
      by (intro advance_progress [OF inv c(2) rtranclp.rtrancl_refl, of _ "s\<lparr>ticket := (ticket s)(c := None)\<rparr>"]) simp_all
  qed
qed

lemma cores_progress:
  assumes B: "barrier_ok B" and inv: "cores_inv ap_count s" and up: "\<not> cores_up ap_count s"
  shows "progress B ap_count s"
proof -
  consider (call) c where "c \<le> ap_count" "is_call (nxt s c)"
    | (switch) c where "c \<le> ap_count" "nxt s c = Switch_to_double_buffer"
    | (arrive) c where "c \<le> ap_count" "is_barrier (nxt s c)" "ticket s c = None"
    | (blocked) "\<forall>c\<le>ap_count. \<not> is_call (nxt s c) \<and> nxt s c \<noteq> Switch_to_double_buffer \<and> (is_barrier (nxt s c) \<longrightarrow> ticket s c \<noteq> None)" by blast
  then show ?thesis
  proof cases
    case call
    then have "ticket s = (ticket s)(c := None)" by (intro free_ticket [OF inv]) (auto simp: is_call_def)
    from advance_progress [OF inv call(1) rtranclp.rtrancl_refl core_step.call [OF call] refl this] show ?thesis .
  next
    case switch
    then have "ticket s = (ticket s)(c := None)" by (intro free_ticket [OF inv]) (auto simp: is_barrier_def)
    with core_step.switch [OF switch] show ?thesis
      by (intro advance_progress [OF inv switch(1) rtranclp.rtrancl_refl, of _ "s\<lparr>double_buffer := True\<rparr>"]) simp_all
  next
    case arrive
    let ?s = "s\<lparr>ticket := (ticket s)(c := Some (arrivals s (nxt s c))), arrivals := (arrivals s)(nxt s c := arrivals s (nxt s c) + 1)\<rparr>"
    have "pc s c < length (phases c)" using inv arrive(1) by (simp add: cores_inv_def)
    then have "work_left ap_count ?s < work_left ap_count s"
      using arrive by (intro work_left_less [OF arrive(1)]) (auto simp: core_work_def)
    with core_step.arrive [OF arrive] show ?thesis by blast
  next
    case blocked
    show ?thesis
    proof (cases "\<exists>c\<le>ap_count. nxt s c = Sync")
      case True
      from sync_released [OF B inv blocked this] obtain c where
        "c \<le> ap_count" "core_step B ap_count s (advance c (s\<lparr>ticket := (ticket s)(c := None)\<rparr>))" by blast
      then show ?thesis by (intro advance_progress [OF inv _ rtranclp.rtrancl_refl, of c _ "s\<lparr>ticket := (ticket s)(c := None)\<rparr>"]) simp_all
    next
      case False
      show ?thesis
      proof (rule windows_progress [OF B inv up])
        show "nxt s c \<in> {Barrier, Start_terminal, Wait_refresh, Frames, Echo}" if "c \<le> ap_count" for c
          using blocked that False by (auto simp: is_call_def is_barrier_def)
        show "ticket s c \<noteq> None" if "c \<le> ap_count" "nxt s c = Barrier" for c using blocked that by (simp add: is_barrier_def)
      qed
    qed
  qed
qed

lemma cores_finish:
  assumes "barrier_ok B" "cores_reach B ap_count cores_init s"
  shows "\<exists>s'. cores_reach B ap_count s s' \<and> cores_up ap_count s'"
proof -
  have "\<exists>s'. cores_reach B ap_count s s' \<and> cores_up ap_count s'" if "cores_inv ap_count s" for s
    using that
  proof (induction "work_left ap_count s" arbitrary: s rule: less_induct)
    case less
    show ?case
    proof (cases "cores_up ap_count s")
      case False
      then obtain s1 where s1: "cores_reach B ap_count s s1" "work_left ap_count s1 < work_left ap_count s"
        using cores_progress [OF assms(1) less.prems] by blast
      then obtain s' where "cores_reach B ap_count s1 s'" "cores_up ap_count s'"
        using less.hyps cores_inv_reach [OF s1(1) assms(1) less.prems] by blast
      with s1(1) show ?thesis by (meson rtranclp_trans)
    qed blast
  qed
  with cores_inv_reach [OF assms(2,1) cores_inv_init] show ?thesis by blast
qed

text \<open>
  C17: whatever the order in which the cores have run so far, they can always go on until core 0 shows frames
  and all others serve the serial port: no core waits for a partner that never comes.
\<close>

theorem cores_come_up:
  assumes "barrier_ok B" "cores_reach B ap_count cores_init s"
  shows "\<exists>s'. cores_reach B ap_count s s' \<and> cores_up ap_count s'"
  using assms by (rule cores_finish)

subsection \<open>A concrete barrier\<close>

definition barrier_ref :: "nat \<Rightarrow> nat \<Rightarrow> nat \<Rightarrow> bool" where
  "barrier_ref n tot t \<longleftrightarrow> (t div n + 1) * n \<le> tot"

lemma barrier_ref_ok: "barrier_ok barrier_ref"
  by (simp add: barrier_ok_def barrier_ref_def)

text \<open>Two cores: both pass the first barrier, and core 0 reports.\<close>

definition run_report :: "cores \<Rightarrow> cores" where
  "run_report s =
     (let s = advance 0 s; s = advance 1 s;
        s = s\<lparr>ticket := (ticket s)(0 := Some (arrivals s Sync)), arrivals := (arrivals s)(Sync := arrivals s Sync + 1)\<rparr>;
        s = s\<lparr>ticket := (ticket s)(1 := Some (arrivals s Sync)), arrivals := (arrivals s)(Sync := arrivals s Sync + 1)\<rparr>
      in advance 0 (s\<lparr>ticket := (ticket s)(0 := None)\<rparr>))"

lemma run_report_reached: "cores_reach barrier_ref 1 cores_init (run_report cores_init)"
proof -
  define s1 where "s1 = advance 0 cores_init"
  define s2 where "s2 = advance 1 s1"
  define s3 where "s3 = s2\<lparr>ticket := (ticket s2)(0 := Some (arrivals s2 Sync)), arrivals := (arrivals s2)(Sync := arrivals s2 Sync + 1)\<rparr>"
  define s4 where "s4 = s3\<lparr>ticket := (ticket s3)(1 := Some (arrivals s3 Sync)), arrivals := (arrivals s3)(Sync := arrivals s3 Sync + 1)\<rparr>"
  note defs = s1_def s2_def s3_def s4_def
  have n: "nxt cores_init 0 = Enable_interrupts" "nxt s1 1 = Enable_interrupts" "nxt s2 0 = Sync" "nxt s3 1 = Sync" "nxt s4 0 = Sync"
    by (simp_all add: defs nxt_def cores_init_def phases_eqs)
  have "core_step barrier_ref 1 cores_init s1" unfolding s1_def using n(1) by (intro core_step.call) (simp_all add: is_call_def is_barrier_def)
  moreover have "core_step barrier_ref 1 s1 s2" unfolding s2_def using n(2) by (intro core_step.call) (simp_all add: is_call_def is_barrier_def)
  moreover have "core_step barrier_ref 1 s2 s3"
    using core_step.arrive [of 0 1 s2 barrier_ref] n(3) by (simp add: s3_def is_barrier_def) (simp add: s2_def s1_def cores_init_def)
  moreover have "core_step barrier_ref 1 s3 s4"
    using core_step.arrive [of 1 1 s3 barrier_ref] n(4) by (simp add: s4_def is_barrier_def) (simp add: s3_def s2_def s1_def cores_init_def)
  moreover have "core_step barrier_ref 1 s4 (advance 0 (s4\<lparr>ticket := (ticket s4)(0 := None)\<rparr>))"
    by (rule core_step.pass [where t = 0]) (use n(5) in \<open>simp_all add: is_barrier_def barrier_ref_def barrier_count_def defs cores_init_def\<close>)
  ultimately have "cores_reach barrier_ref 1 cores_init (advance 0 (s4\<lparr>ticket := (ticket s4)(0 := None)\<rparr>))"
    by (meson rtranclp.rtrancl_into_rtrancl rtranclp.rtrancl_refl)
  then show ?thesis by (simp add: run_report_def Let_def defs)
qed

theorem utilization_at_rest_witness: "nxt (run_report cores_init) 0 = Log_utilization \<and> nxt (run_report cores_init) 1 = Sync"
proof -
  have log: "nxt (run_report cores_init) 0 = Log_utilization"
    by (simp add: run_report_def Let_def nxt_def cores_init_def phases_eqs)
  with utilization_at_rest [OF barrier_ref_ok run_report_reached log, of 1] show ?thesis by simp
qed

theorem cores_come_up_witness: "\<exists>s'. cores_reach barrier_ref 1 (run_report cores_init) s' \<and> nxt s' 0 = Frames \<and> nxt s' 1 = Echo"
  using cores_come_up [OF barrier_ref_ok run_report_reached] by (auto simp: cores_up_def)

theorem windows_ready_before_text_witness:
  "\<exists>s. cores_reach barrier_ref 3 cores_init s \<and> nxt s 2 = Echo \<and> Move_main_term \<in> set (take (pc s 1) (phases 1)) \<and>
     Start_terminal \<in> set (take (pc s 3) (phases 3))"
proof -
  obtain s where s: "cores_reach barrier_ref 3 cores_init s" "cores_up 3 s"
    using cores_finish [OF barrier_ref_ok, of 3 cores_init] by blast
  then have "nxt s 2 = Echo" by (simp add: cores_up_def)
  with windows_ready_before_text [OF barrier_ref_ok s(1), of 2] s(1) show ?thesis by auto
qed

end
