(* ===== verification/Core_Text.thy ===== *)
theory Core_Text
  imports Common_Main Utf8
begin

text \<open>
  What the application processors show at the end of \<open>main\<close>, kernel/src/common_main.rs: the wait for two frames, the move of
  the main terminal by core 1, the texts of the cores and the echo of the serial port.  The state is the core's
  own writer with the screen of all cores.  \<open>readings k\<close> and \<open>refresh i\<close> are the values of \<open>REFRESH_COUNTER\<close> that the core
  reads; its barrier is in the theory \<open>Core_Phases\<close>.
\<close>

type_synonym cstate = "TerminalWriter \<times> screen"

partial_function (option) wait_refresh :: "(nat \<Rightarrow> nat) \<Rightarrow> nat \<Rightarrow> nat option" where
  "wait_refresh readings k = (if readings k < 2 then wait_refresh readings (k + 1) else Some k)"

definition move_main_term :: "BootInfo \<Rightarrow> font \<Rightarrow> nat \<Rightarrow> screen \<Rightarrow> screen res" where
  "move_main_term bi F ap_count s =
     bnd (lazy_term bi (MAIN_TERM s)) (\<lambda>term.
     bnd (get_window_info_for_core bi 0 ap_count) (\<lambda>w.
     bnd (set_window_info F w None (term, vm s)) (\<lambda>(term, m).
     Inr (s\<lparr>vm := m, MAIN_TERM := Some term\<rparr>))))"

definition with_memory :: "(tstate \<Rightarrow> tstate res) \<Rightarrow> cstate \<Rightarrow> cstate res" where
  "with_memory f = (\<lambda>(t, s). bnd (f (t, vm s)) (\<lambda>(t, m). Inr (t, s\<lparr>vm := m\<rparr>)))"

definition frame_line :: "nat \<Rightarrow> nat \<Rightarrow> nat \<Rightarrow> nat list" where
  "frame_line i refresh count = codes (dec i @ '' frame '' @ dec refresh @ '' '' @ dec count) @ [10]"

definition hello_line :: "nat \<Rightarrow> nat \<Rightarrow> nat list" where
  "hello_line i id' = codes (''['' @ dec i @ ''] Hello from core '' @ dec id') @ [10]"

definition core_text ::
  "BootInfo \<Rightarrow> font \<Rightarrow> (u8 list \<Rightarrow> (nat \<times> u8 list) option) \<Rightarrow> (nat \<Rightarrow> u8) \<Rightarrow> (nat \<Rightarrow> nat) \<Rightarrow> nat \<Rightarrow> nat \<Rightarrow> cstate \<Rightarrow> cstate res option"
where
  "core_text bi F jpeg mem refresh id' ap_count st =
     (if id' = 1
      then Some (foldm (\<lambda>i. with_memory (write_str F (frame_line i (refresh i) ap_count))) [0..<100000000] st)
      else if id' = 2
      then obnd (Some (with_memory (write_str F (codes ''Core 2 uses stdout'' @ [10])) st)) (\<lambda>(t, s).
           obnd (print_logo bi jpeg mem s) (\<lambda>s. Some (Inr (t, s))))
      else Some (foldm (\<lambda>i. with_memory (write_str F (hello_line i id'))) [0..<200] st))"

definition core_shows ::
  "BootInfo \<Rightarrow> font \<Rightarrow> (u8 list \<Rightarrow> (nat \<times> u8 list) option) \<Rightarrow> (nat \<Rightarrow> u8) \<Rightarrow> (nat \<Rightarrow> nat) \<Rightarrow> (nat \<Rightarrow> nat) \<Rightarrow> nat \<Rightarrow> nat \<Rightarrow> cstate \<Rightarrow>
    cstate res option"
where
  "core_shows bi F jpeg mem readings refresh id' ap_count = (\<lambda>(t, s).
     case wait_refresh readings 0 of
       None \<Rightarrow> None
     | Some _ \<Rightarrow>
         obnd (Some (if id' = 1 then move_main_term bi F ap_count s else Inr s)) (\<lambda>s.
         obnd (Some (with_memory (clear F None) (t, s))) (\<lambda>st.
         core_text bi F jpeg mem refresh id' ap_count st)))"

subsection \<open>The echo\<close>

text \<open>
  The format \<open>{:?}\<close> of the result of \<open>from_utf8\<close> on one byte: a string in quotes with the escapes of the language, or the
  error, whose length is unknown when more bytes could complete the character.
\<close>

definition hex_digit :: "nat \<Rightarrow> char" where
  "hex_digit n = char_of (if n < 10 then 48 + n else 87 + n)"

definition lower_hex :: "nat \<Rightarrow> string" where
  "lower_hex n = (if n < 16 then [hex_digit n] else [hex_digit (n div 16), hex_digit (n mod 16)])"

definition escape_debug :: "nat \<Rightarrow> string" where
  "escape_debug c =
     (if c = 0 then [CHR 0x5C, CHR ''0'']
      else if c = 9 then [CHR 0x5C, CHR ''t'']
      else if c = 10 then [CHR 0x5C, CHR ''n'']
      else if c = 13 then [CHR 0x5C, CHR ''r'']
      else if c = 34 then [CHR 0x5C, CHR 0x22]
      else if c = 92 then [CHR 0x5C, CHR 0x5C]
      else if c < 32 \<or> c = 127 then CHR 0x5C # ''u{'' @ lower_hex c @ ''}''
      else [char_of c])"

definition utf8_debug :: "u8 \<Rightarrow> string" where
  "utf8_debug c =
     (case from_utf8 [c] of
        Some cs \<Rightarrow> ''Ok('' @ [CHR 0x22] @ concat (map escape_debug cs) @ [CHR 0x22] @ '')''
      | None \<Rightarrow> ''Err(Utf8Error { valid_up_to: 0, error_len: '' @
          (if 0xC2 \<le> c \<and> c \<le> 0xF4 then ''None'' else ''Some(1)'') @ '' })'')"

definition echo_line :: "u8 \<Rightarrow> nat list" where
  "echo_line c = codes (dec (unat c) @ '': '' @ utf8_debug c) @ [10]"

definition echo_round :: "'d ports \<Rightarrow> font \<Rightarrow> tstate \<times> 'd \<Rightarrow> (tstate \<times> 'd) res option" where
  "echo_round D F = (\<lambda>(st, d).
     case serial_read D COM1 d of
       None \<Rightarrow> None
     | Some (Inl _, d) \<Rightarrow> Some (Inr (st, d))
     | Some (Inr c, d) \<Rightarrow> Some (bnd (write_str F (echo_line c) st) (\<lambda>st. Inr (st, d))))"

text \<open>The first \<open>n\<close> rounds of the loop.\<close>

definition echo_rounds :: "'d ports \<Rightarrow> font \<Rightarrow> nat \<Rightarrow> tstate \<times> 'd \<Rightarrow> (tstate \<times> 'd) res option" where
  "echo_rounds D F n = ofold (\<lambda>_. echo_round D F) [0..<n]"

subsection \<open>Text is drawn inside a window\<close>

lemma write_str_concat: "foldm (\<lambda>x. write_str F (g x)) xs = write_str F (concat (map g xs))"
proof
  show "foldm (\<lambda>x. write_str F (g x)) xs st = write_str F (concat (map g xs)) st" for st
    by (simp add: write_str_def foldm_concat foldm_map)
qed

lemma with_memory_foldm: "foldm (\<lambda>x. with_memory (f x)) xs = with_memory (foldm f xs)"
proof
  show "foldm (\<lambda>x. with_memory (f x)) xs st = with_memory (foldm f xs) st" for st
  proof (induction xs arbitrary: st)
    case (Cons x xs)
    obtain t s where st: "st = (t, s)" by force
    show ?case
    proof (cases "f x (t, vm s)")
      case (Inr r)
      obtain t1 m1 where "r = (t1, m1)" by force
      with Inr st Cons.IH [of "(t1, s\<lparr>vm := m1\<rparr>)"] show ?thesis by (simp add: with_memory_def)
    qed (simp add: st with_memory_def)
  qed (simp add: with_memory_def case_prod_beta)
qed

lemma with_memory_keeps:
  assumes "f (t, vm s) = Inr (t', m')"
  shows "with_memory f (t, s) = Inr (t', s\<lparr>vm := m'\<rparr>)"
  using assms by (simp add: with_memory_def)

lemma lines_keep:
  assumes "font_ok F" "term_ok F t"
  obtains t' m' where "foldm (\<lambda>i. with_memory (write_str F (g i))) xs (t, s) = Inr (t', s\<lparr>vm := m'\<rparr>)" "keeps F (t, vm s) (t', m')"
    "write_str F (concat (map g xs)) (t, vm s) = Inr (t', m')"
proof -
  obtain t' m' where w: "write_str F (concat (map g xs)) (t, vm s) = Inr (t', m')" "keeps F (t, vm s) (t', m')"
    using write_str_keeps [of F "(t, vm s)" "concat (map g xs)"] assms by auto
  show ?thesis by (rule that [OF _ w(2,1)]) (simp add: with_memory_foldm write_str_concat with_memory_keeps [of "write_str F (concat (map g xs))", OF w(1)])
qed

lemma clear_keeps:
  assumes "term_ok F t"
  shows "\<exists>t' m'. clear F None (t, m) = Inr (t', m') \<and> keeps F (t, m) (t', m')"
proof -
  have "surface_ok t" using assms by (simp add: term_ok_def)
  from clear_ok [OF this, of F None m] obtain m' where m': "clear F None (t, m) = Inr (t\<lparr>x_pos := 0, y_pos := 0\<rparr>, m')"
    "outside t m' = outside t m" by auto
  moreover have "term_ok F (t\<lparr>x_pos := 0, y_pos := 0\<rparr>)" using assms by (simp add: term_ok_def surface_ok_def)
  ultimately show ?thesis by (simp add: keeps_def same_canvas_def)
qed

text \<open>Moving a terminal to a window that fits its font.\<close>

lemma set_window_info_keeps:
  assumes "term_ok F t" "surface_ok u" "tw_info u = w" "win_width w < 2 ^ 62" "win_height w < 2 ^ 62"
    and "\<forall>wt. f_raster_width F wt (font_height t) \<le> win_width w" "line_height t \<le> win_height w"
  shows "\<exists>t' m'. set_window_info F w None (t, m) = Inr (t', m') \<and> term_ok F t' \<and> tw_info t' = w \<and>
    (\<forall>a. a \<notin> win_addrs t' \<longrightarrow> m' a = m a)"
proof -
  let ?len = "stride w * win_height w * bytes_per_pixel w"
  let ?t = "t\<lparr>tw_info := w, tw_buffer := (buffer_base_ptr t + byte_offset w, ?len)\<rparr>"
  let ?t' = "?t\<lparr>x_pos := 0, y_pos := 0\<rparr>"
  have len: "?len < 2 ^ 64" using assms(2,3) by (auto simp: surface_ok_def)
  have sf: "surface_ok ?t" using assms(2,3) len by (simp add: surface_ok_def)
  from construct_buffer_ok [OF sf] have cb: "construct_buffer (buffer_base_ptr t) w = Inr (tw_buffer ?t)" by simp
  from clear_ok [OF sf, of F None m] obtain m' where m': "clear F None (?t, m) = Inr (?t', m')" "outside ?t m' = outside ?t m" by auto
  have "term_ok F ?t'" using assms sf by (simp add: term_ok_def surface_ok_def)
  moreover have "win_addrs ?t' = win_addrs ?t" by (rule same_canvas_simps(6)) (simp add: same_canvas_def)
  ultimately show ?thesis using cb m'(1) outside_eqD [OF m'(2)]
    by (intro exI [of _ ?t'] exI [of _ m']) (simp add: set_window_info_def)
qed

lemma wait_refresh_ends: "2 \<le> readings n \<Longrightarrow> k \<le> n \<Longrightarrow> \<exists>j. wait_refresh readings k = Some j"
proof (induction "n - k" arbitrary: k)
  case 0
  then show ?case by (subst wait_refresh.simps) simp
next
  case (Suc d)
  then have "\<exists>j. wait_refresh readings (k + 1) = Some j" by auto
  then show ?case by (subst wait_refresh.simps) simp
qed

lemma core_window:
  assumes "font_ok F" "framebuffer bi = Some fb0" "fb_sane (fb_info fb0)" "landscape (fb_info fb0)"
    and "fb_width (fb_info fb0) < 2 ^ 31" "count < 2 ^ 32"
    and "channels (fb_pixel_format (fb_info fb0)) \<le> fb_bytes_per_pixel (fb_info fb0)"
    and "i < 4 * ((count + 3) div 4)" "get_window_info_for_core bi i count = Inr w"
    and "24 \<le> win_height w" "\<forall>wt. f_raster_width F wt Size24 \<le> win_width w"
  obtains t where "new_terminal bi w = Inr t" "term_ok F t" "tw_info t = w"
proof -
  let ?fb = "fb_info fb0" and ?p = "core_placement i count"
  have "fb_height ?fb < 2 ^ 31" using assms(4,5) by (simp add: landscape_def)
  then have fits: "placement_fits ?fb ?p" by (rule core_placement_fits [OF assms(8,6,5)])
  have "count + 4 < 2 ^ 64" using assms(6) by simp
  then have "w = window_of ?fb ?p"
    using assms(9) from_placement_ok [OF assms(2) refl assms(3,4) fits] by (simp add: get_window_info_for_core_eq)
  from window_of_term_ok [OF assms(1-4) fits this assms(7)] assms(10,11) that show ?thesis by auto
qed

lemma move_main_term_keeps:
  assumes "MAIN_TERM s = Some t0" "term_ok F t0" "get_window_info_for_core bi 0 count = Inr w" "term_ok F u" "tw_info u = w"
    and "\<forall>wt. f_raster_width F wt (font_height t0) \<le> win_width w" "line_height t0 \<le> win_height w"
  obtains t1 m1 where "move_main_term bi F count s = Inr (s\<lparr>vm := m1, MAIN_TERM := Some t1\<rparr>)" "term_ok F t1" "tw_info t1 = w"
    "\<forall>a. a \<notin> win_addrs t1 \<longrightarrow> m1 a = vm s a"
proof -
  have "surface_ok u" "win_width w < 2 ^ 62" "win_height w < 2 ^ 62" using assms(4,5) by (auto simp: term_ok_def)
  from set_window_info_keeps [OF assms(2) this(1) assms(5) this(2,3) assms(6,7), of "vm s"] that assms(1,3) show ?thesis
    by (auto simp: move_main_term_def lazy_term_def)
qed

lemma keeps_outside: "keeps F (t, m) (t', m') \<Longrightarrow> a \<notin> win_addrs t \<Longrightarrow> m' a = m a"
  by (auto simp: keeps_def intro: outside_eqD)

text \<open>The texts, given a picture that decodes.\<close>

lemma core_text_keeps:
  assumes "font_ok F" "term_ok F t" "MAIN_TERM s = Some t0" "term_ok F t0" "\<not> PANICKED_STOP_PRINTING s"
    and "get_file_slice mem bi 2 = Inr pic" "jpeg pic = Some (pw, px)" "0 < pw" "pw < 2 ^ 62" "3 dvd length px"
  shows "\<exists>t' s' t1. core_text bi F jpeg mem refresh i count (t, s) = Some (Inr (t', s')) \<and> term_ok F t' \<and> same_canvas t t' \<and>
    MAIN_TERM s' = Some t1 \<and> term_ok F t1 \<and> same_canvas t0 t1 \<and>
    (\<forall>a. a \<notin> win_addrs t \<longrightarrow> (i = 2 \<longrightarrow> a \<notin> win_addrs t0) \<longrightarrow> vm s' a = vm s a)"
proof (cases "i = 2")
  case True
  obtain t' m' where w: "write_str F (codes ''Core 2 uses stdout'' @ [10]) (t, vm s) = Inr (t', m')" and k: "keeps F (t, vm s) (t', m')"
    using write_str_keeps [of F "(t, vm s)" "codes ''Core 2 uses stdout'' @ [10]"] assms(1,2) by auto
  let ?s = "s\<lparr>vm := m'\<rparr>"
  have "MAIN_TERM ?s = Some t0" "\<not> PANICKED_STOP_PRINTING ?s" using assms(3,5) by simp_all
  from stdout_print_pixels_keeps [OF assms(1) this(1) assms(4) this(2) assms(8,9), of bi "full_chunks px"] obtain t1 m1 where
    pp: "stdout_print_pixels bi pw (full_chunks px) ?s = Some (Inr (?s\<lparr>vm := m1, MAIN_TERM := Some t1\<rparr>))" and k1: "keeps F (t0, m') (t1, m1)"
    by auto
  have "print_logo bi jpeg mem ?s = Some (Inr (?s\<lparr>vm := m1, MAIN_TERM := Some t1\<rparr>))"
    using assms(6,7,10) pp by (simp add: print_logo_def unwrap_def dvd_eq_mod_eq_0)
  with True have "core_text bi F jpeg mem refresh i count (t, s) = Some (Inr (t', ?s\<lparr>vm := m1, MAIN_TERM := Some t1\<rparr>))"
    by (simp add: core_text_def with_memory_keeps [of "write_str F (codes ''Core 2 uses stdout'' @ [10])", OF w])
  moreover have "m1 a = vm s a" if "a \<notin> win_addrs t" "a \<notin> win_addrs t0" for a
    using keeps_outside [OF k that(1)] keeps_outside [OF k1 that(2)] by simp
  ultimately show ?thesis using True k k1 by (simp add: keeps_def)
next
  case False
  define g where "g = (if i = 1 then (\<lambda>k. frame_line k (refresh k) count) else (\<lambda>k. hello_line k i))"
  define xs where "xs = (if i = 1 then [0..<100000000] else [0..<200 :: nat])"
  have eq: "core_text bi F jpeg mem refresh i count (t, s) = Some (foldm (\<lambda>i. with_memory (write_str F (g i))) xs (t, s))"
    using False by (cases "i = 1") (simp_all only: core_text_def g_def xs_def if_True if_False refl)
  obtain t' m' where "foldm (\<lambda>i. with_memory (write_str F (g i))) xs (t, s) = Inr (t', s\<lparr>vm := m'\<rparr>)" and k: "keeps F (t, vm s) (t', m')"
    by (rule lines_keep [OF assms(1,2), of g xs s])
  with eq assms(3,4) keeps_outside [OF k] show ?thesis by (simp add: keeps_def)
qed


subsection \<open>The echo shows what arrives\<close>

lemma echo_rounds_ok:
  assumes "font_ok F" "uart_receives D COM1 incoming wait" "term_ok F (fst st)" "n \<le> length (incoming d)"
  shows "\<exists>st' d'. echo_rounds D F n (st, d) = Some (Inr (st', d')) \<and>
    write_str F (concat (map echo_line (take n (incoming d)))) st = Inr st' \<and> keeps F st st' \<and> incoming d' = drop n (incoming d)"
  using assms(4)
proof (induction n)
  case 0
  show ?case using assms(3) by (auto simp: echo_rounds_def write_str_def keeps_refl)
next
  case (Suc n)
  then obtain st1 d1 where IH: "echo_rounds D F n (st, d) = Some (Inr (st1, d1))"
    "write_str F (concat (map echo_line (take n (incoming d)))) st = Inr st1" "keeps F st st1" "incoming d1 = drop n (incoming d)" by auto
  let ?c = "incoming d ! n"
  have "incoming d1 = ?c # drop (Suc n) (incoming d)" using Suc.prems IH(4) by (simp add: Cons_nth_drop_Suc)
  from serial_read_receives [OF assms(2) this] obtain d2 where d2: "serial_read D COM1 d1 = Some (Inr ?c, d2)"
    "incoming d2 = drop (Suc n) (incoming d)" by blast
  have "term_ok F (fst st1)" using IH(3) by (simp add: keeps_def)
  from write_str_keeps [OF assms(1) this, of "echo_line ?c"] obtain st2 where st2: "write_str F (echo_line ?c) st1 = Inr st2" "keeps F st1 st2" by blast
  have "echo_rounds D F (Suc n) (st, d) = Some (Inr (st2, d2))"
    using IH(1) d2(1) st2(1) by (simp add: echo_rounds_def ofold_append echo_round_def)
  moreover have "write_str F (concat (map echo_line (take (Suc n) (incoming d)))) st = Inr st2"
    using Suc.prems IH(2) st2(1) by (simp add: take_Suc_conv_app_nth write_str_def foldm_append)
  ultimately show ?case using d2(2) keeps_trans [OF IH(3) st2(2)] by blast
qed

text \<open>
  C40: the echo shows exactly the received bytes, in order and each on a line of its own: after \<open>n\<close> rounds the
  terminal is as if the lines of the first \<open>n\<close> bytes had been printed on it, it is well formed and
  nothing outside its window has changed, and the next round reads the next byte.
\<close>

theorem echo_shows_received:
  assumes "font_ok F" "uart_receives D COM1 incoming wait" "term_ok F t" "n \<le> length (incoming d)"
  shows "\<exists>t' m' d'. echo_rounds D F n ((t, m), d) = Some (Inr ((t', m'), d')) \<and>
    write_str F (concat (map echo_line (take n (incoming d)))) (t, m) = Inr (t', m') \<and> term_ok F t' \<and> same_canvas t t' \<and>
    (\<forall>a. a \<notin> win_addrs t \<longrightarrow> m' a = m a) \<and> incoming d' = drop n (incoming d)"
proof -
  obtain t' m' d' where r: "echo_rounds D F n ((t, m), d) = Some (Inr ((t', m'), d'))"
    "write_str F (concat (map echo_line (take n (incoming d)))) (t, m) = Inr (t', m')" "keeps F (t, m) (t', m')" "incoming d' = drop n (incoming d)"
    using echo_rounds_ok [OF assms(1,2) _ assms(4), of "(t, m)"] assms(3) by auto
  with keeps_outside [OF r(3)] show ?thesis by (simp add: keeps_def)
qed

text \<open>A line of the echo tells which byte it is for.\<close>

lemma dec_nonempty: "dec k \<noteq> []"
  by (subst dec.simps) simp

lemma dec_inj: "dec n = dec m \<Longrightarrow> n = m"
proof (induction n arbitrary: m rule: dec.induct)
  case (1 n)
  have digit: "char_of (48 + a) = (char_of (48 + b) :: char) \<Longrightarrow> a < 10 \<Longrightarrow> b < 10 \<Longrightarrow> a = b" for a b :: nat
    by (drule arg_cong [where f = "of_char :: char \<Rightarrow> nat"]) simp
  note eqs = dec.simps [of n] dec.simps [of m]
  show ?case
  proof (cases "n < 10 \<or> m < 10")
    case False
    then have "dec (n div 10) @ [char_of (48 + n mod 10)] = dec (m div 10) @ [char_of (48 + m mod 10)]"
      using "1.prems" by (simp add: eqs del: dec.simps)
    then have "dec (n div 10) = dec (m div 10)" "n mod 10 = m mod 10" using digit [of "n mod 10" "m mod 10"] by (simp_all del: dec.simps)
    with "1.IH" False show ?thesis by (metis div_mult_mod_eq)
  next
    case True
    with "1.prems" digit dec_nonempty dec_nonempty [symmetric] show ?thesis unfolding eqs by (auto simp del: dec.simps split: if_splits)
  qed
qed

lemma dec_digits: "x \<in> set (codes (dec n)) \<Longrightarrow> x < 58"
proof (induction n rule: dec.induct)
  case (1 n)
  show ?case
  proof (cases "n < 10")
    case True
    with "1.prems" show ?thesis by (simp add: codes_def dec.simps [of n])
  next
    case False
    have d: "n mod 10 < 10" by simp
    have "x \<in> set (codes (dec (n div 10))) \<or> x = 48 + n mod 10"
      using "1.prems" False d by (subst (asm) dec.simps) (auto simp: codes_def simp del: dec.simps)
    with "1.IH" [OF False] d show ?thesis by linarith
  qed
qed

lemma echo_line_inj: "inj echo_line"
proof (rule injI)
  fix c c' assume eq: "echo_line c = echo_line c'"
  have "takeWhile (\<lambda>x. x \<noteq> 58) (echo_line b) = codes (dec (unat b))" for b
  proof -
    have "echo_line b = codes (dec (unat b)) @ 58 # codes ('' '' @ utf8_debug b) @ [10]"
      by (simp add: echo_line_def codes_def del: dec.simps)
    moreover have "x \<noteq> 58" if "x \<in> set (codes (dec (unat b)))" for x using dec_digits [OF that] by simp
    ultimately show ?thesis by (simp add: takeWhile_append2 del: dec.simps)
  qed
  with eq have "codes (dec (unat c)) = codes (dec (unat c'))" by metis
  then have "dec (unat c) = dec (unat c')" unfolding codes_def by (rule map_injective) (auto intro: injI)
  from dec_inj [OF this] show "c = c'" by (rule unsigned_word_eqI)
qed

subsection \<open>A concrete screen\<close>

definition bi_text :: BootInfo where
  "bi_text = (screen 1280 720)\<lparr>ramdisk_addr := Some 4096, ramdisk_len := length (build sum_hasher img_pic)\<rparr>"

lemma file_text: "get_file_slice mem_pic bi_text 2 = Inr [9]"
proof -
  have "get_file_slice mem_pic bi_text 2 = get_file_slice mem_pic bi_pic 2"
    by (simp add: get_file_slice_def ramdisk_u8_slice_def ramdisk_u64_slice_def bi_text_def bi_pic_def)
  with file_pic show ?thesis by simp
qed

lemma term_text:
  obtains t w where "get_window_info_for_core bi_text 0 3 = Inr w" "24 \<le> win_height w" "\<forall>wt sz. f_raster_width font_ex wt sz \<le> win_width w"
    "term_ok font_ex t" "tw_info t = w"
proof -
  let ?w = "\<lparr>byte_offset = 0, win_width = 320, win_height = 720, pixel_format = Rgb, bytes_per_pixel = 3, stride = 1280\<rparr>"
  have w: "get_window_info_for_core bi_text 0 3 = Inr ?w"
    by (simp add: get_window_info_for_core_def from_placement_def new_window_def framebuffer_info_def screen_def bi_text_def)
  obtain t where "term_ok font_ex t" "tw_info t = ?w"
    by (rule core_window [OF font_ex_ok, of bi_text "the (framebuffer bi_text)", OF _ _ _ _ _ _ _ w])
      (simp_all add: bi_text_def screen_def fb_sane_def landscape_def channels_def font_ex_def Let_def)
  with w show ?thesis by (intro that [of ?w]) (simp_all add: font_ex_def Let_def)
qed


theorem echo_shows_received_witness:
  "\<exists>st' d'. echo_rounds uart_ref font_ex 2 ((term_ex, \<lambda>_. 0), ([72, 13, 9], [], False)) = Some (Inr (st', d')) \<and>
     write_str font_ex (echo_line 72 @ echo_line 13) (term_ex, \<lambda>_. 0) = Inr st' \<and> fst d' = [9] \<and>
     echo_line 13 = codes (''13: Ok('' @ [CHR 0x22, CHR 0x5C, CHR ''r'', CHR 0x22] @ '')'') @ [10]"
proof -
  have "echo_line 13 = codes (''13: Ok('' @ [CHR 0x22, CHR 0x5C, CHR ''r'', CHR 0x22] @ '')'') @ [10]" by code_simp
  with echo_shows_received [OF font_ex_ok uart_ref_receives term_ex_ok, of 2 "([72, 13, 9], [], False)" "\<lambda>_. 0"] show ?thesis
    by (auto simp: numeral_2_eq_2)
qed

end
