(* ===== verification/Mem_Test.thy ===== *)
theory Mem_Test
  imports App_Test
begin

text \<open>
  The kernel's test of address spaces, \<open>simple_page_table_swap\<close> of kernel/src/tests/mem_test.rs: two address spaces map the same
  page, write different words there, and find their own word again after switches.  The other test of that
  file, \<open>simple_user_application\<close>, has the steps of \<open>app_test\<close>.  Log lines are left out.
\<close>

text \<open>A word of the active address space is written where a page has just been mapped; its old contents are read for a log line.\<close>

definition map_and_write ::
  "x86 \<Rightarrow> BootInfo \<Rightarrow> ('pt, 'e) paging \<Rightarrow> nat \<Rightarrow> u64 \<Rightarrow> 'pt space \<Rightarrow> 'pt space res"
where
  "map_and_write X bi P user_pt v s =
     bnd (switch_to_user_page_table X bi user_pt (mach s)) (\<lambda>m.
     bnd (x_virt_new X USER_STACK_START) (\<lambda>a.
     let page = x_page_containing X a in
     bnd (map_ram_user X bi P page {WRITABLE} m) (\<lambda>(_, m).
     let s = s\<lparr>mach := m\<rparr> in
     bnd (load_u64 X bi P page s) (\<lambda>garbage.
     store_word X bi P page v s))))"

definition switch_and_check ::
  "x86 \<Rightarrow> BootInfo \<Rightarrow> ('pt, 'e) paging \<Rightarrow> nat \<Rightarrow> u64 \<Rightarrow> 'pt space \<Rightarrow> 'pt space res"
where
  "switch_and_check X bi P user_pt v s =
     bnd (switch_to_user_page_table X bi user_pt (mach s)) (\<lambda>m.
     let s = s\<lparr>mach := m\<rparr> in
     bnd (load_u64 X bi P USER_STACK_START s) (\<lambda>w.
     bnd (ass (w = v)) (\<lambda>_. Inr s)))"

definition simple_page_table_swap :: "x86 \<Rightarrow> BootInfo \<Rightarrow> ('pt, 'e) paging \<Rightarrow> 'pt space \<Rightarrow> 'pt space res" where
  "simple_page_table_swap X bi P s =
     bnd (create_user_page_table X bi P (mach s)) (\<lambda>(user_pt_a, m).
     bnd (map_and_write X bi P user_pt_a 42 (s\<lparr>mach := m\<rparr>)) (\<lambda>s.
     bnd (create_user_page_table X bi P (mach s)) (\<lambda>(user_pt_b, m).
     bnd (map_and_write X bi P user_pt_b 666 (s\<lparr>mach := m\<rparr>)) (\<lambda>s.
     bnd (switch_to_kernel_page_table X bi (mach s)) (\<lambda>m.
     bnd (switch_and_check X bi P user_pt_a 42 (s\<lparr>mach := m\<rparr>)) (\<lambda>s.
     switch_and_check X bi P user_pt_b 666 s))))))"

lemma to_from_le_bytes: "length bs = 8 \<Longrightarrow> to_le_bytes (from_le_bytes bs) = bs"
proof (rule nth_equalityI)
  fix i assume A: "length bs = 8" "i < length (to_le_bytes (from_le_bytes bs))"
  show "to_le_bytes (from_le_bytes bs) ! i = bs ! i"
  proof (rule bit_word_eqI)
    fix n assume n: "n < LENGTH(8)"
    have i: "i < 8" using A(2) by simp
    have "(8 * i + n) div 8 = i" "(8 * i + n) mod 8 = n" "8 * i + n < 64" using n i by auto
    then show "bit (to_le_bytes (from_le_bytes bs) ! i) n = bit (bs ! i) n"
      using A(1) n i by (simp add: to_le_bytes_def bit_simps bit_from_le_bytes del: upt_conv_Cons upt_rec_numeral)
  qed
qed simp

text \<open>Whatever bytes are there, they are those of some word.\<close>

lemma cell_any:
  assumes "pg_look P (page_tables (mach s)) r (page_of c) = Some (Small f fl)" "PRESENT \<in> fl" "WRITABLE \<in> fl" "f \<in> pool"
  shows "\<exists>v. cell_in P pool c s r f v"
proof -
  let ?bs = "map (\<lambda>i. ram s (f + (c mod 4096 + i))) [0..<8]"
  have "to_le_bytes (from_le_bytes ?bs) = ?bs" by (rule to_from_le_bytes) simp
  then have "cell_in P pool c s r f (from_le_bytes ?bs)"
    using assms unfolding cell_in_def by (simp del: upt_rec_numeral)
  then show ?thesis by blast
qed

abbreviation the_page :: nat where
  "the_page \<equiv> USER_STACK_START"

lemma the_page_ok: "8 dvd the_page" "page_of the_page = the_page" "user_page the_page" "the_page mod 4096 = 0" "the_page < 2 ^ 47"
  by (simp_all add: page_of_def user_page_def layout_values)

lemma map_and_write_ok:
  assumes inv: "mem_inv X bi P off tb rt pool (mach s) fs" and r: "r \<in> rt (page_tables (mach s))"
    and free: "4 \<le> length fs" "pg_look P (page_tables (mach s)) r the_page = None"
  obtains s' n where "map_and_write X bi P r v s = Inr s'" "n \<le> 4" "mem_inv X bi P off tb rt pool (mach s') (drop n fs)"
    "rt (page_tables (mach s')) = rt (page_tables (mach s))" "active off (mach s') = r" "cell P pool the_page s' r v"
    "\<forall>q\<in>rt (page_tables (mach s)). q \<noteq> r \<longrightarrow> (\<forall>p. pg_look P (page_tables (mach s')) q p = pg_look P (page_tables (mach s)) q p)"
    "\<forall>a. page_of a \<notin> set fs \<longrightarrow> ram s' a = ram s a"
proof -
  obtain m1 where m1: "switch_to_user_page_table X bi r (mach s) = Inr m1" "mem_inv X bi P off tb rt pool m1 fs"
    "active off m1 = r" "m1 = (mach s)\<lparr>cr3 := r - off\<rparr>" using switch_ok [OF inv r] unfolding switch_to_user_page_table_def by blast
  have pt: "page_tables m1 = page_tables (mach s)" using m1(4) by simp
  obtain f m2 n where m2: "map_ram_user X bi P the_page {WRITABLE} m1 = Inr (f, m2)" "f \<in> set (take n fs)" "n \<le> 4"
    "mem_inv X bi P off tb rt pool m2 (drop n fs)" "user_rest P off rt m2 = user_rest P off rt m1"
    "\<forall>p. alook P off m2 p = (if p = the_page then Some (Small f (user_final {WRITABLE})) else alook P off m1 p)"
    using user_ram.map_ok [OF m1(2) the_page_ok(3) _ free(1), where fl = "{WRITABLE}"] free(2) pt m1(3) by auto
  have rest: "active off m2 = r" "rt (page_tables m2) = rt (page_tables (mach s))" using rest_registers(2) [OF m2(5)] m1(3) pt by simp_all
  let ?s = "s\<lparr>mach := m2\<rparr>"
  have f: "f \<in> set fs" "f \<in> pool" using in_set_takeD [OF m2(2)] mem_invD(10) [OF inv] by auto
  have "alook P off m2 the_page = Some (Small f (user_final {WRITABLE}))" using m2(6) by simp
  then have lk: "pg_look P (page_tables (mach ?s)) (active off (mach ?s)) (page_of the_page) = Some (Small f (user_final {WRITABLE}))"
    using the_page_ok(2) by simp
  obtain g where g: "cell_in P pool the_page ?s (active off (mach ?s)) f g"
    using cell_any [OF lk _ _ f(2)] by (auto simp: user_final_def)
  have inv2: "mem_inv X bi P off tb rt pool (mach ?s) (drop n fs)" using m2(4) by simp
  obtain m where m: "store_word X bi P the_page v ?s = Inr (?s\<lparr>ram := m\<rparr>)" "\<forall>i<8. m (f + (the_page mod 4096 + i)) = to_le_bytes v ! i"
    "\<forall>a. a \<notin> {f + the_page mod 4096..<f + the_page mod 4096 + 8} \<longrightarrow> m a = ram ?s a"
    using cell_store [OF inv2 g the_page_ok(1)] by blast
  have X: "x_virt_new X the_page = Inr the_page" "x_page_containing X the_page = the_page"
    using mem_invD(8) [OF inv] the_page_ok(2,5) by (simp_all add: dm_ok_def x86_addr_simps x86_page_simps page_of_def)
  have "map_and_write X bi P r v s = Inr (?s\<lparr>ram := m\<rparr>)"
    using m1(1) m2(1) m(1) X cell_load [OF inv2 g the_page_ok(1)] by (simp add: map_and_write_def)
  moreover have "cell P pool the_page (?s\<lparr>ram := m\<rparr>) r v"
    using g m(2) rest(1) by (auto simp: cell_def cell_in_def)
  moreover have "m a = ram s a" if "page_of a \<notin> set fs" for a
  proof -
    have "page_of a = f" if "a \<in> {f + the_page mod 4096..<f + the_page mod 4096 + 8}"
      using that pool_aligned [OF inv f(2)] the_page_ok(4) by (auto simp: page_of_def elim!: dvdE)
    with that f(1) m(3) show ?thesis by auto
  qed
  moreover have "pg_look P (page_tables m2) q p = pg_look P (page_tables (mach s)) q p" if "q \<in> rt (page_tables (mach s))" "q \<noteq> r" for q p
    using user_rest_look [OF m2(5)] that pt m1(3) by simp
  ultimately show ?thesis using m2(3,4) rest by (intro that [of "?s\<lparr>ram := m\<rparr>" n]) simp_all
qed

lemma switch_and_check_ok:
  assumes "mem_inv X bi P off tb rt pool (mach s) fs" "r \<in> rt (page_tables (mach s))" "cell P pool the_page s r v"
  obtains m where "switch_and_check X bi P r v s = Inr (s\<lparr>mach := m\<rparr>)" "mem_inv X bi P off tb rt pool m fs"
    "page_tables m = page_tables (mach s)"
proof -
  obtain m where m: "switch_to_user_page_table X bi r (mach s) = Inr m" "mem_inv X bi P off tb rt pool m fs"
    "active off m = r" "m = (mach s)\<lparr>cr3 := r - off\<rparr>" using switch_ok [OF assms(1,2)] unfolding switch_to_user_page_table_def by blast
  obtain f where "cell_in P pool the_page (s\<lparr>mach := m\<rparr>) (active off (mach (s\<lparr>mach := m\<rparr>))) f v"
    using assms(3) m(3,4) by (auto simp: cell_def cell_in_def)
  from cell_load [OF _ this the_page_ok(1)] m(2) have "load_u64 X bi P the_page (s\<lparr>mach := m\<rparr>) = Inr v" by simp
  with m show ?thesis by (intro that [of m]) (simp_all add: switch_and_check_def)
qed

text \<open>A new table with its page mapped and written; the tables and the words that were there stay.\<close>

lemma new_space_ok:
  assumes inv: "mem_inv X bi P off tb rt pool (mach s) fs" and free: "5 \<le> length fs"
  obtains r m s' n where "create_user_page_table X bi P (mach s) = Inr (r, m)" "map_and_write X bi P r v (s\<lparr>mach := m\<rparr>) = Inr s'"
    "n \<le> 5" "mem_inv X bi P off tb rt pool (mach s') (drop n fs)" "r \<notin> rt (page_tables (mach s))"
    "rt (page_tables (mach s')) = insert r (rt (page_tables (mach s)))" "cell P pool the_page s' r v"
    "\<forall>q\<in>rt (page_tables (mach s)). \<forall>p. pg_look P (page_tables (mach s')) q p = pg_look P (page_tables (mach s)) q p"
    "\<forall>a. page_of a \<notin> set fs \<longrightarrow> ram s' a = ram s a"
proof -
  obtain f fs1 where fs: "fs = f # fs1" using free by (cases fs) auto
  obtain m where m: "create_user_page_table X bi P (mach s) = Inr (off + f, m)" "mem_inv X bi P off tb rt pool m fs1"
    "fresh_table P off rt (mach s) m (off + f)" using create_user_page_table_ok inv unfolding fs by blast
  let ?r = "off + f" and ?s = "s\<lparr>mach := m\<rparr>"
  have ft: "?r \<notin> rt (page_tables (mach s))" "rt (page_tables m) = insert ?r (rt (page_tables (mach s)))"
    "\<forall>q\<in>rt (page_tables (mach s)). \<forall>p. pg_look P (page_tables m) q p = pg_look P (page_tables (mach s)) q p"
    using m(3) by (simp_all add: fresh_table_def)
  have "pg_look P (page_tables m) ?r the_page = None"
    using fresh_table_look(1) [OF mem_invD(2) [OF inv] m(3) mem_invD(3) [OF inv], of the_page] user_page_l4 [OF the_page_ok(3)]
    by (simp add: kernel_range_set)
  then have "pg_look P (page_tables (mach ?s)) ?r the_page = None" "?r \<in> rt (page_tables (mach ?s))" "4 \<le> length fs1"
    "mem_inv X bi P off tb rt pool (mach ?s) fs1" using ft(2) free m(2) fs by simp_all
  from map_and_write_ok [OF this(4,2,3,1)] obtain s' n where s': "map_and_write X bi P ?r v ?s = Inr s'" "n \<le> 4"
    "mem_inv X bi P off tb rt pool (mach s') (drop n fs1)" "rt (page_tables (mach s')) = rt (page_tables (mach ?s))"
    "cell P pool the_page s' ?r v"
    "\<forall>q\<in>rt (page_tables (mach ?s)). q \<noteq> ?r \<longrightarrow> (\<forall>p. pg_look P (page_tables (mach s')) q p = pg_look P (page_tables (mach ?s)) q p)"
    "\<forall>a. page_of a \<notin> set fs1 \<longrightarrow> ram s' a = ram ?s a" .
  show ?thesis
  proof (rule that [OF m(1) s'(1), of "Suc n"])
    show "\<forall>q\<in>rt (page_tables (mach s)). \<forall>p. pg_look P (page_tables (mach s')) q p = pg_look P (page_tables (mach s)) q p"
      using s'(6) ft by auto
    show "\<forall>a. page_of a \<notin> set fs \<longrightarrow> ram s' a = ram s a" using s'(7) by (simp add: fs)
  qed (use s'(2-5) ft in \<open>simp_all add: fs\<close>)
qed

subsection \<open>Properties\<close>

text \<open>
  C18: the test of address spaces passes: with ten free frames both spaces get their page, and after switches to the
  kernel's table and back each finds its own word, 42 and 666.  The memory manager stays well
  formed, all address spaces that existed before are as they were, and no byte outside free frames changes.
\<close>

theorem page_table_swap_passes:
  assumes "mem_inv X bi P off tb rt pool (mach s) fs" "10 \<le> length fs"
  shows "\<exists>s' fs'. simple_page_table_swap X bi P s = Inr s' \<and> mem_inv X bi P off tb rt pool (mach s') fs' \<and>
    (\<forall>r\<in>rt (page_tables (mach s)). \<forall>p. pg_look P (page_tables (mach s')) r p = pg_look P (page_tables (mach s)) r p) \<and>
    (\<forall>a. page_of a \<notin> set fs \<longrightarrow> ram s' a = ram s a)"
proof -
  have "5 \<le> length fs" using assms(2) by simp
  from new_space_ok [OF assms(1) this, of 42] obtain a m1 s1 n where a: "create_user_page_table X bi P (mach s) = Inr (a, m1)"
    "map_and_write X bi P a 42 (s\<lparr>mach := m1\<rparr>) = Inr s1" "n \<le> 5" "mem_inv X bi P off tb rt pool (mach s1) (drop n fs)"
    "rt (page_tables (mach s1)) = insert a (rt (page_tables (mach s)))" "cell P pool the_page s1 a 42"
    "\<forall>q\<in>rt (page_tables (mach s)). \<forall>p. pg_look P (page_tables (mach s1)) q p = pg_look P (page_tables (mach s)) q p"
    "\<forall>a. page_of a \<notin> set fs \<longrightarrow> ram s1 a = ram s a" by metis
  have "5 \<le> length (drop n fs)" using a(3) assms(2) by simp
  from new_space_ok [OF a(4) this, of 666] obtain b m2 s2 n2 where b: "create_user_page_table X bi P (mach s1) = Inr (b, m2)"
    "map_and_write X bi P b 666 (s1\<lparr>mach := m2\<rparr>) = Inr s2" "mem_inv X bi P off tb rt pool (mach s2) (drop n2 (drop n fs))"
    "rt (page_tables (mach s2)) = insert b (rt (page_tables (mach s1)))" "cell P pool the_page s2 b 666"
    "\<forall>q\<in>rt (page_tables (mach s1)). \<forall>p. pg_look P (page_tables (mach s2)) q p = pg_look P (page_tables (mach s1)) q p"
    "\<forall>a. page_of a \<notin> set (drop n fs) \<longrightarrow> ram s2 a = ram s1 a" by metis
  have a2: "cell P pool the_page s2 a 42"
    using a(5) b(6) the_page_ok by (intro cell_keeps [OF a(4) _ a(6) _ _ _ b(7)]) simp_all
  obtain m3 where m3: "switch_to_kernel_page_table X bi (mach s2) = Inr m3" "mem_inv X bi P off tb rt pool m3 (drop n2 (drop n fs))"
    "m3 = (mach s2)\<lparr>cr3 := kernel_page_table (mach s2) - off\<rparr>"
    using switch_ok [OF b(3) mem_invD(4) [OF b(3)]] unfolding switch_to_kernel_page_table_def by blast
  let ?s3 = "s2\<lparr>mach := m3\<rparr>"
  have pt: "page_tables (mach ?s3) = page_tables (mach s2)" "mem_inv X bi P off tb rt pool (mach ?s3) (drop n2 (drop n fs))"
    using m3(2,3) by simp_all
  have c3: "cell P pool the_page ?s3 a 42" "a \<in> rt (page_tables (mach ?s3))" using a2 m3(3) a(5) b(4) pt(1) by simp_all
  obtain m4 where m4: "switch_and_check X bi P a 42 ?s3 = Inr (?s3\<lparr>mach := m4\<rparr>)" "mem_inv X bi P off tb rt pool m4 (drop n2 (drop n fs))"
    "page_tables m4 = page_tables (mach ?s3)" by (rule switch_and_check_ok [OF pt(2) c3(2,1)])
  let ?s4 = "?s3\<lparr>mach := m4\<rparr>"
  have i4: "mem_inv X bi P off tb rt pool (mach ?s4) (drop n2 (drop n fs))" "b \<in> rt (page_tables (mach ?s4))" "cell P pool the_page ?s4 b 666"
    using m4(2,3) b(4,5) pt(1) by (simp_all add: cell_def cell_in_def)
  obtain m5 where m5: "switch_and_check X bi P b 666 ?s4 = Inr (?s4\<lparr>mach := m5\<rparr>)" "mem_inv X bi P off tb rt pool m5 (drop n2 (drop n fs))"
    "page_tables m5 = page_tables (mach ?s4)" by (rule switch_and_check_ok [OF i4])
  have "simple_page_table_swap X bi P s = Inr (?s4\<lparr>mach := m5\<rparr>)"
    using a(1,2) b(1,2) m3(1) m4(1) m5(1) by (simp add: simple_page_table_swap_def)
  moreover have "ram s2 x = ram s x" if "page_of x \<notin> set fs" for x using that a(8) b(7) by (metis in_set_dropD)
  ultimately show ?thesis using m5(2,3) m4(3) pt(1) a(5,7) b(6)
    by (intro exI [of _ "?s4\<lparr>mach := m5\<rparr>"] exI [of _ "drop n2 (drop n fs)"]) simp
qed

theorem page_table_swap_passes_witness:
  "\<exists>m s'. new_memory x86_ref (bi_frames 20) (translate_frames 20) Map.empty 4096 pt_mem = Inr m \<and>
     simple_page_table_swap x86_ref (bi_frames 20) paging_ref \<lparr>mach = m, ram = \<lambda>_. 7\<rparr> = Inr s'"
proof -
  obtain m fs where m: "new_memory x86_ref (bi_frames 20) (translate_frames 20) Map.empty 4096 pt_mem = Inr m" "inv_frames 20 m fs" "length fs = 20"
    by (rule new_memory_frames [of 20]) simp_all
  let ?s = "\<lparr>mach = m, ram = \<lambda>_ :: nat. 7 :: u8\<rparr>"
  have "inv_frames 20 (mach ?s) fs" "10 \<le> length fs" using m(2,3) by simp_all
  from page_table_swap_passes [OF this] m(1) show ?thesis by blast
qed

end
