(* ===== verification/Serial_Registers.thy ===== *)
theory Serial_Registers
  imports Serial
begin

text \<open>
  The rest of the register map in kernel/src/serial.rs: line settings, register numbers and bit masks that the driver
  declares.  The driver writes its settings as literal bytes; the lemmas relate the bytes to the names.
\<close>

datatype DataBits = DATA_5BIT | DATA_6BIT | DATA_7BIT | DATA_8BIT

fun data_bits :: "DataBits \<Rightarrow> u8" where
  "data_bits DATA_5BIT = 0"
| "data_bits DATA_6BIT = 1"
| "data_bits DATA_7BIT = 2"
| "data_bits DATA_8BIT = 3"

definition STOP_1BIT :: u8 where "STOP_1BIT = 0"
definition STOP_1_5BIT :: u8 where "STOP_1_5BIT = 4"
definition STOP_2BIT :: u8 where "STOP_2BIT = 4"

datatype Parity = PARITY_NONE | PARITY_ODD | PARITY_EVEN | PARITY_MARK | PARITY_SPACE

fun parity :: "Parity \<Rightarrow> u8" where
  "parity PARITY_NONE = 0"
| "parity PARITY_ODD = 8"
| "parity PARITY_EVEN = 24"
| "parity PARITY_MARK = 40"
| "parity PARITY_SPACE = 56"

definition INTERRUPT_IDENT_REGISTER :: u8 where "INTERRUPT_IDENT_REGISTER = 2"
definition FIFO_CONTROL_REGISTER :: u8 where "FIFO_CONTROL_REGISTER = 2"
definition MODEM_STATUS_REGISTER :: u8 where "MODEM_STATUS_REGISTER = 6"

definition RECEIVED_DATA_AVAILABLE :: u8 where "RECEIVED_DATA_AVAILABLE = push_bit 0 1"
definition TRANSMITTER_HOLDING_REGISTER_EMPTY :: u8 where "TRANSMITTER_HOLDING_REGISTER_EMPTY = push_bit 1 1"
definition RECEIVER_LINE_STATUS :: u8 where "RECEIVER_LINE_STATUS = push_bit 2 1"
definition MODEM_STATUS :: u8 where "MODEM_STATUS = push_bit 3 1"
definition INTERRUPT_PENDING :: u8 where "INTERRUPT_PENDING = push_bit 0 1"
definition INTERRUPT_ID_0 :: u8 where "INTERRUPT_ID_0 = push_bit 1 1"
definition INTERRUPT_ID_1 :: u8 where "INTERRUPT_ID_1 = push_bit 2 1"
definition ENABLE_FIFO :: u8 where "ENABLE_FIFO = push_bit 0 1"
definition CLEAR_RECEIVE_FIFO :: u8 where "CLEAR_RECEIVE_FIFO = push_bit 1 1"
definition CLEAR_TRANSMIT_FIFO :: u8 where "CLEAR_TRANSMIT_FIFO = push_bit 2 1"
definition DMA_MODE_SELECT :: u8 where "DMA_MODE_SELECT = push_bit 3 1"
definition TRIGGER_RECEIVE :: u8 where "TRIGGER_RECEIVE = push_bit 6 1"
definition WORD_LENGTH_SELECT_0 :: u8 where "WORD_LENGTH_SELECT_0 = push_bit 0 1"
definition WORD_LENGTH_SELECT_1 :: u8 where "WORD_LENGTH_SELECT_1 = push_bit 1 1"
definition NUMBER_OF_STOP_BITS :: u8 where "NUMBER_OF_STOP_BITS = push_bit 2 1"
definition PARITY_ENABLE :: u8 where "PARITY_ENABLE = push_bit 3 1"
definition EVEN_PARITY_SELECT :: u8 where "EVEN_PARITY_SELECT = push_bit 4 1"
definition STICK_PARITY :: u8 where "STICK_PARITY = push_bit 5 1"
definition SET_BREAK :: u8 where "SET_BREAK = push_bit 6 1"
definition DIVISOR_LATCH_ACCESS_BIT :: u8 where "DIVISOR_LATCH_ACCESS_BIT = push_bit 7 1"
definition DATA_TERMINAL_READY :: u8 where "DATA_TERMINAL_READY = push_bit 0 1"
definition REQUEST_TO_SEND :: u8 where "REQUEST_TO_SEND = push_bit 1 1"
definition OUT_1 :: u8 where "OUT_1 = push_bit 2 1"
definition OUT_2 :: u8 where "OUT_2 = push_bit 3 1"
definition LOOP :: u8 where "LOOP = push_bit 4 1"
definition BREAK_INTERRUPT :: u8 where "BREAK_INTERRUPT = push_bit 4 1"
definition DELTA_CLEAR_TO_SEND :: u8 where "DELTA_CLEAR_TO_SEND = push_bit 0 1"
definition DELTA_DATA_SET_READY :: u8 where "DELTA_DATA_SET_READY = push_bit 1 1"
definition TRAILING_EDGE_RING_INDICATOR :: u8 where "TRAILING_EDGE_RING_INDICATOR = push_bit 2 1"
definition DELTA_DATA_CARRIER_DETECT :: u8 where "DELTA_DATA_CARRIER_DETECT = push_bit 3 1"
definition CLEAR_TO_SEND :: u8 where "CLEAR_TO_SEND = push_bit 4 1"
definition DATA_SET_READY :: u8 where "DATA_SET_READY = push_bit 5 1"
definition RING_INDICATOR :: u8 where "RING_INDICATOR = push_bit 6 1"
definition DATA_CARRIER_DETECT :: u8 where "DATA_CARRIER_DETECT = push_bit 7 1"

text \<open>The masks of every register that has them.\<close>

definition masks_of :: "u8 list list" where
  "masks_of = [
     [RECEIVED_DATA_AVAILABLE, TRANSMITTER_HOLDING_REGISTER_EMPTY, RECEIVER_LINE_STATUS, MODEM_STATUS],
     [INTERRUPT_PENDING, INTERRUPT_ID_0, INTERRUPT_ID_1],
     [ENABLE_FIFO, CLEAR_RECEIVE_FIFO, CLEAR_TRANSMIT_FIFO, DMA_MODE_SELECT, TRIGGER_RECEIVE],
     [WORD_LENGTH_SELECT_0, WORD_LENGTH_SELECT_1, NUMBER_OF_STOP_BITS, PARITY_ENABLE, EVEN_PARITY_SELECT, STICK_PARITY, SET_BREAK,
      DIVISOR_LATCH_ACCESS_BIT],
     [DATA_TERMINAL_READY, REQUEST_TO_SEND, OUT_1, OUT_2, LOOP],
     [DATA_READY, OVERRUN_ERROR, PARITY_ERROR, FRAMING_ERROR, BREAK_INTERRUPT, TRANSMITTER_HOLDING_REGISTER, TRANSMITTER_EMPTY],
     [DELTA_CLEAR_TO_SEND, DELTA_DATA_SET_READY, TRAILING_EDGE_RING_INDICATOR, DELTA_DATA_CARRIER_DETECT, CLEAR_TO_SEND,
      DATA_SET_READY, RING_INDICATOR, DATA_CARRIER_DETECT]]"

lemmas all_mask_defs = mask_defs RECEIVED_DATA_AVAILABLE_def TRANSMITTER_HOLDING_REGISTER_EMPTY_def RECEIVER_LINE_STATUS_def MODEM_STATUS_def INTERRUPT_PENDING_def INTERRUPT_ID_0_def INTERRUPT_ID_1_def ENABLE_FIFO_def CLEAR_RECEIVE_FIFO_def CLEAR_TRANSMIT_FIFO_def DMA_MODE_SELECT_def TRIGGER_RECEIVE_def WORD_LENGTH_SELECT_0_def WORD_LENGTH_SELECT_1_def NUMBER_OF_STOP_BITS_def PARITY_ENABLE_def EVEN_PARITY_SELECT_def STICK_PARITY_def SET_BREAK_def DIVISOR_LATCH_ACCESS_BIT_def DATA_TERMINAL_READY_def REQUEST_TO_SEND_def OUT_1_def OUT_2_def LOOP_def BREAK_INTERRUPT_def DELTA_CLEAR_TO_SEND_def DELTA_DATA_SET_READY_def TRAILING_EDGE_RING_INDICATOR_def DELTA_DATA_CARRIER_DETECT_def CLEAR_TO_SEND_def DATA_SET_READY_def RING_INDICATOR_def DATA_CARRIER_DETECT_def

text \<open>No bit of a register has two names.\<close>

fun bits_apart :: "u8 list \<Rightarrow> bool" where
  "bits_apart [] = True"
| "bits_apart (m # ms) = (list_all (\<lambda>m'. m AND m' = 0) ms \<and> bits_apart ms)"

lemma masks_apart: "list_all bits_apart masks_of"
  by (simp add: masks_of_def all_mask_defs)

text \<open>
  A line setting is made of the bits that the masks name: the word length of its two bits, the stop bit of its bit, the
  parity of its three bits; so settings of the three kinds can be combined, and the combination tells each of them.
\<close>

definition line_control :: "DataBits \<Rightarrow> u8 \<Rightarrow> Parity \<Rightarrow> u8" where
  "line_control d s p = data_bits d OR s OR parity p"

lemma parity_bits:
  "parity PARITY_ODD = PARITY_ENABLE" "parity PARITY_EVEN = PARITY_ENABLE OR EVEN_PARITY_SELECT"
  "parity PARITY_MARK = PARITY_ENABLE OR STICK_PARITY" "parity PARITY_SPACE = PARITY_ENABLE OR EVEN_PARITY_SELECT OR STICK_PARITY"
  by (simp_all add: all_mask_defs)

lemma line_control_fields:
  assumes "s \<in> {STOP_1BIT, STOP_1_5BIT, STOP_2BIT}"
  shows "line_control d s p AND (WORD_LENGTH_SELECT_0 OR WORD_LENGTH_SELECT_1) = data_bits d"
    and "line_control d s p AND NUMBER_OF_STOP_BITS = s"
    and "line_control d s p AND (PARITY_ENABLE OR EVEN_PARITY_SELECT OR STICK_PARITY) = parity p"
proof -
  have "s = 0 \<or> s = 4" using assms by (auto simp: STOP_1BIT_def STOP_1_5BIT_def STOP_2BIT_def)
  then show "line_control d s p AND (WORD_LENGTH_SELECT_0 OR WORD_LENGTH_SELECT_1) = data_bits d"
    "line_control d s p AND NUMBER_OF_STOP_BITS = s"
    "line_control d s p AND (PARITY_ENABLE OR EVEN_PARITY_SELECT OR STICK_PARITY) = parity p"
    by (auto simp: line_control_def all_mask_defs; cases d; cases p; simp)+
qed

text \<open>What \<open>init\<close> writes: the latch is opened for the divisor, then 8N1 with the latch closed.\<close>

lemma serial_init_8N1:
  "\<exists>low high. serial_init recorder com baud [] =
     [(com_base com + 3, DIVISOR_LATCH_ACCESS_BIT), (com_base com, low), (com_base com + 1, high),
      (com_base com + 3, line_control DATA_8BIT STOP_1BIT PARITY_NONE), (com_base com + 1, 0), (com_base com + 4, 0)] \<and>
   unat low + 256 * unat high = unat (baud_divisor baud)"
  using serial_init_divisor [of com baud] by (simp add: line_control_def STOP_1BIT_def all_mask_defs)

end
