(* ===== verification/Spec2Isabelle.thy ===== *)
theory Spec2Isabelle
  imports Constants Ram_Disk Terminal_Text Serial Acpi Apic_Timer Loader Smp_Protocol App_Test Boot Common_Main Segments User_Functions
    Core_Phases Core_Text Mem_Test Serial_Registers
begin

text \<open>
  A verification of Steelmind OS, an x86_64 multicore kernel in Rust with the host program that builds
  its disk image and two user programs.

  \<^bold>\<open>The program.\<close>  The host program (bootimage/src/main.rs) compiles the kernel and the user programs, packs
  the programs and a picture into a ram disk and starts QEMU.  The bootloader hands over a \<open>BootInfo\<close>; the
  bootstrap processor runs \<open>kernel_main\<close> (kernel/src/main.rs), which installs exception handlers,
  logging, the terminal on the frame buffer, the local APIC with its timer and the core-local data, and
  wakes the application processors (kernel/src/smp.rs).  All cores then run \<open>main\<close> of
  kernel/src/common_main.rs: they load and run a user program in its own address space, test their
  timers, and print into their own windows of a double buffer that core 0 copies to the screen.

  \<^bold>\<open>Conventions.\<close>  \<open>Prelude\<close> has the result type: a panic is a value \<open>Inl\<close>, and so is undefined behaviour of
  an \<open>unsafe\<close> block, so a proof that an operation returns shows that neither happens.  Arithmetic that
  the build checks (the profile opt-dev inherits the overflow checks of dev) is written with checked
  operations; words are used where the code works on bits or wraps.  A loop that waits for hardware or
  for another core is a \<open>partial_function (option)\<close> in which \<open>None\<close> means that it never ends; liveness
  properties show \<open>Some\<close>.  No fuel is used anywhere.  Crates are records of functions (\<open>x86\<close>, \<open>paging\<close>, \<open>bitfield\<close>,
  \<open>acpi_lib\<close>, \<open>elf_lib\<close>, \<open>heap_lib\<close>, \<open>locked_heap\<close>, \<open>gdt_lib\<close>, \<open>hasher\<close>, \<open>font\<close>) with their documented laws as predicates
  (\<open>x86_ok\<close>, \<open>paging_ok\<close> and so on); each has a concrete instance that satisfies the laws, and every
  witness uses it.  Devices are records of port and memory-mapped accesses (\<open>ports\<close>, \<open>hw\<close>) over an
  abstract state of the machine.  Other cores and interrupts enter as readings of shared variables, as
  arrivals between the rounds of a loop, or, for the start and the barriers of the cores, as step relations of all of them.

  \<^bold>\<open>Theories and sources.\<close>
  \<^item> \<open>Prelude\<close>, \<open>X86_Lib\<close>, \<open>Bitfield\<close>, \<open>Ports\<close>: shared vocabulary, the boot information, address arithmetic, devices.
  \<^item> \<open>Constants\<close>: constants.rs, the layout of virtual memory.  The kernel's range is what the shared
    top-level slots translate, the user's range what slot 0 translates; \<open>build_addr\<close> and \<open>print_addr\<close> are inverse.
  \<^item> \<open>Frame_Source\<close>, \<open>Frame_Allocator\<close>: the physical frame allocator of memory.rs, an intrusive linked list in the
    free frames.  The locale \<open>frame_source\<close> is the contract of an allocator; its interpretation \<open>fa\<close> on the list
    gives exclusiveness of frames under every sequence of operations and the refinement of a stack of frames.
  \<^item> \<open>Paging\<close>, \<open>Memory\<close>: page tables and the struct \<open>Memory\<close> of memory.rs; the invariant \<open>mem_inv\<close> and that every
    operation keeps it; isolation of address spaces, sharing of the kernel's half, map and unmap.
  \<^item> \<open>Ram_Mapper\<close>, \<open>Heap\<close>, \<open>Smp_Stacks\<close>, \<open>User_Memory\<close>: the users of the memory manager.  The locale \<open>ram_mapper\<close> is
    the contract of mapping fresh memory, interpreted for kernel and user pages; \<open>heap_area\<close> extends it for the
    growth of the two heaps of allocator.rs; the stacks of the cores (smp.rs); bytes seen through the active table.
  \<^item> \<open>Locked_Heap\<close>: allocation from the two heaps of allocator.rs.  The locale \<open>pooled_heap\<close> extends \<open>heap_area\<close>; its
    interpretations for the kernel and for programs give that blocks are mapped, apart and keep their bytes.
  \<^item> \<open>Utf8\<close>, \<open>User_Functions\<close>: the functions that loader.rs offers to programs and their callers in
    user_app/src/os_functions.rs.  A program's heap stays contiguous and mapped and its blocks apart; a text that it
    prints is encoded into its buffer, decoded by the kernel and shown unchanged.
  \<^item> \<open>Loader\<close>, \<open>App_Switch\<close>, \<open>App_Test\<close>: loader.rs.  Preparation of a program (segments, protection, guarded stack),
    the inline assembly that switches stacks and comes back on return and on abort, and the kernel's
    application test with the program user_app/src/test.rs, from the bytes of the ram disk to the exit codes (and user_app/src/main.rs).
  \<^item> \<open>Mem_Test\<close>: the kernel's test of address spaces, tests/mem_test.rs, which passes on every memory with ten free frames.
  \<^item> \<open>Graphics\<close>, \<open>Surface\<close>, \<open>Terminal\<close>, \<open>Terminal_Text\<close>, \<open>Screen\<close>: terminal_out.rs.  Windows and colours, the locale
    \<open>pixel_surface\<close> for everything that draws, characters, strings and pictures inside a window, the
    double buffer, and what reaches the screen after a panic.
  \<^item> \<open>Serial\<close>, \<open>Serial_Registers\<close>, \<open>Pit\<close>, \<open>Apic\<close>, \<open>Apic_Timer\<close>, \<open>Acpi\<close>, \<open>Core_Local\<close>: serial.rs, pit.rs, apic.rs, acpi.rs and the core-local
    data of smp.rs: registers and words written, ends of polling loops, calibration and timer interrupts.
  \<^item> \<open>Smp\<close>, \<open>Smp_Protocol\<close>: the start of the application processors, as a sequential program with the
    trampoline (smp_trampoline/ap.asm), and as an interleaving of all cores with its invariant.
  \<^item> \<open>Core_Phases\<close>: what the cores do after the start, as an interleaving: the calls of \<open>main\<close> in common_main.rs between the two
    barriers (\<open>sync_cores_barrier\<close>, \<open>barrier!\<close>) and the waits for core 0.  A general lemma on a group of threads at a reusable
    barrier gives the invariant; no core is left behind, and what the barriers are there for holds.
  \<^item> \<open>Core_Text\<close>: the texts of the application processors in their windows and the echo of the serial port, common_main.rs.
  \<^item> \<open>Logging\<close>, \<open>Panic\<close>, \<open>Interrupts\<close>, \<open>Segments\<close>, \<open>Boot\<close>, \<open>Common_Main\<close>: logging.rs, the panic handler, the bootloader configuration and the boot
    sequence of main.rs, interrupts.rs with the segment tables and double-fault stacks of all cores, and common_main.rs with the timer test, the picture and the frames.
  \<^item> \<open>Ram_Disk\<close>, \<open>Host_Main\<close>, \<open>Testing\<close>: the image builder and the reader ram_disk.rs as a round trip; the host
    program with its commands, files and verdict; the test runner tester.rs up to the host's verdict.

  \<^bold>\<open>Not modelled.\<close>  Functions that only print what others computed (\<open>log_page_table_info\<close>, \<open>log_heap_stats\<close>); macros
  that only forward to functions (macros.rs, except the assertions and the barrier); \<open>allocator_fail_test\<close>, which
  nothing calls; the locks of the crate spin, which appear where the code tests or waits for them, and its barrier,
  which is a parameter of \<open>Core_Phases\<close>; the buddy allocator; build scripts.  Formatting of arguments is done for the strings that the code prints.
\<close>

end
